(* ===== verification/Prelude.thy ===== *)
theory Prelude
  imports Main "HOL-Library.Word" "HOL-Library.AList" "HOL-Library.Char_ord" "HOL-Library.List_Lexorder"
begin

text \<open>
  Shared vocabulary of the development: the machine types of the C++ code, its exceptions as
  values, the standard containers it uses, and the generic lemmas the components share.

  \<^item> \<open>std::string\<close> and \<open>std::string_view\<close> are byte strings: \<open>string\<close> (a list of \<open>char\<close>, one per
    byte). Buffers of \<open>std::byte\<close> are lists of 8-bit words.
  \<^item> \<open>size_t\<close> and \<open>uint64_t\<close> are \<open>64 word\<close> where their wrap-around can be observed and \<open>nat\<close> where
    the code only counts elements it holds in memory.
  \<^item> \<open>std::unordered_map\<close> is an association list with distinct keys (\<open>umap\<close>): the list order stands
    for the unspecified iteration order, \<open>map_of\<close> is the lookup. \<open>std::map\<close> over strings is an
    association list sorted by key.
\<close>

type_synonym byte = "8 word"
type_synonym u32 = "32 word"
type_synonym u64 = "64 word"
type_synonym i64 = "64 word"
type_synonym ms = int

text \<open>Proof collections: facts that unfold state updates, and invariants kept by operations.\<close>

named_theorems umap_simps "lookup after an update of a hash map"
named_theorems keeps "operations that keep an invariant"

subsection \<open>Exceptions\<close>

text \<open>
  The exceptions the code throws or lets pass. \<open>Undefined\<close> stands for undefined behaviour (a read
  past the end of a buffer): no handler of the code catches it.
\<close>

datatype exn =
    Invalid_argument string
  | Out_of_range string
  | Runtime_error string
  | Length_error string
  | Undefined string

type_synonym 'a result = "exn + 'a"

fun is_std_exception :: "exn \<Rightarrow> bool" where
  "is_std_exception (Undefined _) = False"
| "is_std_exception _ = True"

fun is_runtime_error :: "exn \<Rightarrow> bool" where
  "is_runtime_error (Runtime_error _) = True"
| "is_runtime_error _ = False"

fun is_invalid_argument :: "exn \<Rightarrow> bool" where
  "is_invalid_argument (Invalid_argument _) = True"
| "is_invalid_argument _ = False"

fun bind_result :: "'a result \<Rightarrow> ('a \<Rightarrow> 'b result) \<Rightarrow> 'b result" where
  "bind_result (Inl e) f = Inl e"
| "bind_result (Inr x) f = f x"

lemma bind_result_Inr_iff:
  "bind_result r f = Inr y \<longleftrightarrow> (\<exists>x. r = Inr x \<and> f x = Inr y)"
  by (cases r) auto

lemma bind_result_Inl_iff:
  "bind_result r f = Inl e \<longleftrightarrow> r = Inl e \<or> (\<exists>x. r = Inr x \<and> f x = Inl e)"
  by (cases r) auto

subsection \<open>Hash maps\<close>

type_synonym ('k, 'v) umap = "('k \<times> 'v) list"

abbreviation um_wf :: "('k, 'v) umap \<Rightarrow> bool" where
  "um_wf m \<equiv> distinct (map fst m)"

text \<open>\<open>operator[]\<close> followed by an assignment, and \<open>insert_or_assign\<close>.\<close>

abbreviation um_assign :: "'k \<Rightarrow> 'v \<Rightarrow> ('k, 'v) umap \<Rightarrow> ('k, 'v) umap" where
  "um_assign \<equiv> AList.update"

text \<open>\<open>erase\<close> by key.\<close>

abbreviation um_erase :: "'k \<Rightarrow> ('k, 'v) umap \<Rightarrow> ('k, 'v) umap" where
  "um_erase \<equiv> AList.delete"

text \<open>\<open>emplace\<close> / \<open>try_emplace\<close> / \<open>insert\<close>: an existing entry is kept.\<close>

definition um_emplace :: "'k \<Rightarrow> 'v \<Rightarrow> ('k, 'v) umap \<Rightarrow> ('k, 'v) umap" where
  "um_emplace k v m = (if map_of m k = None then m @ [(k, v)] else m)"

lemmas map_of_um_assign [umap_simps] = update_conv'
lemmas map_of_um_erase [umap_simps] = delete_conv'

lemma map_of_um_emplace [umap_simps]:
  "map_of (um_emplace k v m) = (case map_of m k of None \<Rightarrow> (map_of m)(k \<mapsto> v) | Some _ \<Rightarrow> map_of m)"
  by (auto simp: um_emplace_def map_add_def fun_eq_iff split: option.splits)

lemma um_wf_emplace [keeps]: "um_wf m \<Longrightarrow> um_wf (um_emplace k v m)"
  by (auto simp: um_emplace_def map_of_eq_None_iff)

lemmas um_wf_assign [keeps] = distinct_update
lemmas um_wf_erase [keeps] = distinct_delete

lemma um_wf_filter [keeps]: "um_wf m \<Longrightarrow> um_wf (filter P m)"
  by (simp add: distinct_map_filter)

lemma um_Nil_iff: "m = [] \<longleftrightarrow> map_of m = Map.empty"
  by (cases m) (auto simp: fun_eq_iff split: if_splits)

lemma um_wf_map_of_iff: "um_wf m \<Longrightarrow> map_of m k = Some v \<longleftrightarrow> (k, v) \<in> set m"
  by (rule map_of_eq_Some_iff)

lemma map_of_filter_um:
  assumes "um_wf m"
  shows "map_of (filter P m) k
    = (case map_of m k of None \<Rightarrow> None | Some v \<Rightarrow> if P (k, v) then Some v else None)"
proof (cases "map_of m k")
  case None
  then have "map_of (filter P m) k = None"
    by (auto simp: map_of_eq_None_iff)
  with None show ?thesis by simp
next
  case (Some v)
  with assms have "(k, v) \<in> set m"
    by (simp add: um_wf_map_of_iff)
  with assms Some show ?thesis
    by (auto simp: um_wf_map_of_iff um_wf_filter map_of_eq_None_iff
        dest: eq_key_imp_eq_value split: option.splits)
qed

subsection \<open>Sizes as 64-bit words\<close>

lemma u64_of_nat_less: "a < 2 ^ 64 \<Longrightarrow> b < 2 ^ 64 \<Longrightarrow> (of_nat a :: u64) < of_nat b \<longleftrightarrow> a < b"
  by (simp add: of_nat_word_less_iff take_bit_nat_eq_self)

lemma u64_of_nat_le: "a < 2 ^ 64 \<Longrightarrow> b < 2 ^ 64 \<Longrightarrow> (of_nat a :: u64) \<le> of_nat b \<longleftrightarrow> a \<le> b"
  by (simp add: of_nat_word_less_eq_iff take_bit_nat_eq_self)

lemma u64_of_nat_eq: "a < 2 ^ 64 \<Longrightarrow> b < 2 ^ 64 \<Longrightarrow> (of_nat a :: u64) = of_nat b \<longleftrightarrow> a = b"
  by (simp add: word_of_nat_eq_iff take_bit_nat_eq_self)

lemma u64_unat_of_nat: "a < 2 ^ 64 \<Longrightarrow> unat (of_nat a :: u64) = a"
  by (simp add: unat_of_nat take_bit_nat_eq_self)

lemma u64_unat_add:
  "unat a + unat b < 2 ^ 64 \<Longrightarrow> unat (a + b :: u64) = unat a + unat b"
  by (simp add: unat_word_ariths)

lemma u64_unat_bound: "unat (a :: u64) < 2 ^ 64"
  using unsigned_less [of a] by simp

subsection \<open>Runs of a stateful operation\<close>

text \<open>
  \<open>run_outputs\<close> feeds a list of events to an operation and pairs each event with what the
  operation answered; \<open>run_state\<close> is the state it leaves.
\<close>

fun run_outputs :: "('s \<Rightarrow> 'e \<Rightarrow> 's \<times> 'o) \<Rightarrow> 's \<Rightarrow> 'e list \<Rightarrow> ('e \<times> 'o) list" where
  "run_outputs step s [] = []"
| "run_outputs step s (e # es) = (e, snd (step s e)) # run_outputs step (fst (step s e)) es"

fun run_state :: "('s \<Rightarrow> 'e \<Rightarrow> 's \<times> 'o) \<Rightarrow> 's \<Rightarrow> 'e list \<Rightarrow> 's" where
  "run_state step s [] = s"
| "run_state step s (e # es) = run_state step (fst (step s e)) es"

lemma run_outputs_append:
  "run_outputs step s (xs @ ys) = run_outputs step s xs @ run_outputs step (run_state step s xs) ys"
  by (induction xs arbitrary: s) auto

lemma run_state_append: "run_state step s (xs @ ys) = run_state step (run_state step s xs) ys"
  by (induction xs arbitrary: s) auto

lemma run_state_invariant:
  assumes "\<And>s e. I s \<Longrightarrow> I (fst (step s e))" and "I s"
  shows "I (run_state step s es)"
  using assms(2) by (induction es arbitrary: s) (auto intro: assms(1))

text \<open>
  The interface of an operation whose state is a family of independent slots, one per key: the
  step for an event reads and writes the slot of that event's key only, and answers as the
  \<open>local\<close> step on that slot does.
\<close>

locale keyed_steps =
  fixes step :: "'s \<Rightarrow> 'e \<Rightarrow> 's \<times> 'o"
    and key :: "'e \<Rightarrow> 'k"
    and slot :: "'s \<Rightarrow> 'k \<Rightarrow> 'v"
    and slot_step :: "'v \<Rightarrow> 'e \<Rightarrow> 'v \<times> 'o"
    and invar :: "'s \<Rightarrow> bool"
  assumes step_invar: "invar s \<Longrightarrow> invar (fst (step s e))"
    and step_slot: "invar s \<Longrightarrow> slot (fst (step s e)) (key e) = fst (slot_step (slot s (key e)) e)"
    and step_out: "invar s \<Longrightarrow> snd (step s e) = snd (slot_step (slot s (key e)) e)"
    and step_frame: "invar s \<Longrightarrow> k \<noteq> key e \<Longrightarrow> slot (fst (step s e)) k = slot s k"
begin

lemma run_invar: "invar s \<Longrightarrow> invar (run_state step s es)"
  by (rule run_state_invariant) (rule step_invar)

lemma run_outputs_of_key:
  "invar s \<Longrightarrow>
    filter (\<lambda>eo. key (fst eo) = k) (run_outputs step s es)
      = run_outputs slot_step (slot s k) (filter (\<lambda>e. key e = k) es)"
  by (induction es arbitrary: s) (auto simp: step_slot step_out step_frame step_invar)

lemma run_state_of_key:
  "invar s \<Longrightarrow> slot (run_state step s es) k = run_state slot_step (slot s k) (filter (\<lambda>e. key e = k) es)"
  by (induction es arbitrary: s) (auto simp: step_slot step_frame step_invar)

end

end
