(* ===== verification/Chunked.thy ===== *)
theory Chunked
  imports Prelude
begin

text \<open>
  The message channel between the PHP workers and the coordinator process
  (\<open>coordinator/ChunkedMessageProcessor.h\<close>, \<open>.cpp\<close>): a serialized command is cut into chunks that
  fit one slot of the message queue, and reassembled per sender process and message id.

  \<open>send_loop\<close> and \<open>sendPayload\<close> are the sending side; \<open>addNextChunk\<close>, \<open>processReceivedChunk\<close> and
  \<open>cleanupAbandonedMessages\<close> the receiving side. \<open>chunk_step\<close> is the abstract specification of the
  receiver for one (process, message) pair; \<open>rx\<close> interprets \<open>keyed_steps\<close> on the code's
  receiver, which is the refinement of one by the other.
\<close>

subsection \<open>Data\<close>

type_synonym pid = int

record CoordinatorPayload =
  senderProcessId :: pid
  msgId :: u64
  payloadTotalSize :: u64
  payloadOffset :: u64
  payload :: "byte list"

text \<open>\<open>sizeof(CoordinatorPayload::payload)\<close> and \<open>offsetof(CoordinatorPayload, payload)\<close>.\<close>

definition payload_capacity :: nat where
  "payload_capacity = 4064"

definition header_size :: nat where
  "header_size = 32"

definition well_formed_chunk :: "CoordinatorPayload \<Rightarrow> bool" where
  "well_formed_chunk c \<longleftrightarrow> length (payload c) = payload_capacity"

record ChunkedMessage =
  totalSize :: u64
  msg_data :: "byte list"
  lastUpdated :: int

text \<open>The constructor: \<open>reserve\<close> throws above \<open>max_size()\<close>; the clock value starts at the epoch.\<close>

definition vector_max_size :: nat where
  "vector_max_size = 2 ^ 63 - 1"

definition new_message :: "u64 \<Rightarrow> ChunkedMessage result" where
  "new_message sz =
     (if unat sz > vector_max_size then Inl (Length_error ''vector::reserve'')
      else Inr \<lparr>totalSize = sz, msg_data = [], lastUpdated = 0\<rparr>)"

record ChunkedMessageProcessor =
  ownProcessId :: pid
  lastMsgId :: u64
  recievedMessages :: "(pid, (u64, ChunkedMessage) umap) umap"

definition new_processor :: "pid \<Rightarrow> ChunkedMessageProcessor" where
  "new_processor pid = \<lparr>ownProcessId = pid, lastMsgId = 0, recievedMessages = []\<rparr>"

subsection \<open>Sending\<close>

text \<open>
  The loop of \<open>sendPayload\<close>. \<open>off\<close> is \<open>chunk.payloadOffset\<close>, kept as a number because it never
  passes \<open>payload.size()\<close>. \<open>sendBuffer\<close> is the callback the processor was given: from the state
  of its world, the chunk and the number of bytes of it to send, to the next state and its answer.
  The chunk's array is reused: past the copied bytes it holds what the previous round left.
\<close>

function send_loop ::
  "('q \<Rightarrow> CoordinatorPayload \<Rightarrow> u64 \<Rightarrow> 'q \<times> bool) \<Rightarrow> 'q \<Rightarrow> CoordinatorPayload \<Rightarrow> byte list \<Rightarrow> nat
    \<Rightarrow> 'q \<times> bool" where
  "send_loop sendBuffer q chunk bytes off =
     (if off < length bytes then
        let chunkSize = min payload_capacity (length bytes - off);
            chunk' = chunk\<lparr>payloadOffset := of_nat off,
                           payload := take chunkSize (drop off bytes) @ drop chunkSize (payload chunk)\<rparr>;
            (q', sent) = sendBuffer q chunk' (of_nat (chunkSize + header_size))
        in if \<not> sent then (q', False)
           else send_loop sendBuffer q' chunk' bytes (off + chunkSize)
      else (q, True))"
  by pat_completeness auto
termination
  by (relation "measure (\<lambda>(_, _, _, bytes, off). length bytes - off)")
     (auto simp: payload_capacity_def)

declare send_loop.simps [simp del]

text \<open>
  \<open>sendPayload\<close>: a new message id for every call, whatever becomes of the message. \<open>arr\<close> is what
  the uninitialised array of the local \<open>chunk\<close> holds.
\<close>

definition sendPayload ::
  "('q \<Rightarrow> CoordinatorPayload \<Rightarrow> u64 \<Rightarrow> 'q \<times> bool) \<Rightarrow> byte list \<Rightarrow> 'q \<Rightarrow> ChunkedMessageProcessor
    \<Rightarrow> byte list \<Rightarrow> ChunkedMessageProcessor \<times> 'q \<times> bool" where
  "sendPayload sendBuffer arr q p bytes =
     (let p' = p\<lparr>lastMsgId := lastMsgId p + 1\<rparr>;
          chunk = \<lparr>senderProcessId = ownProcessId p', msgId = lastMsgId p',
                   payloadTotalSize = of_nat (length bytes), payloadOffset = 0, payload = arr\<rparr>
      in (p', send_loop sendBuffer q chunk bytes 0))"

subsection \<open>Receiving\<close>

text \<open>
  \<open>addNextChunk\<close>: the chunk data is a span of \<open>sz\<close> bytes that starts at the array \<open>arr\<close>; reading
  past the array is undefined. The answer says whether the message is complete.
\<close>

definition addNextChunk :: "ChunkedMessage \<Rightarrow> byte list \<Rightarrow> u64 \<Rightarrow> int \<Rightarrow> (ChunkedMessage \<times> bool) result" where
  "addNextChunk m arr sz now =
     (if of_nat (length (msg_data m)) + sz > totalSize m
      then Inl (Runtime_error ''ChunkedMessage: chunk exceeds total size'')
      else if unat sz > length arr then Inl (Undefined ''span past the payload array'')
      else let d = msg_data m @ take (unat sz) arr
           in Inr (m\<lparr>msg_data := d, lastUpdated := now\<rparr>, of_nat (length d) = totalSize m))"

text \<open>
  \<open>processReceivedChunk\<close>: the state it leaves, also when it throws, and either the exception or the
  completed message it hands to \<open>processMessage_\<close>. \<open>recievedMessages_[pid]\<close> inserts an empty map for
  a new sender; the constructor of \<open>ChunkedMessage\<close> reserves the total size the chunk announces,
  which \<open>std::vector\<close> refuses above its \<open>max_size\<close>; a message whose chunk is rejected stays.
\<close>

definition processReceivedChunk ::
  "ChunkedMessageProcessor \<Rightarrow> CoordinatorPayload \<Rightarrow> u64 \<Rightarrow> int
    \<Rightarrow> ChunkedMessageProcessor \<times> (byte list option) result" where
  "processReceivedChunk p chunk chunkSize now =
     (let found = (case map_of (recievedMessages p) (senderProcessId chunk) of None \<Rightarrow> [] | Some ms \<Rightarrow> ms);
          store = (\<lambda>ms. p\<lparr>recievedMessages := um_assign (senderProcessId chunk) ms (recievedMessages p)\<rparr>)
      in case (case map_of found (msgId chunk) of
                 Some m \<Rightarrow> Inr (found, m)
               | None \<Rightarrow>
                   bind_result (new_message (payloadTotalSize chunk))
                     (\<lambda>m. Inr (um_emplace (msgId chunk) m found, m))) of
        Inl e \<Rightarrow> (store found, Inl e)
      | Inr (messagesForSender, message) \<Rightarrow>
         (let payloadSize = chunkSize - of_nat header_size
          in if of_nat (length (msg_data message)) \<noteq> payloadOffset chunk
             then (store messagesForSender,
                   Inl (Runtime_error ''ChunkedMessageProcessor: received chunk with unexpected offset''))
             else if payloadOffset chunk + payloadSize > payloadTotalSize chunk
             then (store messagesForSender,
                   Inl (Runtime_error ''ChunkedMessageProcessor: received chunk exceeds total payload size''))
             else case addNextChunk message (payload chunk) payloadSize now of
               Inl e \<Rightarrow> (store messagesForSender, Inl e)
             | Inr (message', complete) \<Rightarrow>
                 (if complete then
                    let rest = um_erase (msgId chunk) messagesForSender
                    in (if rest = []
                        then p\<lparr>recievedMessages := um_erase (senderProcessId chunk) (recievedMessages p)\<rparr>
                        else store rest,
                        Inr (Some (msg_data message')))
                  else (store (um_assign (msgId chunk) message' messagesForSender), Inr None))))"

text \<open>\<open>cleanupAbandonedMessages\<close>: the loop over one sender's messages, then the loop over the senders.\<close>

fun cleanup_messages :: "int \<Rightarrow> int \<Rightarrow> (u64, ChunkedMessage) umap \<Rightarrow> (u64, ChunkedMessage) umap" where
  "cleanup_messages now maxAge [] = []"
| "cleanup_messages now maxAge ((i, m) # ms) =
     (if now - lastUpdated m > maxAge then cleanup_messages now maxAge ms
      else (i, m) # cleanup_messages now maxAge ms)"

fun cleanup_senders ::
  "int \<Rightarrow> int \<Rightarrow> (pid, (u64, ChunkedMessage) umap) umap \<Rightarrow> (pid, (u64, ChunkedMessage) umap) umap" where
  "cleanup_senders now maxAge [] = []"
| "cleanup_senders now maxAge ((pid, ms) # rest) =
     (let ms' = cleanup_messages now maxAge ms
      in if ms' = [] then cleanup_senders now maxAge rest
         else (pid, ms') # cleanup_senders now maxAge rest)"

definition cleanupAbandonedMessages :: "ChunkedMessageProcessor \<Rightarrow> int \<Rightarrow> int \<Rightarrow> ChunkedMessageProcessor" where
  "cleanupAbandonedMessages p now maxAge =
     p\<lparr>recievedMessages := cleanup_senders now maxAge (recievedMessages p)\<rparr>"

subsection \<open>The receiver as independent slots\<close>

definition msg_slot :: "ChunkedMessageProcessor \<Rightarrow> pid \<times> u64 \<Rightarrow> ChunkedMessage option" where
  "msg_slot p k = (case map_of (recievedMessages p) (fst k) of None \<Rightarrow> None | Some ms \<Rightarrow> map_of ms (snd k))"

type_synonym rx_event = "CoordinatorPayload \<times> u64 \<times> int"

definition rx_step :: "ChunkedMessageProcessor \<Rightarrow> rx_event \<Rightarrow> ChunkedMessageProcessor \<times> (byte list option) result" where
  "rx_step p e = (case e of (c, sz, now) \<Rightarrow> processReceivedChunk p c sz now)"

definition rx_key :: "rx_event \<Rightarrow> pid \<times> u64" where
  "rx_key e = (senderProcessId (fst e), msgId (fst e))"

definition chunk_step :: "ChunkedMessage option \<Rightarrow> rx_event \<Rightarrow> ChunkedMessage option \<times> (byte list option) result" where
  "chunk_step slot e =
     (let (c, sz, now) = e
      in case (case slot of None \<Rightarrow> new_message (payloadTotalSize c) | Some m \<Rightarrow> Inr m) of
        Inl x \<Rightarrow> (None, Inl x)
      | Inr m \<Rightarrow>
         (let payloadSize = sz - of_nat header_size
          in if of_nat (length (msg_data m)) \<noteq> payloadOffset c
             then (Some m, Inl (Runtime_error ''ChunkedMessageProcessor: received chunk with unexpected offset''))
             else if payloadOffset c + payloadSize > payloadTotalSize c
             then (Some m, Inl (Runtime_error ''ChunkedMessageProcessor: received chunk exceeds total payload size''))
             else case addNextChunk m (payload c) payloadSize now of
               Inl x \<Rightarrow> (Some m, Inl x)
             | Inr (m', complete) \<Rightarrow>
                 (if complete then (None, Inr (Some (msg_data m'))) else (Some m', Inr None))))"

definition rx_wf :: "ChunkedMessageProcessor \<Rightarrow> bool" where
  "rx_wf p \<longleftrightarrow> um_wf (recievedMessages p) \<and> (\<forall>(pid, ms) \<in> set (recievedMessages p). um_wf ms)"

lemma msg_slot_assign:
  "msg_slot (p\<lparr>recievedMessages := um_assign pid ms r\<rparr>) k
     = (if fst k = pid then map_of ms (snd k) else msg_slot (p\<lparr>recievedMessages := r\<rparr>) k)"
  by (simp add: msg_slot_def umap_simps)

lemma msg_slot_erase:
  "msg_slot (p\<lparr>recievedMessages := um_erase pid r\<rparr>) k
     = (if fst k = pid then None else msg_slot (p\<lparr>recievedMessages := r\<rparr>) k)"
  by (simp add: msg_slot_def umap_simps)

lemma processor_update_same [simp]: "p\<lparr>recievedMessages := recievedMessages p\<rparr> = p"
  by simp

lemma rx_wf_new: "rx_wf (new_processor pid)"
  by (simp add: rx_wf_def new_processor_def)

lemma set_um_assign: "set (um_assign k v m) \<subseteq> insert (k, v) (set m)"
  by (induction m) auto
lemma set_um_erase: "set (um_erase k m) \<subseteq> set m"
  by (induction m) auto

lemma rx_wf_assign:
  assumes "um_wf r" and "\<forall>(pid, ms) \<in> set r. um_wf ms " and "um_wf ms"
  shows "rx_wf (p\<lparr>recievedMessages := um_assign pid ms r\<rparr>)"
  using assms set_um_assign [of pid ms r] by (auto simp: rx_wf_def keeps)

lemma rx_wf_erase:
  assumes "um_wf r" and "\<forall>(pid, ms) \<in> set r. um_wf ms"
  shows "rx_wf (p\<lparr>recievedMessages := um_erase pid r\<rparr>)"
  using assms set_um_erase [of pid r] by (auto simp: rx_wf_def keeps)

lemma um_emplace_nonempty: "um_emplace k v m \<noteq> []"
  by (auto simp: um_emplace_def)

lemma rx_step_keyed:
  assumes wf: "rx_wf p"
  shows "rx_wf (fst (rx_step p e)) \<and>
         msg_slot (fst (rx_step p e)) (rx_key e) = fst (chunk_step (msg_slot p (rx_key e)) e) \<and>
         snd (rx_step p e) = snd (chunk_step (msg_slot p (rx_key e)) e) \<and>
         (\<forall>k. k \<noteq> rx_key e \<longrightarrow> msg_slot (fst (rx_step p e)) k = msg_slot p k)"
proof -
  obtain c sz now where e: "e = (c, sz, now)" by (cases e)
  define found where "found = (case map_of (recievedMessages p) (senderProcessId c) of None \<Rightarrow> [] | Some ms \<Rightarrow> ms)"
  have found: "um_wf found" "\<And>i. map_of found i = msg_slot p (senderProcessId c, i)"
    using wf by (auto simp: found_def rx_wf_def msg_slot_def dest!: map_of_SomeD split: option.splits)
  have wfs: "um_wf (recievedMessages p)" "\<forall>(pid, ms) \<in> set (recievedMessages p). um_wf ms"
    using wf by (auto simp: rx_wf_def)
  have erased: "None = msg_slot p (senderProcessId c, j)"
    if "(map_of found)(i := None) = (\<lambda>x. None)" "j \<noteq> i" for i j
    using fun_cong [OF that(1), of j] that(2) found(2) [of j] by simp
  show ?thesis
    unfolding rx_step_def rx_key_def e processReceivedChunk_def chunk_step_def Let_def found_def [symmetric] prod.case fst_conv
    by (auto simp: msg_slot_assign msg_slot_erase umap_simps found wfs rx_wf_assign rx_wf_erase keeps um_Nil_iff bind_result_Inr_iff bind_result_Inl_iff 
        intro: erased split: option.splits sum.splits if_splits prod.splits)
qed

interpretation rx: keyed_steps rx_step rx_key msg_slot chunk_step rx_wf
  using rx_step_keyed by unfold_locales blast+

subsection \<open>The chunks of a message\<close>

text \<open>
  What \<open>sendPayload\<close> puts on the queue when every send succeeds, and a sender that stops at the
  first failure.
\<close>

function wire_chunks :: "CoordinatorPayload \<Rightarrow> byte list \<Rightarrow> nat \<Rightarrow> (CoordinatorPayload \<times> u64) list" where
  "wire_chunks chunk bytes off =
     (if off < length bytes then
        let n = min payload_capacity (length bytes - off);
            c = chunk\<lparr>payloadOffset := of_nat off,
                      payload := take n (drop off bytes) @ drop n (payload chunk)\<rparr>
        in (c, of_nat (n + header_size)) # wire_chunks c bytes (off + n)
      else [])"
  by pat_completeness auto
termination
  by (relation "measure (\<lambda>(_, bytes, off). length bytes - off)") (auto simp: payload_capacity_def)

declare wire_chunks.simps [simp del]

fun send_all :: "('q \<Rightarrow> CoordinatorPayload \<Rightarrow> u64 \<Rightarrow> 'q \<times> bool) \<Rightarrow> 'q \<Rightarrow> (CoordinatorPayload \<times> u64) list \<Rightarrow> 'q \<times> bool" where
  "send_all sendBuffer q [] = (q, True)"
| "send_all sendBuffer q ((c, sz) # cs) =
     (let (q', sent) = sendBuffer q c sz in if sent then send_all sendBuffer q' cs else (q', False))"

lemma send_loop_wire: "send_loop sendBuffer q chunk bytes off = send_all sendBuffer q (wire_chunks chunk bytes off)"
proof (induction sendBuffer q chunk bytes off rule: send_loop.induct)
  case (1 sendBuffer q chunk bytes off)
  then show ?case
    by (subst send_loop.simps, subst wire_chunks.simps) (auto simp: Let_def split: prod.split)
qed

definition record_send :: "(CoordinatorPayload \<times> u64) list \<Rightarrow> CoordinatorPayload \<Rightarrow> u64 \<Rightarrow> (CoordinatorPayload \<times> u64) list \<times> bool" where
  "record_send q c sz = (q @ [(c, sz)], True)"

lemma send_all_record: "send_all record_send q cs = (q @ cs, True)"
  by (induction cs arbitrary: q) (auto simp: record_send_def)

definition holds_prefix :: "ChunkedMessage option \<Rightarrow> byte list \<Rightarrow> nat \<Rightarrow> bool" where
  "holds_prefix slot bytes off =
     (case slot of None \<Rightarrow> off = 0
      | Some m \<Rightarrow> totalSize m = of_nat (length bytes) \<and> msg_data m = take off bytes)"

lemma header_minus: "of_nat (n + header_size) - of_nat header_size = (of_nat n :: u64)"
  by simp

lemma chunk_step_wire:
  assumes n: "0 < n" "off + n \<le> length bytes" and len: "length bytes \<le> vector_max_size"
    and slot: "holds_prefix slot bytes off"
    and c: "payloadTotalSize c = of_nat (length bytes)" "payloadOffset c = of_nat off"
           "payload c = take n (drop off bytes) @ rest"
  shows "chunk_step slot (c, of_nat (n + header_size), now) =
     (if off + n = length bytes then (None, Inr (Some bytes))
      else (Some \<lparr>totalSize = of_nat (length bytes), msg_data = take (off + n) bytes, lastUpdated = now\<rparr>, Inr None))"
proof -
  have b: "length bytes < 2 ^ 64" "off < 2 ^ 64" "n < 2 ^ 64" "off + n < 2 ^ 64"
    using len n by (auto simp: vector_max_size_def)
  obtain m where m: "(case slot of None \<Rightarrow> new_message (payloadTotalSize c) | Some m \<Rightarrow> Inr m) = Inr m"
      "totalSize m = of_nat (length bytes)" "msg_data m = take off bytes"
    using slot c len b by (auto simp: holds_prefix_def new_message_def u64_unat_of_nat split: option.splits)
  have sum: "(of_nat off + of_nat n :: u64) \<le> of_nat (length bytes)"
    using u64_of_nat_le [of "off + n" "length bytes"] b n by simp
  have t: "take n (payload c) = take n (drop off bytes)" "n \<le> length (payload c)"
      "length (take off bytes) = off" "length (take (off + n) bytes) = off + n"
    using n by (auto simp: c)
  have add: "addNextChunk m (payload c) (of_nat n) now =
      Inr (m\<lparr>msg_data := take (off + n) bytes, lastUpdated := now\<rparr>, off + n = length bytes)"
    using sum n b u64_of_nat_eq [of "off + n" "length bytes"]
    by (simp add: addNextChunk_def m t(1,2) u64_unat_of_nat not_less Let_def)
       (use n in \<open>simp add: t(3,4) take_add [symmetric] c min_absorb2\<close>)
  have mm: "m\<lparr>msg_data := d, lastUpdated := now\<rparr> = \<lparr>totalSize = of_nat (length bytes), msg_data = d, lastUpdated = now\<rparr>" for d
    using m(2) by (cases m) simp
  have sum': "payloadOffset c + of_nat n \<le> payloadTotalSize c"
    using sum by (simp add: c)
  show ?thesis
    using n by (simp add: chunk_step_def Let_def header_minus m add t(3) sum' c(2) [symmetric] mm not_less del: of_nat_add)
qed

lemma run_chunks:
  assumes "length bytes \<le> vector_max_size" and "off < length bytes" and "holds_prefix slot bytes off"
    and "payloadTotalSize chunk = of_nat (length bytes)"
    and "map (\<lambda>(c, sz, now). (c, sz)) es = wire_chunks chunk bytes off"
  shows "map snd (run_outputs chunk_step slot es) = replicate (length es - 1) (Inr None) @ [Inr (Some bytes)]
    \<and> run_state chunk_step slot es = None"
  using assms
proof (induction chunk bytes off arbitrary: slot es rule: wire_chunks.induct)
  case (1 chunk bytes off)
  define n where "n = min payload_capacity (length bytes - off)"
  define c where "c = chunk\<lparr>payloadOffset := of_nat off, payload := take n (drop off bytes) @ drop n (payload chunk)\<rparr>"
  have n: "0 < n" "off + n \<le> length bytes"
    using 1(3) by (auto simp: n_def payload_capacity_def)
  from 1(6) 1(3) obtain now es' where es: "es = (c, of_nat (n + header_size), now) # es'"
    and es': "map (\<lambda>(c, sz, now). (c, sz)) es' = wire_chunks c bytes (off + n)"
    by (subst (asm) wire_chunks.simps) (auto simp: Let_def n_def c_def)
  have step: "chunk_step slot (c, of_nat (n + header_size), now) =
     (if off + n = length bytes then (None, Inr (Some bytes))
      else (Some \<lparr>totalSize = of_nat (length bytes), msg_data = take (off + n) bytes, lastUpdated = now\<rparr>, Inr None))"
    by (rule chunk_step_wire [OF n _ 1(4)]) (use 1(2,5) in \<open>auto simp: c_def\<close>)
  show ?case
  proof (cases "off + n = length bytes")
    case True
    then have "es' = []"
      using es' by (simp add: wire_chunks.simps)
    then show ?thesis
      using step True by (simp add: es)
  next
    case False
    then have lt: "off + n < length bytes" using n by simp
    then have ne: "es' \<noteq> []"
      using es' by (auto simp: wire_chunks.simps Let_def)
    have "holds_prefix (Some \<lparr>totalSize = of_nat (length bytes), msg_data = take (off + n) bytes, lastUpdated = now\<rparr>) bytes (off + n)"
      by (simp add: holds_prefix_def)
    note 1(1) [OF 1(3) n_def c_def 1(2) lt this _ es']
    moreover have "payloadTotalSize c = of_nat (length bytes)" using 1(5) by (simp add: c_def)
    ultimately show ?thesis
      using step False ne by (cases es') (auto simp: es)
  qed
qed

lemma sendPayload_record:
  "sendPayload record_send arr [] p bytes =
     (p\<lparr>lastMsgId := lastMsgId p + 1\<rparr>,
      wire_chunks \<lparr>senderProcessId = ownProcessId p, msgId = lastMsgId p + 1,
        payloadTotalSize = of_nat (length bytes), payloadOffset = 0, payload = arr\<rparr> bytes 0, True)"
  by (simp add: sendPayload_def send_loop_wire send_all_record)

lemma map_snd_filter_run_outputs:
  "filter (\<lambda>eo. P (fst eo)) xs = run_outputs f s ys \<Longrightarrow> map snd (filter (\<lambda>eo. P (fst eo)) xs) = map snd (run_outputs f s ys)"
  by simp

lemma chunks_delivered:
  assumes "rx_wf r" and "0 < length bytes" and "length bytes \<le> vector_max_size"
    and "sendPayload record_send arr [] p bytes = (p', wire, True)"
    and "msg_slot r (ownProcessId p, lastMsgId p') = None"
    and "map (\<lambda>(c, sz, now). (c, sz)) (filter (\<lambda>e. rx_key e = (ownProcessId p, lastMsgId p')) es) = wire"
  shows "map snd (filter (\<lambda>eo. rx_key (fst eo) = (ownProcessId p, lastMsgId p')) (run_outputs rx_step r es))
           = replicate (length wire - 1) (Inr None) @ [Inr (Some bytes)]
         \<and> msg_slot (run_state rx_step r es) (ownProcessId p, lastMsgId p') = None"
proof -
  let ?k = "(ownProcessId p, lastMsgId p')" and ?es = "filter (\<lambda>e. rx_key e = (ownProcessId p, lastMsgId p')) es"
  have "map snd (run_outputs chunk_step None ?es) = replicate (length ?es - 1) (Inr None) @ [Inr (Some bytes)]
      \<and> run_state chunk_step None ?es = None"
    by (rule run_chunks [of bytes 0 None "\<lparr>senderProcessId = ownProcessId p, msgId = lastMsgId p + 1,
        payloadTotalSize = of_nat (length bytes), payloadOffset = 0, payload = arr\<rparr>"])
       (use assms in \<open>auto simp: holds_prefix_def sendPayload_record\<close>)
  moreover have "length ?es = length wire"
    using assms(6) by (metis length_map)
  ultimately show ?thesis
    using assms(1,5) by (simp add: rx.run_outputs_of_key rx.run_state_of_key)
qed

text \<open>
  C14. A message that one \<open>sendPayload\<close> cuts into chunks is handed to \<open>processMessage_\<close> exactly
  once and byte for byte, however the chunks of other processes and messages are interleaved with
  its own and whenever they arrive: every chunk but the last is answered by waiting, the last by
  the whole message, and nothing of it is left behind. The receiver holds no part of a message
  with that process and message id beforehand.
\<close>

theorem delivered_exactly_once:
  assumes "rx_wf r" and "0 < length bytes" and "length bytes \<le> vector_max_size"
    and "sendPayload record_send arr [] p bytes = (p', wire, True)"
    and "msg_slot r (ownProcessId p, lastMsgId p') = None"
    and "map (\<lambda>(c, sz, now). (c, sz)) (filter (\<lambda>e. rx_key e = (ownProcessId p, lastMsgId p')) es) = wire"
  shows "map snd (filter (\<lambda>eo. rx_key (fst eo) = (ownProcessId p, lastMsgId p')) (run_outputs rx_step r es))
           = replicate (length wire - 1) (Inr None) @ [Inr (Some bytes)]
         \<and> msg_slot (run_state rx_step r es) (ownProcessId p, lastMsgId p') = None"
  using assms by (rule chunks_delivered)

lemma ceil_step:
  assumes "off < (n :: nat)"
  shows "Suc ((n + 4063 - (off + min 4064 (n - off))) div 4064) = (n + 4063 - off) div 4064"
proof (cases "n - off \<le> 4064")
  case True
  with assms have "n + 4063 - off = 4064 + (n - off - 1)" by simp
  then show ?thesis using True assms by simp
next
  case False
  then have "n + 4063 - off = 4064 + (n + 4063 - (off + 4064))" by simp
  then show ?thesis using False by (simp add: min_def)
qed

lemma wire_chunks_size:
  "length (wire_chunks chunk bytes off) = (length bytes - off + payload_capacity - 1) div payload_capacity"
proof (induction chunk bytes off rule: wire_chunks.induct)
  case (1 chunk bytes off)
  show ?case
  proof (cases "off < length bytes")
    case True
    with 1 [OF True refl refl] show ?thesis
      by (subst wire_chunks.simps) (auto simp: Let_def payload_capacity_def ceil_step add.commute)
  qed (simp add: wire_chunks.simps payload_capacity_def)
qed

lemma wire_chunks_fit:
  assumes "length (payload chunk) = payload_capacity"
  shows "\<forall>(c, sz) \<in> set (wire_chunks chunk bytes off).
    length (payload c) = payload_capacity \<and> header_size < unat sz \<and> unat sz \<le> header_size + payload_capacity"
  using assms
proof (induction chunk bytes off rule: wire_chunks.induct)
  case (1 chunk bytes off)
  show ?case
  proof (cases "off < length bytes")
    case True
    have u: "unat (of_nat (min payload_capacity (length bytes - off) + header_size) :: u64)
        = min payload_capacity (length bytes - off) + header_size"
      by (rule u64_unat_of_nat) (auto simp: payload_capacity_def header_size_def)
    show ?thesis
      using 1(1) [OF True refl refl] True 1(2) u
      by (subst wire_chunks.simps) (auto simp: Let_def min_def payload_capacity_def simp del: of_nat_add)
  qed (simp add: wire_chunks.simps)
qed

text \<open>
  \<open>sendPayload\<close> uses up one message id and offers the same chunks to every callback, one after
  the other up to the first it refuses, which is also its answer: as many chunks as the payload
  size divided by the capacity, rounded up (none for an empty payload), each a whole
  \<open>CoordinatorPayload\<close> of which more than the header and at most all of it is sent.
\<close>

theorem sendPayload_chunks:
  assumes "length arr = payload_capacity"
  shows "\<exists>wire. (\<forall>sendBuffer (q :: 'q). sendPayload sendBuffer arr q p bytes
                   = (p\<lparr>lastMsgId := lastMsgId p + 1\<rparr>, send_all sendBuffer q wire))
      \<and> length wire = (length bytes + payload_capacity - 1) div payload_capacity
      \<and> (\<forall>(c, sz) \<in> set wire. well_formed_chunk c \<and> header_size < unat sz \<and> unat sz \<le> header_size + payload_capacity)"
proof -
  let ?chunk = "\<lparr>senderProcessId = ownProcessId p, msgId = lastMsgId p + 1,
        payloadTotalSize = of_nat (length bytes), payloadOffset = 0, payload = arr\<rparr>"
  show ?thesis
    using wire_chunks_size [of ?chunk bytes 0] wire_chunks_fit [of ?chunk bytes 0] assms
    by (intro exI [of _ "wire_chunks ?chunk bytes 0"]) (auto simp: sendPayload_def send_loop_wire well_formed_chunk_def)
qed

subsection \<open>Bounds\<close>

definition slot_bounded :: "ChunkedMessage option \<Rightarrow> bool" where
  "slot_bounded slot = (case slot of None \<Rightarrow> True
     | Some m \<Rightarrow> length (msg_data m) \<le> unat (totalSize m) \<and> unat (totalSize m) \<le> vector_max_size)"

definition datagram_ok :: "rx_event \<Rightarrow> bool" where
  "datagram_ok e = (let (c, sz, now) = e
     in well_formed_chunk c \<and> header_size \<le> unat sz \<and> unat sz \<le> header_size + payload_capacity)"

lemma addNextChunk_bounded:
  assumes "slot_bounded (Some m)" and "unat sz \<le> payload_capacity" and "addNextChunk m arr sz now = Inr (m', b)"
  shows "slot_bounded (Some m')"
proof -
  have l: "length (msg_data m) < 2 ^ 64" "length (msg_data m) + unat sz < 2 ^ 64"
    using assms(1,2) by (auto simp: slot_bounded_def vector_max_size_def payload_capacity_def)
  have s: "of_nat (length (msg_data m)) + sz \<le> totalSize m" "unat sz \<le> length arr"
    and m': "msg_data m' = msg_data m @ take (unat sz) arr" "totalSize m' = totalSize m"
    using assms(3) by (auto simp: addNextChunk_def Let_def split: if_splits)
  have "length (msg_data m) + unat sz \<le> unat (totalSize m)"
    using s(1) l by (simp add: word_le_nat_alt u64_unat_add u64_unat_of_nat)
  then show ?thesis
    using assms(1) m' s(2) by (simp add: slot_bounded_def)
qed

lemma datagram_size:
  assumes "datagram_ok (c, sz, now)"
  shows "unat (sz - of_nat header_size) \<le> length (payload c)" "unat (sz - of_nat header_size) \<le> payload_capacity"
  using assms by (auto simp: datagram_ok_def well_formed_chunk_def unat_sub header_size_def payload_capacity_def word_le_nat_alt)

lemma addNextChunk_defined:
  "unat sz \<le> length arr \<Longrightarrow> addNextChunk m arr sz now \<noteq> Inl (Undefined w)"
  by (simp add: addNextChunk_def Let_def)

lemma new_message_bounded: "new_message sz = Inr m \<Longrightarrow> slot_bounded (Some m)"
  by (auto simp: new_message_def slot_bounded_def split: if_splits)

lemma chunk_step_bounded:
  assumes "slot_bounded slot" and "datagram_ok e"
  shows "slot_bounded (fst (chunk_step slot e)) \<and> snd (chunk_step slot e) \<noteq> Inl (Undefined w)"
proof -
  obtain c sz now where e: "e = (c, sz, now)" by (cases e)
  note sz = datagram_size [OF assms(2) [unfolded e]]
  have start: "slot_bounded (Some m)"
    if "(case slot of None \<Rightarrow> new_message (payloadTotalSize c) | Some m \<Rightarrow> Inr m) = Inr m" for m
    using that assms(1) by (auto intro: new_message_bounded split: option.splits)
  have len: "new_message (payloadTotalSize c) \<noteq> Inl (Undefined w)"
    by (simp add: new_message_def)
  show ?thesis
    unfolding e chunk_step_def Let_def prod.case
    using start len addNextChunk_bounded [OF start sz(2)] addNextChunk_defined [OF sz(1)]
    by (auto split: sum.split prod.split option.splits) (auto simp: slot_bounded_def)
qed

definition rx_bounded :: "ChunkedMessageProcessor \<Rightarrow> bool" where
  "rx_bounded p \<longleftrightarrow> rx_wf p \<and> (\<forall>k. slot_bounded (msg_slot p k))"

lemma rx_step_bounded:
  assumes "rx_bounded p" and "datagram_ok e"
  shows "rx_bounded (fst (rx_step p e)) \<and> snd (rx_step p e) \<noteq> Inl (Undefined w)"
proof -
  have wf: "rx_wf p" using assms(1) by (simp add: rx_bounded_def)
  have "slot_bounded (msg_slot (fst (rx_step p e)) k)" for k
    using assms chunk_step_bounded [of "msg_slot p k" e] rx.step_slot [OF wf, of e] rx.step_frame [OF wf, of k e]
    by (cases "k = rx_key e") (auto simp: rx_bounded_def simp del: split_paired_All)
  then show ?thesis
    using assms chunk_step_bounded [of "msg_slot p (rx_key e)" e w]
    by (auto simp del: split_paired_All simp: rx_bounded_def rx.step_invar [OF wf] rx.step_out [OF wf])
qed

text \<open>
  C29. Fed with datagrams of at least the header and at most one \<open>CoordinatorPayload\<close>, whatever their
  fields say, the receiver never reads past the payload array, and keeps no message with more data
  than its announced total size.
\<close>

theorem receiver_stays_in_bounds:
  assumes "rx_bounded p" and "\<forall>e \<in> set es. datagram_ok e"
  shows "rx_bounded (run_state rx_step p es)
    \<and> (\<forall>eo \<in> set (run_outputs rx_step p es). \<forall>w. snd eo \<noteq> Inl (Undefined w))"
  using assms
proof (induction es arbitrary: p)
  case (Cons e es)
  then have "rx_bounded (fst (rx_step p e))" "\<forall>w. snd (rx_step p e) \<noteq> Inl (Undefined w)"
    using rx_step_bounded [of p e] by auto
  with Cons.IH [of "fst (rx_step p e)"] Cons.prems(2) show ?case by simp
qed simp

text \<open>
  A datagram shorter than the header defeats the bounds checks: its payload size wraps around
  below zero, and \<open>payloadOffset + payloadSize\<close> wraps back below the total size, so that the data
  appended is a span of nearly \<open>2 ^ 64\<close> bytes.
\<close>

theorem short_datagram_reads_past_array:
  assumes "0 < d" and "d < 32" and "length arr = payload_capacity"
    and "c = \<lparr>senderProcessId = pid, msgId = i, payloadTotalSize = 100, payloadOffset = 32, payload = arr\<rparr>"
    and "msg_slot p (pid, i) = Some m" and "totalSize m = 100" and "length (msg_data m) = 32" and "rx_wf p"
  shows "snd (processReceivedChunk p c (of_nat d) now) = Inl (Undefined ''span past the payload array'')"
proof -
  have k: "rx_key (c, of_nat d, now) = (pid, i)" by (simp add: rx_key_def assms(4))
  have u: "unat (of_nat d - 32 :: u64) = 2 ^ 64 + d - 32"
  proof -
    have "of_nat d - 32 = (of_nat (2 ^ 64 + d - 32) :: u64)"
      using assms(1,2) by (simp add: of_nat_diff)
    moreover have "unat (of_nat (2 ^ 64 + d - 32) :: u64) = 2 ^ 64 + d - 32"
      by (rule u64_unat_of_nat) (use assms(2) in simp)
    ultimately show ?thesis by (simp only:)
  qed
  have s: "32 + (of_nat d - 32) = (of_nat d :: u64)" by simp
  have d: "of_nat d \<le> (100 :: u64)" using assms(2) u64_of_nat_le [of d 100] by simp
  have "snd (chunk_step (Some m) (c, of_nat d, now)) = Inl (Undefined ''span past the payload array'')"
    using assms(1,3,6,7) u d s
    by (simp add: chunk_step_def addNextChunk_def header_size_def payload_capacity_def assms(4) not_less)
  then show ?thesis
    using rx.step_out [OF assms(8), of "(c, of_nat d, now)"] assms(5) k by (simp add: rx_step_def)
qed

subsection \<open>Abandoned messages\<close>

lemma cleanup_messages_filter:
  "cleanup_messages now maxAge ms = filter (\<lambda>(i, m). \<not> now - lastUpdated m > maxAge) ms"
  by (induction now maxAge ms rule: cleanup_messages.induct) auto

lemma cleanup_senders_filter:
  "cleanup_senders now maxAge r
     = filter (\<lambda>(pid, ms). ms \<noteq> []) (map (\<lambda>(pid, ms). (pid, cleanup_messages now maxAge ms)) r)"
  by (induction r) (auto simp: Let_def)

lemma cleanup_senders_wf: "um_wf r \<Longrightarrow> um_wf (cleanup_senders now maxAge r)"
  unfolding cleanup_senders_filter
  by (rule um_wf_filter) (simp add: case_prod_unfold comp_def)

lemma cleanup_senders_elems:
  "(pid, ms') \<in> set (cleanup_senders now maxAge r) \<Longrightarrow>
     ms' \<noteq> [] \<and> (\<exists>ms. (pid, ms) \<in> set r \<and> ms' = cleanup_messages now maxAge ms)"
  by (auto simp: cleanup_senders_filter)

lemma map_of_cleanup_senders:
  "um_wf r \<Longrightarrow> map_of (cleanup_senders now maxAge r) pid =
     (case map_of r pid of None \<Rightarrow> None
      | Some ms \<Rightarrow> if cleanup_messages now maxAge ms = [] then None else Some (cleanup_messages now maxAge ms))"
proof (induction now maxAge r rule: cleanup_senders.induct)
  case (2 now maxAge p ms rest)
  then have "map_of rest p = None"
    by (simp add: map_of_eq_None_iff)
  with 2 show ?case by (auto simp: Let_def)
qed simp

text \<open>
  \<open>cleanupAbandonedMessages\<close> removes exactly the messages older than the given age, keeps the
  others as they were, leaves no sender without a message and keeps the state well formed.
\<close>

theorem cleanup_removes_expired:
  assumes "rx_wf p"
  shows "rx_wf (cleanupAbandonedMessages p now maxAge)
    \<and> (\<forall>k. msg_slot (cleanupAbandonedMessages p now maxAge) k =
         (case msg_slot p k of None \<Rightarrow> None
          | Some m \<Rightarrow> if now - lastUpdated m > maxAge then None else Some m))
    \<and> (\<forall>(pid, ms) \<in> set (recievedMessages (cleanupAbandonedMessages p now maxAge)). ms \<noteq> [])"
proof -
  have wf: "um_wf (recievedMessages p)" "(pid, ms) \<in> set (recievedMessages p) \<Longrightarrow> um_wf ms" for pid ms
    using assms by (auto simp: rx_wf_def)
  have slot: "msg_slot (cleanupAbandonedMessages p now maxAge) k =
         (case msg_slot p k of None \<Rightarrow> None
          | Some m \<Rightarrow> if now - lastUpdated m > maxAge then None else Some m)" for k
  proof (cases "map_of (recievedMessages p) (fst k)")
    case (Some ms)
    then have "um_wf ms" by (auto dest: map_of_SomeD wf(2))
    then have "map_of (cleanup_messages now maxAge ms) (snd k) =
         (case map_of ms (snd k) of None \<Rightarrow> None
          | Some m \<Rightarrow> if now - lastUpdated m > maxAge then None else Some m)"
      by (simp add: cleanup_messages_filter map_of_filter_um split: option.split)
    then show ?thesis
      using Some by (auto simp: msg_slot_def cleanupAbandonedMessages_def map_of_cleanup_senders wf(1) split: if_splits)
  qed (simp add: msg_slot_def cleanupAbandonedMessages_def map_of_cleanup_senders wf(1))
  have "rx_wf (cleanupAbandonedMessages p now maxAge)"
    using wf by (auto simp: rx_wf_def cleanupAbandonedMessages_def cleanup_senders_wf
        dest!: cleanup_senders_elems simp: cleanup_messages_filter um_wf_filter)
  with slot show ?thesis
    by (auto simp: cleanupAbandonedMessages_def dest: cleanup_senders_elems)
qed

subsection \<open>Workers that share a sender id\<close>

lemma wire_chunks_first:
  "off < length bytes \<Longrightarrow> wire_chunks chunk bytes off = (c, sz) # w \<Longrightarrow>
     c = chunk\<lparr>payloadOffset := of_nat off,
               payload := take (min payload_capacity (length bytes - off)) (drop off bytes)
                 @ drop (min payload_capacity (length bytes - off)) (payload chunk)\<rparr> \<and>
     sz = of_nat (min payload_capacity (length bytes - off) + header_size)"
  by (subst (asm) wire_chunks.simps) (auto simp: Let_def)

lemma sendPayload_first:
  assumes "sendPayload record_send arr [] p bytes = (p', (c, sz) # w, True)" and "0 < length bytes"
  shows "senderProcessId c = ownProcessId p" "msgId c = lastMsgId p + 1"
    "payloadTotalSize c = of_nat (length bytes)" "payloadOffset c = of_nat 0"
    "payload c = take (min payload_capacity (length bytes)) (drop 0 bytes) @ drop (min payload_capacity (length bytes)) arr"
    "sz = of_nat (min payload_capacity (length bytes) + header_size)"
  using wire_chunks_first [OF assms(2), of "\<lparr>senderProcessId = ownProcessId p, msgId = lastMsgId p + 1,
        payloadTotalSize = of_nat (length bytes), payloadOffset = 0, payload = arr\<rparr>" c sz w] assms(1)
  by (auto simp: sendPayload_record)

text \<open>
  Two workers forked from one process keep the processor they inherit: the same sender id and
  the same message counter. When the first chunk of a long message of one is followed by the first
  chunk of a message of the other, the receiver takes the second for a continuation of the first
  and rejects it.
\<close>

theorem forked_senders_collide:
  assumes "payload_capacity < length a" and "length a \<le> vector_max_size" and "0 < length b"
    and "sendPayload record_send arr [] p a = (p1, (c1, s1) # w1, True)"
    and "sendPayload record_send arr [] p b = (p2, (c2, s2) # w2, True)"
    and "rx_wf r" and "msg_slot r (ownProcessId p, lastMsgId p + 1) = None"
  shows "map snd (run_outputs rx_step r [(c1, s1, t1), (c2, s2, t2)])
    = [Inr None, Inl (Runtime_error ''ChunkedMessageProcessor: received chunk with unexpected offset'')]"
proof -
  let ?k = "(ownProcessId p, lastMsgId p + 1)"
  have len: "0 < length a" using assms(1) by linarith
  note c1 = sendPayload_first [OF assms(4) len] and c2 = sendPayload_first [OF assms(5,3)]
  have k: "rx_key (c1, s1, t1) = ?k" "rx_key (c2, s2, t2) = ?k"
    using c1(1,2) c2(1,2) by (auto simp: rx_key_def)
  have m: "min payload_capacity (length a) = payload_capacity" using assms(1) by simp
  let ?m = "\<lparr>totalSize = of_nat (length a), msg_data = take payload_capacity a, lastUpdated = t1\<rparr>"
  have s1: "chunk_step None (c1, s1, t1) = (Some ?m, Inr None)"
    using chunk_step_wire [OF _ _ assms(2) _ c1(3,4,5), of None t1] assms(1) len c1(6)
    by (simp add: m holds_prefix_def payload_capacity_def)
  have "min (length a) payload_capacity = payload_capacity" "of_nat payload_capacity \<noteq> (0 :: u64)"
    using assms(1) by (auto simp: payload_capacity_def)
  then have s2: "snd (chunk_step (Some ?m) (c2, s2, t2))
      = Inl (Runtime_error ''ChunkedMessageProcessor: received chunk with unexpected offset'')"
    by (simp add: chunk_step_def c2(4))
  show ?thesis
    using s1 s2 assms(7) k rx.step_out [OF assms(6)] rx.step_slot [OF assms(6), of "(c1, s1, t1)"]
      rx.step_out [OF rx.step_invar [OF assms(6)], of "(c1, s1, t1)" "(c2, s2, t2)"]
    by simp
qed

definition sample_chunk :: "CoordinatorPayload" where
  "sample_chunk = \<lparr>senderProcessId = 7, msgId = 1, payloadTotalSize = 3, payloadOffset = 0,
     payload = [1, 2, 3] @ replicate 4061 0\<rparr>"

lemma wire_chunks_sample:
  "wire_chunks \<lparr>senderProcessId = 7, msgId = 1, payloadTotalSize = 3, payloadOffset = 0,
     payload = replicate payload_capacity 0\<rparr> [1, 2, 3] 0 = [(sample_chunk, 35)]"
  by (subst wire_chunks.simps, subst wire_chunks.simps)
     (simp add: payload_capacity_def header_size_def sample_chunk_def Let_def)

lemma slot_new: "msg_slot (new_processor pid) k = None"
  by (simp add: msg_slot_def new_processor_def)

lemma delivered_exactly_once_witness:
  "map snd (filter (\<lambda>eo. rx_key (fst eo) = (7, 1))
     (run_outputs rx_step (new_processor 1)
       [(sample_chunk\<lparr>senderProcessId := 8\<rparr>, 35, 4), (sample_chunk, 35, 5)])) = [Inr (Some [1, 2, 3])]"
proof -
  let ?es = "[(sample_chunk\<lparr>senderProcessId := 8\<rparr>, 35, 4), (sample_chunk, 35, 5 :: int)]"
  have "sendPayload record_send (replicate payload_capacity 0) [] (new_processor 7) [1, 2, 3]
      = ((new_processor 7)\<lparr>lastMsgId := 1\<rparr>, [(sample_chunk, 35)], True)"
    by (simp add: sendPayload_record new_processor_def wire_chunks_sample)
  from delivered_exactly_once [OF rx_wf_new _ _ this, of 1 ?es] show ?thesis
    by (simp add: slot_new vector_max_size_def rx_key_def sample_chunk_def) (simp add: new_processor_def)
qed

lemma sendPayload_chunks_witness:
  "\<exists>wire. (\<forall>sendBuffer (q :: unit). sendPayload sendBuffer (replicate 4064 0) q (new_processor 7) (replicate 10000 1)
                   = ((new_processor 7)\<lparr>lastMsgId := 1\<rparr>, send_all sendBuffer q wire))
      \<and> length wire = 3"
  using sendPayload_chunks [where 'q = unit and arr = "replicate 4064 0" and p = "new_processor 7" and bytes = "replicate 10000 1"]
  by (auto simp: payload_capacity_def new_processor_def)

lemma rx_bounded_new: "rx_bounded (new_processor pid)"
  by (simp add: rx_bounded_def rx_wf_new slot_new slot_bounded_def)

lemma receiver_stays_in_bounds_witness:
  "rx_bounded (run_state rx_step (new_processor 1) [(sample_chunk, 35, 4), (sample_chunk, 35, 5)])"
  using receiver_stays_in_bounds [OF rx_bounded_new, of "[(sample_chunk, 35, 4), (sample_chunk, 35, 5)]" 1]
  by (simp add: datagram_ok_def well_formed_chunk_def sample_chunk_def payload_capacity_def header_size_def)

definition sample_message :: "ChunkedMessage" where
  "sample_message = \<lparr>totalSize = 100, msg_data = replicate 32 0, lastUpdated = 3\<rparr>"

definition sample_processor :: "ChunkedMessageProcessor" where
  "sample_processor = (new_processor 1)\<lparr>recievedMessages := [(7, [(1, sample_message)])]\<rparr>"

lemma short_datagram_witness:
  "snd (processReceivedChunk sample_processor
      \<lparr>senderProcessId = 7, msgId = 1, payloadTotalSize = 100, payloadOffset = 32, payload = replicate 4064 0\<rparr>
      (of_nat 4) 9) = Inl (Undefined ''span past the payload array'')"
  by (rule short_datagram_reads_past_array [where m = sample_message and pid = 7 and i = 1 and arr = "replicate 4064 0"])
     (simp_all add: sample_processor_def sample_message_def payload_capacity_def new_processor_def rx_wf_def msg_slot_def)

lemma cleanup_removes_expired_witness:
  "msg_slot (cleanupAbandonedMessages sample_processor 50 40) (7, 1) = None"
  using cleanup_removes_expired [of sample_processor 50 40]
  by (auto simp: sample_processor_def sample_message_def new_processor_def rx_wf_def msg_slot_def simp del: split_paired_All dest!: spec [of _ "(7, 1)"])

lemma forked_senders_collide_witness:
  "\<exists>c1 s1 w1 c2 s2 w2.
     sendPayload record_send (replicate 4064 0) [] (new_processor 7) (replicate 5000 1)
       = ((new_processor 7)\<lparr>lastMsgId := 1\<rparr>, (c1, s1) # w1, True) \<and>
     sendPayload record_send (replicate 4064 0) [] (new_processor 7) [2]
       = ((new_processor 7)\<lparr>lastMsgId := 1\<rparr>, (c2, s2) # w2, True) \<and>
     map snd (run_outputs rx_step (new_processor 1) [(c1, s1, 0), (c2, s2, 0)])
       = [Inr None, Inl (Runtime_error ''ChunkedMessageProcessor: received chunk with unexpected offset'')]"
proof -
  let ?c = "\<lparr>senderProcessId = 7, msgId = 1, payloadTotalSize = 5000, payloadOffset = 0, payload = replicate 4064 0\<rparr>"
  let ?d = "\<lparr>senderProcessId = 7, msgId = 1, payloadTotalSize = 1, payloadOffset = 0, payload = replicate 4064 0\<rparr>"
  have ne: "wire_chunks ?c (replicate 5000 1) 0 \<noteq> []" "wire_chunks ?d [2] 0 \<noteq> []"
    by (subst wire_chunks.simps; simp add: Let_def)+
  then obtain c1 s1 w1 c2 s2 w2 where 1: "wire_chunks ?c (replicate 5000 1) 0 = (c1, s1) # w1"
    and 2: "wire_chunks ?d [2] 0 = (c2, s2) # w2"
    by (metis list.exhaust surj_pair)
  have s: "sendPayload record_send (replicate 4064 0) [] (new_processor 7) (replicate 5000 1)
       = ((new_processor 7)\<lparr>lastMsgId := 1\<rparr>, (c1, s1) # w1, True)"
    "sendPayload record_send (replicate 4064 0) [] (new_processor 7) [2]
       = ((new_processor 7)\<lparr>lastMsgId := 1\<rparr>, (c2, s2) # w2, True)"
    using 1 2 by (simp_all add: sendPayload_record new_processor_def)
  have "map snd (run_outputs rx_step (new_processor 1) [(c1, s1, 0), (c2, s2, 0)])
       = [Inr None, Inl (Runtime_error ''ChunkedMessageProcessor: received chunk with unexpected offset'')]"
    by (rule forked_senders_collide [OF _ _ _ s])
       (simp_all add: payload_capacity_def vector_max_size_def rx_wf_new slot_new)
  then show ?thesis
    by (intro exI conjI) (rule s(1), rule s(2))
qed

end
