(* ===== verification/CxxStd.thy ===== *)
theory CxxStd
  imports Prelude
begin

text \<open>
  The parts of the C and C++ standard libraries the code calls on strings, in the \<open>"C"\<close> locale:
  character classes, \<open>toupper\<close> and \<open>tolower\<close>, searches that answer \<open>npos\<close> (\<open>None\<close> here), the conversions
  \<open>std::stoul\<close>, \<open>std::stoi\<close>, \<open>std::from_chars\<close> and \<open>std::to_string\<close>, splitting, and insertion
  into a \<open>std::map\<close> with string keys.
\<close>

subsection \<open>Characters\<close>

abbreviation byte_of :: "char \<Rightarrow> nat" where
  "byte_of c \<equiv> of_char c"

definition isspace :: "char \<Rightarrow> bool" where
  "isspace c \<longleftrightarrow> byte_of c = 32 \<or> (9 \<le> byte_of c \<and> byte_of c \<le> 13)"

definition isdigit :: "char \<Rightarrow> bool" where
  "isdigit c \<longleftrightarrow> 48 \<le> byte_of c \<and> byte_of c \<le> 57"

definition isalpha :: "char \<Rightarrow> bool" where
  "isalpha c \<longleftrightarrow> (65 \<le> byte_of c \<and> byte_of c \<le> 90) \<or> (97 \<le> byte_of c \<and> byte_of c \<le> 122)"

definition isxdigit :: "char \<Rightarrow> bool" where
  "isxdigit c \<longleftrightarrow> isdigit c \<or> (65 \<le> byte_of c \<and> byte_of c \<le> 70) \<or> (97 \<le> byte_of c \<and> byte_of c \<le> 102)"

definition toupper :: "char \<Rightarrow> char" where
  "toupper c = (if 97 \<le> byte_of c \<and> byte_of c \<le> 122 then char_of (byte_of c - 32) else c)"

definition tolower :: "char \<Rightarrow> char" where
  "tolower c = (if 65 \<le> byte_of c \<and> byte_of c \<le> 90 then char_of (byte_of c + 32) else c)"

lemma code_less_256 [simp]: "byte_of c < 256"
  by (rule nat_of_char_less_256)

lemma code_char_of: "n < 256 \<Longrightarrow> byte_of (char_of n) = n"
  by (simp add: of_char_of)

lemma code_toupper: "byte_of (toupper c) = (if 97 \<le> byte_of c \<and> byte_of c \<le> 122 then byte_of c - 32 else byte_of c)"
  by (auto simp: toupper_def of_char_of intro!: mod_less)

lemma toupper_toupper [simp]: "toupper (toupper c) = toupper c"
  by (subst toupper_def) (auto simp: code_toupper)

text \<open>The value of a character as the signed \<open>char\<close> of the platform.\<close>

definition signed_char :: "char \<Rightarrow> int" where
  "signed_char c = (if byte_of c < 128 then int (byte_of c) else int (byte_of c) - 256)"

lemma signed_char_inject [simp]: "signed_char a = signed_char b \<longleftrightarrow> a = b"
proof -
  have "signed_char a = signed_char b \<longleftrightarrow> byte_of a = byte_of b"
    using code_less_256 [of a] code_less_256 [of b] unfolding signed_char_def by presburger
  then show ?thesis by simp
qed

subsection \<open>Searching\<close>

text \<open>\<open>c_str\<close>: what a function of the C library sees of a string, up to its first NUL.\<close>

definition c_str :: "string \<Rightarrow> string" where
  "c_str s = takeWhile (\<lambda>c. byte_of c \<noteq> 0) s"

fun find_if :: "('a \<Rightarrow> bool) \<Rightarrow> 'a list \<Rightarrow> nat option" where
  "find_if P [] = None"
| "find_if P (x # xs) = (if P x then Some 0 else map_option Suc (find_if P xs))"

fun find_last_if :: "('a \<Rightarrow> bool) \<Rightarrow> 'a list \<Rightarrow> nat option" where
  "find_last_if P [] = None"
| "find_last_if P (x # xs) =
     (case find_last_if P xs of Some i \<Rightarrow> Some (Suc i) | None \<Rightarrow> if P x then Some 0 else None)"

lemma find_if_takeWhile:
  "find_if P xs = (if \<exists>x \<in> set xs. P x then Some (length (takeWhile (\<lambda>x. \<not> P x) xs)) else None)"
  by (induction xs) auto

lemma find_if_None_iff: "find_if P xs = None \<longleftrightarrow> (\<forall>x \<in> set xs. \<not> P x)"
  by (simp add: find_if_takeWhile)

lemma find_last_if_rev:
  "find_last_if P xs
     = (if \<exists>x \<in> set xs. P x then Some (length xs - 1 - length (takeWhile (\<lambda>x. \<not> P x) (rev xs))) else None)"
proof (induction xs)
  case (Cons x xs)
  have "length (takeWhile (\<lambda>x. \<not> P x) (rev xs)) < length xs" if "\<exists>x \<in> set xs. P x"
  proof -
    have "dropWhile (\<lambda>x. \<not> P x) (rev xs) \<noteq> []"
      using that by (auto simp: dropWhile_eq_Nil_conv)
    moreover have "length xs = length (takeWhile (\<lambda>x. \<not> P x) (rev xs)) + length (dropWhile (\<lambda>x. \<not> P x) (rev xs))"
      by (metis length_append length_rev takeWhile_dropWhile_id)
    ultimately show ?thesis by simp
  qed
  moreover have "takeWhile (\<lambda>x. \<not> P x) (rev xs) = rev xs" if "\<not> (\<exists>x \<in> set xs. P x)"
    using that by (simp add: takeWhile_eq_all_conv)
  ultimately show ?case
    using Cons by (cases "\<exists>x \<in> set xs. P x") (simp_all add: takeWhile_append Suc_diff_Suc)
qed simp

lemma take_find_if: "find_if P xs = Some i \<Longrightarrow> take i xs = takeWhile (\<lambda>x. \<not> P x) xs"
  by (auto simp: find_if_takeWhile takeWhile_eq_take [symmetric] split: if_splits)

lemma drop_find_if: "find_if P xs = Some i \<Longrightarrow> drop i xs = dropWhile (\<lambda>x. \<not> P x) xs"
  by (auto simp: find_if_takeWhile dropWhile_eq_drop [symmetric] split: if_splits)

text \<open>\<open>std::views::split\<close> on a single character, for a string that is not empty.\<close>

fun split_on :: "char \<Rightarrow> string \<Rightarrow> string list" where
  "split_on d [] = [[]]"
| "split_on d (c # s) =
     (if c = d then [] # split_on d s
      else (case split_on d s of [] \<Rightarrow> [[c]] | p # ps \<Rightarrow> (c # p) # ps))"

fun join_with :: "char \<Rightarrow> string list \<Rightarrow> string" where
  "join_with d [] = []"
| "join_with d [p] = p"
| "join_with d (p # q # ps) = p @ d # join_with d (q # ps)"

lemma split_on_nonempty [simp]: "split_on d s \<noteq> []"
  by (cases s) (auto split: list.split)

lemma split_on_no_delim: "d \<notin> set p \<Longrightarrow> split_on d p = [p]"
  by (induction p) auto

lemma split_on_append: "d \<notin> set p \<Longrightarrow> split_on d (p @ d # s) = p # split_on d s"
  by (induction p) auto

lemma split_on_join:
  "ps \<noteq> [] \<Longrightarrow> \<forall>p \<in> set ps. d \<notin> set p \<Longrightarrow> split_on d (join_with d ps) = ps"
  by (induction d ps rule: join_with.induct) (auto simp: split_on_no_delim split_on_append)

subsection \<open>Numbers\<close>

definition digit_value :: "char \<Rightarrow> nat" where
  "digit_value c = byte_of c - 48"

definition digit_char :: "nat \<Rightarrow> char" where
  "digit_char n = char_of (n + 48)"

definition decimal_value :: "string \<Rightarrow> nat" where
  "decimal_value s = foldl (\<lambda>a c. 10 * a + digit_value c) 0 s"

fun to_string :: "nat \<Rightarrow> string" where
  "to_string n = (if n < 10 then [digit_char n] else to_string (n div 10) @ [digit_char (n mod 10)])"

declare to_string.simps [simp del]

fun show_int :: "int \<Rightarrow> string" where
  "show_int i = (if i < 0 then CHR ''-'' # to_string (nat (- i)) else to_string (nat i))"

lemma digit_char_digit [simp]: "n < 10 \<Longrightarrow> isdigit (digit_char n)"
  by (simp add: isdigit_def digit_char_def of_char_of)

lemma digit_value_char [simp]: "n < 10 \<Longrightarrow> digit_value (digit_char n) = n"
  by (simp add: digit_value_def digit_char_def of_char_of)

lemma to_string_digits: "\<forall>c \<in> set (to_string n). isdigit c"
  by (induction n rule: to_string.induct) (subst to_string.simps, auto)

lemma to_string_nonempty [simp]: "to_string n \<noteq> []"
  by (subst to_string.simps) auto

lemma decimal_value_to_string [simp]: "decimal_value (to_string n) = n"
proof (induction n rule: to_string.induct)
  case (1 n)
  then show ?case
    by (subst to_string.simps) (auto simp: decimal_value_def)
qed

lemma decimal_value_snoc: "decimal_value (s @ [c]) = 10 * decimal_value s + digit_value c"
  by (simp add: decimal_value_def)

text \<open>
  \<open>std::stoul(s, nullptr, 10)\<close>: leading blanks, a sign, digits; a negative number is negated in
  the unsigned type. \<open>std::stoi\<close> also answers how many characters it read.
\<close>

definition strip_sign :: "string \<Rightarrow> bool \<times> string" where
  "strip_sign s = (case s of [] \<Rightarrow> (False, [])
     | c # r \<Rightarrow> if c = CHR ''-'' then (True, r) else if c = CHR ''+'' then (False, r) else (False, s))"

definition stoul :: "string \<Rightarrow> u64 result" where
  "stoul s =
     (let (neg, r) = strip_sign (dropWhile isspace (c_str s));
          ds = takeWhile isdigit r;
          n = decimal_value ds
      in if ds = [] then Inl (Invalid_argument ''stoul'')
         else if n \<ge> 2 ^ 64 then Inl (Out_of_range ''stoul'')
         else Inr (if neg then - of_nat n else of_nat n))"

definition stoi :: "string \<Rightarrow> (int \<times> nat) result" where
  "stoi s =
     (let t = dropWhile isspace (c_str s);
          (neg, r) = strip_sign t;
          ds = takeWhile isdigit r;
          v = (if neg then - int (decimal_value ds) else int (decimal_value ds))
      in if ds = [] then Inl (Invalid_argument ''stoi'')
         else if v < - (2 ^ 31) \<or> v \<ge> 2 ^ 31 then Inl (Out_of_range ''stoi'')
         else Inr (v, length (c_str s) - length t + (length t - length r) + length ds))"

text \<open>
  \<open>std::from_chars\<close> into an \<open>int\<close>: no blanks, a minus sign only; \<open>None\<close> for an error code.
\<close>

definition from_chars_int :: "string \<Rightarrow> int option" where
  "from_chars_int s =
     (let (neg, r) = (case s of [] \<Rightarrow> (False, []) | c # r \<Rightarrow> if c = CHR ''-'' then (True, r) else (False, s));
          ds = takeWhile isdigit r;
          v = (if neg then - int (decimal_value ds) else int (decimal_value ds))
      in if ds = [] \<or> v < - (2 ^ 31) \<or> v \<ge> 2 ^ 31 then None else Some v)"

lemma takeWhile_digits_append:
  "\<forall>c \<in> set ds. isdigit c \<Longrightarrow> u = [] \<or> \<not> isdigit (hd u) \<Longrightarrow> takeWhile isdigit (ds @ u) = ds"
  by (cases u) (auto simp: takeWhile_append takeWhile_eq_all_conv)

lemma digit_not_special: "isdigit c \<Longrightarrow> \<not> isspace c \<and> byte_of c \<noteq> 0 \<and> c \<noteq> CHR ''-'' \<and> c \<noteq> CHR ''+''"
  by (auto simp: isdigit_def isspace_def)

subsection \<open>Ordered maps with string keys\<close>

text \<open>
  \<open>std::map<std::string, V>::insert\<close>: the entry is added in key order unless the key is there.
  The order of \<open>std::string\<close> compares bytes as unsigned numbers, which is that of lists of \<open>char\<close>.
\<close>

fun map_insert :: "'k::linorder \<Rightarrow> 'v \<Rightarrow> ('k \<times> 'v) list \<Rightarrow> ('k \<times> 'v) list" where
  "map_insert k v [] = [(k, v)]"
| "map_insert k v ((k', v') # m) =
     (if k < k' then (k, v) # (k', v') # m
      else if k = k' then (k', v') # m
      else (k', v') # map_insert k v m)"

text \<open>\<open>operator[]\<close> and assignment.\<close>

fun map_assign :: "'k::linorder \<Rightarrow> 'v \<Rightarrow> ('k \<times> 'v) list \<Rightarrow> ('k \<times> 'v) list" where
  "map_assign k v [] = [(k, v)]"
| "map_assign k v ((k', v') # m) =
     (if k < k' then (k, v) # (k', v') # m
      else if k = k' then (k, v) # m
      else (k', v') # map_assign k v m)"

abbreviation map_wf :: "('k::linorder \<times> 'v) list \<Rightarrow> bool" where
  "map_wf m \<equiv> sorted_wrt (<) (map fst m)"

lemma set_map_insert_keys: "fst ` set (map_insert k v m) = insert k (fst ` set m)"
  by (induction k v m rule: map_insert.induct) auto

lemma set_map_assign_keys: "fst ` set (map_assign k v m) = insert k (fst ` set m)"
  by (induction k v m rule: map_assign.induct) auto

lemma map_insert_keyD: "(a, b) \<in> set (map_insert k v m) \<Longrightarrow> a = k \<or> a \<in> fst ` set m"
  using set_map_insert_keys [of k v m] by force

lemma map_assign_keyD: "(a, b) \<in> set (map_assign k v m) \<Longrightarrow> a = k \<or> a \<in> fst ` set m"
  using set_map_assign_keys [of k v m] by force

lemma map_wf_insert [keeps]: "map_wf m \<Longrightarrow> map_wf (map_insert k v m)"
  by (induction k v m rule: map_insert.induct) (auto dest!: map_insert_keyD simp: not_less_iff_gr_or_eq)

lemma map_wf_assign [keeps]: "map_wf m \<Longrightarrow> map_wf (map_assign k v m)"
  by (induction k v m rule: map_assign.induct) (auto dest!: map_assign_keyD simp: not_less_iff_gr_or_eq)

lemma map_of_map_insert [umap_simps]:
  "map_wf m \<Longrightarrow> map_of (map_insert k v m) = (case map_of m k of None \<Rightarrow> (map_of m)(k \<mapsto> v) | Some _ \<Rightarrow> map_of m)"
  by (induction k v m rule: map_insert.induct)
     (force simp: fun_eq_iff map_of_eq_None_iff dest!: map_of_SomeD split: option.splits)+

lemma map_of_map_assign [umap_simps]:
  "map_of (map_assign k v m) = (map_of m)(k \<mapsto> v)"
  by (induction k v m rule: map_assign.induct) (auto simp: fun_eq_iff)

end
