(* ===== verification/LogTypes.thy ===== *)
theory LogTypes
  imports CxxStd
begin

text \<open>
  Log levels and log features (\<open>LogLevel.h\<close>, \<open>LogLevel.cpp\<close>, \<open>LogFeature.h.in\<close>,
  \<open>LogFeature.cpp\<close>). The enumerators of \<open>LogFeature\<close> are those the build writes from
  \<open>elastic-otel-php.properties\<close>. \<open>magic_enum::enum_cast\<close> is third-party code: a parameter.
\<close>

subsection \<open>Levels\<close>

datatype LogLevel =
    logLevel_off
  | logLevel_critical
  | logLevel_error
  | logLevel_warning
  | logLevel_info
  | logLevel_debug
  | logLevel_trace

text \<open>The numeric value of the enumerator; lower levels are contained in higher ones.\<close>

fun level_value :: "LogLevel \<Rightarrow> nat" where
  "level_value logLevel_off = 0"
| "level_value logLevel_critical = 1"
| "level_value logLevel_error = 2"
| "level_value logLevel_warning = 3"
| "level_value logLevel_info = 4"
| "level_value logLevel_debug = 5"
| "level_value logLevel_trace = 6"

definition all_levels :: "LogLevel list" where
  "all_levels = [logLevel_off, logLevel_critical, logLevel_error, logLevel_warning, logLevel_info,
     logLevel_debug, logLevel_trace]"

instantiation LogLevel :: linorder
begin

definition less_eq_LogLevel :: "LogLevel \<Rightarrow> LogLevel \<Rightarrow> bool" where
  "less_eq_LogLevel a b \<longleftrightarrow> level_value a \<le> level_value b"

definition less_LogLevel :: "LogLevel \<Rightarrow> LogLevel \<Rightarrow> bool" where
  "less_LogLevel a b \<longleftrightarrow> level_value a < level_value b"

instance
proof
  fix a b :: LogLevel
  show "a \<le> b \<Longrightarrow> b \<le> a \<Longrightarrow> a = b"
    by (cases a; cases b) (simp_all add: less_eq_LogLevel_def)
qed (auto simp: less_eq_LogLevel_def less_LogLevel_def)

end

instantiation LogLevel :: order_bot
begin

definition bot_LogLevel :: LogLevel where
  "bot_LogLevel = logLevel_off"

instance
  by standard (simp add: bot_LogLevel_def less_eq_LogLevel_def)

end

lemma level_off_least [simp]: "logLevel_off \<le> l"
  by (simp add: less_eq_LogLevel_def)

lemma all_levels_UNIV: "set all_levels = UNIV"
proof -
  have "l \<in> set all_levels" for l
    by (cases l) (simp_all add: all_levels_def)
  then show ?thesis by auto
qed

lemma nth_all_levels: "all_levels ! level_value l = l"
  by (cases l) (simp_all add: all_levels_def)

text \<open>\<open>getLogLevelName\<close> guards against numbers that are not enumerators.\<close>

definition logLevelNames :: "string list" where
  "logLevelNames = [''OFF     '', ''CRITICAL'', ''ERROR   '', ''WARNING '', ''INFO    '', ''DEBUG   '', ''TRACE   '']"

definition getLogLevelName :: "nat \<Rightarrow> string" where
  "getLogLevelName level = (if level > level_value logLevel_trace then ''UNKNOWN'' else logLevelNames ! level)"

subsection \<open>Features\<close>

datatype LogFeature =
    FEATURE_ALL | MODULE | REQUEST | TRANSPORT | BOOTSTRAP | HOOKS | INSTRUMENTATION | OTEL | DEPGUARD
  | OTLPEXPORT | OPAMP | CONFIG | COORDINATOR

fun feature_name :: "LogFeature \<Rightarrow> string" where
  "feature_name FEATURE_ALL = ''ALL''"
| "feature_name MODULE = ''MODULE''"
| "feature_name REQUEST = ''REQUEST''"
| "feature_name TRANSPORT = ''TRANSPORT''"
| "feature_name BOOTSTRAP = ''BOOTSTRAP''"
| "feature_name HOOKS = ''HOOKS''"
| "feature_name INSTRUMENTATION = ''INSTRUMENTATION''"
| "feature_name OTEL = ''OTEL''"
| "feature_name DEPGUARD = ''DEPGUARD''"
| "feature_name OTLPEXPORT = ''OTLPEXPORT''"
| "feature_name OPAMP = ''OPAMP''"
| "feature_name CONFIG = ''CONFIG''"
| "feature_name COORDINATOR = ''COORDINATOR''"

definition all_features :: "LogFeature list" where
  "all_features = [FEATURE_ALL, MODULE, REQUEST, TRANSPORT, BOOTSTRAP, HOOKS, INSTRUMENTATION, OTEL, DEPGUARD,
     OTLPEXPORT, OPAMP, CONFIG, COORDINATOR]"

lemma feature_name_inject [simp]: "feature_name a = feature_name b \<longleftrightarrow> a = b"
  by (cases a; cases b) simp_all

text \<open>\<open>parseLogFeature\<close>: \<open>enum_cast\<close> is the case-insensitive \<open>magic_enum::enum_cast\<close>.\<close>

definition parseLogFeature :: "(string \<Rightarrow> LogFeature option) \<Rightarrow> string \<Rightarrow> LogFeature result" where
  "parseLogFeature enum_cast featureName =
     (case enum_cast featureName of
        None \<Rightarrow> Inl (Invalid_argument (''Unknown log feature: '' @ featureName))
      | Some f \<Rightarrow> Inr f)"

text \<open>\<open>getLogFeatureName\<close> is \<open>magic_enum::enum_name\<close>: the enumerator as written.\<close>

definition getLogFeatureName :: "LogFeature \<Rightarrow> string" where
  "getLogFeatureName feature = feature_name feature"

end
