(* ===== verification/Strings.thy ===== *)
theory Strings
  imports LogTypes
begin

text \<open>
  The string utilities (\<open>CiCharTraits.h\<close>, \<open>CommonUtils.h\<close>, \<open>CommonUtils.cpp\<close>): case-insensitive
  string views, trimming, and the parsers of configuration values, names and URLs. What can be
  thrown is a value of \<open>result\<close>.
\<close>

subsection \<open>Case-insensitive character traits\<close>

definition ci_eq :: "char \<Rightarrow> char \<Rightarrow> bool" where
  "ci_eq c1 c2 \<longleftrightarrow> toupper c1 = toupper c2"

definition ci_lt :: "char \<Rightarrow> char \<Rightarrow> bool" where
  "ci_lt c1 c2 \<longleftrightarrow> signed_char (toupper c1) < signed_char (toupper c2)"

text \<open>\<open>compare(s1, s2, n)\<close>; its callers pass an \<open>n\<close> that is at most both lengths.\<close>

fun ci_compare :: "string \<Rightarrow> string \<Rightarrow> nat \<Rightarrow> int" where
  "ci_compare (c1 # s1) (c2 # s2) (Suc n) =
     (if signed_char (toupper c1) < signed_char (toupper c2) then - 1
      else if signed_char (toupper c1) > signed_char (toupper c2) then 1
      else ci_compare s1 s2 n)"
| "ci_compare _ _ _ = 0"

fun ci_find :: "string \<Rightarrow> nat \<Rightarrow> char \<Rightarrow> nat option" where
  "ci_find (c # s) (Suc n) a = (if toupper c = toupper a then Some 0 else map_option Suc (ci_find s n a))"
| "ci_find _ _ _ = None"

text \<open>\<open>operator==\<close> on \<open>istring_view\<close>.\<close>

definition istring_eq :: "string \<Rightarrow> string \<Rightarrow> bool" where
  "istring_eq s1 s2 \<longleftrightarrow> length s1 = length s2 \<and> ci_compare s1 s2 (length s1) = 0"

lemma ci_compare_zero:
  "n \<le> length s1 \<Longrightarrow> n \<le> length s2 \<Longrightarrow>
     ci_compare s1 s2 n = 0 \<longleftrightarrow> map toupper (take n s1) = map toupper (take n s2)"
proof (induction s1 s2 n rule: ci_compare.induct)
  case (1 c1 s1 c2 s2 n)
  then show ?case
    using linorder_less_linear [of "signed_char (toupper c1)" "signed_char (toupper c2)"] by auto
qed auto

lemma istring_eq_iff: "istring_eq s1 s2 \<longleftrightarrow> map toupper s1 = map toupper s2"
proof (cases "length s1 = length s2")
  case True
  then show ?thesis using ci_compare_zero [of "length s1" s1 s2] by (simp add: istring_eq_def)
qed (auto simp: istring_eq_def dest: map_eq_imp_length_eq)

lemma istring_eq_refl [simp]: "istring_eq s s"
  by (simp add: istring_eq_iff)

lemma istring_eq_trans: "istring_eq a b \<Longrightarrow> istring_eq a c \<longleftrightarrow> istring_eq b c"
  by (simp add: istring_eq_iff)

lemma ci_find_spec:
  "n \<le> length s \<Longrightarrow> ci_find s n a = find_if (\<lambda>c. ci_eq c a) (take n s)"
  by (induction s n a rule: ci_find.induct) (auto simp: ci_eq_def)

subsection \<open>Trimming\<close>

definition is_trim_space :: "char \<Rightarrow> bool" where
  "is_trim_space c \<longleftrightarrow> c \<in> set [CHR '' '', CHR 0x0C, CHR 0x0A, CHR 0x0D, CHR 0x09, CHR 0x0B]"

definition trim :: "string \<Rightarrow> string" where
  "trim v =
     (let lpos = find_if (\<lambda>c. \<not> is_trim_space c) v;
          rpos = find_last_if (\<lambda>c. \<not> is_trim_space c) v;
          resultLen = length v - (case lpos of None \<Rightarrow> 0 | Some l \<Rightarrow> l)
                        - (length v - (case rpos of None \<Rightarrow> 0 | Some r \<Rightarrow> r + 1))
      in if resultLen = length v then v
         else if resultLen = 0 then []
         else take resultLen (drop (case lpos of None \<Rightarrow> 0 | Some l \<Rightarrow> l) v))"

lemma is_trim_space_isspace: "is_trim_space c \<longleftrightarrow> isspace c"
proof -
  have "byte_of c < 256" by simp
  have "is_trim_space c \<longleftrightarrow> byte_of c \<in> set [32, 12, 10, 13, 9, 11]"
    unfolding is_trim_space_def by (simp flip: of_char_eq_iff [where 'a = nat])
  then show ?thesis by (auto simp: isspace_def)
qed

lemma take_drop_trim:
  "take (length v - length (takeWhile P v) - length (takeWhile P (rev v))) (drop (length (takeWhile P v)) v)
     = rev (dropWhile P (rev (dropWhile P v)))" if "\<exists>x \<in> set v. \<not> P x"
proof -
  obtain a b where ab: "v = a @ b" "a = takeWhile P v" "b = dropWhile P v"
    by (metis takeWhile_dropWhile_id)
  have "b \<noteq> []" using ab(3) that by (auto simp: dropWhile_eq_Nil_conv)
  then have h: "\<not> P (hd b)" using ab(3) hd_dropWhile by force
  then have "takeWhile P (rev v) = takeWhile P (rev b)"
    using \<open>b \<noteq> []\<close> ab(1) by (metis hd_in_set rev_append set_rev takeWhile_append1)
  moreover have "rev (dropWhile P (rev b)) = take (length b - length (takeWhile P (rev b))) b"
    by (metis dropWhile_eq_drop rev_rev_ident rev_drop length_rev)
  ultimately show ?thesis
    using ab by (metis add_diff_cancel_left' append_eq_conv_conj length_append)
qed

lemma trim_eq: "trim v = rev (dropWhile is_trim_space (rev (dropWhile is_trim_space v)))"
proof (cases "\<exists>x \<in> set v. \<not> is_trim_space x")
  case True
  let ?l = "length (takeWhile is_trim_space v)" and ?r = "length (takeWhile is_trim_space (rev v))"
  have r: "?r < length v"
  proof -
    have "dropWhile is_trim_space (rev v) \<noteq> []"
      using True by (auto simp: dropWhile_eq_Nil_conv)
    then show ?thesis
      by (metis length_append length_greater_0_conv length_rev less_add_same_cancel1 takeWhile_dropWhile_id)
  qed
  have n: "length v - (length v - (length v - 1 - ?r + 1)) = length v - ?r" using r by simp
  have f: "find_if (\<lambda>c. \<not> is_trim_space c) v = Some ?l"
    "find_last_if (\<lambda>c. \<not> is_trim_space c) v = Some (length v - 1 - ?r)"
    using True by (simp_all add: find_if_takeWhile find_last_if_rev)
  have e: "length v - ?l - (length v - (length v - 1 - ?r + 1)) = length v - ?l - ?r"
    using r by simp
  obtain x where x: "x \<in> set v" "\<not> is_trim_space x" using True by blast
  then have "x \<in> set (dropWhile is_trim_space v)"
    by (metis UnE set_append set_takeWhileD takeWhile_dropWhile_id)
  then have "take (length v - ?l - ?r) (drop ?l v) \<noteq> []"
    unfolding take_drop_trim [OF True] using x(2) by (auto simp: dropWhile_eq_Nil_conv)
  then have z: "length v - ?l - ?r \<noteq> 0" by (metis take_0)
  have "trim v = (if length v - ?l - ?r = length v then v else take (length v - ?l - ?r) (drop ?l v))"
    unfolding trim_def Let_def f option.case e using z by simp
  also have "\<dots> = take (length v - ?l - ?r) (drop ?l v)"
  proof (cases "length v - ?l - ?r = length v")
    case True
    then have "?l = 0" using r by arith
    with True show ?thesis by simp
  qed simp
  finally show ?thesis by (simp only: take_drop_trim [OF True])
next
  case False
  then have "find_if (\<lambda>c. \<not> is_trim_space c) v = None" "find_last_if (\<lambda>c. \<not> is_trim_space c) v = None"
    by (simp_all add: find_if_takeWhile find_last_if_rev)
  then have "trim v = []"
    by (simp add: trim_def)
  moreover have "dropWhile is_trim_space v = []"
    using False by (simp add: dropWhile_eq_Nil_conv)
  ultimately show ?thesis by (simp only: rev.simps(1) dropWhile.simps(1))
qed

subsection \<open>Byte sizes\<close>

definition parseByteUnits :: "string \<Rightarrow> u64 result" where
  "parseByteUnits bytesWithUnit =
     (let b = filter (\<lambda>c. \<not> isspace c) bytesWithUnit
      in bind_result (stoul b) (\<lambda>value.
           case find_if (\<lambda>c. \<not> isdigit c) b of
             None \<Rightarrow> Inr value
           | Some unitPos \<Rightarrow>
               (let unit = drop unitPos b
                in if istring_eq unit ''b'' then Inr value
                   else if istring_eq unit ''kb'' then Inr (value * 1024)
                   else if istring_eq unit ''mb'' then Inr (value * 1024 * 1024)
                   else if istring_eq unit ''gb'' then Inr (value * 1024 * 1024 * 1024)
                   else Inl (Invalid_argument ''Invalid byte unit.''))))"

text \<open>The unit table the parser implements.\<close>

definition byte_unit :: "string \<Rightarrow> nat option" where
  "byte_unit u = map_of [('''', 1), (''B'', 1), (''KB'', 2 ^ 10), (''MB'', 2 ^ 20), (''GB'', 2 ^ 30)] (map toupper u)"

lemma stoul_digits:
  assumes "\<forall>c \<in> set ds. isdigit c" and "ds \<noteq> []" and "u = [] \<or> \<not> isdigit (hd u)"
  shows "stoul (ds @ u) = (if decimal_value ds \<ge> 2 ^ 64 then Inl (Out_of_range ''stoul'') else Inr (of_nat (decimal_value ds)))"
proof -
  obtain d ds' where ds: "ds = d # ds'" using assms(2) by (cases ds) auto
  have nz: "\<forall>c \<in> set ds. byte_of c \<noteq> 0" using assms(1) digit_not_special by blast
  then have c: "c_str (ds @ u) = ds @ c_str u"
    by (simp add: c_str_def takeWhile_append)
  have u: "c_str u = [] \<or> \<not> isdigit (hd (c_str u))"
    using assms(3) by (cases u) (auto simp: c_str_def)
  have "takeWhile isdigit (ds @ c_str u) = ds"
    using takeWhile_digits_append [OF assms(1) u] .
  moreover have "dropWhile isspace (ds @ c_str u) = ds @ c_str u" and "strip_sign (ds @ c_str u) = (False, ds @ c_str u)"
    using digit_not_special [of d] assms(1) by (auto simp: ds strip_sign_def)
  ultimately show ?thesis
    using assms(2) by (simp add: stoul_def c)
qed

text \<open>
  For a size written as digits and a unit, with blanks anywhere, \<open>parseByteUnits\<close> answers the number
  times the factor of the unit (b, kb, mb, gb in any case, none for bytes) modulo \<open>2 ^ 64\<close>; a number
  that does not fit 64 bits is \<open>std::out_of_range\<close> and any other unit \<open>std::invalid_argument\<close>.
\<close>

theorem parseByteUnits_value:
  assumes "filter (\<lambda>c. \<not> isspace c) s = ds @ u"
    and "ds \<noteq> []" and "\<forall>c \<in> set ds. isdigit c" and "u = [] \<or> \<not> isdigit (hd u)"
  shows "parseByteUnits s =
    (if decimal_value ds \<ge> 2 ^ 64 then Inl (Out_of_range ''stoul'')
     else (case byte_unit u of
             None \<Rightarrow> Inl (Invalid_argument ''Invalid byte unit.'')
           | Some k \<Rightarrow> Inr (of_nat (decimal_value ds * k))))"
proof -
  note st = stoul_digits [OF assms(3,2,4)]
  have tw: "takeWhile isdigit (ds @ u) = ds"
    by (rule takeWhile_digits_append [OF assms(3,4)])
  have up: "map toupper ''b'' = ''B''" "map toupper ''kb'' = ''KB''" "map toupper ''mb'' = ''MB''" "map toupper ''gb'' = ''GB''"
    by code_simp+
  show ?thesis
  proof (cases u)
    case Nil
    then have "find_if (\<lambda>c. \<not> isdigit c) (ds @ u) = None"
      using assms(3) by (simp add: find_if_None_iff)
    then show ?thesis
      by (simp add: parseByteUnits_def assms(1) st Let_def) (simp add: Nil byte_unit_def)
  next
    case (Cons c r)
    then have "find_if (\<lambda>c. \<not> isdigit c) (ds @ u) = Some (length ds)"
      using tw assms(4) by (simp add: find_if_takeWhile)
    then have "parseByteUnits s = bind_result (stoul (ds @ u)) (\<lambda>value.
        if istring_eq u ''b'' then Inr value
        else if istring_eq u ''kb'' then Inr (value * 1024)
        else if istring_eq u ''mb'' then Inr (value * 1024 * 1024)
        else if istring_eq u ''gb'' then Inr (value * 1024 * 1024 * 1024)
        else Inl (Invalid_argument ''Invalid byte unit.''))"
      by (simp add: parseByteUnits_def assms(1) Let_def)
    moreover have "istring_eq u ''b'' \<longleftrightarrow> map toupper u = ''B''" "istring_eq u ''kb'' \<longleftrightarrow> map toupper u = ''KB''"
      "istring_eq u ''mb'' \<longleftrightarrow> map toupper u = ''MB''" "istring_eq u ''gb'' \<longleftrightarrow> map toupper u = ''GB''"
      by (simp_all only: istring_eq_iff up)
    moreover have "map toupper u \<noteq> []" using Cons by simp
    ultimately show ?thesis
      by (simp only: st byte_unit_def) (simp add: mult.assoc)
  qed
qed

subsection \<open>Booleans and log levels\<close>

definition parseBoolean :: "string \<Rightarrow> bool" where
  "parseBoolean val =
     (let value = trim val
      in if length value = 0 then False
         else if list_ex (\<lambda>t. istring_eq t value) [''true'', ''yes'', ''on''] then True
         else (case from_chars_int value of Some iVal \<Rightarrow> iVal \<noteq> 0 | None \<Rightarrow> False))"

definition level_names :: "string list" where
  "level_names = [''OFF'', ''CRITICAL'', ''ERROR'', ''WARNING'', ''INFO'', ''DEBUG'', ''TRACE'']"

definition parseLogLevel :: "string \<Rightarrow> LogLevel result" where
  "parseLogLevel val =
     (let value = trim val
      in case find_if (\<lambda>n. istring_eq n value) level_names of
           Some index \<Rightarrow> Inr (all_levels ! index)
         | None \<Rightarrow> Inl (Invalid_argument (''Unknown log level: '' @ val)))"

lemma level_name_upper: "map toupper (level_names ! level_value l) = level_names ! level_value l"
proof -
  have "\<forall>l \<in> set all_levels. map toupper (level_names ! level_value l) = level_names ! level_value l"
    by code_simp
  then show ?thesis by (simp add: all_levels_UNIV)
qed

lemma level_name_trim: "trim (getLogLevelName (level_value l)) = level_names ! level_value l"
proof -
  have "\<forall>l \<in> set all_levels. trim (getLogLevelName (level_value l)) = level_names ! level_value l"
    by code_simp
  then show ?thesis by (simp add: all_levels_UNIV)
qed

lemma parseLogLevel_cases:
  "(case find_if (\<lambda>n. n = u) level_names of Some index \<Rightarrow> Inr (all_levels ! index) | None \<Rightarrow> Inl e) = Inr l
     \<longleftrightarrow> u = level_names ! level_value l"
  by (cases l) (auto simp: level_names_def all_levels_def)

lemma find_if_cong: "(\<And>x. x \<in> set xs \<Longrightarrow> P x \<longleftrightarrow> Q x) \<Longrightarrow> find_if P xs = find_if Q xs"
  by (induction xs) auto

lemma level_names_upper: "n \<in> set level_names \<Longrightarrow> map toupper n = n"
proof -
  assume "n \<in> set level_names"
  then obtain i where "i < length level_names" "n = level_names ! i" by (auto simp: in_set_conv_nth)
  then show ?thesis
    using level_name_upper [of "all_levels ! i"]
    by (auto simp: level_names_def all_levels_def less_Suc_eq numeral_nat)
qed

text \<open>
  \<open>parseLogLevel\<close> is the inverse of \<open>getLogLevelName\<close>: it answers a level exactly for the texts that
  equal the name of that level up to case and surrounding blanks.
\<close>

theorem parseLogLevel_iff:
  "parseLogLevel s = Inr l \<longleftrightarrow> istring_eq (trim s) (trim (getLogLevelName (level_value l)))"
proof -
  have "find_if (\<lambda>n. istring_eq n (trim s)) level_names = find_if (\<lambda>n. n = map toupper (trim s)) level_names"
    by (rule find_if_cong) (simp add: istring_eq_iff level_names_upper)
  then show ?thesis
    using parseLogLevel_cases [where u = "map toupper (trim s)" and e = "Invalid_argument (''Unknown log level: '' @ s)" and l = l]
    by (simp add: parseLogLevel_def Let_def istring_eq_iff level_name_trim level_name_upper)
qed

lemma parseLogLevel_error: "parseLogLevel s = Inl e \<Longrightarrow> e = Invalid_argument (''Unknown log level: '' @ s)"
  by (auto simp: parseLogLevel_def Let_def split: option.splits)

subsection \<open>Names and formats\<close>

fun getParameterizedString :: "nat \<Rightarrow> nat \<Rightarrow> string \<Rightarrow> string" where
  "getParameterizedString pid now [] = []"
| "getParameterizedString pid now [c] = (if c = CHR ''%'' then ''%'' else [c])"
| "getParameterizedString pid now (c # d # r) =
     (if c = CHR ''%'' then
        (if d = CHR ''p'' then to_string pid
         else if d = CHR ''t'' then to_string now
         else [CHR ''%'', d]) @ getParameterizedString pid now r
      else c # getParameterizedString pid now (d # r))"

definition getIniName :: "string \<Rightarrow> string" where
  "getIniName optionName = ''elastic_otel.'' @ optionName"

definition getEnvName :: "string \<Rightarrow> string" where
  "getEnvName optionName = ''ELASTIC_OTEL_'' @ map toupper optionName"

lemma getParameterizedString_plain: "CHR ''%'' \<notin> set s \<Longrightarrow> getParameterizedString pid now s = s"
  by (induction pid now s rule: getParameterizedString.induct) auto

lemma getIniName_inject: "getIniName a = getIniName b \<longleftrightarrow> a = b"
  by (simp add: getIniName_def)

lemma getEnvName_eq_iff: "getEnvName a = getEnvName b \<longleftrightarrow> istring_eq a b"
  by (simp add: getEnvName_def istring_eq_iff)

subsection \<open>URLs\<close>

record ParsedURL =
  protocol :: string
  host :: string
  port :: "string option"
  query :: "string option"

text \<open>The character classes \<open>[\<close>\<open>\\w.-]\<close> and \<open>.\<close> of the pattern in \<open>parseUrl\<close>.\<close>

definition is_host_char :: "char \<Rightarrow> bool" where
  "is_host_char c \<longleftrightarrow> isalpha c \<or> isdigit c \<or> c = CHR ''_'' \<or> c = CHR ''.'' \<or> c = CHR ''-''"

definition is_dot_char :: "char \<Rightarrow> bool" where
  "is_dot_char c \<longleftrightarrow> byte_of c \<noteq> 10 \<and> byte_of c \<noteq> 13"

fun strip_prefix :: "string \<Rightarrow> string \<Rightarrow> string option" where
  "strip_prefix [] s = Some s"
| "strip_prefix (p # ps) (c # s) = (if p = c then strip_prefix ps s else None)"
| "strip_prefix (p # ps) [] = None"

text \<open>
  The match of \<open>(http|https)://([\<close>\<open>\\w.-]+)(?::(\\d+))?(?:/(.*))?\<close> against the whole string. No backtracking
  is needed: the host stops at the first character outside its class, which must be \<open>:\<close>, \<open>/\<close> or the end.
\<close>

definition parse_query :: "string \<Rightarrow> string option option" where
  "parse_query s = (case s of [] \<Rightarrow> Some None
     | c # q \<Rightarrow> if c = CHR ''/'' \<and> list_all is_dot_char q then Some (Some q) else None)"

definition parse_port :: "string \<Rightarrow> (string option \<times> string) option" where
  "parse_port s = (case s of [] \<Rightarrow> Some (None, [])
     | c # r \<Rightarrow> if c = CHR '':'' then
                  (let ds = takeWhile isdigit r
                   in if ds = [] then None else Some (Some ds, dropWhile isdigit r))
                else Some (None, s))"

definition parse_authority :: "string \<Rightarrow> string \<Rightarrow> ParsedURL option" where
  "parse_authority proto s =
     (let h = takeWhile is_host_char s
      in if h = [] then None
         else case parse_port (dropWhile is_host_char s) of
           None \<Rightarrow> None
         | Some (p, r) \<Rightarrow>
             (case parse_query r of
                None \<Rightarrow> None
              | Some q \<Rightarrow> Some \<lparr>protocol = proto, host = h, port = p, query = q\<rparr>))"

definition parseUrl :: "string \<Rightarrow> ParsedURL option" where
  "parseUrl url =
     (case strip_prefix ''http://'' url of
        Some r \<Rightarrow> parse_authority ''http'' r
      | None \<Rightarrow>
          (case strip_prefix ''https://'' url of
             Some r \<Rightarrow> parse_authority ''https'' r
           | None \<Rightarrow> None))"

text \<open>The URLs it accepts, and how they are written.\<close>

definition url_ok :: "ParsedURL \<Rightarrow> bool" where
  "url_ok u \<longleftrightarrow> protocol u \<in> {''http'', ''https''} \<and> host u \<noteq> [] \<and> list_all is_host_char (host u) \<and>
     (case port u of None \<Rightarrow> True | Some p \<Rightarrow> p \<noteq> [] \<and> list_all isdigit p) \<and>
     (case query u of None \<Rightarrow> True | Some q \<Rightarrow> list_all is_dot_char q)"

definition show_url :: "ParsedURL \<Rightarrow> string" where
  "show_url u = protocol u @ ''://'' @ host u
     @ (case port u of None \<Rightarrow> [] | Some p \<Rightarrow> CHR '':'' # p)
     @ (case query u of None \<Rightarrow> [] | Some q \<Rightarrow> CHR ''/'' # q)"

lemma strip_prefix_iff: "strip_prefix p s = Some r \<longleftrightarrow> s = p @ r"
  by (induction p s rule: strip_prefix.induct) auto

lemma takeWhile_all_append:
  "list_all P a \<Longrightarrow> b = [] \<or> \<not> P (hd b) \<Longrightarrow> takeWhile P (a @ b) = a \<and> dropWhile P (a @ b) = b"
  by (cases b) (auto simp: list_all_iff takeWhile_append dropWhile_append takeWhile_eq_all_conv dropWhile_eq_Nil_conv)

lemma parse_query_iff:
  "parse_query s = Some q \<longleftrightarrow>
     s = (case q of None \<Rightarrow> [] | Some q' \<Rightarrow> CHR ''/'' # q') \<and> (case q of None \<Rightarrow> True | Some q' \<Rightarrow> list_all is_dot_char q')"
  by (cases s; cases q) (auto simp: parse_query_def)

lemma parse_port_complete:
  assumes "case p of None \<Rightarrow> True | Some d \<Rightarrow> d \<noteq> [] \<and> list_all isdigit d" and "r = [] \<or> hd r = CHR ''/''"
  shows "parse_port ((case p of None \<Rightarrow> [] | Some d \<Rightarrow> CHR '':'' # d) @ r) = Some (p, r)"
proof (cases p)
  case None
  then show ?thesis using assms(2) by (cases r) (auto simp: parse_port_def)
next
  case (Some d)
  moreover have "\<not> isdigit (CHR ''/'')" by code_simp
  ultimately show ?thesis
    using assms takeWhile_all_append [of isdigit d r]
    by (auto simp: parse_port_def Let_def takeWhile_eq_all_conv list_all_iff)
qed

lemma parse_port_sound:
  "parse_port s = Some (p, r) \<Longrightarrow>
     s = (case p of None \<Rightarrow> [] | Some d \<Rightarrow> CHR '':'' # d) @ r \<and>
     (case p of None \<Rightarrow> True | Some d \<Rightarrow> d \<noteq> [] \<and> list_all isdigit d)"
  by (cases s) (auto simp: parse_port_def Let_def list_all_iff dest: set_takeWhileD split: if_splits)

lemma parse_authority_iff:
  "parse_authority proto s = Some u \<longleftrightarrow>
     protocol u = proto \<and> host u \<noteq> [] \<and> list_all is_host_char (host u) \<and>
     (case port u of None \<Rightarrow> True | Some p \<Rightarrow> p \<noteq> [] \<and> list_all isdigit p) \<and>
     (case query u of None \<Rightarrow> True | Some q \<Rightarrow> list_all is_dot_char q) \<and>
     s = host u @ (case port u of None \<Rightarrow> [] | Some p \<Rightarrow> CHR '':'' # p)
           @ (case query u of None \<Rightarrow> [] | Some q \<Rightarrow> CHR ''/'' # q)" (is "?l \<longleftrightarrow> ?r")
proof
  assume l: ?l
  then obtain p r q where 1: "takeWhile is_host_char s \<noteq> []" "parse_port (dropWhile is_host_char s) = Some (p, r)"
    "parse_query r = Some q" "u = \<lparr>protocol = proto, host = takeWhile is_host_char s, port = p, query = q\<rparr>"
    by (auto simp: parse_authority_def Let_def split: if_splits option.splits)
  have "s = takeWhile is_host_char s @ dropWhile is_host_char s" by simp
  with 1 parse_port_sound [OF 1(2)] show ?r
    by (auto simp: parse_query_iff list_all_iff dest: set_takeWhileD)
next
  assume r: ?r
  let ?q = "case query u of None \<Rightarrow> [] | Some q \<Rightarrow> CHR ''/'' # q"
  let ?pq = "(case port u of None \<Rightarrow> [] | Some p \<Rightarrow> CHR '':'' # p) @ ?q"
  have "\<not> is_host_char (CHR '':'')" "\<not> is_host_char (CHR ''/'')" by code_simp+
  then have "?pq = [] \<or> \<not> is_host_char (hd ?pq)" by (auto split: option.splits)
  then have "takeWhile is_host_char s = host u" "dropWhile is_host_char s = ?pq"
    using r takeWhile_all_append [of is_host_char "host u" ?pq] by auto
  moreover have "parse_port ?pq = Some (port u, ?q)"
    by (rule parse_port_complete) (use r in \<open>auto split: option.splits\<close>)
  moreover have "parse_query ?q = Some (query u)" using r by (simp add: parse_query_iff)
  ultimately show ?l
    using r by (simp add: parse_authority_def)
qed

lemma parseUrl_shows: "parseUrl s = Some u \<longleftrightarrow> url_ok u \<and> s = show_url u"
proof -
  have "strip_prefix ''https://'' s = None" if "strip_prefix ''http://'' s = Some r" for r
    using that by (auto simp: strip_prefix_iff)
  then have "parseUrl s = Some u \<longleftrightarrow>
      (\<exists>r. s = ''http://'' @ r \<and> parse_authority ''http'' r = Some u) \<or>
      (\<exists>r. s = ''https://'' @ r \<and> parse_authority ''https'' r = Some u)"
    by (auto simp: parseUrl_def strip_prefix_iff split: option.splits)
  then show ?thesis
    by (auto simp: parse_authority_iff url_ok_def show_url_def)
qed

text \<open>
  C40. \<open>parseUrl\<close> accepts exactly the URLs \<open>http(s)://host[:port][/query]\<close> with a host of word
  characters, dots and dashes, a numeric port and a query on one line, and answers the parts they
  were written from.
\<close>

theorem parseUrl_iff: "parseUrl s = Some u \<longleftrightarrow> url_ok u \<and> s = show_url u"
  by (rule parseUrl_shows)

text \<open>
  \<open>getConnectionDetailsFromURL\<close>: the regular expression is run by Boost, which answers the first
  and the fourth group of the first match.
\<close>

definition getConnectionDetailsFromURL :: "(string \<Rightarrow> (string \<times> string option) option) \<Rightarrow> string \<Rightarrow> string option" where
  "getConnectionDetailsFromURL regex_search url =
     (case regex_search url of
        None \<Rightarrow> None
      | Some (m1, m4) \<Rightarrow> Some (case m4 of Some p \<Rightarrow> m1 @ '':'' @ p | None \<Rightarrow> m1))"

subsection \<open>Log features\<close>

text \<open>One \<open>FEATURE=LEVEL\<close> piece; \<open>None\<close> where the code logs a warning and goes on.\<close>

definition parse_feature :: "(string \<Rightarrow> LogFeature option) \<Rightarrow> string \<Rightarrow> (LogFeature \<times> LogLevel) option" where
  "parse_feature enum_cast featureAndValue =
     (case find_if (\<lambda>c. c = CHR ''='') featureAndValue of
        None \<Rightarrow> None
      | Some pos \<Rightarrow>
          (case bind_result (parseLogLevel (drop (pos + 1) featureAndValue)) (\<lambda>level.
                 bind_result (parseLogFeature enum_cast (take pos featureAndValue)) (\<lambda>feature. Inr (feature, level))) of
             Inr fl \<Rightarrow> Some fl
           | Inl _ \<Rightarrow> None))"

fun add_features ::
  "(string \<Rightarrow> LogFeature option) \<Rightarrow> string list \<Rightarrow> (LogFeature, LogLevel) umap \<Rightarrow> (LogFeature, LogLevel) umap" where
  "add_features enum_cast [] features = features"
| "add_features enum_cast (p # ps) features =
     add_features enum_cast ps
       (case parse_feature enum_cast p of
          None \<Rightarrow> features
        | Some (feature, level) \<Rightarrow> um_emplace feature level features)"

definition parseLogFeatures :: "(string \<Rightarrow> LogFeature option) \<Rightarrow> string \<Rightarrow> (LogFeature, LogLevel) umap" where
  "parseLogFeatures enum_cast logFeatures =
     (if logFeatures = [] then [] else add_features enum_cast (split_on (CHR '','') logFeatures) [])"

subsection \<open>Percent encoding\<close>

definition hex_value :: "char \<Rightarrow> nat" where
  "hex_value c = (if isdigit c then byte_of c - 48 else if byte_of c \<ge> 97 then byte_of c - 87 else byte_of c - 55)"

fun percentDecode :: "string \<Rightarrow> string" where
  "percentDecode (c # h1 # h2 # r) =
     (if c = CHR ''%'' \<and> isxdigit h1 \<and> isxdigit h2
      then char_of (16 * hex_value h1 + hex_value h2) # percentDecode r
      else c # percentDecode (h1 # h2 # r))"
| "percentDecode (c # s) = c # percentDecode s"
| "percentDecode [] = []"

text \<open>An encoder to measure it against: every byte it is told to keep stays, the others become \<open>%XX\<close>.\<close>

definition hex_char :: "nat \<Rightarrow> char" where
  "hex_char n = (if n < 10 then char_of (n + 48) else char_of (n + 55))"

definition percent_encode :: "(char \<Rightarrow> bool) \<Rightarrow> string \<Rightarrow> string" where
  "percent_encode keep s =
     concat (map (\<lambda>c. if keep c then [c] else [CHR ''%'', hex_char (byte_of c div 16), hex_char (byte_of c mod 16)]) s)"

lemma hex_char_value: "n < 16 \<Longrightarrow> hex_value (hex_char n) = n \<and> isxdigit (hex_char n)"
  by (auto simp: hex_value_def hex_char_def isxdigit_def isdigit_def of_char_of)

lemma percentDecode_not_percent: "c \<noteq> CHR ''%'' \<Longrightarrow> percentDecode (c # s) = c # percentDecode s"
  by (cases s; cases "tl s") auto

lemma percentDecode_encode:
  assumes "\<not> keep (CHR ''%'')"
  shows "percentDecode (percent_encode keep s) = s"
proof (induction s)
  case (Cons c s)
  have "byte_of c div 16 < 16" "byte_of c mod 16 < 16"
    using code_less_256 [of c] by (auto simp del: code_less_256)
  then have "char_of (16 * hex_value (hex_char (byte_of c div 16)) + hex_value (hex_char (byte_of c mod 16))) = c"
    by (simp add: hex_char_value)
  moreover have "keep c \<Longrightarrow> c \<noteq> CHR ''%''" using assms by auto
  ultimately show ?case
    using Cons assms \<open>byte_of c div 16 < 16\<close> \<open>byte_of c mod 16 < 16\<close>
    by (auto simp: percent_encode_def hex_char_value percentDecode_not_percent)
qed (simp add: percent_encode_def)

lemma percentDecode_length: "length (percentDecode s) \<le> length s"
  by (induction s rule: percentDecode.induct) auto

function parse_kv_loop :: "string \<Rightarrow> (string \<times> string) list \<Rightarrow> (string \<times> string) list" where
  "parse_kv_loop input result =
     (if input = [] then result
      else
        let commaPos = find_if (\<lambda>c. c = CHR '','') input;
            pair = (case commaPos of None \<Rightarrow> input | Some p \<Rightarrow> take p input);
            result' = (case find_if (\<lambda>c. c = CHR ''='') pair of
                         None \<Rightarrow> result
                       | Some e \<Rightarrow> map_insert (take e pair) (percentDecode (drop (e + 1) pair)) result)
        in case commaPos of
             None \<Rightarrow> result'
           | Some p \<Rightarrow> parse_kv_loop (drop (p + 1) input) result')"
  by pat_completeness auto
termination by (relation "measure (\<lambda>(input, _). length input)") auto

declare parse_kv_loop.simps [simp del]

definition parseUrlEncodedKeyValueString :: "string \<Rightarrow> (string \<times> string) list" where
  "parseUrlEncodedKeyValueString input = parse_kv_loop input []"

text \<open>The pairs of the pieces between commas, in order; of equal keys the first one counts.\<close>

definition kv_piece :: "string \<Rightarrow> (string \<times> string) option" where
  "kv_piece p = map_option (\<lambda>e. (take e p, percentDecode (drop (e + 1) p))) (find_if (\<lambda>c. c = CHR ''='') p)"

fun insert_pieces :: "string list \<Rightarrow> (string \<times> string) list \<Rightarrow> (string \<times> string) list" where
  "insert_pieces [] m = m"
| "insert_pieces (p # ps) m =
     insert_pieces ps (case kv_piece p of None \<Rightarrow> m | Some (k, v) \<Rightarrow> map_insert k v m)"

lemma split_on_find:
  "split_on d s = (case find_if (\<lambda>c. c = d) s of None \<Rightarrow> [s] | Some p \<Rightarrow> take p s # split_on d (drop (p + 1) s))"
proof (cases "find_if (\<lambda>c. c = d) s")
  case None
  then have "d \<notin> set s" by (auto simp: find_if_None_iff)
  with None show ?thesis by (simp add: split_on_no_delim)
next
  case (Some p)
  have "d \<notin> set (take p s)"
    using take_find_if [OF Some] by (auto dest: set_takeWhileD)
  moreover have "s = take p s @ d # drop (p + 1) s"
  proof -
    have p: "p = length (takeWhile (\<lambda>x. x \<noteq> d) s)" and d: "d \<in> set s"
      using Some by (auto simp: find_if_takeWhile split: if_splits)
    have "length (takeWhile (\<lambda>x. x \<noteq> d) s) < length s"
    proof -
      have "takeWhile (\<lambda>x. x \<noteq> d) s \<noteq> s" using d by (auto simp: takeWhile_eq_all_conv)
      then show ?thesis
        by (metis le_neq_implies_less length_takeWhile_le take_all_iff takeWhile_eq_take order_refl)
    qed
    then show ?thesis
      using nth_length_takeWhile [of "\<lambda>x. x \<noteq> d" s] id_take_nth_drop [of p s] p by simp
  qed
  ultimately show ?thesis
    using Some split_on_append by (metis option.case(2))
qed

lemma parse_kv_loop_pieces: "parse_kv_loop input m = insert_pieces (split_on (CHR '','') input) m"
proof (induction input m rule: parse_kv_loop.induct)
  case (1 input m)
  show ?case
  proof (cases "input = []")
    case True
    then show ?thesis by (simp add: parse_kv_loop.simps kv_piece_def)
  next
    case False
    then show ?thesis
      using 1 [OF False refl refl refl]
      by (subst parse_kv_loop.simps, subst split_on_find)
         (auto simp: Let_def kv_piece_def split: option.splits)
  qed
qed

lemma insert_pieces_wf: "map_wf m \<Longrightarrow> map_wf (insert_pieces ps m)"
  by (induction ps m rule: insert_pieces.induct) (auto simp: keeps split: option.splits)

lemma map_of_insert_pieces:
  "map_wf m \<Longrightarrow> map_of (insert_pieces ps m) = map_of (List.map_filter kv_piece ps) ++ map_of m"
proof (induction ps m rule: insert_pieces.induct)
  case (2 p ps m)
  then show ?case
    by (cases "kv_piece p")
       (auto simp: keeps umap_simps map_filter_simps fun_eq_iff map_add_def split: option.splits)
qed (simp add: map_filter_simps)

definition kv_text :: "(char \<Rightarrow> bool) \<Rightarrow> (string \<times> string) list \<Rightarrow> string" where
  "kv_text keep kvs = join_with (CHR '','') (map (\<lambda>(k, v). k @ CHR ''='' # percent_encode keep v) kvs)"

lemma kv_piece_pair: "CHR ''='' \<notin> set k \<Longrightarrow> kv_piece (k @ CHR ''='' # v) = Some (k, percentDecode v)"
  by (simp add: kv_piece_def find_if_takeWhile takeWhile_append)

lemma set_percent_encode:
  "c \<in> set (percent_encode keep s) \<Longrightarrow> keep c \<or> c = CHR ''%'' \<or> isxdigit c"
proof -
  have "isxdigit (hex_char (byte_of d div 16))" "isxdigit (hex_char (byte_of d mod 16))" for d
    using hex_char_value code_less_256 [of d] by (auto simp del: code_less_256)
  then show "c \<in> set (percent_encode keep s) \<Longrightarrow> ?thesis"
    by (auto simp: percent_encode_def split: if_splits)
qed

text \<open>
  A list of pairs written as \<open>key=value\<close> with percent-encoded values and joined by commas is read
  back by \<open>parseUrlEncodedKeyValueString\<close> as the map of those pairs, the first of equal keys
  counting, in strictly ascending key order.
\<close>

theorem parseUrlEncodedKeyValueString_roundtrip:
  assumes "\<not> keep (CHR ''%'')" and "\<not> keep (CHR '','')"
    and "\<forall>(k, v) \<in> set kvs. CHR '','' \<notin> set k \<and> CHR ''='' \<notin> set k"
  shows "map_of (parseUrlEncodedKeyValueString (kv_text keep kvs)) = map_of kvs
    \<and> map_wf (parseUrlEncodedKeyValueString (kv_text keep kvs))"
proof (cases "kvs = []")
  case True
  then show ?thesis
    by (simp add: kv_text_def parseUrlEncodedKeyValueString_def parse_kv_loop.simps)
next
  case False
  let ?ps = "map (\<lambda>(k, v). k @ CHR ''='' # percent_encode keep v) kvs"
  have "\<not> isxdigit (CHR '','')" by code_simp
  then have "CHR '','' \<notin> set (percent_encode keep v)" for v
    using assms(2) set_percent_encode [of "CHR '',''" keep v] by auto
  then have "split_on (CHR '','') (kv_text keep kvs) = ?ps"
    unfolding kv_text_def using False assms(3) by (intro split_on_join) auto
  moreover have "List.map_filter kv_piece ?ps = kvs"
    using assms(3) percentDecode_encode [of keep] assms(1)
    by (induction kvs) (auto simp: map_filter_simps kv_piece_pair)
  ultimately show ?thesis
    by (simp add: parseUrlEncodedKeyValueString_def parse_kv_loop_pieces map_of_insert_pieces insert_pieces_wf)
qed

subsection \<open>Log features, as text and back\<close>

text \<open>What \<open>magic_enum::enum_cast\<close> documents for a case-insensitive cast.\<close>

definition enum_cast_ci :: "(string \<Rightarrow> LogFeature option) \<Rightarrow> bool" where
  "enum_cast_ci ec \<longleftrightarrow> (\<forall>s f. ec s = Some f \<longleftrightarrow> istring_eq s (feature_name f))"

definition features_text :: "(LogFeature \<times> LogLevel) list \<Rightarrow> string" where
  "features_text fls =
     join_with (CHR '','') (map (\<lambda>(f, l). feature_name f @ CHR ''='' # getLogLevelName (level_value l)) fls)"

lemma parseLogLevel_name: "parseLogLevel (getLogLevelName (level_value l)) = Inr l"
proof -
  have "\<forall>l \<in> set all_levels. parseLogLevel (getLogLevelName (level_value l)) = Inr l"
    by code_simp
  then show ?thesis by (simp add: all_levels_UNIV)
qed

lemma level_name_chars: "CHR '','' \<notin> set (getLogLevelName (level_value l))"
  by (cases l) (simp_all add: getLogLevelName_def logLevelNames_def)

lemma feature_name_chars: "CHR '','' \<notin> set (feature_name f) \<and> CHR ''='' \<notin> set (feature_name f)"
  by (cases f) simp_all

lemma parse_feature_text:
  assumes "enum_cast_ci ec"
  shows "parse_feature ec (feature_name f @ CHR ''='' # getLogLevelName (level_value l)) = Some (f, l)"
proof -
  have "ec (feature_name f) = Some f" using assms by (simp add: enum_cast_ci_def)
  moreover have "find_if (\<lambda>c. c = CHR ''='') (feature_name f @ CHR ''='' # r) = Some (length (feature_name f))" for r
    using feature_name_chars [of f] by (auto simp: find_if_takeWhile takeWhile_append)
  ultimately show ?thesis
    by (simp add: parse_feature_def parseLogLevel_name parseLogFeature_def)
qed

lemma um_wf_add_features: "um_wf m \<Longrightarrow> um_wf (add_features ec ps m)"
  by (induction ec ps m rule: add_features.induct) (auto simp: keeps split: option.splits)

lemma map_of_add_features:
  "map_of (add_features ec ps m) = map_of (List.map_filter (parse_feature ec) ps) ++ map_of m"
proof (induction ec ps m rule: add_features.induct)
  case (2 ec p ps m)
  then show ?case
    by (cases "parse_feature ec p")
       (auto simp: umap_simps map_filter_simps fun_eq_iff map_add_def split: option.splits)
qed (simp add: map_filter_simps)

text \<open>
  A list of log features and levels written as \<open>FEATURE=LEVEL\<close> and joined by commas is read back by
  \<open>parseLogFeatures\<close> as the map of those settings, the first of equal features counting.
\<close>

theorem parseLogFeatures_text:
  assumes "enum_cast_ci ec"
  shows "map_of (parseLogFeatures ec (features_text fls)) = map_of fls \<and> um_wf (parseLogFeatures ec (features_text fls))"
proof (cases fls)
  case Nil
  then show ?thesis by (simp add: features_text_def parseLogFeatures_def)
next
  case (Cons fl r)
  let ?ps = "map (\<lambda>(f, l). feature_name f @ CHR ''='' # getLogLevelName (level_value l)) fls"
  have "split_on (CHR '','') (features_text fls) = ?ps"
    unfolding features_text_def
    using Cons feature_name_chars level_name_chars by (intro split_on_join) auto
  moreover have "List.map_filter (parse_feature ec) ?ps = fls"
    by (induction fls) (auto simp: map_filter_simps parse_feature_text [OF assms])
  moreover have "features_text fls \<noteq> []"
  proof
    assume "features_text fls = []"
    then have "?ps = [[]]" using calculation(1) by simp
    then show False by (cases fls) auto
  qed
  ultimately show ?thesis
    by (simp add: parseLogFeatures_def map_of_add_features um_wf_add_features)
qed

subsection \<open>Concrete runs\<close>

lemma parseByteUnits_value_witness: "parseByteUnits '' 1 6 Mb '' = Inr (of_nat (16 * 2 ^ 20))"
proof -
  have "filter (\<lambda>c. \<not> isspace c) '' 1 6 Mb '' = ''16'' @ ''Mb''" by code_simp
  then have "parseByteUnits '' 1 6 Mb '' = (if decimal_value ''16'' \<ge> 2 ^ 64 then Inl (Out_of_range ''stoul'')
     else (case byte_unit ''Mb'' of
             None \<Rightarrow> Inl (Invalid_argument ''Invalid byte unit.'')
           | Some k \<Rightarrow> Inr (of_nat (decimal_value ''16'' * k))))"
    by (rule parseByteUnits_value) (simp_all add: isdigit_def)
  moreover have "decimal_value ''16'' = 16" by (simp add: decimal_value_def digit_value_def)
  moreover have "byte_unit ''Mb'' = Some (2 ^ 20)"
  proof -
    have "map toupper ''Mb'' = ''MB''" by code_simp
    then show ?thesis by (simp only: byte_unit_def) simp
  qed
  ultimately show ?thesis by simp
qed

lemma parseUrlEncodedKeyValueString_witness:
  "map_of (parseUrlEncodedKeyValueString (kv_text isalpha [(''a'', ''b c''), (''k'', ''v'')])) ''a'' = Some ''b c''"
  using parseUrlEncodedKeyValueString_roundtrip [of isalpha "[(''a'', ''b c''), (''k'', ''v'')]"]
  by (simp add: isalpha_def)

lemma parseLogFeatures_text_witness:
  "map_of (parseLogFeatures (\<lambda>s. find (\<lambda>f. istring_eq s (feature_name f)) all_features)
     (features_text [(OPAMP, logLevel_debug), (FEATURE_ALL, logLevel_info)])) OPAMP = Some logLevel_debug"
proof -
  have "enum_cast_ci (\<lambda>s. find (\<lambda>f. istring_eq s (feature_name f)) all_features)"
  proof -
    have up: "map toupper (feature_name f) = feature_name f" for f
    proof -
      have "\<forall>f \<in> set all_features. map toupper (feature_name f) = feature_name f" by code_simp
      moreover have "f \<in> set all_features" by (cases f) (simp_all add: all_features_def)
      ultimately show ?thesis by blast
    qed
    have "find (\<lambda>f. u = feature_name f) all_features = Some f \<longleftrightarrow> u = feature_name f" for u f
      by (cases f) (auto simp: all_features_def)
    then show ?thesis by (simp add: enum_cast_ci_def istring_eq_iff up)
  qed
  from parseLogFeatures_text [OF this, of "[(OPAMP, logLevel_debug), (FEATURE_ALL, logLevel_info)]"] show ?thesis by simp
qed

end
