(* ===== verification/Utf8.thy ===== *)
theory Utf8
  imports CxxStd
begin

text \<open>
  The UTF-8 check of \<open>CommonUtils.cpp\<close> and its specification: the strings it accepts are the
  concatenations of UTF-8 encodings of Unicode scalar values. Bytes are integers from 0 to 255.
\<close>

unbundle bit_operations_syntax

subsection \<open>The validator\<close>

definition utf8_table :: "nat list" where
  "utf8_table = replicate 32 1 @ replicate 16 2 @ replicate 8 3"

fun utf8_loop :: "int list \<Rightarrow> bool" where
  "utf8_loop [] = True"
| "utf8_loop (c # p) =
     (if c < 0x80 then utf8_loop p
      else if c < 0xC0 \<or> c \<ge> 0xF5 then False
      else
        let ab = utf8_table ! nat (c AND 0x3F)
        in if length p < ab then False
           else
             let d = p ! 0
             in if d AND 0xC0 \<noteq> 0x80 then False
                else if ab = 1 then
                  (if c AND 0x3E = 0 then False else utf8_loop (drop 1 p))
                else if ab = 2 then
                  (if p ! 1 AND 0xC0 \<noteq> 0x80 \<or> (c = 0xE0 \<and> d AND 0x20 = 0) \<or> (c = 0xED \<and> d \<ge> 0xA0)
                   then False else utf8_loop (drop 2 p))
                else if ab = 3 then
                  (if p ! 1 AND 0xC0 \<noteq> 0x80 \<or> p ! 2 AND 0xC0 \<noteq> 0x80 \<or> (c = 0xF0 \<and> d AND 0x30 = 0)
                      \<or> (c > 0xF4 \<or> (c = 0xF4 \<and> d > 0x8F))
                   then False else utf8_loop (drop 3 p))
                else utf8_loop (drop 1 p))"

definition isUtf8 :: "string \<Rightarrow> bool" where
  "isUtf8 input = utf8_loop (map of_char input)"

subsection \<open>The encoding\<close>

definition unicode_scalar :: "int \<Rightarrow> bool" where
  "unicode_scalar n \<longleftrightarrow> (0 \<le> n \<and> n < 0xD800) \<or> (0xE000 \<le> n \<and> n \<le> 0x10FFFF)"

definition utf8_encode :: "int \<Rightarrow> int list" where
  "utf8_encode n =
     (if n < 0x80 then [n]
      else if n < 0x800 then [0xC0 + n div 64, 0x80 + n mod 64]
      else if n < 0x10000 then [0xE0 + n div 4096, 0x80 + n div 64 mod 64, 0x80 + n mod 64]
      else [0xF0 + n div 262144, 0x80 + n div 4096 mod 64, 0x80 + n div 64 mod 64, 0x80 + n mod 64])"

abbreviation cont :: "int \<Rightarrow> bool" where
  "cont d \<equiv> 0x80 \<le> d \<and> d < 0xC0"

text \<open>The masks of the code on single bytes, checked on all of them.\<close>

lemma byte_masks:
  assumes "0 \<le> (d :: int)" and "d < 256"
  shows "d AND 0xC0 = 0x80 \<longleftrightarrow> cont d"
    and "cont d \<Longrightarrow> d AND 0x20 = 0 \<longleftrightarrow> d < 0xA0"
    and "cont d \<Longrightarrow> d AND 0x30 = 0 \<longleftrightarrow> d < 0x90"
    and "0xC0 \<le> d \<Longrightarrow> d < 0xE0 \<Longrightarrow> d AND 0x3E = 0 \<longleftrightarrow> d < 0xC2"
    and "0xC0 \<le> d \<Longrightarrow> d < 0xF5 \<Longrightarrow> d AND 0x3F = d - 0xC0"
proof -
  have "\<forall>d \<in> set [0..255]. (d AND 0xC0 = 0x80 \<longleftrightarrow> cont d)
      \<and> (cont d \<longrightarrow> (d AND 0x20 = 0 \<longleftrightarrow> d < 0xA0) \<and> (d AND 0x30 = 0 \<longleftrightarrow> d < 0x90))
      \<and> (0xC0 \<le> d \<and> d < 0xE0 \<longrightarrow> (d AND 0x3E = 0 \<longleftrightarrow> d < 0xC2))
      \<and> (0xC0 \<le> d \<and> d < 0xF5 \<longrightarrow> d AND 0x3F = d - 0xC0)"
    by code_simp
  moreover have "d \<in> set [0..255]" using assms by simp
  ultimately show "d AND 0xC0 = 0x80 \<longleftrightarrow> cont d"
    and "cont d \<Longrightarrow> d AND 0x20 = 0 \<longleftrightarrow> d < 0xA0"
    and "cont d \<Longrightarrow> d AND 0x30 = 0 \<longleftrightarrow> d < 0x90"
    and "0xC0 \<le> d \<Longrightarrow> d < 0xE0 \<Longrightarrow> d AND 0x3E = 0 \<longleftrightarrow> d < 0xC2"
    and "0xC0 \<le> d \<Longrightarrow> d < 0xF5 \<Longrightarrow> d AND 0x3F = d - 0xC0"
    by blast+
qed

lemma utf8_table_nth:
  "i < 32 \<Longrightarrow> utf8_table ! i = 1" "32 \<le> i \<Longrightarrow> i < 48 \<Longrightarrow> utf8_table ! i = 2"
  "48 \<le> i \<Longrightarrow> i < 56 \<Longrightarrow> utf8_table ! i = 3"
  by (simp_all add: utf8_table_def nth_append)

definition byte_list :: "int list \<Rightarrow> bool" where
  "byte_list bs \<longleftrightarrow> (\<forall>b \<in> set bs. 0 \<le> b \<and> b < 256)"

lemma utf8_loop_1: "c < 0x80 \<Longrightarrow> utf8_loop (c # p) = utf8_loop p"
  by simp

lemma utf8_loop_bad: "0x80 \<le> c \<Longrightarrow> c < 0xC0 \<or> c \<ge> 0xF5 \<Longrightarrow> \<not> utf8_loop (c # p)"
  by simp

declare utf8_loop.simps(2) [simp del]

lemma utf8_loop_2:
  assumes "byte_list (c # p)" and "0xC0 \<le> c" and "c < 0xE0"
  shows "utf8_loop (c # p) \<longleftrightarrow> (case p of d # r \<Rightarrow> cont d \<and> 0xC2 \<le> c \<and> utf8_loop r | [] \<Rightarrow> False)"
proof -
  have t: "utf8_table ! nat (c AND 0x3F) = 1"
    using assms by (simp add: byte_masks(5) byte_list_def utf8_table_nth)
  have e: "utf8_loop (c # p) \<longleftrightarrow> p \<noteq> [] \<and> p ! 0 AND 0xC0 = 0x80 \<and> c AND 0x3E \<noteq> 0 \<and> utf8_loop (drop 1 p)"
    using assms by (subst utf8_loop.simps) (auto simp: t Let_def)
  have b: "0 \<le> c" "c < 256" "\<And>d. d \<in> set p \<Longrightarrow> 0 \<le> d \<and> d < 256"
    using assms by (auto simp: byte_list_def)
  show ?thesis
  proof (cases p)
    case (Cons d r)
    then show ?thesis using e b assms(2,3) by (auto simp: byte_masks)
  next
    case Nil
    then show ?thesis unfolding e by simp
  qed
qed

lemma utf8_loop_3:
  assumes "byte_list (c # p)" and "0xE0 \<le> c" and "c < 0xF0"
  shows "utf8_loop (c # p) \<longleftrightarrow> (case p of d # e # r \<Rightarrow> cont d \<and> cont e \<and> (c = 0xE0 \<longrightarrow> 0xA0 \<le> d) \<and> (c = 0xED \<longrightarrow> d < 0xA0) \<and> utf8_loop r | _ \<Rightarrow> False)"
proof -
  have t: "utf8_table ! nat (c AND 0x3F) = 2"
    using assms by (simp add: byte_masks(5) byte_list_def utf8_table_nth)
  have e: "utf8_loop (c # p) \<longleftrightarrow> length p \<ge> 2 \<and> p ! 0 AND 0xC0 = 0x80 \<and> p ! 1 AND 0xC0 = 0x80 \<and> \<not> (c = 0xE0 \<and> p ! 0 AND 0x20 = 0) \<and> \<not> (c = 0xED \<and> p ! 0 \<ge> 0xA0) \<and> utf8_loop (drop 2 p)"
    using assms by (subst utf8_loop.simps) (auto simp: t Let_def)
  have b: "0 \<le> c" "c < 256" "\<And>d. d \<in> set p \<Longrightarrow> 0 \<le> d \<and> d < 256"
    using assms by (auto simp: byte_list_def)
  show ?thesis
  proof (cases "\<exists>d e r. p = d # e # r")
    case True
    then obtain d e r where p: "p = d # e # r" by blast
    have n: "p ! 0 = d" "p ! 1 = e" "drop 2 p = r" "length p \<ge> 2" by (simp_all add: p numeral_2_eq_2)
    show ?thesis using b(3) [of d] b(3) [of e] unfolding e n by (auto simp: p byte_masks)
  next
    case False
    then have "length p < 2" by (cases p; cases "tl p") auto
    moreover from False have "\<not> (case p of d # e # r \<Rightarrow> Q d e r | _ \<Rightarrow> False)" for Q by (auto split: list.split)
    ultimately show ?thesis unfolding e by (auto split: list.split)
  qed
qed

lemma utf8_loop_4:
  assumes "byte_list (c # p)" and "0xF0 \<le> c" and "c < 0xF5"
  shows "utf8_loop (c # p) \<longleftrightarrow> (case p of d # e # f # r \<Rightarrow> cont d \<and> cont e \<and> cont f \<and> (c = 0xF0 \<longrightarrow> 0x90 \<le> d) \<and> (c = 0xF4 \<longrightarrow> d < 0x90) \<and> utf8_loop r | _ \<Rightarrow> False)"
proof -
  have t: "utf8_table ! nat (c AND 0x3F) = 3"
    using assms by (simp add: byte_masks(5) byte_list_def utf8_table_nth)
  have e: "utf8_loop (c # p) \<longleftrightarrow> length p \<ge> 3 \<and> p ! 0 AND 0xC0 = 0x80 \<and> p ! 1 AND 0xC0 = 0x80 \<and> p ! 2 AND 0xC0 = 0x80 \<and> \<not> (c = 0xF0 \<and> p ! 0 AND 0x30 = 0) \<and> \<not> (c = 0xF4 \<and> p ! 0 > 0x8F) \<and> utf8_loop (drop 3 p)"
    using assms by (subst utf8_loop.simps) (auto simp: t Let_def)
  have b: "0 \<le> c" "c < 256" "\<And>d. d \<in> set p \<Longrightarrow> 0 \<le> d \<and> d < 256"
    using assms by (auto simp: byte_list_def)
  show ?thesis
  proof (cases "\<exists>d e f r. p = d # e # f # r")
    case True
    then obtain d e f r where p: "p = d # e # f # r" by blast
    have n: "p ! 0 = d" "p ! 1 = e" "p ! 2 = f" "drop 3 p = r" "length p \<ge> 3" by (simp_all add: p numeral_2_eq_2 numeral_3_eq_3)
    show ?thesis using b(3) [of d] b(3) [of e] b(3) [of f] assms(3) unfolding e n by (auto simp: p byte_masks)
  next
    case False
    then have "length p < 3" by (cases p; cases "tl p"; cases "tl (tl p)") auto
    moreover from False have "\<not> (case p of d # e # f # r \<Rightarrow> Q d e f r | _ \<Rightarrow> False)" for Q by (auto split: list.split)
    ultimately show ?thesis unfolding e by (auto split: list.split)
  qed
qed

lemma utf8_loop_Cons:
  assumes "byte_list (c # p)"
  shows "utf8_loop (c # p) \<longleftrightarrow>
    (if c < 0x80 then utf8_loop p
     else if c < 0xC2 then False
     else if c < 0xE0 then (case p of d # r \<Rightarrow> cont d \<and> utf8_loop r | [] \<Rightarrow> False)
     else if c < 0xF0 then (case p of d # e # r \<Rightarrow> cont d \<and> cont e \<and> (c = 0xE0 \<longrightarrow> 0xA0 \<le> d) \<and> (c = 0xED \<longrightarrow> d < 0xA0) \<and> utf8_loop r | _ \<Rightarrow> False)
     else if c < 0xF5 then (case p of d # e # f # r \<Rightarrow> cont d \<and> cont e \<and> cont f \<and> (c = 0xF0 \<longrightarrow> 0x90 \<le> d) \<and> (c = 0xF4 \<longrightarrow> d < 0x90) \<and> utf8_loop r | _ \<Rightarrow> False)
     else False)"
proof -
  consider "c < 0x80" | "0x80 \<le> c" "c < 0xC0" | "0xC0 \<le> c" "c < 0xC2" | "0xC2 \<le> c" "c < 0xE0"
    | "0xE0 \<le> c" "c < 0xF0" | "0xF0 \<le> c" "c < 0xF5" | "0xF5 \<le> c" by linarith
  then show ?thesis
    by cases (simp_all add: utf8_loop_1 utf8_loop_bad utf8_loop_2 [OF assms] utf8_loop_3 [OF assms] utf8_loop_4 [OF assms] split: list.split)
qed

lemma base64: "cont b \<Longrightarrow> (a * 64 + (b - 0x80)) div 64 = (a :: int)" "cont b \<Longrightarrow> (a * 64 + (b - 0x80)) mod 64 = b - 0x80"
  by simp_all

lemma encode_bytes: "unicode_scalar n \<Longrightarrow> byte_list (utf8_encode n)"
  by (auto simp: unicode_scalar_def utf8_encode_def byte_list_def)

lemma byte_list_append [simp]: "byte_list (a @ b) \<longleftrightarrow> byte_list a \<and> byte_list b"
  by (auto simp: byte_list_def)

lemma int_div_64_facts: "(m :: int) = 64 * (m div 64) + m mod 64" "0 \<le> m mod 64" "m mod 64 < 64"
  by simp_all

lemma utf8_loop_encode:
  assumes "unicode_scalar n" and "byte_list r"
  shows "utf8_loop (utf8_encode n @ r) = utf8_loop r"
proof -
  have b: "byte_list (utf8_encode n @ r)" using assms encode_bytes by simp
  have n: "0 \<le> n" "n < 0x110000" "n < 0xD800 \<or> 0xE000 \<le> n" using assms(1) by (auto simp: unicode_scalar_def)
  consider "n < 0x80" | "0x80 \<le> n" "n < 0x800" | "0x800 \<le> n" "n < 0x10000" | "0x10000 \<le> n" by linarith
  then show ?thesis
  proof cases
    case 1
    then show ?thesis using b by (simp add: utf8_encode_def utf8_loop_Cons)
  next
    case 2
    then have "2 \<le> n div 64" "n div 64 < 32" by auto
    then show ?thesis using 2 b by (simp add: utf8_encode_def utf8_loop_Cons)
  next
    case 3
    then have "0 \<le> n div 4096" "n div 4096 < 16" by auto
    moreover have "n div 4096 = 0 \<Longrightarrow> 32 \<le> n div 64 mod 64" "n div 4096 = 13 \<Longrightarrow> n div 64 mod 64 < 32"
    proof -
      have q: "n div 4096 = n div 64 div 64" by (simp add: div_mult2_eq [symmetric])
      have m: "32 \<le> n div 64" "n div 64 < 864 \<or> 896 \<le> n div 64" using 3 n(3) by auto
      show "n div 4096 = 0 \<Longrightarrow> 32 \<le> n div 64 mod 64" "n div 4096 = 13 \<Longrightarrow> n div 64 mod 64 < 32"
        unfolding q using m int_div_64_facts [of "n div 64"] by auto
    qed
    ultimately show ?thesis using 3 b by (simp add: utf8_encode_def utf8_loop_Cons)
  next
    case 4
    then have "0 \<le> n div 262144" "n div 262144 < 5" using n(2) by auto
    moreover have "n div 262144 = 0 \<Longrightarrow> 16 \<le> n div 4096 mod 64" "n div 262144 = 4 \<Longrightarrow> n div 4096 mod 64 < 16"
    proof -
      have q: "n div 262144 = n div 4096 div 64" by (simp add: div_mult2_eq [symmetric])
      have m: "16 \<le> n div 4096" "n div 4096 < 272" using 4 n(2) by auto
      show "n div 262144 = 0 \<Longrightarrow> 16 \<le> n div 4096 mod 64" "n div 262144 = 4 \<Longrightarrow> n div 4096 mod 64 < 16"
        unfolding q using m int_div_64_facts [of "n div 4096"] by auto
    qed
    ultimately show ?thesis using 4 b by (simp add: utf8_encode_def utf8_loop_Cons)
  qed
qed

lemma utf8_loop_decode:
  assumes "utf8_loop bs" and "byte_list bs" and "bs \<noteq> []"
  shows "\<exists>n r. unicode_scalar n \<and> bs = utf8_encode n @ r \<and> utf8_loop r"
proof -
  obtain c p where bs: "bs = c # p" using assms(3) by (cases bs) auto
  have c: "0 \<le> c" using assms(2) by (simp add: bs byte_list_def)
  note l = assms(1) [unfolded bs utf8_loop_Cons [OF assms(2) [unfolded bs]]]
  consider "c < 0x80" | "0xC2 \<le> c" "c < 0xE0" | "0xE0 \<le> c" "c < 0xF0" | "0xF0 \<le> c" "c < 0xF5"
    using l by (auto split: if_splits)
  then show ?thesis
  proof cases
    case 1
    then have "unicode_scalar c \<and> bs = utf8_encode c @ p \<and> utf8_loop p"
      using l c by (simp add: bs utf8_encode_def unicode_scalar_def)
    then show ?thesis by blast
  next
    case 2
    then obtain d r where p: "p = d # r" "cont d" "utf8_loop r" using l by (auto split: list.splits)
    define n where "n = (c - 0xC0) * 64 + (d - 0x80)"
    have "n div 64 = c - 0xC0" "n mod 64 = d - 0x80"
      unfolding n_def by (rule base64 [OF p(2)])+
    moreover have "0x80 \<le> n" "n < 0x800"
      unfolding n_def using 2 p(2) by auto
    ultimately have "unicode_scalar n \<and> bs = utf8_encode n @ r \<and> utf8_loop r"
      using p by (simp add: bs utf8_encode_def unicode_scalar_def)
    then show ?thesis by blast
  next
    case 3
    then obtain d e r where p: "p = d # e # r" "cont d" "cont e" "c = 0xE0 \<longrightarrow> 0xA0 \<le> d" "c = 0xED \<longrightarrow> d < 0xA0" "utf8_loop r"
      using l by (auto split: list.splits)
    define n where "n = ((c - 0xE0) * 64 + (d - 0x80)) * 64 + (e - 0x80)"
    have 64: "n div 64 = (c - 0xE0) * 64 + (d - 0x80)" "n mod 64 = e - 0x80"
      unfolding n_def by (rule base64 [OF p(3)])+
    have "n div 4096 = n div 64 div 64" by (simp add: div_mult2_eq [symmetric])
    then have "n div 4096 = c - 0xE0" "n div 64 mod 64 = d - 0x80"
      unfolding 64 by (simp_all only: base64 [OF p(2)])
    moreover have "0x800 \<le> n \<and> n < 0x10000 \<and> (n < 0xD800 \<or> 0xE000 \<le> n)"
    proof -
      consider "c = 0xE0" "0xA0 \<le> d" | "0xE0 < c" "c < 0xED" | "c = 0xED" "d < 0xA0" | "0xED < c"
        using 3(1) p(4,5) by linarith
      then show ?thesis
        by cases (use 3 p(2,3) in \<open>simp_all add: n_def\<close>)
    qed
    ultimately have "unicode_scalar n \<and> bs = utf8_encode n @ r \<and> utf8_loop r"
      using p 64 by (simp add: bs utf8_encode_def unicode_scalar_def)
    then show ?thesis by blast
  next
    case 4
    then obtain d e f r where p: "p = d # e # f # r" "cont d" "cont e" "cont f" "c = 0xF0 \<longrightarrow> 0x90 \<le> d" "c = 0xF4 \<longrightarrow> d < 0x90" "utf8_loop r"
      using l by (auto split: list.splits)
    define n where "n = (((c - 0xF0) * 64 + (d - 0x80)) * 64 + (e - 0x80)) * 64 + (f - 0x80)"
    have 64: "n div 64 = ((c - 0xF0) * 64 + (d - 0x80)) * 64 + (e - 0x80)" "n mod 64 = f - 0x80"
      unfolding n_def by (rule base64 [OF p(4)])+
    have "n div 4096 = n div 64 div 64" by (simp add: div_mult2_eq [symmetric])
    then have 4096: "n div 4096 = (c - 0xF0) * 64 + (d - 0x80)" "n div 64 mod 64 = e - 0x80"
      unfolding 64 by (simp_all only: base64 [OF p(3)])
    have "n div 262144 = n div 4096 div 64" by (simp add: div_mult2_eq [symmetric])
    then have "n div 262144 = c - 0xF0" "n div 4096 mod 64 = d - 0x80"
      unfolding 4096 by (simp_all only: base64 [OF p(2)])
    moreover have "0x10000 \<le> n \<and> n < 0x110000"
    proof -
      consider "c = 0xF0" "0x90 \<le> d" | "0xF0 < c" "c < 0xF4" | "c = 0xF4" "d < 0x90"
        using 4 p(5,6) by linarith
      then show ?thesis
        by cases (use 4 p(2-4) in \<open>simp_all add: n_def\<close>)
    qed
    ultimately have "unicode_scalar n \<and> bs = utf8_encode n @ r \<and> utf8_loop r"
      using p 64 4096 by (simp add: bs utf8_encode_def unicode_scalar_def)
    then show ?thesis by blast
  qed
qed

lemma utf8_encode_nonempty: "utf8_encode n \<noteq> []"
  by (simp add: utf8_encode_def)

lemma utf8_loop_iff:
  "byte_list bs \<Longrightarrow> utf8_loop bs \<longleftrightarrow> (\<exists>ns. list_all unicode_scalar ns \<and> bs = concat (map utf8_encode ns))"
proof (induction bs rule: length_induct)
  case (1 bs)
  show ?case
  proof
    assume l: "utf8_loop bs"
    show "\<exists>ns. list_all unicode_scalar ns \<and> bs = concat (map utf8_encode ns)"
    proof (cases "bs = []")
      case True
      then show ?thesis by (intro exI [of _ "[]"]) simp
    next
      case False
      then obtain n r where n: "unicode_scalar n" "bs = utf8_encode n @ r" "utf8_loop r"
        using utf8_loop_decode l 1(2) by blast
      moreover have "byte_list r" "length r < length bs" using 1(2) n(2) utf8_encode_nonempty by auto
      ultimately obtain ns where "list_all unicode_scalar ns" "r = concat (map utf8_encode ns)"
        using 1(1) by blast
      then show ?thesis using n by (intro exI [of _ "n # ns"]) simp
    qed
  next
    assume "\<exists>ns. list_all unicode_scalar ns \<and> bs = concat (map utf8_encode ns)"
    then obtain ns where ns: "list_all unicode_scalar ns" "bs = concat (map utf8_encode ns)" by blast
    have "utf8_loop (concat (map utf8_encode ns)) \<and> byte_list (concat (map utf8_encode ns))" using ns(1)
      by (induction ns) (auto simp: utf8_loop_encode encode_bytes byte_list_def [of "[]"])
    with ns(2) show "utf8_loop bs" by simp
  qed
qed

text \<open>
  C39. \<open>isUtf8\<close> accepts exactly the byte strings that are the UTF-8 encoding of a sequence of Unicode
  scalar values: no overlong forms, no surrogates, nothing above \<open>0x10FFFF\<close>, nothing truncated.
\<close>

theorem isUtf8_iff:
  "isUtf8 s \<longleftrightarrow> (\<exists>ns. list_all unicode_scalar ns \<and> map of_char s = concat (map utf8_encode ns))"
proof -
  have "(of_char c :: int) < 256 \<and> 0 \<le> (of_char c :: int)" for c
  proof -
    have "int (byte_of c) = of_char c" by (rule of_nat_of_char)
    then show ?thesis using code_less_256 [of c] by linarith
  qed
  then have "byte_list (map of_char s)" by (auto simp: byte_list_def)
  then show ?thesis by (simp add: isUtf8_def utf8_loop_iff)
qed

end
