(* ===== verification/Durations.thy ===== *)
theory Durations
  imports CxxStd
begin

text \<open>
  \<open>convertDurationWithUnit\<close> of \<open>CommonUtils.cpp\<close>. The function computes in \<open>double\<close>, so the
  rounding of IEEE binary64 is part of the model: a finite double is \<open>m * 2 ^ e\<close>, \<open>to_double a b\<close>
  the double nearest to \<open>a / b\<close> (ties to even). \<open>stod\<close> reads what \<open>std::strtod\<close> accepts: decimal
  and hexadecimal numbers, infinities and NaNs; an overflow and an inexact result below the normal
  range are \<open>std::out_of_range\<close>. Signs are read and dropped: no text with a sign has a valid unit.
\<close>

subsection \<open>Binary64\<close>

type_synonym dbl = "int \<times> int"

function bit_length :: "int \<Rightarrow> int" where
  "bit_length a = (if a \<le> 0 then 0 else bit_length (a div 2) + 1)"
  by pat_completeness auto
termination by (relation "measure nat") auto

declare bit_length.simps [simp del]

definition div_even :: "int \<Rightarrow> int \<Rightarrow> int" where
  "div_even n d =
     (let q = n div d; r = n mod d in if 2 * r < d \<or> (2 * r = d \<and> even q) then q else q + 1)"

definition scaled :: "int \<Rightarrow> int \<Rightarrow> int \<Rightarrow> int \<times> int" where
  "scaled a b e = (if e \<ge> 0 then (a, b * 2 ^ nat e) else (a * 2 ^ nat (- e), b))"

text \<open>The exponent of the last place of \<open>a / b\<close>: 53 significant bits, but not below \<open>-1074\<close>.\<close>

definition ulp_exponent :: "int \<Rightarrow> int \<Rightarrow> int" where
  "ulp_exponent a b =
     (let e = bit_length a - bit_length b - 53;
          (n, d) = scaled a b e
      in max (- 1074) (if n \<ge> d * 2 ^ 53 then e + 1 else e))"

definition to_double :: "int \<Rightarrow> int \<Rightarrow> dbl" where
  "to_double a b =
     (if a = 0 then (0, 0)
      else let e = ulp_exponent a b; (n, d) = scaled a b e in (div_even n d, e))"

definition times_double :: "dbl \<Rightarrow> int \<Rightarrow> dbl" where
  "times_double x k =
     (case x of (m, e) \<Rightarrow> if e \<ge> 0 then to_double (m * k * 2 ^ nat e) 1 else to_double (m * k) (2 ^ nat (- e)))"

definition trunc_double :: "dbl \<Rightarrow> int" where
  "trunc_double x = (case x of (m, e) \<Rightarrow> if e \<ge> 0 then m * 2 ^ nat e else m div 2 ^ nat (- e))"

definition too_large :: "dbl \<Rightarrow> bool" where
  "too_large x \<longleftrightarrow> trunc_double x \<ge> 2 ^ 1024"

definition tiny_inexact :: "int \<Rightarrow> int \<Rightarrow> bool" where
  "tiny_inexact a b \<longleftrightarrow> a > 0 \<and> a * 2 ^ 1022 < b \<and> (a * 2 ^ 1074) mod b \<noteq> 0"

subsection \<open>Reading a number\<close>

datatype number = Finite dbl | Not_finite

definition range_checked :: "int \<Rightarrow> int \<Rightarrow> number result" where
  "range_checked a b =
     (if too_large (to_double a b) \<or> tiny_inexact a b then Inl (Out_of_range ''stod'') else Inr (Finite (to_double a b)))"

definition istarts_with :: "string \<Rightarrow> string \<Rightarrow> bool" where
  "istarts_with p s \<longleftrightarrow> map toupper (take (length p) s) = map toupper p"

definition digits_value :: "int \<Rightarrow> (char \<Rightarrow> int) \<Rightarrow> string \<Rightarrow> int" where
  "digits_value base val s = foldl (\<lambda>a c. base * a + val c) 0 s"

definition decimal_int :: "string \<Rightarrow> int" where
  "decimal_int s = digits_value 10 (\<lambda>c. int (digit_value c)) s"

text \<open>The optional exponent after a mantissa: its mark, an optional sign and digits.\<close>

definition exponent_part :: "char \<Rightarrow> string \<Rightarrow> int" where
  "exponent_part mark s =
     (case s of [] \<Rightarrow> 0
      | c # r \<Rightarrow>
          (let (neg, t) = strip_sign r; ds = takeWhile isdigit t
           in if toupper c = mark \<and> ds \<noteq> [] then (if neg then - decimal_int ds else decimal_int ds) else 0))"

definition hex_digit_value :: "char \<Rightarrow> int" where
  "hex_digit_value c = int (if isdigit c then byte_of c - 48 else byte_of (toupper c) - 55)"

text \<open>Digits, an optional point and digits: integer part, fraction, rest.\<close>

definition mantissa :: "(char \<Rightarrow> bool) \<Rightarrow> string \<Rightarrow> string \<times> string \<times> string" where
  "mantissa isd s =
     (let i = takeWhile isd s; r = dropWhile isd s
      in case r of [] \<Rightarrow> (i, [], [])
         | c # t \<Rightarrow> if c = CHR ''.'' then (i, takeWhile isd t, dropWhile isd t) else (i, [], r))"

definition power_of :: "int \<Rightarrow> int \<Rightarrow> int \<times> int" where
  "power_of base e = (if e \<ge> 0 then (base ^ nat e, 1) else (1, base ^ nat (- e)))"

definition stod :: "string \<Rightarrow> number result" where
  "stod s =
     (let (neg, t) = strip_sign (dropWhile isspace (c_str s));
          (hi, hf, hr) = mantissa isxdigit (drop 2 t);
          (i, f, r) = mantissa isdigit t
      in if istarts_with ''inf'' t \<or> istarts_with ''nan'' t then Inr Not_finite
         else if istarts_with ''0x'' t \<and> (hi \<noteq> [] \<or> hf \<noteq> []) then
           (let (p, q) = power_of 2 (exponent_part (CHR ''P'') hr - 4 * int (length hf))
            in range_checked (digits_value 16 hex_digit_value (hi @ hf) * p) q)
         else if i = [] \<and> f = [] then Inl (Invalid_argument ''stod'')
         else
           (let (p, q) = power_of 10 (exponent_part (CHR ''E'') r - int (length f))
            in range_checked (decimal_int (i @ f) * p) q))"

subsection \<open>Durations\<close>

text \<open>The cast of the product to 64-bit milliseconds; out of range it is undefined.\<close>

definition to_milliseconds :: "number \<Rightarrow> int \<Rightarrow> ms result" where
  "to_milliseconds v factor =
     (case v of
        Not_finite \<Rightarrow> Inl (Undefined ''conversion to milliseconds'')
      | Finite d \<Rightarrow>
          (let n = trunc_double (if factor = 1 then d else times_double d factor)
           in if n \<ge> 2 ^ 63 then Inl (Undefined ''conversion to milliseconds'') else Inr n))"

definition convertDurationWithUnit :: "string \<Rightarrow> ms result" where
  "convertDurationWithUnit timeWithUnit =
     (let t = filter (\<lambda>c. \<not> isspace c) timeWithUnit
      in bind_result (stod t) (\<lambda>timeValue.
           case find_if (\<lambda>c. \<not> (isdigit c \<or> c = CHR ''.'')) t of
             None \<Rightarrow> to_milliseconds timeValue 1
           | Some unitPos \<Rightarrow>
               (let unit = drop unitPos t
                in if unit = ''ms'' then to_milliseconds timeValue 1
                   else if unit = ''s'' then to_milliseconds timeValue 1000
                   else if unit = ''m'' then to_milliseconds timeValue 60000
                   else Inl (Invalid_argument ''Invalid time unit.''))))"

subsection \<open>Exactness on whole numbers\<close>

lemma bit_length_double: "0 < a \<Longrightarrow> bit_length (2 * a) = bit_length a + 1"
  by (subst bit_length.simps) simp

lemma bit_length_shift: "0 < a \<Longrightarrow> bit_length (a * 2 ^ j) = bit_length a + int j"
  by (induction j) (simp_all add: bit_length_double mult.left_commute [of _ 2])

lemma bit_length_pos: "0 < a \<Longrightarrow> 1 \<le> bit_length a"
proof (induction a rule: bit_length.induct)
  case (1 a)
  then show ?case
    by (cases "a div 2 \<le> 0") (subst bit_length.simps, simp add: bit_length.simps [of "a div 2"])+
qed

lemma bit_length_le: "a < 2 ^ k \<Longrightarrow> bit_length a \<le> int k"
proof (induction k arbitrary: a)
  case 0
  then show ?case by (subst bit_length.simps) simp
next
  case (Suc k)
  then have "a div 2 < 2 ^ k" by simp
  with Suc.IH have "bit_length (a div 2) \<le> int k" .
  then show ?case by (subst bit_length.simps) simp
qed

lemma div_even_exact: "0 < d \<Longrightarrow> div_even (m * d) d = m"
  by (simp add: div_even_def)

lemma takeWhile_all_digits:
  "\<forall>c \<in> set ds. isdigit c \<Longrightarrow> u = [] \<or> \<not> isdigit (hd u) \<Longrightarrow> takeWhile isdigit (ds @ u) = ds \<and> dropWhile isdigit (ds @ u) = u"
  by (cases u) (auto simp: takeWhile_append dropWhile_append takeWhile_eq_all_conv dropWhile_eq_Nil_conv)

lemma to_double_exact:
  assumes "0 < m" and "m < 2 ^ 53"
  shows "\<exists>k. to_double (m * 2 ^ j) (2 ^ j) = (m * 2 ^ k, - int k)"
proof -
  have "bit_length m \<le> 53" using bit_length_le [of m 53] assms(2) by simp
  moreover have "1 \<le> bit_length m" by (rule bit_length_pos [OF assms(1)])
  moreover have "bit_length (2 ^ j) = 1 + int j"
    using bit_length_shift [of 1 j] by (simp add: bit_length.simps [of 1] bit_length.simps [of 0])
  ultimately obtain k where e: "ulp_exponent (m * 2 ^ j) (2 ^ j) = - int k"
  proof -
    assume that: "\<And>k. ulp_exponent (m * 2 ^ j) (2 ^ j) = - int k \<Longrightarrow> thesis"
    assume b: "bit_length m \<le> 53" "1 \<le> bit_length m" "bit_length (2 ^ j) = 1 + int j"
    have "ulp_exponent (m * 2 ^ j) (2 ^ j) \<le> 0"
      using b assms(1) by (auto simp: ulp_exponent_def bit_length_shift Let_def split: prod.split)
    then show thesis using that [of "nat (- ulp_exponent (m * 2 ^ j) (2 ^ j))"] by simp
  qed
  have "scaled (m * 2 ^ j) (2 ^ j) (- int k) = (m * 2 ^ k * 2 ^ j, 2 ^ j)"
    by (cases "k = 0") (simp_all add: scaled_def)
  then show ?thesis
    using assms(1) by (auto simp: to_double_def e Let_def div_even_exact intro!: exI [of _ k])
qed

lemma decimal_int_value: "decimal_int s = int (decimal_value s)"
proof -
  have "foldl (\<lambda>a c. 10 * a + int (digit_value c)) (int n) s = int (foldl (\<lambda>a c. 10 * a + digit_value c) n s)" for n
  proof (induction s arbitrary: n)
    case (Cons c s)
    then show ?case using Cons [of "10 * n + digit_value c"] by simp
  qed simp
  from this [of 0] show ?thesis by (simp add: decimal_int_def digits_value_def decimal_value_def)
qed

lemma times_double_exact:
  assumes "0 < m" and "0 < k" and "m * k < 2 ^ 53"
  shows "trunc_double (times_double (m * 2 ^ i, - int i) k) = m * k"
proof -
  have "0 < m * k" using assms(1,2) by simp
  then obtain l where "to_double (m * k * 2 ^ i) (2 ^ i) = (m * k * 2 ^ l, - int l)"
    using to_double_exact assms(3) by blast
  moreover have "times_double (m * 2 ^ i, - int i) k = to_double (m * k * 2 ^ i) (2 ^ i)"
    by (cases "i = 0") (simp_all add: times_double_def ac_simps)
  ultimately show ?thesis by (cases "l = 0") (simp_all add: trunc_double_def)
qed

lemma stod_digits:
  assumes ds: "\<forall>c \<in> set ds. isdigit c" "ds \<noteq> []" and n: "decimal_value ds < 2 ^ 53"
    and u: "u \<in> {[], ''ms'', ''s'', ''m''}"
  shows "\<exists>d. stod (ds @ u) = Inr (Finite d) \<and> trunc_double d = int (decimal_value ds) \<and>
    (\<forall>k. 0 < k \<longrightarrow> int (decimal_value ds) * k < 2 ^ 53 \<longrightarrow> trunc_double (times_double d k) = int (decimal_value ds) * k)"
proof -
  obtain d ds' where d: "ds = d # ds'" using ds(2) by (cases ds) auto
  have dd: "isdigit d" using ds(1) d by simp
  have not_letter: "toupper c \<noteq> CHR ''I'' \<and> toupper c \<noteq> CHR ''N'' \<and> toupper c \<noteq> CHR ''X''" if "isdigit c" for c
    using that by (auto simp: toupper_def isdigit_def)
  have c: "c_str (ds @ u) = ds @ u"
  proof -
    have "\<forall>c \<in> set (ds @ u). byte_of c \<noteq> 0" using ds(1) u by (auto simp: isdigit_def)
    then show ?thesis by (simp add: c_str_def takeWhile_eq_all_conv)
  qed
  have sp: "dropWhile isspace (ds @ u) = ds @ u" "strip_sign (ds @ u) = (False, ds @ u)"
    using digit_not_special [OF dd] by (simp_all add: d strip_sign_def)
  have up: "map toupper ''inf'' = ''INF''" "map toupper ''nan'' = ''NAN''" "map toupper ''0x'' = ''0X''" by code_simp+
  have ms_up: "toupper (CHR ''m'') = CHR ''M''" "toupper (CHR ''s'') = CHR ''S''" by code_simp+
  have special: "\<not> istarts_with ''inf'' (ds @ u)" "\<not> istarts_with ''nan'' (ds @ u)"
    unfolding istarts_with_def up using not_letter [OF dd] by (simp_all add: d)
  have "toupper c \<noteq> CHR ''X''" if "c \<in> set (ds' @ u)" for c
    using that u not_letter [of c] ds(1) d ms_up by auto
  then have hex: "\<not> istarts_with ''0x'' (ds @ u)"
    unfolding istarts_with_def up by (cases "ds' @ u") (auto simp: d)
  have "u = [] \<or> \<not> isdigit (hd u)" using u by (auto simp: isdigit_def)
  then have m: "mantissa isdigit (ds @ u) = (ds, [], u)"
    using takeWhile_all_digits [OF ds(1), of u] u by (auto simp: mantissa_def split: list.split)
  have e: "exponent_part (CHR ''E'') u = 0"
    using u ms_up by (auto simp: exponent_part_def strip_sign_def)
  have st: "stod (ds @ u) = range_checked (int (decimal_value ds)) 1"
    unfolding stod_def c sp Let_def prod.case m
    using special hex ds(2) by (simp add: case_prod_unfold e power_of_def decimal_int_value)
  show ?thesis
  proof (cases "decimal_value ds = 0")
    case True
    then show ?thesis
      by (intro exI [of _ "(0, 0)"])
         (simp add: st range_checked_def to_double_def too_large_def trunc_double_def tiny_inexact_def times_double_def)
  next
    case False
    then have pos: "0 < int (decimal_value ds)" "int (decimal_value ds) < 2 ^ 53" using n by simp_all
    obtain k where k: "to_double (int (decimal_value ds)) 1 = (int (decimal_value ds) * 2 ^ k, - int k)"
      using to_double_exact [OF pos, of 0] by auto
    have t: "trunc_double (int (decimal_value ds) * 2 ^ k, - int k) = int (decimal_value ds)"
      by (cases "k = 0") (simp_all add: trunc_double_def)
    have "range_checked (int (decimal_value ds)) 1 = Inr (Finite (int (decimal_value ds) * 2 ^ k, - int k))"
      using pos by (simp add: range_checked_def k too_large_def t tiny_inexact_def)
    then show ?thesis
      using st t times_double_exact [OF pos(1)] by auto
  qed
qed

text \<open>The units and their milliseconds.\<close>

definition time_unit :: "string \<Rightarrow> int option" where
  "time_unit u = map_of [([], 1), (''ms'', 1), (''s'', 1000), (''m'', 60000)] u"

lemma convertDurationWithUnit_whole:
  assumes "filter (\<lambda>c. \<not> isspace c) s = ds @ u" and "\<forall>c \<in> set ds. isdigit c" and "ds \<noteq> []"
    and "time_unit u = Some k" and "int (decimal_value ds) * k < 2 ^ 53"
  shows "convertDurationWithUnit s = Inr (int (decimal_value ds) * k)"
proof -
  have u: "u \<in> {[], ''ms'', ''s'', ''m''}" and k: "0 < k"
    using assms(4) by (auto simp: time_unit_def split: if_splits)
  have "decimal_value ds < 2 ^ 53"
  proof -
    have "int (decimal_value ds) * 1 \<le> int (decimal_value ds) * k" using k by (intro mult_left_mono) auto
    then have "int (decimal_value ds) < 2 ^ 53" using assms(5) by linarith
    then show ?thesis by simp
  qed
  from stod_digits [OF assms(2,3) this u] obtain d where
    d: "stod (ds @ u) = Inr (Finite d)" "trunc_double d = int (decimal_value ds)" "trunc_double (times_double d k) = int (decimal_value ds) * k"
    using k assms(5) by blast
  have ms: "to_milliseconds (Finite d) k = Inr (int (decimal_value ds) * k)"
    using d(2,3) assms(5) by (auto simp: to_milliseconds_def Let_def)
  have f: "find_if (\<lambda>c. \<not> (isdigit c \<or> c = CHR ''.'')) (ds @ u) = (if u = [] then None else Some (length ds))"
  proof -
    have "\<forall>c \<in> set ds. isdigit c \<or> c = CHR ''.''" using assms(2) by blast
    then show ?thesis
      using u by (auto simp: find_if_takeWhile takeWhile_append isdigit_def)
  qed
  show ?thesis
    unfolding convertDurationWithUnit_def Let_def assms(1) d(1) bind_result.simps f
    using u assms(4) ms by (auto simp: time_unit_def)
qed

lemma duration_truncates: "convertDurationWithUnit ''1.001s'' = Inr 1000"
  by code_simp

end
