(* ===== verification/RetryAfter.thy ===== *)
theory RetryAfter
  imports CxxStd
begin

text \<open>
  \<open>parseRetryAfter\<close> of \<open>CommonUtils.cpp\<close>: the value of a \<open>Retry-After\<close> header, either a number
  of seconds or an HTTP date. The function works on \<open>value.data()\<close>, the bytes from the value's
  start to the next NUL: \<open>value\<close> is the view and \<open>past\<close> what the memory holds after it.
  \<open>std::get_time\<close> with the format of the code is the parameter \<open>get_time\<close>: the broken-down time it
  reads, or nothing. \<open>now\<close> is the system clock in nanoseconds since the epoch.
\<close>

record tm =
  tm_year :: int
  tm_mon :: int
  tm_mday :: int
  tm_hour :: int
  tm_min :: int
  tm_sec :: int

text \<open>The days since 1970-01-01 of a civil date: the conversion to \<open>std::chrono::sys_days\<close>.\<close>

definition days_from_civil :: "int \<Rightarrow> int \<Rightarrow> int \<Rightarrow> int" where
  "days_from_civil y0 m d =
     (let y = (if m \<le> 2 then y0 - 1 else y0);
          era = y div 400;
          yoe = y - era * 400;
          doy = (153 * (if m > 2 then m - 3 else m + 9) + 2) div 5 + d - 1;
          doe = yoe * 365 + yoe div 4 - yoe div 100 + doy
      in era * 146097 + doe - 719468)"

definition target_seconds :: "tm \<Rightarrow> int" where
  "target_seconds t =
     days_from_civil (tm_year t + 1900) (tm_mon t + 1) (tm_mday t) * 86400
       + tm_hour t * 3600 + tm_min t * 60 + tm_sec t"

definition parseRetryAfter :: "(string \<Rightarrow> tm option) \<Rightarrow> int \<Rightarrow> string \<Rightarrow> string \<Rightarrow> ms option" where
  "parseRetryAfter get_time now value past =
     (let http_date =
            (case get_time (c_str (value @ past)) of
               None \<Rightarrow> None
             | Some t \<Rightarrow>
                 (let target_time = target_seconds t;
                      now_rounded = now div 1000000000
                  in if target_time \<le> now_rounded then Some 0
                     else Some ((target_time - now_rounded) * 1000)))
      in case stoi (value @ past) of
           Inr (seconds, idx) \<Rightarrow>
             (if idx = length value \<and> seconds \<ge> 0 then Some (seconds * 1000) else http_date)
         | Inl _ \<Rightarrow> http_date)"

lemma c_str_digits_append:
  "\<forall>c \<in> set ds. isdigit c \<Longrightarrow> c_str (ds @ r) = ds @ c_str r"
proof -
  assume "\<forall>c \<in> set ds. isdigit c"
  then have "\<forall>c \<in> set ds. byte_of c \<noteq> 0" by (auto simp: isdigit_def)
  then show ?thesis by (simp add: c_str_def takeWhile_append)
qed

lemma stoi_digits:
  assumes "\<forall>c \<in> set ds. isdigit c" and "ds \<noteq> []" and "r = [] \<or> \<not> isdigit (hd r)"
    and "decimal_value ds < 2 ^ 31"
  shows "stoi (ds @ r) = Inr (int (decimal_value ds), length ds)"
proof -
  obtain d ds' where d: "ds = d # ds'" using assms(2) by (cases ds) auto
  have sp: "\<not> isspace d" "d \<noteq> CHR ''-''" "d \<noteq> CHR ''+''"
    using assms(1) by (auto simp: d isdigit_def isspace_def)
  have "c_str r = [] \<or> \<not> isdigit (hd (c_str r))"
    using assms(3) by (cases r) (auto simp: c_str_def)
  then have tw: "takeWhile isdigit (ds @ c_str r) = ds"
    using assms(1) by (cases "c_str r") (auto simp: takeWhile_append takeWhile_eq_all_conv)
  have "dropWhile isspace (ds @ c_str r) = ds @ c_str r" "strip_sign (ds @ c_str r) = (False, ds @ c_str r)"
    using sp by (simp_all add: d strip_sign_def)
  then show ?thesis
    using assms(2,4) tw by (simp add: stoi_def c_str_digits_append [OF assms(1)] Let_def)
qed

text \<open>
  A number of seconds below \<open>2 ^ 31\<close>, followed in memory by anything that is not a digit, is read
  as that many seconds whatever the clock says; any other value is a date or nothing, a date in
  the past asks for no delay, and a delay is never negative.
\<close>

theorem parseRetryAfter_value:
  assumes "\<forall>c \<in> set ds. isdigit c" and "ds \<noteq> []" and "past = [] \<or> \<not> isdigit (hd past)" and "decimal_value ds < 2 ^ 31"
  shows "parseRetryAfter get_time now ds past = Some (int (decimal_value ds) * 1000)
    \<and> (\<forall>v t e. get_time (c_str (v @ past)) = Some t \<longrightarrow> stoi (v @ past) = Inl e \<longrightarrow>
         parseRetryAfter get_time now v past = Some (max 0 (target_seconds t - now div 1000000000) * 1000))
    \<and> (\<forall>v d. parseRetryAfter get_time now v past = Some d \<longrightarrow> 0 \<le> d)"
proof (intro conjI allI impI)
  show "parseRetryAfter get_time now ds past = Some (int (decimal_value ds) * 1000)"
    using stoi_digits [OF assms] by (simp add: parseRetryAfter_def)
next
  fix v t e
  assume "get_time (c_str (v @ past)) = Some t" "stoi (v @ past) = Inl e"
  then show "parseRetryAfter get_time now v past = Some (max 0 (target_seconds t - now div 1000000000) * 1000)"
    by (simp add: parseRetryAfter_def Let_def max_def)
next
  fix v d
  assume "parseRetryAfter get_time now v past = Some d"
  then show "0 \<le> d"
    by (auto simp: parseRetryAfter_def Let_def split: sum.splits option.splits if_splits)
qed

lemma parseRetryAfter_value_witness:
  "parseRetryAfter (\<lambda>_. None) 0 ''120'' [CHR 0x0D, CHR 0x0A] = Some 120000"
  using parseRetryAfter_value [of "''120''" "[CHR 0x0D, CHR 0x0A]" "\<lambda>_. None" 0]
  by (simp add: isdigit_def decimal_value_def digit_value_def)

end
