(* ===== verification/Endpoints.thy ===== *)
theory Endpoints
  imports Strings RetryAfter
begin

text \<open>
  HTTP endpoints and connections (\<open>transport/HttpEndpoint.h\<close>, \<open>HttpEndpoints.h\<close>,
  \<open>HttpEndpointSSLOptions.h\<close>, \<open>CurlSender.h\<close>, \<open>CurlSender.cpp\<close>). An endpoint is kept under the hash
  its owner chose, a connection (one curl handle) under the hash of scheme, host and port, so that
  endpoints of one server share it.

  Third-party and platform functions are parameters: the Boost search behind
  \<open>getConnectionDetailsFromURL\<close>, \<open>std::hash\<close>, and libcurl. A curl handle is the list of the options
  set on it, oldest first; \<open>perform\<close> is \<open>curl_easy_perform\<close> on those options in a world of type
  \<open>'w\<close>, which answers an error text or a response code, and feeds the write and header functions.
\<close>

subsection \<open>Endpoints\<close>

record HttpEndpoint =
  endpoint :: string
  maxRetries :: nat
  retryDelay :: ms
  connectionId :: u64
  curlHeaders :: "string list"

definition fillCurlHeaders :: "string \<Rightarrow> (string \<times> string) list \<Rightarrow> string list" where
  "fillCurlHeaders contentType headers =
     (if contentType \<noteq> [] then [c_str (''Content-Type: '' @ contentType)] else [])
       @ map (\<lambda>hdr. c_str (fst hdr @ '': '' @ snd hdr)) headers"

record url_env =
  regex_search :: "string \<Rightarrow> (string \<times> string option) option"
  hash_string :: "string \<Rightarrow> u64"

definition new_HttpEndpoint ::
  "url_env \<Rightarrow> string \<Rightarrow> string \<Rightarrow> (string \<times> string) list \<Rightarrow> nat \<Rightarrow> ms \<Rightarrow> HttpEndpoint result" where
  "new_HttpEndpoint ue url contentType headers retries delay =
     (case getConnectionDetailsFromURL (regex_search ue) url of
        None \<Rightarrow> Inl (Runtime_error (''Unable to parse connection details from endpoint: '' @ url))
      | Some details \<Rightarrow>
          Inr \<lparr>endpoint = url, maxRetries = retries, retryDelay = delay,
               connectionId = hash_string ue details, curlHeaders = fillCurlHeaders contentType headers\<rparr>)"

subsection \<open>The curl handle\<close>

record HttpEndpointSSLOptions =
  insecureSkipVerify :: bool
  caInfo :: string
  cert :: string
  certKey :: string
  certKeyPassword :: string

datatype curl_opt =
    SSL_VERIFYHOST nat | SSL_VERIFYPEER nat | CAINFO string | SSLCERT string | SSLKEY string | KEYPASSWD string
  | TIMEOUT_MS int | CONNECTTIMEOUT_MS int | FOLLOWLOCATION nat | FORBID_REUSE nat
  | WRITEFUNCTION | WRITEDATA bool | HEADERFUNCTION | HEADERDATA bool
  | DEBUGFUNCTION | DEBUGDATA | VERBOSE nat
  | URL string | HTTPHEADER "string list" | POSTFIELDS "byte list" | POSTFIELDSIZE nat | POST nat

definition opt_if_set :: "(string \<Rightarrow> curl_opt) \<Rightarrow> string \<Rightarrow> curl_opt list" where
  "opt_if_set opt s = (if s \<noteq> [] then [opt (c_str s)] else [])"

text \<open>The constructor: \<open>init\<close> tells whether \<open>curl_easy_init\<close> answers a handle, \<open>tracing\<close> whether the
  logger meets the trace level.\<close>

definition new_CurlSender :: "bool \<Rightarrow> bool \<Rightarrow> ms \<Rightarrow> HttpEndpointSSLOptions \<Rightarrow> curl_opt list result" where
  "new_CurlSender init tracing timeout ssl =
     (if \<not> init then Inl (Runtime_error ''curl_easy_init() failed'')
      else Inr (
        (if insecureSkipVerify ssl then [SSL_VERIFYHOST 0, SSL_VERIFYPEER 0] else [SSL_VERIFYHOST 2, SSL_VERIFYPEER 1])
        @ opt_if_set CAINFO (caInfo ssl) @ opt_if_set SSLCERT (cert ssl)
        @ opt_if_set SSLKEY (certKey ssl) @ opt_if_set KEYPASSWD (certKeyPassword ssl)
        @ [TIMEOUT_MS timeout, CONNECTTIMEOUT_MS timeout, FOLLOWLOCATION 1, FORBID_REUSE 0,
           WRITEFUNCTION, WRITEDATA False, HEADERFUNCTION, HEADERDATA False]
        @ (if tracing then [DEBUGFUNCTION, DEBUGDATA, VERBOSE 1] else [])))"

record curl_outcome =
  curl_error :: "string option"
  response_code :: int
  header_lines :: "string list"
  body :: string

text \<open>
  \<open>CurlHeaderFunc\<close>: the line without its last two bytes, for any line; a line of less than two bytes makes the length
  wrap, and the view reaches past the line. What excludes it is a named hypothesis of the transport (\<open>net_ok\<close>).
\<close>

definition header_view :: "string \<Rightarrow> string result" where
  "header_view line =
     (if length line < 2 then Inl (Undefined ''header view past the line'') else Inr (take (length line - 2) line))"

text \<open>\<open>CurlWriteFunc\<close>: the response body is appended to the buffer, if there is one.\<close>

definition CurlWriteFunc :: "string option \<Rightarrow> string \<Rightarrow> string option \<times> nat" where
  "CurlWriteFunc clientp chunk =
     (case clientp of None \<Rightarrow> (None, length chunk) | Some buffer \<Rightarrow> (Some (buffer @ chunk), length chunk))"

definition to_int16 :: "int \<Rightarrow> int" where
  "to_int16 n = (n + 2 ^ 15) mod 2 ^ 16 - 2 ^ 15"

text \<open>
  \<open>sendPayload\<close>: the options of this request go on top of those of the constructor and replace
  those of the previous request. It answers the world after the transfer, the header lines its
  callback was given, the body written to its buffer, and the response code or the exception.
\<close>

definition request_options :: "string \<Rightarrow> string list \<Rightarrow> byte list \<Rightarrow> bool \<Rightarrow> curl_opt list" where
  "request_options url headers payload wanted =
     [URL (c_str url), HTTPHEADER headers, POSTFIELDS payload, POSTFIELDSIZE (length payload), POST 1,
      WRITEDATA wanted, HEADERDATA wanted]"

definition CurlSender_sendPayload ::
  "('w \<Rightarrow> curl_opt list \<Rightarrow> 'w \<times> curl_outcome) \<Rightarrow> 'w \<Rightarrow> curl_opt list \<Rightarrow> string \<Rightarrow> string list \<Rightarrow> byte list \<Rightarrow> bool
    \<Rightarrow> 'w \<times> string list \<times> string \<times> int result" where
  "CurlSender_sendPayload perform w handle url headers payload wanted =
     (let (w', res) = perform w (handle @ request_options url headers payload wanted)
      in (w', if wanted then header_lines res else [], if wanted then body res else [],
          case curl_error res of
            Some e \<Rightarrow> Inl (Runtime_error (''sendPayload failed: '' @ e))
          | None \<Rightarrow> Inr (to_int16 (response_code res))))"

subsection \<open>The set of endpoints\<close>

record HttpEndpoints =
  endpoints :: "(u64, HttpEndpoint) umap"
  connections :: "(u64, curl_opt list) umap"

definition new_HttpEndpoints :: HttpEndpoints where
  "new_HttpEndpoints = \<lparr>endpoints = [], connections = []\<rparr>"

record curl_env =
  curl_init :: bool
  tracing :: bool

text \<open>\<open>add\<close>: it answers whether a connection was made. What it added before an exception stays.\<close>

definition endpoints_add ::
  "url_env \<Rightarrow> curl_env \<Rightarrow> HttpEndpoints \<Rightarrow> string \<Rightarrow> u64 \<Rightarrow> string \<Rightarrow> (string \<times> string) list \<Rightarrow> ms \<Rightarrow> nat \<Rightarrow> ms
    \<Rightarrow> HttpEndpointSSLOptions \<Rightarrow> HttpEndpoints \<times> bool result" where
  "endpoints_add ue ce es url endpointHash contentType headers timeout retries delay ssl =
     (case (case map_of (endpoints es) endpointHash of
              Some ep \<Rightarrow> Inr ep
            | None \<Rightarrow> new_HttpEndpoint ue url contentType headers retries delay) of
        Inl e \<Rightarrow> (es, Inl e)
      | Inr ep \<Rightarrow>
          (let es1 = es\<lparr>endpoints := um_emplace endpointHash ep (endpoints es)\<rparr>
           in if map_of (connections es) (connectionId ep) \<noteq> None then (es1, Inr False)
              else case new_CurlSender (curl_init ce) (tracing ce) timeout ssl of
                     Inl e \<Rightarrow> (es1, Inl e)
                   | Inr handle \<Rightarrow>
                       (es1\<lparr>connections := um_emplace (connectionId ep) handle (connections es)\<rparr>, Inr True)))"

record connection =
  c_url :: string
  c_headers :: "string list"
  c_id :: u64
  c_handle :: "curl_opt list"
  c_maxRetries :: nat
  c_retryDelay :: ms

definition getConnection :: "HttpEndpoints \<Rightarrow> u64 \<Rightarrow> connection result" where
  "getConnection es endpointHash =
     (case map_of (endpoints es) endpointHash of
        None \<Rightarrow> Inl (Runtime_error ''HttpEnpoints missing enpointHash'')
      | Some ep \<Rightarrow>
          (case map_of (connections es) (connectionId ep) of
             None \<Rightarrow> Inl (Runtime_error ''HttpEndpoints enpointHash missing connectionId'')
           | Some conn \<Rightarrow>
               Inr \<lparr>c_url = endpoint ep, c_headers = curlHeaders ep, c_id = connectionId ep, c_handle = conn,
                    c_maxRetries = max 1 (maxRetries ep), c_retryDelay = retryDelay ep\<rparr>))"

definition endpoints_updateRetryDelay :: "HttpEndpoints \<Rightarrow> u64 \<Rightarrow> ms \<Rightarrow> HttpEndpoints result" where
  "endpoints_updateRetryDelay es endpointHash delay =
     (case map_of (endpoints es) endpointHash of
        None \<Rightarrow> Inl (Runtime_error ''HttpEnpoints can't update retryDelay for missing enpointHash'')
      | Some ep \<Rightarrow> Inr (es\<lparr>endpoints := um_assign endpointHash (ep\<lparr>retryDelay := delay\<rparr>) (endpoints es)\<rparr>))"

subsection \<open>What the set keeps\<close>

definition endpoints_wf :: "HttpEndpoints \<Rightarrow> bool" where
  "endpoints_wf es \<longleftrightarrow> um_wf (endpoints es) \<and> um_wf (connections es)"

lemma endpoints_wf_add [keeps]:
  "endpoints_wf es \<Longrightarrow> endpoints_wf (fst (endpoints_add ue ce es url h ct hs t r d ssl))"
  by (auto simp: endpoints_wf_def endpoints_add_def Let_def keeps split: option.splits sum.splits)

lemma endpoints_wf_update [keeps]:
  "endpoints_wf es \<Longrightarrow> endpoints_updateRetryDelay es h d = Inr es' \<Longrightarrow> endpoints_wf es'"
  by (auto simp: endpoints_wf_def endpoints_updateRetryDelay_def keeps split: option.splits)

text \<open>
  After \<open>add\<close> succeeds the endpoint has a connection. The first registration of a hash fixes its
  URL, headers and retry settings, and the first endpoint of a server fixes the connection's timeout
  and TLS options: a later \<open>add\<close> for the same hash or the same server changes none of them. An
  \<open>add\<close> never affects another endpoint.
\<close>

theorem add_then_getConnection:
  assumes "endpoints_add ue ce es url h ct hs timeout retries delay ssl = (es', Inr created)"
  shows "(\<exists>ep handle.
      getConnection es' h = Inr \<lparr>c_url = endpoint ep, c_headers = curlHeaders ep, c_id = connectionId ep,
          c_handle = handle, c_maxRetries = max 1 (maxRetries ep), c_retryDelay = retryDelay ep\<rparr> \<and>
      (case map_of (endpoints es) h of
         Some old \<Rightarrow> ep = old
       | None \<Rightarrow> new_HttpEndpoint ue url ct hs retries delay = Inr ep) \<and>
      (case map_of (connections es) (connectionId ep) of
         Some old \<Rightarrow> handle = old \<and> \<not> created
       | None \<Rightarrow> new_CurlSender (curl_init ce) (tracing ce) timeout ssl = Inr handle \<and> created))
    \<and> (\<forall>h' c. h' \<noteq> h \<longrightarrow> getConnection es h' = Inr c \<longrightarrow> getConnection es' h' = Inr c)"
  using assms
  by (auto simp: endpoints_add_def getConnection_def Let_def map_of_um_emplace fun_upd_def
      split: option.splits sum.splits if_splits)

lemma getConnection_update:
  assumes "endpoints_updateRetryDelay es h d = Inr es'"
  shows "getConnection es' h' =
     (if h' = h then map_sum id (\<lambda>c. c\<lparr>c_retryDelay := d\<rparr>) (getConnection es h) else getConnection es h')"
  using assms
  by (cases "h' = h") (auto simp: endpoints_updateRetryDelay_def getConnection_def umap_simps split: option.splits)

lemma updateRetryDelay_total:
  "getConnection es h = Inr c \<Longrightarrow> \<exists>es'. endpoints_updateRetryDelay es h d = Inr es'"
  by (auto simp: getConnection_def endpoints_updateRetryDelay_def split: option.splits)

definition sample_url_env :: url_env where
  "sample_url_env = \<lparr>regex_search = (\<lambda>u. if u = ''http://h/v1'' then Some (''http://h'', None) else None),
     hash_string = (\<lambda>s. of_nat (length s))\<rparr>"

definition no_ssl :: HttpEndpointSSLOptions where
  "no_ssl = \<lparr>insecureSkipVerify = False, caInfo = [], cert = [], certKey = [], certKeyPassword = []\<rparr>"

lemma add_then_getConnection_witness:
  "\<exists>c. getConnection (fst (endpoints_add sample_url_env \<lparr>curl_init = True, tracing = False\<rparr> new_HttpEndpoints
      ''http://h/v1'' 7 [] [] 1000 0 10 no_ssl)) 7 = Inr c"
proof -
  let ?r = "endpoints_add sample_url_env \<lparr>curl_init = True, tracing = False\<rparr> new_HttpEndpoints
      ''http://h/v1'' 7 [] [] 1000 0 10 no_ssl"
  have "\<exists>es'. ?r = (es', Inr True)"
    by (simp add: endpoints_add_def new_HttpEndpoints_def new_HttpEndpoint_def getConnectionDetailsFromURL_def
        sample_url_env_def new_CurlSender_def Let_def)
  then obtain es' where r: "?r = (es', Inr True)" by blast
  show ?thesis using add_then_getConnection [OF r] by (auto simp: r)
qed

end
