(* ===== verification/Transport.thy ===== *)
theory Transport
  imports Endpoints
begin

text \<open>
  The asynchronous HTTP transport (\<open>transport/HttpTransportAsync.h\<close>): a bounded queue of payloads
  filled by \<open>enqueue\<close> and emptied by one sender thread.

  \<open>send_attempts\<close> and \<open>send_item\<close> are what the thread does with one payload outside the lock: the
  retry loop with its callbacks. The other operations run under the mutex and are atomic:
  \<open>enqueue\<close>, \<open>startThread\<close>, the two halves of \<open>shutdownThread\<close> (clear \<open>working_\<close>; join), \<open>prefork\<close>,
  \<open>postfork\<close>, the destructor's request, and \<open>sender_step\<close>, one turn of the sender thread from lock to
  unlock. \<open>tstep\<close> interleaves them; its labels record what the queue took, gave and dropped.
\<close>

subsection \<open>State\<close>

type_synonym 'cb item = "u64 \<times> byte list \<times> 'cb option"

datatype 'cb sender_thread = No_thread | At_loop_head | Waiting | Posting "'cb item" | Exited

record ('w, 'cb) transport =
  endpoint_set :: HttpEndpoints
  payloadsToSend :: "'cb item list"
  payloadsByteUsage :: u64
  thread :: "'cb sender_thread"
  working :: bool
  forceFlushOnDestruction :: bool
  shutdownStart :: ms
  curl_users :: int
  world :: 'w

definition new_transport :: "'w \<Rightarrow> ('w, 'cb) transport" where
  "new_transport w =
     \<lparr>endpoint_set = new_HttpEndpoints, payloadsToSend = [], payloadsByteUsage = 0, thread = No_thread,
      working = True, forceFlushOnDestruction = False, shutdownStart = 0, curl_users = 1, world = w\<rparr>"

text \<open>The two options the transport reads from the configuration snapshot.\<close>

record transport_config =
  max_send_queue_size :: u64
  async_transport_shutdown_timeout :: ms

subsection \<open>Sending one payload\<close>

record 'w net =
  perform :: "'w \<Rightarrow> curl_opt list \<Rightarrow> 'w \<times> curl_outcome"
  system_clock :: "'w \<Rightarrow> int"
  get_time :: "string \<Rightarrow> tm option"

datatype 'cb tx_event =
    Posted u64 "curl_opt list"
  | Slept ms
  | Called 'cb int string

text \<open>\<open>headerCallback\<close>, applied to a line as libcurl delivers it.\<close>

definition headerCallback :: "'w net \<Rightarrow> 'w \<Rightarrow> u64 \<Rightarrow> HttpEndpoints \<Rightarrow> string \<Rightarrow> HttpEndpoints result" where
  "headerCallback nt w endpointHash es line =
     bind_result (header_view line) (\<lambda>header.
       let prefix = ''Retry-After: ''
       in if istring_eq (take (length prefix) header) prefix then
            (case parseRetryAfter (get_time nt) (system_clock nt w) (drop (length prefix) header) (drop (length header) line) of
               Some d \<Rightarrow> if d > 0 then endpoints_updateRetryDelay es endpointHash d else Inr es
             | None \<Rightarrow> Inr es)
          else Inr es)"

fun deliver_headers :: "'w net \<Rightarrow> 'w \<Rightarrow> u64 \<Rightarrow> HttpEndpoints \<Rightarrow> string list \<Rightarrow> HttpEndpoints result" where
  "deliver_headers nt w endpointHash es [] = Inr es"
| "deliver_headers nt w endpointHash es (l # ls) =
     bind_result (headerCallback nt w endpointHash es l) (\<lambda>es'. deliver_headers nt w endpointHash es' ls)"

definition is_success :: "int \<Rightarrow> bool" where
  "is_success code \<longleftrightarrow> 200 \<le> code \<and> code < 300"

definition is_rejected :: "int \<Rightarrow> bool" where
  "is_rejected code \<longleftrightarrow> 400 \<le> code \<and> code < 500 \<and> code \<noteq> 408 \<and> code \<noteq> 429"

definition run_callback :: "'cb option \<Rightarrow> int \<Rightarrow> string \<Rightarrow> 'cb tx_event list" where
  "run_callback cb code response = (case cb of None \<Rightarrow> [] | Some f \<Rightarrow> [Called f code response])"

function send_attempts ::
  "'w net \<Rightarrow> u64 \<Rightarrow> connection \<Rightarrow> byte list \<Rightarrow> 'cb option \<Rightarrow> nat \<Rightarrow> 'w \<Rightarrow> HttpEndpoints
    \<Rightarrow> 'cb tx_event list \<times> 'w \<times> HttpEndpoints \<times> unit result" where
  "send_attempts nt endpointHash conn payload cb retry w es =
     (if retry < c_maxRetries conn then
        let (w', lines, responseBuffer, sent) =
              CurlSender_sendPayload (perform nt) w (c_handle conn) (c_url conn) (c_headers conn) payload (cb \<noteq> None);
            posted = Posted (c_id conn) (c_handle conn @ request_options (c_url conn) (c_headers conn) payload (cb \<noteq> None))
        in case deliver_headers nt w' endpointHash es lines of
             Inl e \<Rightarrow> ([posted], w', es, Inl e)
           | Inr es' \<Rightarrow>
               (case sent of
                  Inl e \<Rightarrow> ([posted], w', es', Inl e)
                | Inr responseCode \<Rightarrow>
                    if is_success responseCode then
                      (posted # run_callback cb responseCode responseBuffer, w', es', Inr ())
                    else if is_rejected responseCode then
                      (posted # run_callback cb responseCode responseBuffer, w', es',
                       Inl (Runtime_error (''server returned with code '' @ to_string (nat responseCode))))
                    else
                      let (tr, rest) = send_attempts nt endpointHash conn payload cb (retry + 1) w' es'
                      in (posted # Slept (c_retryDelay conn) # tr, rest))
      else ([], w, es, Inr ()))"
  by pat_completeness auto
termination
  by (relation "measure (\<lambda>(_, _, conn, _, _, retry, _, _). c_maxRetries conn - retry)") auto

declare send_attempts.simps [simp del]

text \<open>
  The body of \<open>send\<close> between unlock and lock: a \<open>std::runtime_error\<close> is logged and forgotten. The callback is the
  event \<open>Called\<close> and is taken to return; the call is the last thing an attempt does, so
  an exception out of a callback would end the retries in the same place, and one that is not a
  \<open>std::runtime_error\<close> would end the process, for the sender thread does not catch it.
\<close>

definition send_item ::
  "'w net \<Rightarrow> 'cb item \<Rightarrow> 'w \<Rightarrow> HttpEndpoints \<Rightarrow> 'cb tx_event list \<times> 'w \<times> HttpEndpoints \<times> unit result" where
  "send_item nt it w es =
     (case it of (endpointHash, payload, cb) \<Rightarrow>
        (case getConnection es endpointHash of
           Inl e \<Rightarrow> ([], w, es, Inr ())
         | Inr conn \<Rightarrow>
             (let (tr, w', es', r) = send_attempts nt endpointHash conn payload cb 0 w es
              in (tr, w', es',
                  case r of Inl e \<Rightarrow> if is_runtime_error e then Inr () else Inl e | Inr u \<Rightarrow> Inr u))))"

subsection \<open>Queue and thread\<close>

definition enqueue :: "transport_config \<Rightarrow> 'cb item \<Rightarrow> ('w, 'cb) transport \<Rightarrow> ('w, 'cb) transport" where
  "enqueue cfg it s =
     (let n = of_nat (length (fst (snd it)))
      in if payloadsByteUsage s + n > max_send_queue_size cfg then s
         else s\<lparr>payloadsToSend := payloadsToSend s @ [it], payloadsByteUsage := payloadsByteUsage s + n\<rparr>)"

definition startThread :: "('w, 'cb) transport \<Rightarrow> ('w, 'cb) transport" where
  "startThread s = (if thread s = No_thread then s\<lparr>thread := At_loop_head\<rparr> else s)"

text \<open>\<open>initializeConnection\<close> catches every exception of \<open>add\<close>; the thread starts only after a success.\<close>

definition initializeConnection ::
  "url_env \<Rightarrow> curl_env \<Rightarrow> string \<Rightarrow> u64 \<Rightarrow> string \<Rightarrow> (string \<times> string) list \<Rightarrow> ms \<Rightarrow> nat \<Rightarrow> ms \<Rightarrow> HttpEndpointSSLOptions
    \<Rightarrow> ('w, 'cb) transport \<Rightarrow> ('w, 'cb) transport" where
  "initializeConnection ue ce url endpointHash contentType headers timeout retries delay ssl s =
     (let (es, r) = endpoints_add ue ce (endpoint_set s) url endpointHash contentType headers timeout retries delay ssl;
          s' = s\<lparr>endpoint_set := es\<rparr>
      in case r of Inl e \<Rightarrow> s' | Inr _ \<Rightarrow> startThread s')"

definition transport_updateRetryDelay :: "u64 \<Rightarrow> ms \<Rightarrow> ('w, 'cb) transport \<Rightarrow> ('w, 'cb) transport" where
  "transport_updateRetryDelay endpointHash delay s =
     (case endpoints_updateRetryDelay (endpoint_set s) endpointHash delay of
        Inl e \<Rightarrow> s | Inr es \<Rightarrow> s\<lparr>endpoint_set := es\<rparr>)"

text \<open>The two halves of \<open>shutdownThread\<close>; the second one waits until the thread has ended.\<close>

definition request_shutdown :: "('w, 'cb) transport \<Rightarrow> ('w, 'cb) transport" where
  "request_shutdown s = s\<lparr>working := False\<rparr>"

definition join_thread :: "('w, 'cb) transport \<Rightarrow> ('w, 'cb) transport option" where
  "join_thread s =
     (if thread s = No_thread \<or> thread s = Exited then Some (s\<lparr>thread := No_thread\<rparr>) else None)"

text \<open>\<open>prefork\<close> is \<open>request_shutdown\<close>, \<open>join_thread\<close> and then \<open>CurlCleanup\<close>.\<close>

definition CurlInit :: "('w, 'cb) transport \<Rightarrow> ('w, 'cb) transport" where
  "CurlInit s = s\<lparr>curl_users := curl_users s + 1\<rparr>"

definition CurlCleanup :: "('w, 'cb) transport \<Rightarrow> ('w, 'cb) transport" where
  "CurlCleanup s = s\<lparr>curl_users := curl_users s - 1\<rparr>"

definition postfork :: "bool \<Rightarrow> ('w, 'cb) transport \<Rightarrow> ('w, 'cb) transport" where
  "postfork child s =
     (let s1 = CurlInit s;
          s2 = (if child \<and> payloadsToSend s1 \<noteq> [] then s1\<lparr>payloadsToSend := []\<rparr> else s1)
      in startThread (s2\<lparr>working := True\<rparr>))"

text \<open>The start of the destructor; it goes on like \<open>prefork\<close>.\<close>

definition begin_destruction :: "ms \<Rightarrow> ('w, 'cb) transport \<Rightarrow> ('w, 'cb) transport" where
  "begin_destruction now s = request_shutdown (s\<lparr>shutdownStart := now, forceFlushOnDestruction := True\<rparr>)"

text \<open>
  One turn of the sender thread. \<open>next_payload\<close> is the test of the loop in \<open>send\<close> and, if there is
  a payload, its first lines up to the unlock; when the queue is empty \<open>send\<close> returns to the head of
  the loop in \<open>asyncSender\<close>. \<open>None\<close> means that the thread does not exist or waits on the condition
  variable.
\<close>

datatype 'cb label = Accepted "'cb item" | Dropped "'cb item" | Taken "'cb item" | Sent "'cb tx_event list" | Crashed | Other

definition next_payload :: "('w, 'cb) transport \<Rightarrow> 'cb label \<times> ('w, 'cb) transport" where
  "next_payload s =
     (case payloadsToSend s of
        [] \<Rightarrow> (Other, s\<lparr>thread := At_loop_head\<rparr>)
      | it # q \<Rightarrow> (Taken it, s\<lparr>payloadsToSend := q, thread := Posting it,
                             payloadsByteUsage := payloadsByteUsage s - of_nat (length (fst (snd it)))\<rparr>))"

definition sender_step ::
  "'w net \<Rightarrow> transport_config \<Rightarrow> ms \<Rightarrow> ('w, 'cb) transport \<Rightarrow> ('cb label list \<times> ('w, 'cb) transport) option" where
  "sender_step nt cfg now s =
     (case thread s of
        No_thread \<Rightarrow> None
      | Exited \<Rightarrow> None
      | At_loop_head \<Rightarrow> Some ([Other], s\<lparr>thread := (if working s then Waiting else Exited)\<rparr>)
      | Waiting \<Rightarrow>
          (if payloadsToSend s = [] \<and> working s then None
           else if \<not> working s \<and> \<not> forceFlushOnDestruction s then Some ([Other], s\<lparr>thread := Exited\<rparr>)
           else let (l, s') = next_payload s in Some ([l], s'))
      | Posting it \<Rightarrow>
          (let (tr, w', es', r) = send_item nt it (world s) (endpoint_set s);
               s1 = s\<lparr>world := w', endpoint_set := es'\<rparr>
           in if r \<noteq> Inr () then Some ([Sent tr, Crashed], s1\<lparr>thread := Exited\<rparr>)
              else if forceFlushOnDestruction s1 \<and> payloadsToSend s1 \<noteq> []
                  \<and> async_transport_shutdown_timeout cfg > 0 \<and> now - shutdownStart s1 \<ge> async_transport_shutdown_timeout cfg
              then Some ([Sent tr, Other], s1\<lparr>thread := At_loop_head\<rparr>)
              else let (l, s') = next_payload s1 in Some ([Sent tr, l], s')))"

subsection \<open>The retry policy\<close>

text \<open>The outcomes the world would give to repeated transfers with the same options.\<close>

fun outcomes :: "'w net \<Rightarrow> curl_opt list \<Rightarrow> 'w \<Rightarrow> nat \<Rightarrow> curl_outcome list" where
  "outcomes nt opts w 0 = []"
| "outcomes nt opts w (Suc n) = (let (w', r) = perform nt w opts in r # outcomes nt opts w' n)"

definition final_outcome :: "curl_outcome \<Rightarrow> bool" where
  "final_outcome r \<longleftrightarrow> curl_error r \<noteq> None \<or> is_success (to_int16 (response_code r)) \<or> is_rejected (to_int16 (response_code r))"

text \<open>
  libcurl documents that the header callback gets one complete header line at a time, the line end included. The
  code takes it to be carriage return and line feed, so that a line has two bytes at least (\<open>header_view\<close>).
\<close>

definition net_ok :: "'w net \<Rightarrow> bool" where
  "net_ok nt \<longleftrightarrow> (\<forall>w opts. \<forall>l \<in> set (header_lines (snd (perform nt w opts))). 2 \<le> length l)"

lemma headerCallback_ok:
  assumes "2 \<le> length l" and "map_of (endpoints es) h \<noteq> None"
  shows "\<exists>es'. headerCallback nt w h es l = Inr es' \<and> map_of (endpoints es') h \<noteq> None"
  using assms
  by (auto simp: headerCallback_def header_view_def Let_def endpoints_updateRetryDelay_def umap_simps
      split: option.split)

lemma deliver_headers_ok:
  "\<forall>l \<in> set ls. 2 \<le> length l \<Longrightarrow> map_of (endpoints es) h \<noteq> None \<Longrightarrow>
     \<exists>es'. deliver_headers nt w h es ls = Inr es' \<and> map_of (endpoints es') h \<noteq> None"
proof (induction ls arbitrary: es)
  case (Cons l ls)
  then show ?case
    using headerCallback_ok [of l es h nt w] by fastforce
qed simp

definition conn_options :: "connection \<Rightarrow> byte list \<Rightarrow> 'cb option \<Rightarrow> curl_opt list" where
  "conn_options c payload cb = c_handle c @ request_options (c_url c) (c_headers c) payload (cb \<noteq> None)"

definition attempts_trace :: "connection \<Rightarrow> byte list \<Rightarrow> 'cb option \<Rightarrow> curl_outcome list \<Rightarrow> 'cb tx_event list" where
  "attempts_trace c payload cb os =
     concat (map (\<lambda>_. [Posted (c_id c) (conn_options c payload cb), Slept (c_retryDelay c)])
               (takeWhile (\<lambda>r. \<not> final_outcome r) os))
     @ (case find final_outcome os of
          None \<Rightarrow> []
        | Some r \<Rightarrow> Posted (c_id c) (conn_options c payload cb)
            # (if curl_error r = None then run_callback cb (to_int16 (response_code r)) (body r) else []))"

lemma run_callback_body: "run_callback cb n (if cb \<noteq> None then b else []) = run_callback cb n b"
  by (cases cb) (simp_all add: run_callback_def)

lemma send_attempts_step:
  assumes "retry < c_maxRetries c" and "perform nt w (conn_options c payload cb) = (w', r)"
    and "deliver_headers nt w' h es (if cb \<noteq> None then header_lines r else []) = Inr es'"
  shows "send_attempts nt h c payload cb retry w es =
    (let P = Posted (c_id c) (conn_options c payload cb); n = to_int16 (response_code r)
     in case curl_error r of
          Some e \<Rightarrow> ([P], w', es', Inl (Runtime_error (''sendPayload failed: '' @ e)))
        | None \<Rightarrow>
            if is_success n then (P # run_callback cb n (body r), w', es', Inr ())
            else if is_rejected n then (P # run_callback cb n (body r), w', es',
               Inl (Runtime_error (''server returned with code '' @ to_string (nat n))))
            else (P # Slept (c_retryDelay c) # fst (send_attempts nt h c payload cb (retry + 1) w' es'),
                  snd (send_attempts nt h c payload cb (retry + 1) w' es')))"
proof -
  define b where "b \<longleftrightarrow> cb \<noteq> None"
  have sp: "CurlSender_sendPayload (perform nt) w (c_handle c) (c_url c) (c_headers c) payload b
      = (w', if b then header_lines r else [], if b then body r else [],
         case curl_error r of Some e \<Rightarrow> Inl (Runtime_error (''sendPayload failed: '' @ e)) | None \<Rightarrow> Inr (to_int16 (response_code r)))"
    using assms(2) by (simp add: CurlSender_sendPayload_def conn_options_def b_def)
  have rc: "run_callback cb n (if b then body r else []) = run_callback cb n (body r)" for n
    unfolding b_def by (rule run_callback_body)
  show ?thesis
    unfolding send_attempts.simps [of nt h c payload cb retry w es] b_def [symmetric] sp Let_def prod.case
      assms(3) [folded b_def] sum.case rc
    using assms(1)
    by (auto simp: conn_options_def b_def case_prod_unfold split: option.split)
qed

lemma attempts_trace_Cons:
  "attempts_trace c payload cb (r # os) =
     (if final_outcome r then
        Posted (c_id c) (conn_options c payload cb)
          # (if curl_error r = None then run_callback cb (to_int16 (response_code r)) (body r) else [])
      else Posted (c_id c) (conn_options c payload cb) # Slept (c_retryDelay c) # attempts_trace c payload cb os)"
  by (simp add: attempts_trace_def)

lemma send_attempts_trace:
  "net_ok nt \<Longrightarrow> map_of (endpoints es) h \<noteq> None \<Longrightarrow>
    fst (send_attempts nt h c payload cb retry w es)
      = attempts_trace c payload cb (outcomes nt (conn_options c payload cb) w (c_maxRetries c - retry)) \<and>
    (case snd (snd (snd (send_attempts nt h c payload cb retry w es))) of Inl e \<Rightarrow> is_runtime_error e | Inr _ \<Rightarrow> True)"
proof (induction "c_maxRetries c - retry" arbitrary: retry w es)
  case 0
  then show ?case by (simp add: send_attempts.simps attempts_trace_def)
next
  case (Suc n)
  then have lt: "retry < c_maxRetries c" and n: "n = c_maxRetries c - (retry + 1)" by simp_all
  obtain w' r where r: "perform nt w (conn_options c payload cb) = (w', r)" by fastforce
  have "\<forall>l \<in> set (if cb \<noteq> None then header_lines r else []). 2 \<le> length l"
    using Suc.prems(1) r unfolding net_ok_def by (metis empty_iff list.set(1) snd_conv)
  then obtain es' where es': "deliver_headers nt w' h es (if cb \<noteq> None then header_lines r else []) = Inr es'"
    "map_of (endpoints es') h \<noteq> None"
    using deliver_headers_ok Suc.prems(2) by metis
  note step = send_attempts_step [OF lt r es'(1)]
  have os: "outcomes nt (conn_options c payload cb) w (c_maxRetries c - retry)
      = r # outcomes nt (conn_options c payload cb) w' (c_maxRetries c - (retry + 1))"
    using Suc.hyps(2) n by (metis (mono_tags, lifting) case_prod_conv outcomes.simps(2) r)
  show ?case
    unfolding step os attempts_trace_Cons
    using Suc.hyps(1) [OF n Suc.prems(1) es'(2)]
    by (auto simp: Let_def final_outcome_def split: option.split)
qed

text \<open>
  C17. One payload is posted until the first final outcome and at most \<open>max(1, maxRetries)\<close> times; a
  transfer error, a 2xx code and a 4xx code other than 408 and 429 are final. Between two posts,
  and after the last one of a row of failures, the thread sleeps for the retry delay the endpoint
  had when the payload was taken, whatever \<open>Retry-After\<close> the responses carry. The callback runs at
  most once, for a 2xx or a final 4xx, and no exception leaves \<open>send\<close>.
\<close>

theorem retry_policy:
  assumes "net_ok nt" and "getConnection es h = Inr c"
  shows "fst (send_item nt (h, payload, cb) w es)
      = attempts_trace c payload cb (outcomes nt (conn_options c payload cb) w (c_maxRetries c))
    \<and> 0 < c_maxRetries c \<and> snd (snd (snd (send_item nt (h, payload, cb) w es))) = Inr ()"
proof -
  have m: "map_of (endpoints es) h \<noteq> None" "0 < c_maxRetries c"
    using assms(2) by (auto simp: getConnection_def split: option.splits)
  show ?thesis
    using send_attempts_trace [OF assms(1) m(1), of c payload cb 0 w] m(2)
    by (auto simp: send_item_def assms(2) case_prod_unfold Let_def split: sum.splits)
qed

lemma send_item_ok:
  assumes "net_ok nt"
  shows "snd (snd (snd (send_item nt it w es))) = Inr ()"
proof -
  obtain h payload cb where it: "it = (h, payload, cb)" by (cases it)
  show ?thesis
  proof (cases "getConnection es h")
    case (Inl e)
    then show ?thesis by (simp add: send_item_def it)
  next
    case (Inr c)
    then have "map_of (endpoints es) h \<noteq> None" by (auto simp: getConnection_def split: option.splits)
    then show ?thesis
      using send_attempts_trace [OF assms, of es h c payload cb 0 w]
      by (auto simp: send_item_def it Inr case_prod_unfold Let_def split: sum.splits)
  qed
qed

subsection \<open>Draining the queue\<close>

text \<open>The sender thread left alone, for at most so many turns; \<open>clk\<close> is the steady clock at each turn.\<close>

fun run_sender ::
  "'w net \<Rightarrow> transport_config \<Rightarrow> (nat \<Rightarrow> ms) \<Rightarrow> nat \<Rightarrow> ('w, 'cb) transport \<Rightarrow> 'cb label list \<times> ('w, 'cb) transport" where
  "run_sender nt cfg clk 0 s = ([], s)"
| "run_sender nt cfg clk (Suc n) s =
     (case sender_step nt cfg (clk n) s of
        None \<Rightarrow> ([], s)
      | Some (ls, s') \<Rightarrow> (let (ls', s'') = run_sender nt cfg clk n s' in (ls @ ls', s'')))"

lemma run_sender_Suc:
  "sender_step nt cfg (clk n) s = Some (ls, s') \<Longrightarrow>
     run_sender nt cfg clk (Suc n) s = (ls @ fst (run_sender nt cfg clk n s'), snd (run_sender nt cfg clk n s'))"
  by (simp add: case_prod_unfold Let_def)

fun taken :: "'cb label list \<Rightarrow> 'cb item list" where
  "taken [] = []"
| "taken (Taken it # ls) = it # taken ls"
| "taken (_ # ls) = taken ls"

fun accepted :: "'cb label list \<Rightarrow> 'cb item list" where
  "accepted [] = []"
| "accepted (Accepted it # ls) = it # accepted ls"
| "accepted (_ # ls) = accepted ls"

lemma taken_append [simp]: "taken (xs @ ys) = taken xs @ taken ys"
  by (induction xs rule: taken.induct) auto

lemma accepted_append [simp]: "accepted (xs @ ys) = accepted xs @ accepted ys"
  by (induction xs rule: accepted.induct) auto

lemma sender_step_posting:
  assumes "net_ok nt" and "thread s = Posting it" and "\<not> forceFlushOnDestruction s \<or> async_transport_shutdown_timeout cfg \<le> 0"
  shows "\<exists>ls s1. sender_step nt cfg now s = Some (ls @ [fst (next_payload s1)], snd (next_payload s1)) \<and> taken ls = [] \<and>
    payloadsToSend s1 = payloadsToSend s \<and> working s1 = working s \<and> forceFlushOnDestruction s1 = forceFlushOnDestruction s"
proof -
  obtain tr w' es' r where i: "send_item nt it (world s) (endpoint_set s) = (tr, w', es', r)" by (metis prod_cases4)
  have "r = Inr ()" using send_item_ok [OF assms(1), of it "world s" "endpoint_set s"] by (simp add: i)
  then show ?thesis
    using assms(2,3)
    by (intro exI [of _ "[Sent tr]"] exI [of _ "s\<lparr>world := w', endpoint_set := es'\<rparr>"])
       (auto simp: sender_step_def i case_prod_unfold Let_def)
qed

lemma run_sender_posting:
  assumes "net_ok nt" and "async_transport_shutdown_timeout cfg \<le> 0 \<or> \<not> forceFlushOnDestruction s" and "thread s = Posting it"
  shows "\<exists>ls s'. run_sender nt cfg clk (length (payloadsToSend s) + 1 + n) s = (ls @ fst (run_sender nt cfg clk n s'), snd (run_sender nt cfg clk n s'))
    \<and> taken ls = payloadsToSend s \<and> payloadsToSend s' = [] \<and> thread s' = At_loop_head
    \<and> working s' = working s \<and> forceFlushOnDestruction s' = forceFlushOnDestruction s"
  using assms(2,3)
proof (induction "payloadsToSend s" arbitrary: s it)
  case Nil
  obtain ls s1 where 1: "sender_step nt cfg (clk n) s = Some (ls @ [fst (next_payload s1)], snd (next_payload s1))" "taken ls = []"
    "payloadsToSend s1 = payloadsToSend s" "working s1 = working s" "forceFlushOnDestruction s1 = forceFlushOnDestruction s"
    using sender_step_posting [OF assms(1) Nil.prems(2), of cfg "clk n"] Nil.prems(1) by auto
  have "next_payload s1 = (Other, s1\<lparr>thread := At_loop_head\<rparr>)"
    using 1(3) Nil.hyps by (simp add: next_payload_def)
  then show ?case
    using 1 Nil.hyps by (intro exI [of _ "ls @ [Other]"] exI [of _ "s1\<lparr>thread := At_loop_head\<rparr>"])
      (auto simp: case_prod_unfold Let_def)
next
  case (Cons i q)
  obtain ls s1 where 1: "sender_step nt cfg (clk (length (payloadsToSend s) + n)) s = Some (ls @ [fst (next_payload s1)], snd (next_payload s1))" "taken ls = []"
    "payloadsToSend s1 = payloadsToSend s" "working s1 = working s" "forceFlushOnDestruction s1 = forceFlushOnDestruction s"
    using sender_step_posting [OF assms(1) Cons.prems(2), of cfg "clk (length (payloadsToSend s) + n)"] Cons.prems(1) by auto
  define s2 where "s2 = snd (next_payload s1)"
  have q1: "payloadsToSend s1 = i # q" using 1(3) Cons.hyps(2) by simp
  have 2: "fst (next_payload s1) = Taken i" "payloadsToSend s2 = q" "thread s2 = Posting i"
    "working s2 = working s" "forceFlushOnDestruction s2 = forceFlushOnDestruction s"
    using 1(4,5) q1 by (simp_all add: next_payload_def s2_def)
  obtain ls' s' where 3: "run_sender nt cfg clk (length q + 1 + n) s2 = (ls' @ fst (run_sender nt cfg clk n s'), snd (run_sender nt cfg clk n s'))"
    "taken ls' = q" "payloadsToSend s' = []" "thread s' = At_loop_head" "working s' = working s" "forceFlushOnDestruction s' = forceFlushOnDestruction s"
    using Cons.hyps(1) [of s2 i] Cons.prems(1) 2 by auto
  have l: "length (payloadsToSend s) = Suc (length q)" using Cons.hyps(2) by (metis length_Cons)
  have "run_sender nt cfg clk (length (payloadsToSend s) + 1 + n) s
      = (ls @ [Taken i] @ ls' @ fst (run_sender nt cfg clk n s'), snd (run_sender nt cfg clk n s'))"
    using run_sender_Suc [of nt cfg clk "length q + 1 + n" s] 1(1) 2(1) 3(1) by (simp add: l s2_def [symmetric] del: run_sender.simps)
  then show ?case
    using 1(2,3) 3 q1 by (intro exI [of _ "ls @ [Taken i] @ ls'"] exI [of _ s']) simp
qed

lemma run_sender_ends:
  "thread r = At_loop_head \<Longrightarrow> \<not> working r \<Longrightarrow> run_sender nt cfg clk (Suc n) r = ([Other], r\<lparr>thread := Exited\<rparr>)"
  by (cases n) (simp_all add: sender_step_def)

lemma drain_from_post:
  assumes "net_ok nt" and "async_transport_shutdown_timeout cfg \<le> 0" and "thread p = Posting it" and "\<not> working p"
  shows "\<exists>ls s'. run_sender nt cfg clk (length (payloadsToSend p) + 1 + Suc n) p = (ls, s') \<and>
    taken ls = payloadsToSend p \<and> payloadsToSend s' = [] \<and> thread s' = Exited"
proof -
  obtain ls s' where 1: "run_sender nt cfg clk (length (payloadsToSend p) + 1 + Suc n) p
      = (ls @ fst (run_sender nt cfg clk (Suc n) s'), snd (run_sender nt cfg clk (Suc n) s'))"
    "taken ls = payloadsToSend p" "payloadsToSend s' = []" "thread s' = At_loop_head" "working s' = working p"
    using run_sender_posting [OF assms(1) _ assms(3), of cfg clk "Suc n"] assms(2) by auto
  show ?thesis using 1 assms(4) run_sender_ends [of s' nt cfg clk n] by (simp del: run_sender.simps)
qed

text \<open>
  C23. With no shutdown timeout, destroying a transport whose sender thread waits or posts sends every
  queued payload, in order, and the thread ends within one turn per payload and three more.
\<close>

theorem flush_on_destruction:
  assumes "net_ok nt" and "async_transport_shutdown_timeout cfg \<le> 0" and "thread s = Waiting \<or> (\<exists>it. thread s = Posting it)"
  shows "let (ls, s') = run_sender nt cfg clk (length (payloadsToSend s) + 3) (begin_destruction now s)
     in taken ls = payloadsToSend s \<and> payloadsToSend s' = [] \<and> thread s' = Exited"
proof -
  define d where "d = begin_destruction now s"
  have d: "payloadsToSend d = payloadsToSend s" "thread d = thread s" "\<not> working d" "forceFlushOnDestruction d"
    by (simp_all add: d_def begin_destruction_def request_shutdown_def)
  have "\<exists>ls s'. run_sender nt cfg clk (length (payloadsToSend s) + 3) d = (ls, s') \<and>
      taken ls = payloadsToSend s \<and> payloadsToSend s' = [] \<and> thread s' = Exited"
  proof (cases "thread s = Waiting")
    case False
    then obtain it where "thread d = Posting it" using assms(3) d(2) by auto
    from drain_from_post [OF assms(1,2) this d(3), of clk 1] show ?thesis by (simp add: d(1) numeral_3_eq_3)
  next
    case True
    show ?thesis
    proof (cases "payloadsToSend s")
      case Nil
      then have "sender_step nt cfg (clk 2) d = Some ([Other], d\<lparr>thread := At_loop_head\<rparr>)"
        using True d by (simp add: sender_step_def next_payload_def)
      from run_sender_Suc [of nt cfg clk 2, OF this] run_sender_ends [of "d\<lparr>thread := At_loop_head\<rparr>" nt cfg clk 1]
      show ?thesis using Nil d by (simp add: numeral_3_eq_3 numeral_2_eq_2 del: run_sender.simps)
    next
      case (Cons i q)
      define p where "p = d\<lparr>payloadsToSend := q, thread := Posting i, payloadsByteUsage := payloadsByteUsage d - of_nat (length (fst (snd i)))\<rparr>"
      have "sender_step nt cfg (clk (length q + 3)) d = Some ([Taken i], p)"
        using True d Cons by (simp add: sender_step_def next_payload_def p_def)
      note s1 = run_sender_Suc [of nt cfg clk "length q + 3", OF this]
      have "thread p = Posting i" "\<not> working p" "payloadsToSend p = q" using d by (simp_all add: p_def)
      from drain_from_post [OF assms(1,2) this(1,2), of clk 1] this(3) s1 show ?thesis
        by (auto simp: Cons numeral_3_eq_3 simp del: run_sender.simps)
    qed
  qed
  then show ?thesis by (auto simp: d_def)
qed

text \<open>
  If the destructor runs before the sender thread has reached its loop for the first time, the
  thread ends at once: the forced flush sends nothing and the queue is lost.
\<close>

theorem flush_lost_before_first_turn:
  assumes "thread s = At_loop_head"
  shows "run_sender nt cfg clk (Suc n) (begin_destruction now s)
    = ([Other], (begin_destruction now s)\<lparr>thread := Exited\<rparr>)"
  using assms by (cases n) (simp_all add: sender_step_def begin_destruction_def request_shutdown_def)

subsection \<open>Interleavings\<close>

definition vector_max :: nat where
  "vector_max = 2 ^ 63 - 1"

text \<open>
  The steps of one process: its threads call \<open>enqueue\<close>, \<open>initializeConnection\<close> and
  \<open>updateRetryDelay\<close>; a fork runs \<open>prefork\<close> and, in the parent, \<open>postfork(false)\<close>; the sender thread
  takes its turns. A payload is a span of bytes in memory, so shorter than half the address space.
\<close>

inductive tstep :: "'w net \<Rightarrow> transport_config \<Rightarrow> ('w, 'cb) transport \<Rightarrow> 'cb label list \<Rightarrow> ('w, 'cb) transport \<Rightarrow> bool"
  for nt cfg where
  step_accept: "length (fst (snd it)) \<le> vector_max \<Longrightarrow> enqueue cfg it s \<noteq> s \<Longrightarrow> tstep nt cfg s [Accepted it] (enqueue cfg it s)"
| step_drop: "length (fst (snd it)) \<le> vector_max \<Longrightarrow> enqueue cfg it s = s \<Longrightarrow> tstep nt cfg s [Dropped it] s"
| step_init: "tstep nt cfg s [] (initializeConnection ue ce url h ct hs timeout retries delay ssl s)"
| step_delay: "tstep nt cfg s [] (transport_updateRetryDelay h delay s)"
| step_shutdown: "tstep nt cfg s [] (request_shutdown s)"
| step_destroy: "tstep nt cfg s [] (begin_destruction now s)"
| step_join: "join_thread s = Some s' \<Longrightarrow> tstep nt cfg s [] s'"
| step_cleanup: "tstep nt cfg s [] (CurlCleanup s)"
| step_postfork: "tstep nt cfg s [] (postfork False s)"
| step_sender: "sender_step nt cfg now s = Some (ls, s') \<Longrightarrow> tstep nt cfg s ls s'"

inductive_cases tstep_cases: "tstep nt cfg s ls s'"

inductive trun :: "'w net \<Rightarrow> transport_config \<Rightarrow> ('w, 'cb) transport \<Rightarrow> 'cb label list \<Rightarrow> ('w, 'cb) transport \<Rightarrow> bool"
  for nt cfg where
  trun_refl: "trun nt cfg s [] s"
| trun_step: "trun nt cfg s ls s' \<Longrightarrow> tstep nt cfg s' ls' s'' \<Longrightarrow> trun nt cfg s (ls @ ls') s''"

definition queue_bytes :: "'cb item list \<Rightarrow> nat" where
  "queue_bytes q = sum_list (map (\<lambda>it. length (fst (snd it))) q)"

text \<open>\<open>lost\<close> bytes are counted by \<open>payloadsByteUsage_\<close> although they are no longer queued.\<close>

definition usage_inv :: "transport_config \<Rightarrow> nat \<Rightarrow> ('w, 'cb) transport \<Rightarrow> bool" where
  "usage_inv cfg lost s \<longleftrightarrow>
     payloadsByteUsage s = of_nat (lost + queue_bytes (payloadsToSend s)) \<and>
     lost + queue_bytes (payloadsToSend s) \<le> unat (max_send_queue_size cfg)"

lemma queue_bytes_simps [simp]:
  "queue_bytes [] = 0" "queue_bytes (it # q) = length (fst (snd it)) + queue_bytes q"
  "queue_bytes (q @ r) = queue_bytes q + queue_bytes r"
  by (simp_all add: queue_bytes_def)

lemma enqueue_fits:
  assumes "usage_inv cfg lost s" and "length (fst (snd it)) \<le> vector_max" and "unat (max_send_queue_size cfg) \<le> vector_max"
  shows "enqueue cfg it s =
    (if lost + queue_bytes (payloadsToSend s) + length (fst (snd it)) \<le> unat (max_send_queue_size cfg)
     then s\<lparr>payloadsToSend := payloadsToSend s @ [it], payloadsByteUsage := payloadsByteUsage s + of_nat (length (fst (snd it)))\<rparr>
     else s)"
proof -
  let ?b = "lost + queue_bytes (payloadsToSend s)" and ?n = "length (fst (snd it))"
  have b: "?b + ?n < 2 ^ 64"
    using assms by (auto simp: usage_inv_def vector_max_def)
  have "payloadsByteUsage s + of_nat ?n = (of_nat (?b + ?n) :: u64)"
    using assms(1) by (simp add: usage_inv_def)
  then have "payloadsByteUsage s + of_nat ?n > max_send_queue_size cfg \<longleftrightarrow> ?b + ?n > unat (max_send_queue_size cfg)"
    using u64_unat_of_nat [OF b] by (simp only: word_less_nat_alt)
  then show ?thesis
    by (simp add: enqueue_def Let_def not_less)
qed

lemma next_payload_inv:
  "usage_inv cfg lost s \<Longrightarrow> usage_inv cfg lost (snd (next_payload s))"
  by (auto simp: usage_inv_def next_payload_def split: list.split)

lemma next_payload_fifo:
  "taken [fst (next_payload s)] @ payloadsToSend (snd (next_payload s)) = payloadsToSend s \<and> accepted [fst (next_payload s)] = []"
  by (auto simp: next_payload_def split: list.split)

lemma sender_step_queue:
  assumes "sender_step nt cfg now s = Some (ls, s')"
  shows "(usage_inv cfg lost s \<longrightarrow> usage_inv cfg lost s') \<and> taken ls @ payloadsToSend s' = payloadsToSend s \<and> accepted ls = []"
proof -
  have np: "(usage_inv cfg lost r \<longrightarrow> usage_inv cfg lost (snd (next_payload r))) \<and>
      taken [fst (next_payload r)] @ payloadsToSend (snd (next_payload r)) = payloadsToSend r \<and> accepted [fst (next_payload r)] = []" for r :: "('b, 'a) transport"
    using next_payload_inv next_payload_fifo by blast
  have upd: "usage_inv cfg lost (s\<lparr>world := w, endpoint_set := e\<rparr>) \<longleftrightarrow> usage_inv cfg lost s" for w e
    by (simp add: usage_inv_def)
  show ?thesis
  proof (cases "thread s")
    case (Posting it)
    obtain tr w e r where i: "send_item nt it (world s) (endpoint_set s) = (tr, w, e, r)" by (metis prod_cases4)
    obtain l s2 where n: "next_payload (s\<lparr>world := w, endpoint_set := e\<rparr>) = (l, s2)" by fastforce
    from assms i Posting np [of "s\<lparr>world := w, endpoint_set := e\<rparr>"] n show ?thesis
      by (auto simp: sender_step_def upd Let_def usage_inv_def split: if_splits)
  qed (use assms np [of s] in \<open>auto simp: sender_step_def usage_inv_def case_prod_unfold Let_def split: if_splits\<close>)
qed

lemma startThread_queue [simp]:
  "payloadsToSend (startThread s) = payloadsToSend s" "payloadsByteUsage (startThread s) = payloadsByteUsage s"
  by (simp_all add: startThread_def)

lemma initializeConnection_queue [simp]:
  "payloadsToSend (initializeConnection ue ce url h ct hs t r d ssl s) = payloadsToSend s"
  "payloadsByteUsage (initializeConnection ue ce url h ct hs t r d ssl s) = payloadsByteUsage s"
  by (simp_all add: initializeConnection_def Let_def case_prod_unfold split: sum.split)

lemma tstep_queue:
  assumes "tstep nt cfg s ls s'" and "unat (max_send_queue_size cfg) \<le> vector_max" and "usage_inv cfg lost s"
  shows "usage_inv cfg lost s' \<and> payloadsToSend s @ accepted ls = taken ls @ payloadsToSend s'"
  using assms(1)
proof cases
  case (step_accept it)
  then show ?thesis
    using enqueue_fits [OF assms(3) step_accept(3) assms(2)] assms(3)
    by (auto simp: usage_inv_def algebra_simps split: if_splits)
next
  case (step_sender now)
  then show ?thesis using sender_step_queue [OF step_sender] assms(3) by auto
qed (use assms(3) in \<open>auto simp: usage_inv_def transport_updateRetryDelay_def request_shutdown_def begin_destruction_def
      join_thread_def CurlCleanup_def CurlInit_def postfork_def Let_def split: sum.splits if_splits\<close>)

lemma trun_queue:
  "trun nt cfg s ls s' \<Longrightarrow> unat (max_send_queue_size cfg) \<le> vector_max \<Longrightarrow> usage_inv cfg lost s \<Longrightarrow>
     usage_inv cfg lost s' \<and> payloadsToSend s @ accepted ls = taken ls @ payloadsToSend s'"
proof (induction rule: trun.induct)
  case (trun_step s ls s' ls' s'')
  then show ?case using tstep_queue [OF trun_step.hyps(2)] by (metis accepted_append append_assoc taken_append)
qed simp

text \<open>
  C16. In every interleaving of the threads of one process the payloads taken by the sender are, in
  order, the accepted ones that are no longer queued; \<open>payloadsByteUsage_\<close> is the number of queued
  bytes, never more than the configured maximum; a payload is dropped exactly when it would
  exceed the maximum.
\<close>

theorem queue_bounded_fifo:
  assumes "trun nt cfg (new_transport w) ls s" and "unat (max_send_queue_size cfg) \<le> vector_max"
  shows "accepted ls = taken ls @ payloadsToSend s
    \<and> unat (payloadsByteUsage s) = queue_bytes (payloadsToSend s)
    \<and> queue_bytes (payloadsToSend s) \<le> unat (max_send_queue_size cfg)
    \<and> (\<forall>it. length (fst (snd it)) \<le> vector_max \<longrightarrow>
         (enqueue cfg it s = s) = (queue_bytes (payloadsToSend s) + length (fst (snd it)) > unat (max_send_queue_size cfg)))"
proof -
  have "usage_inv cfg 0 (new_transport w)" by (simp add: usage_inv_def new_transport_def)
  with trun_queue [OF assms] have inv: "usage_inv cfg 0 s" and q: "accepted ls = taken ls @ payloadsToSend s"
    by (auto simp: new_transport_def)
  have "queue_bytes (payloadsToSend s) < 2 ^ 64"
    using inv assms(2) by (auto simp: usage_inv_def vector_max_def)
  then have "unat (payloadsByteUsage s) = queue_bytes (payloadsToSend s)"
    using inv u64_unat_of_nat by (simp add: usage_inv_def)
  moreover have "(enqueue cfg it s = s) = (queue_bytes (payloadsToSend s) + length (fst (snd it)) > unat (max_send_queue_size cfg))"
    if "length (fst (snd it)) \<le> vector_max" for it :: "'b item"
  proof -
    have "s\<lparr>payloadsToSend := payloadsToSend s @ [it], payloadsByteUsage := u\<rparr> \<noteq> s" for u
    proof
      assume "s\<lparr>payloadsToSend := payloadsToSend s @ [it], payloadsByteUsage := u\<rparr> = s"
      from arg_cong [OF this, of payloadsToSend] show False by simp
    qed
    then show ?thesis
      using enqueue_fits [OF inv that assms(2)] by auto
  qed
  ultimately show ?thesis using q inv by (simp add: usage_inv_def)
qed

text \<open>
  After a fork the child empties the queue it inherited but keeps counting its bytes: from then on
  \<open>payloadsByteUsage_\<close> exceeds the queued bytes by that amount, whatever the child does, and a
  payload that does not fit beside the lost bytes is dropped even when the queue is empty.
\<close>

theorem forked_child_leaks_capacity:
  assumes "trun nt cfg (new_transport w) ls s" and "unat (max_send_queue_size cfg) \<le> vector_max"
    and "trun nt cfg (postfork True s) ls' s'"
  shows "unat (payloadsByteUsage s') = queue_bytes (payloadsToSend s) + queue_bytes (payloadsToSend s')
    \<and> (\<forall>it. length (fst (snd it)) \<le> vector_max \<longrightarrow>
         queue_bytes (payloadsToSend s) + length (fst (snd it)) > unat (max_send_queue_size cfg) \<longrightarrow> enqueue cfg it s' = s')"
proof -
  have "usage_inv cfg 0 (new_transport w)" by (simp add: usage_inv_def new_transport_def)
  with trun_queue [OF assms(1,2)] have inv: "usage_inv cfg 0 s" by auto
  have "usage_inv cfg (queue_bytes (payloadsToSend s)) (postfork True s)"
    using inv by (auto simp: usage_inv_def postfork_def CurlInit_def Let_def)
  with trun_queue [OF assms(3,2)] have inv': "usage_inv cfg (queue_bytes (payloadsToSend s)) s'" by auto
  then have "queue_bytes (payloadsToSend s) + queue_bytes (payloadsToSend s') < 2 ^ 64"
    using assms(2) by (auto simp: usage_inv_def vector_max_def)
  then have "unat (payloadsByteUsage s') = queue_bytes (payloadsToSend s) + queue_bytes (payloadsToSend s')"
    using inv' u64_unat_of_nat by (simp add: usage_inv_def del: of_nat_add)
  then show ?thesis
    using enqueue_fits [OF inv' _ assms(2)] by auto
qed

subsection \<open>Concrete runs\<close>

text \<open>A server that is busy once and then accepts.\<close>

definition busy_once :: "nat net" where
  "busy_once = \<lparr>perform = (\<lambda>w opts. (w + 1, \<lparr>curl_error = None, response_code = (if w = 0 then 503 else 200),
        header_lines = [], body = ''ok''\<rparr>)),
     system_clock = (\<lambda>w. 0), get_time = (\<lambda>_. None)\<rparr>"

definition sample_connection :: connection where
  "sample_connection = \<lparr>c_url = ''http://h'', c_headers = [], c_id = 5, c_handle = [VERBOSE 1],
     c_maxRetries = 3, c_retryDelay = 10\<rparr>"

definition sample_endpoints :: HttpEndpoints where
  "sample_endpoints =
     \<lparr>endpoints = [(7, \<lparr>endpoint = ''http://h'', maxRetries = 3, retryDelay = 10, connectionId = 5, curlHeaders = []\<rparr>)],
      connections = [(5, [VERBOSE 1])]\<rparr>"

lemma busy_once_ok: "net_ok busy_once"
  by (simp add: net_ok_def busy_once_def)

lemma sample_getConnection: "getConnection sample_endpoints 7 = Inr sample_connection"
  by (simp add: getConnection_def sample_endpoints_def sample_connection_def)

lemma retry_policy_witness:
  "fst (send_item busy_once (7, [1, 2], Some ''cb'') 0 sample_endpoints)
     = (let P = Posted 5 (conn_options sample_connection [1, 2] (Some ''cb'')) in [P, Slept 10, P, Called ''cb'' 200 ''ok''])"
proof -
  have "outcomes busy_once opts 0 3
      = map (\<lambda>n. \<lparr>curl_error = None, response_code = n, header_lines = [], body = ''ok''\<rparr>) [503, 200, 200]" for opts
    by (simp add: numeral_3_eq_3 busy_once_def)
  then show ?thesis
    using retry_policy [OF busy_once_ok sample_getConnection, of "[1, 2]" "Some ''cb''" 0]
    by (simp add: Let_def sample_connection_def attempts_trace_def final_outcome_def to_int16_def is_success_def is_rejected_def
        run_callback_def)
qed

definition sample_config :: transport_config where
  "sample_config = \<lparr>max_send_queue_size = 100, async_transport_shutdown_timeout = 0\<rparr>"

definition sample_item :: "string item" where
  "sample_item = (7, replicate 60 0, None)"

lemma flush_on_destruction_witness:
  "payloadsToSend (snd (run_sender busy_once sample_config (\<lambda>_. 0) 4
      (begin_destruction 9 ((new_transport 0)\<lparr>thread := Waiting, payloadsToSend := [sample_item]\<rparr>)))) = []"
  using flush_on_destruction [OF busy_once_ok, of sample_config "(new_transport 0)\<lparr>thread := Waiting, payloadsToSend := [sample_item]\<rparr>"
      "\<lambda>_. 0" 9]
  by (simp add: sample_config_def case_prod_unfold Let_def del: run_sender.simps)

lemma flush_lost_before_first_turn_witness:
  "payloadsToSend (snd (run_sender busy_once sample_config (\<lambda>_. 0) 9
      (begin_destruction 9 (enqueue sample_config sample_item (startThread (new_transport 0)))))) = [sample_item]"
proof -
  have "8 + 1 = (9 :: nat)" by simp
  have "thread (enqueue sample_config sample_item (startThread (new_transport 0))) = At_loop_head"
    by (simp add: enqueue_def startThread_def new_transport_def sample_config_def sample_item_def)
  from flush_lost_before_first_turn [OF this, of busy_once sample_config "\<lambda>_. 0" 8 9] show ?thesis
    by (simp add: begin_destruction_def request_shutdown_def enqueue_def startThread_def new_transport_def
        sample_config_def sample_item_def del: run_sender.simps)
qed

lemma sample_enqueue:
  "enqueue sample_config sample_item (new_transport w)
     = (new_transport w)\<lparr>payloadsToSend := [sample_item], payloadsByteUsage := 60\<rparr>"
  by (simp add: enqueue_def new_transport_def sample_config_def sample_item_def)

lemma sample_trun:
  "trun busy_once sample_config (new_transport 0) [Accepted sample_item]
     ((new_transport 0)\<lparr>payloadsToSend := [sample_item], payloadsByteUsage := 60\<rparr>)"
proof -
  have "enqueue sample_config sample_item (new_transport (0 :: nat)) \<noteq> new_transport 0"
    by (simp add: sample_enqueue) (simp add: new_transport_def)
  then have "tstep busy_once sample_config (new_transport 0) [Accepted sample_item] (enqueue sample_config sample_item (new_transport 0))"
    by (intro step_accept) (simp_all add: sample_item_def vector_max_def)
  from trun_step [OF trun_refl this] show ?thesis by (simp add: sample_enqueue)
qed

lemma sample_max: "unat (max_send_queue_size sample_config) \<le> vector_max"
  by (simp add: sample_config_def vector_max_def)

lemma queue_bounded_fifo_witness:
  "enqueue sample_config sample_item ((new_transport (0 :: nat))\<lparr>payloadsToSend := [sample_item], payloadsByteUsage := 60\<rparr>)
     = (new_transport 0)\<lparr>payloadsToSend := [sample_item], payloadsByteUsage := 60\<rparr>"
proof -
  have "length (fst (snd sample_item)) \<le> vector_max" by (simp add: sample_item_def vector_max_def)
  with queue_bounded_fifo [OF sample_trun sample_max] show ?thesis
    by (simp add: sample_item_def sample_config_def)
qed

lemma forked_child_leaks_capacity_witness:
  "payloadsToSend (postfork True ((new_transport (0 :: nat))\<lparr>payloadsToSend := [sample_item], payloadsByteUsage := 60\<rparr>)) = []
   \<and> enqueue sample_config sample_item (postfork True ((new_transport (0 :: nat))\<lparr>payloadsToSend := [sample_item], payloadsByteUsage := 60\<rparr>))
     = postfork True ((new_transport 0)\<lparr>payloadsToSend := [sample_item], payloadsByteUsage := 60\<rparr>)"
proof -
  have "length (fst (snd sample_item)) \<le> vector_max" by (simp add: sample_item_def vector_max_def)
  with forked_child_leaks_capacity [OF sample_trun sample_max trun_refl] show ?thesis
    by (simp add: sample_item_def sample_config_def) (simp add: postfork_def CurlInit_def startThread_def Let_def)
qed

end
