(* ===== verification/Config.thy ===== *)
theory Config
  imports Strings Durations
begin

text \<open>
  The agent's configuration: the snapshot of option values (\<open>ConfigurationSnapshot.h\<close>), the
  process-wide manager that reads options from their sources (\<open>ConfigurationManager\<close>), and the
  per-worker copy with its watchers (\<open>ConfigurationStorage.h\<close>).

  The code reads and writes a member of the snapshot through its offset, cast to the type of the
  option table. Here \<open>options\<close> holds the members by name in declaration order, each value with the
  constructor of its C++ type, an offset is the name of the member, and an access under the wrong
  type is undefined behaviour. The sources (php.ini, environment, dynamic configuration) are
  functions of the rest of the process \<open>'w\<close>.
\<close>

subsection \<open>Snapshots\<close>

datatype config_value = CString string | CBool bool | CDuration ms | CLogLevel LogLevel | CBytes u64

record ConfigurationSnapshot =
  options :: "(string \<times> config_value) list"
  revision :: u64
  remoteConfigFiles :: "(string, string) umap"

definition default_options :: "(string \<times> config_value) list" where
  "default_options =
    [(''bootstrap_php_part_file'', CString []),
     (''enabled'', CBool True),
     (''log_file'', CString []),
     (''log_level'', CLogLevel logLevel_off),
     (''log_level_file'', CLogLevel logLevel_off),
     (''log_level_stderr'', CLogLevel logLevel_off),
     (''log_level_syslog'', CLogLevel logLevel_info),
     (''log_features'', CString []),
     (''debug_diagnostic_file'', CString []),
     (''max_send_queue_size'', CBytes (2 * 1024 * 1204)),
     (''async_transport'', CBool True),
     (''async_transport_shutdown_timeout'', CDuration 30000),
     (''debug_instrument_all'', CBool False),
     (''debug_php_hooks_enabled'', CBool False),
     (''inferred_spans_enabled'', CBool False),
     (''inferred_spans_reduction_enabled'', CBool True),
     (''inferred_spans_stacktrace_enabled'', CBool True),
     (''inferred_spans_sampling_interval'', CDuration 50),
     (''inferred_spans_min_duration'', CDuration 0),
     (''dependency_autoloader_guard_enabled'', CBool True),
     (''native_otlp_serializer_enabled'', CBool True),
     (''opamp_headers'', CString []),
     (''opamp_endpoint'', CString []),
     (''opamp_heartbeat_interval'', CDuration 30000),
     (''opamp_send_timeout'', CDuration 10000),
     (''opamp_send_max_retries'', CBytes 3),
     (''opamp_send_retry_delay'', CDuration 10000),
     (''opamp_insecure'', CBool False),
     (''opamp_certificate'', CString []),
     (''opamp_client_certificate'', CString []),
     (''opamp_client_keypass'', CString []),
     (''opamp_client_key'', CString []),
     (''OTEL_EXPORTER_OTLP_INSECURE'', CBool False),
     (''OTEL_EXPORTER_OTLP_CERTIFICATE'', CString []),
     (''OTEL_EXPORTER_OTLP_CLIENT_CERTIFICATE'', CString []),
     (''OTEL_EXPORTER_OTLP_CLIENT_KEY'', CString []),
     (''OTEL_EXPORTER_OTLP_CLIENT_KEYPASS'', CString []),
     (''OTEL_EXPORTER_OTLP_TRACES_INSECURE'', CBool False),
     (''OTEL_EXPORTER_OTLP_TRACES_CERTIFICATE'', CString []),
     (''OTEL_EXPORTER_OTLP_TRACES_CLIENT_CERTIFICATE'', CString []),
     (''OTEL_EXPORTER_OTLP_TRACES_CLIENT_KEY'', CString []),
     (''OTEL_EXPORTER_OTLP_TRACES_CLIENT_KEYPASS'', CString []),
     (''OTEL_EXPORTER_OTLP_METRICS_INSECURE'', CBool False),
     (''OTEL_EXPORTER_OTLP_METRICS_CERTIFICATE'', CString []),
     (''OTEL_EXPORTER_OTLP_METRICS_CLIENT_CERTIFICATE'', CString []),
     (''OTEL_EXPORTER_OTLP_METRICS_CLIENT_KEY'', CString []),
     (''OTEL_EXPORTER_OTLP_METRICS_CLIENT_KEYPASS'', CString []),
     (''OTEL_EXPORTER_OTLP_LOGS_INSECURE'', CBool False),
     (''OTEL_EXPORTER_OTLP_LOGS_CERTIFICATE'', CString []),
     (''OTEL_EXPORTER_OTLP_LOGS_CLIENT_CERTIFICATE'', CString []),
     (''OTEL_EXPORTER_OTLP_LOGS_CLIENT_KEY'', CString []),
     (''OTEL_EXPORTER_OTLP_LOGS_CLIENT_KEYPASS'', CString []),
     (''OTEL_EXPORTER_OTLP_ENDPOINT'', CString []),
     (''OTEL_EXPORTER_OTLP_TRACES_ENDPOINT'', CString []),
     (''OTEL_EXPORTER_OTLP_METRICS_ENDPOINT'', CString []),
     (''OTEL_EXPORTER_OTLP_LOGS_ENDPOINT'', CString [])]"

definition new_ConfigurationSnapshot :: ConfigurationSnapshot where
  "new_ConfigurationSnapshot = \<lparr>options = default_options, revision = 0, remoteConfigFiles = []\<rparr>"

text \<open>A member by its name; \<open>None\<close> when the struct has no such member.\<close>

definition option_value :: "ConfigurationSnapshot \<Rightarrow> string \<Rightarrow> config_value option" where
  "option_value cfg name = map_of (options cfg) name"

subsection \<open>The option table\<close>

datatype option_type = opt_boolean | opt_string | opt_duration | opt_loglevel | opt_bytes

record OptionMetadata =
  opt_type :: option_type
  offset :: string
  secret :: bool
  otelNativeOption :: bool

fun type_of_value :: "config_value \<Rightarrow> option_type" where
  "type_of_value (CString _) = opt_string"
| "type_of_value (CBool _) = opt_boolean"
| "type_of_value (CDuration _) = opt_duration"
| "type_of_value (CLogLevel _) = opt_loglevel"
| "type_of_value (CBytes _) = opt_bytes"

definition meta :: "string \<Rightarrow> option_type \<Rightarrow> bool \<Rightarrow> bool \<Rightarrow> string \<times> OptionMetadata" where
  "meta optname t s native = (optname, \<lparr>opt_type = t, offset = optname, secret = s, otelNativeOption = native\<rparr>)"

text \<open>The initialiser of the \<open>std::map\<close>; \<open>option_table\<close> is the map, sorted by name.\<close>

definition option_list :: "(string \<times> OptionMetadata) list" where
  "option_list =
    [meta ''bootstrap_php_part_file'' opt_string False False,
     meta ''enabled'' opt_boolean False False,
     meta ''log_file'' opt_string False False,
     meta ''log_level'' opt_loglevel False False,
     meta ''log_level_file'' opt_loglevel False False,
     meta ''log_level_stderr'' opt_loglevel False False,
     meta ''log_level_syslog'' opt_loglevel False False,
     meta ''log_features'' opt_string False False,
     meta ''debug_diagnostic_file'' opt_string False False,
     meta ''max_send_queue_size'' opt_bytes False False,
     meta ''async_transport'' opt_boolean False False,
     meta ''async_transport_shutdown_timeout'' opt_duration False False,
     meta ''debug_instrument_all'' opt_boolean False False,
     meta ''debug_php_hooks_enabled'' opt_boolean False False,
     meta ''inferred_spans_enabled'' opt_boolean False False,
     meta ''inferred_spans_reduction_enabled'' opt_boolean False False,
     meta ''inferred_spans_stacktrace_enabled'' opt_boolean False False,
     meta ''inferred_spans_sampling_interval'' opt_duration False False,
     meta ''inferred_spans_min_duration'' opt_duration False False,
     meta ''dependency_autoloader_guard_enabled'' opt_boolean False False,
     meta ''native_otlp_serializer_enabled'' opt_boolean False False,
     meta ''opamp_headers'' opt_string False False,
     meta ''opamp_endpoint'' opt_string False False,
     meta ''opamp_heartbeat_interval'' opt_duration False False,
     meta ''opamp_send_timeout'' opt_duration False False,
     meta ''opamp_send_max_retries'' opt_bytes False False,
     meta ''opamp_send_retry_delay'' opt_duration False False,
     meta ''opamp_insecure'' opt_boolean False False,
     meta ''opamp_certificate'' opt_string False False,
     meta ''opamp_client_certificate'' opt_string False False,
     meta ''opamp_client_key'' opt_string False False,
     meta ''opamp_client_keypass'' opt_string True False,
     meta ''OTEL_EXPORTER_OTLP_INSECURE'' opt_boolean False True,
     meta ''OTEL_EXPORTER_OTLP_CERTIFICATE'' opt_string False True,
     meta ''OTEL_EXPORTER_OTLP_CLIENT_CERTIFICATE'' opt_string False True,
     meta ''OTEL_EXPORTER_OTLP_CLIENT_KEY'' opt_string False True,
     meta ''OTEL_EXPORTER_OTLP_CLIENT_KEYPASS'' opt_string True True,
     meta ''OTEL_EXPORTER_OTLP_TRACES_INSECURE'' opt_boolean False True,
     meta ''OTEL_EXPORTER_OTLP_TRACES_CERTIFICATE'' opt_string False True,
     meta ''OTEL_EXPORTER_OTLP_TRACES_CLIENT_CERTIFICATE'' opt_string False True,
     meta ''OTEL_EXPORTER_OTLP_TRACES_CLIENT_KEY'' opt_string False True,
     meta ''OTEL_EXPORTER_OTLP_TRACES_CLIENT_KEYPASS'' opt_string True True,
     meta ''OTEL_EXPORTER_OTLP_METRICS_INSECURE'' opt_boolean False True,
     meta ''OTEL_EXPORTER_OTLP_METRICS_CERTIFICATE'' opt_string False True,
     meta ''OTEL_EXPORTER_OTLP_METRICS_CLIENT_CERTIFICATE'' opt_string False True,
     meta ''OTEL_EXPORTER_OTLP_METRICS_CLIENT_KEY'' opt_string False True,
     meta ''OTEL_EXPORTER_OTLP_METRICS_CLIENT_KEYPASS'' opt_string True True,
     meta ''OTEL_EXPORTER_OTLP_LOGS_INSECURE'' opt_boolean False True,
     meta ''OTEL_EXPORTER_OTLP_LOGS_CERTIFICATE'' opt_string False True,
     meta ''OTEL_EXPORTER_OTLP_LOGS_CLIENT_CERTIFICATE'' opt_string False True,
     meta ''OTEL_EXPORTER_OTLP_LOGS_CLIENT_KEY'' opt_string False True,
     meta ''OTEL_EXPORTER_OTLP_LOGS_CLIENT_KEYPASS'' opt_string True True,
     meta ''OTEL_EXPORTER_OTLP_ENDPOINT'' opt_string False True,
     meta ''OTEL_EXPORTER_OTLP_TRACES_ENDPOINT'' opt_string False True,
     meta ''OTEL_EXPORTER_OTLP_METRICS_ENDPOINT'' opt_string False True,
     meta ''OTEL_EXPORTER_OTLP_LOGS_ENDPOINT'' opt_string False True]"

definition option_table :: "(string \<times> OptionMetadata) list" where
  "option_table = fold (\<lambda>(name, md) m. map_insert name md m) option_list []"

subsection \<open>Reading options as text and as values\<close>

definition bad_cast :: exn where
  "bad_cast = Undefined ''member accessed under another type''"

definition accessOptionStringValueByMetadata :: "OptionMetadata \<Rightarrow> ConfigurationSnapshot \<Rightarrow> string result" where
  "accessOptionStringValueByMetadata metadata snapshot =
     (case (opt_type metadata, option_value snapshot (offset metadata)) of
        (opt_string, Some (CString value)) \<Rightarrow> Inr value
      | (opt_boolean, Some (CBool value)) \<Rightarrow> Inr (if value then ''true'' else ''false'')
      | (opt_duration, Some (CDuration value)) \<Rightarrow> Inr (show_int value)
      | (opt_loglevel, Some (CLogLevel value)) \<Rightarrow> Inr (trim (getLogLevelName (level_value value)))
      | (opt_bytes, Some (CBytes value)) \<Rightarrow> Inr (to_string (unat value))
      | _ \<Rightarrow> Inl bad_cast)"

text \<open>The answer \<open>Inr None\<close> is \<open>std::nullopt\<close>.\<close>

definition getOptionValue :: "string \<Rightarrow> ConfigurationSnapshot \<Rightarrow> config_value option result" where
  "getOptionValue optionName snapshot =
     (case map_of option_table optionName of
        None \<Rightarrow> Inr None
      | Some metadata \<Rightarrow>
          (case option_value snapshot (offset metadata) of
             None \<Rightarrow> Inl bad_cast
           | Some value \<Rightarrow> if type_of_value value = opt_type metadata then Inr (Some value) else Inl bad_cast))"

text \<open>The assignment of a parsed text to a member, by the type of the option.\<close>

definition parse_option :: "option_type \<Rightarrow> string \<Rightarrow> config_value result" where
  "parse_option t optionValue =
     (case t of
        opt_string \<Rightarrow> Inr (CString optionValue)
      | opt_boolean \<Rightarrow> Inr (CBool (parseBoolean optionValue))
      | opt_duration \<Rightarrow> map_sum id CDuration (convertDurationWithUnit optionValue)
      | opt_loglevel \<Rightarrow> map_sum id CLogLevel (parseLogLevel optionValue)
      | opt_bytes \<Rightarrow> map_sum id CBytes (parseByteUnits optionValue))"

definition write_option :: "string \<Rightarrow> config_value \<Rightarrow> ConfigurationSnapshot \<Rightarrow> ConfigurationSnapshot result" where
  "write_option off v cfg =
     (if map_option type_of_value (option_value cfg off) = Some (type_of_value v)
      then Inr (cfg\<lparr>options := map (\<lambda>(n, d). if n = off then (n, v) else (n, d)) (options cfg)\<rparr>)
      else Inl bad_cast)"

subsection \<open>The manager\<close>

type_synonym 'w optionValueProvider = "'w \<Rightarrow> string \<Rightarrow> string option"

record 'w ConfigurationManager =
  readIniValue :: "'w optionValueProvider"
  readDynamicOptionValue :: "'w optionValueProvider option"
  upcomingConfigRevision :: u64
  current :: ConfigurationSnapshot

definition getNextRevision :: "'w ConfigurationManager \<Rightarrow> 'w ConfigurationManager \<times> u64" where
  "getNextRevision m =
     (let r = upcomingConfigRevision m + 1 in (m\<lparr>upcomingConfigRevision := r\<rparr>, r))"

definition new_ConfigurationManager :: "'w optionValueProvider \<Rightarrow> 'w ConfigurationManager" where
  "new_ConfigurationManager rd =
     (let (m, r) = getNextRevision \<lparr>readIniValue = rd, readDynamicOptionValue = None,
                      upcomingConfigRevision = 0, current = new_ConfigurationSnapshot\<rparr>
      in m\<lparr>current := (current m)\<lparr>revision := r\<rparr>\<rparr>)"

definition setReadDynamicOptionValue :: "'w optionValueProvider \<Rightarrow> 'w ConfigurationManager \<Rightarrow> 'w ConfigurationManager" where
  "setReadDynamicOptionValue f m = m\<lparr>readDynamicOptionValue := Some f\<rparr>"

definition fetchStringValue ::
  "'w optionValueProvider \<Rightarrow> 'w \<Rightarrow> 'w ConfigurationManager \<Rightarrow> string \<Rightarrow> bool \<Rightarrow> string option" where
  "fetchStringValue getenv w m name isOtelNativeOption =
     (let fromIniOrEnv =
        (case readIniValue m w (if isOtelNativeOption then name else getIniName name) of
           Some v \<Rightarrow> Some v
         | None \<Rightarrow> map_option c_str (getenv w (c_str (if isOtelNativeOption then name else getEnvName name))))
      in case readDynamicOptionValue m of
           None \<Rightarrow> fromIniOrEnv
         | Some rd \<Rightarrow> (case rd w name of Some v \<Rightarrow> Some v | None \<Rightarrow> fromIniOrEnv))"

text \<open>
  One turn of the loop over the table, and the loop. Only \<open>std::invalid_argument\<close> is caught: the
  option keeps its default; any other exception leaves \<open>update\<close>.
\<close>

definition update_option ::
  "(string \<Rightarrow> bool \<Rightarrow> string option) \<Rightarrow> string \<times> OptionMetadata \<Rightarrow> ConfigurationSnapshot \<Rightarrow> ConfigurationSnapshot result" where
  "update_option fetch entry newConfig =
     (case fetch (fst entry) (otelNativeOption (snd entry)) of
        None \<Rightarrow> Inr newConfig
      | Some optionValue \<Rightarrow>
          (case parse_option (opt_type (snd entry)) optionValue of
             Inr v \<Rightarrow> write_option (offset (snd entry)) v newConfig
           | Inl e \<Rightarrow> if is_invalid_argument e then Inr newConfig else Inl e))"

fun update_options ::
  "(string \<Rightarrow> bool \<Rightarrow> string option) \<Rightarrow> (string \<times> OptionMetadata) list \<Rightarrow> ConfigurationSnapshot \<Rightarrow> ConfigurationSnapshot result" where
  "update_options fetch [] newConfig = Inr newConfig"
| "update_options fetch (entry # es) newConfig =
     bind_result (update_option fetch entry newConfig) (update_options fetch es)"

text \<open>\<open>ConfigurationManager::update\<close>: the exception that leaves it, if any, with the state it leaves behind.\<close>

definition manager_update ::
  "'w optionValueProvider \<Rightarrow> 'w \<Rightarrow> (string, string) umap \<Rightarrow> 'w ConfigurationManager \<Rightarrow> 'w ConfigurationManager \<times> exn option" where
  "manager_update getenv w configFiles m =
     (let (m1, r) = getNextRevision m;
          newConfig = new_ConfigurationSnapshot\<lparr>revision := r, remoteConfigFiles := configFiles\<rparr>
      in case update_options (fetchStringValue getenv w m1) option_table newConfig of
           Inl e \<Rightarrow> (m1, Some e)
         | Inr cfg \<Rightarrow> (m1\<lparr>current := cfg\<rparr>, None))"

definition updateIfChanged :: "'w ConfigurationManager \<Rightarrow> ConfigurationSnapshot \<Rightarrow> ConfigurationSnapshot \<times> bool" where
  "updateIfChanged m snapshot =
     (if revision snapshot \<noteq> revision (current m) then (current m, True) else (snapshot, False))"

subsection \<open>The type of the option table\<close>

text \<open>A snapshot whose members have the types the struct declares.\<close>

definition well_typed :: "ConfigurationSnapshot \<Rightarrow> bool" where
  "well_typed cfg \<longleftrightarrow>
     map (\<lambda>(n, v). (n, type_of_value v)) (options cfg) = map (\<lambda>(n, v). (n, type_of_value v)) default_options"

text \<open>The member names and types of the table are those of the struct; two members are listed in another order.\<close>

lemma default_names_distinct: "distinct (map fst default_options)"
  by (simp add: default_options_def)

lemma option_list_types:
  "take 30 (map (\<lambda>(n, md). (n, opt_type md)) option_list) = take 30 (map (\<lambda>(n, v). (n, type_of_value v)) default_options)"
  "take 2 (drop 30 (map (\<lambda>(n, md). (n, opt_type md)) option_list))
     = rev (take 2 (drop 30 (map (\<lambda>(n, v). (n, type_of_value v)) default_options)))"
  "drop 32 (map (\<lambda>(n, md). (n, opt_type md)) option_list) = drop 32 (map (\<lambda>(n, v). (n, type_of_value v)) default_options)"
  by (simp_all add: default_options_def option_list_def meta_def)

lemma set_split: "set xs = set (take i xs) \<union> set (take j (drop i xs)) \<union> set (drop (j + i) xs)"
  by (metis append_take_drop_id drop_drop set_append sup_assoc)

lemma option_list_set:
  "(\<lambda>(n, md). (n, opt_type md)) ` set option_list = (\<lambda>(n, v). (n, type_of_value v)) ` set default_options"
proof -
  have "set (map (\<lambda>(n, md). (n, opt_type md)) option_list) = set (map (\<lambda>(n, v). (n, type_of_value v)) default_options)"
    using set_split [of "map (\<lambda>(n, md). (n, opt_type md)) option_list" 30 2]
      set_split [of "map (\<lambda>(n, v). (n, type_of_value v)) default_options" 30 2]
    by (simp add: option_list_types)
  then show ?thesis by simp
qed

lemma option_list_offset: "\<forall>(n, md) \<in> set option_list. offset md = n"
  by (simp add: option_list_def meta_def)

lemma map_insert_subset: "set (map_insert k v m) \<subseteq> insert (k, v) (set m)"
  by (induction k v m rule: map_insert.induct) auto

lemma fold_map_insert:
  "map_wf m \<Longrightarrow> map_wf (fold (\<lambda>(k, v). map_insert k v) xs m) \<and> set (fold (\<lambda>(k, v). map_insert k v) xs m) \<subseteq> set xs \<union> set m
     \<and> fst ` set (fold (\<lambda>(k, v). map_insert k v) xs m) = fst ` (set xs \<union> set m)"
proof (induction xs arbitrary: m)
  case (Cons x xs)
  obtain k v where x: "x = (k, v)" by (cases x)
  let ?m = "map_insert k v m"
  have "map_wf ?m" using Cons.prems by (rule keeps)
  note IH = Cons.IH [OF this]
  have "set ?m \<subseteq> insert (k, v) (set m)" by (rule map_insert_subset)
  with IH have "set (fold (\<lambda>(k, v). map_insert k v) xs ?m) \<subseteq> set xs \<union> insert (k, v) (set m)" by blast
  with IH show ?case by (simp add: x set_map_insert_keys image_Un)
qed simp

lemma option_table:
  "map_wf option_table" "set option_table \<subseteq> set option_list" "fst ` set option_table = fst ` set option_list"
  using fold_map_insert [of "[]" option_list] by (auto simp: option_table_def)

lemma option_table_offset: "map_of option_table n = Some md \<Longrightarrow> offset md = n"
  using option_table(2) option_list_offset by (auto dest!: map_of_SomeD)

lemma option_table_type:
  "map_option opt_type (map_of option_table n) = map_option type_of_value (map_of default_options n)"
proof (cases "map_of option_table n")
  case None
  have "fst ` set default_options = fst ` set option_list"
    using arg_cong [OF option_list_set, of "image fst"] by (simp add: image_image case_prod_unfold)
  with None have "map_of default_options n = None"
    by (simp add: map_of_eq_None_iff option_table(3))
  with None show ?thesis by simp
next
  case (Some md)
  then have "(n, opt_type md) \<in> (\<lambda>(n, md). (n, opt_type md)) ` set option_list"
    using option_table(2) by (force dest!: map_of_SomeD)
  then obtain v where "(n, v) \<in> set default_options" "opt_type md = type_of_value v"
    unfolding option_list_set by auto
  with Some show ?thesis by (simp add: default_names_distinct)
qed

subsection \<open>What an update makes of the options\<close>

text \<open>The value an option gets from the sources, and the exceptions that would leave the loop.\<close>

definition effective_value :: "(string \<Rightarrow> bool \<Rightarrow> string option) \<Rightarrow> (string \<times> OptionMetadata) list \<Rightarrow> string \<Rightarrow> config_value \<Rightarrow> config_value" where
  "effective_value fetch es n d =
     (case map_of es n of
        None \<Rightarrow> d
      | Some md \<Rightarrow>
          (case fetch n (otelNativeOption md) of
             None \<Rightarrow> d
           | Some t \<Rightarrow> (case parse_option (opt_type md) t of Inr v \<Rightarrow> v | Inl _ \<Rightarrow> d)))"

fun escaping :: "(string \<Rightarrow> bool \<Rightarrow> string option) \<Rightarrow> (string \<times> OptionMetadata) list \<Rightarrow> exn list" where
  "escaping fetch [] = []"
| "escaping fetch ((n, md) # es) =
     (case fetch n (otelNativeOption md) of
        None \<Rightarrow> escaping fetch es
      | Some t \<Rightarrow> (case parse_option (opt_type md) t of
                     Inr _ \<Rightarrow> escaping fetch es
                   | Inl e \<Rightarrow> if is_invalid_argument e then escaping fetch es else e # escaping fetch es))"

lemma map_sum_Inr_iff: "map_sum f g r = Inr y \<longleftrightarrow> (\<exists>x. r = Inr x \<and> y = g x)"
  by (cases r) auto

lemma parse_option_type: "parse_option t s = Inr v \<Longrightarrow> type_of_value v = t"
  by (cases t) (auto simp: parse_option_def map_sum_Inr_iff)

lemma option_value_write:
  "map_of (map (\<lambda>(n, d). if n = off then (n, v) else (n, d)) opts) k
     = (if k = off then map_option (\<lambda>_. v) (map_of opts k) else map_of opts k)"
  by (induction opts) auto

lemma update_options_spec:
  assumes "distinct (map fst es)"
    and "\<forall>(n, md) \<in> set es. offset md = n \<and> map_option type_of_value (map_of (options cfg) n) = Some (opt_type md)"
  shows "update_options fetch es cfg =
    (case escaping fetch es of
       e # _ \<Rightarrow> Inl e
     | [] \<Rightarrow> Inr (cfg\<lparr>options := map (\<lambda>(n, d). (n, effective_value fetch es n d)) (options cfg)\<rparr>))"
  using assms
proof (induction es arbitrary: cfg)
  case Nil
  then show ?case by (simp add: effective_value_def)
next
  case (Cons entry es)
  obtain n md where entry: "entry = (n, md)" by (cases entry)
  have off: "offset md = n" and ty: "map_option type_of_value (option_value cfg n) = Some (opt_type md)"
    using Cons.prems(2) by (simp_all add: entry option_value_def)
  have n: "map_of es n = None" using Cons.prems(1) by (simp add: entry map_of_eq_None_iff)
  have rest: "\<forall>(k, md) \<in> set es. offset md = k \<and> map_option type_of_value (map_of (options cfg) k) = Some (opt_type md)"
    using Cons.prems(2) by simp
  have skip: "effective_value fetch (entry # es) k d = effective_value fetch es k d" if "k \<noteq> n" for k d
    using that by (simp add: effective_value_def entry)
  note IH = Cons.IH [OF _ rest]
  have keep: ?case if "update_option fetch entry cfg = Inr cfg" "escaping fetch (entry # es) = escaping fetch es"
    "\<And>d. effective_value fetch (entry # es) n d = d"
  proof -
    have "effective_value fetch (entry # es) k d = effective_value fetch es k d" for k d
      using that(3) n by (cases "k = n") (simp_all add: skip, simp add: effective_value_def)
    then have eff: "effective_value fetch (entry # es) = effective_value fetch es" by blast
    show ?thesis unfolding eff that(2) using that(1) IH Cons.prems(1) by simp
  qed
  show ?case
  proof (cases "fetch n (otelNativeOption md)")
    case None
    then show ?thesis by (intro keep) (simp_all add: update_option_def entry effective_value_def)
  next
    case t: (Some t)
    show ?thesis
    proof (cases "parse_option (opt_type md) t")
      case (Inl e)
      show ?thesis
      proof (cases "is_invalid_argument e")
        case True
        with t Inl show ?thesis by (intro keep) (simp_all add: update_option_def entry effective_value_def)
      next
        case False
        with t Inl show ?thesis by (simp add: update_option_def entry)
      qed
    next
      case (Inr v)
      let ?cfg = "cfg\<lparr>options := map (\<lambda>(k, d). if k = n then (k, v) else (k, d)) (options cfg)\<rparr>"
      have "update_option fetch entry cfg = Inr ?cfg"
        using t Inr ty parse_option_type [OF Inr] by (simp add: update_option_def entry write_option_def off)
      moreover have "\<forall>(k, md) \<in> set es. offset md = k \<and> map_option type_of_value (map_of (options ?cfg) k) = Some (opt_type md)"
      proof clarify
        fix k md'
        assume k: "(k, md') \<in> set es"
        then have "k \<noteq> n" using n by (force simp: map_of_eq_None_iff)
        with k rest show "offset md' = k \<and> map_option type_of_value (map_of (options ?cfg) k) = Some (opt_type md')"
          by (fastforce simp: option_value_write)
      qed
      ultimately have "update_options fetch (entry # es) cfg = (case escaping fetch es of
          e # _ \<Rightarrow> Inl e
        | [] \<Rightarrow> Inr (cfg\<lparr>options := map (\<lambda>(k, d). (k, effective_value fetch es k d)) (options ?cfg)\<rparr>))"
        using Cons.IH [of ?cfg] Cons.prems(1) by (simp split: list.split)
      moreover have "escaping fetch (entry # es) = escaping fetch es" using t Inr by (simp add: entry)
      moreover have "map (\<lambda>(k, d). (k, effective_value fetch es k d)) (options ?cfg)
          = map (\<lambda>(k, d). (k, effective_value fetch (entry # es) k d)) (options cfg)"
        using t Inr n by (auto simp: skip) (simp add: effective_value_def entry)
      ultimately show ?thesis by (simp only:)
    qed
  qed
qed


lemma manager_update_eq:
  "manager_update getenv w files m =
    (let fetch = fetchStringValue getenv w m; m1 = m\<lparr>upcomingConfigRevision := upcomingConfigRevision m + 1\<rparr>
     in case escaping fetch option_table of
          e # _ \<Rightarrow> (m1, Some e)
        | [] \<Rightarrow> (m1\<lparr>current := \<lparr>options = map (\<lambda>(n, d). (n, effective_value fetch option_table n d)) default_options,
                                revision = upcomingConfigRevision m + 1, remoteConfigFiles = files\<rparr>\<rparr>, None))"
proof -
  let ?fetch = "fetchStringValue getenv w m"
  let ?cfg = "new_ConfigurationSnapshot\<lparr>revision := upcomingConfigRevision m + 1, remoteConfigFiles := files\<rparr>"
  have d: "distinct (map fst option_table)"
    using option_table(1) strict_sorted_iff by blast
  have "\<forall>(n, md) \<in> set option_table. offset md = n \<and> map_option type_of_value (map_of (options ?cfg) n) = Some (opt_type md)"
  proof clarify
    fix n md
    assume "(n, md) \<in> set option_table"
    with d have "map_of option_table n = Some md" by simp
    then show "offset md = n \<and> map_option type_of_value (map_of (options ?cfg) n) = Some (opt_type md)"
      using option_table_type [of n] option_table_offset [of n] by (simp add: new_ConfigurationSnapshot_def)
  qed
  note upd = update_options_spec [OF d this, of ?fetch]
  have "fetchStringValue getenv w (m\<lparr>upcomingConfigRevision := r\<rparr>) = ?fetch" for r
    by (simp add: fetchStringValue_def fun_eq_iff)
  then show ?thesis
    by (simp add: manager_update_def getNextRevision_def Let_def upd split: list.split)
      (simp add: new_ConfigurationSnapshot_def)
qed

text \<open>
  C21. \<open>ConfigurationManager::update\<close> takes a new revision and gives every member of the snapshot the value of the
  first source that has the option: the dynamic source, if there is one, by the name of the option; else php.ini, by
  that name or, if the option is not one of OpenTelemetry, by its name there; else the environment, likewise. The text
  is parsed by the type of the option; the option has its default when no source has it or the text is an invalid
  argument. When a text raises another exception the first such exception leaves the function, the revision is spent,
  and the current snapshot stays as it was: not one option is updated.
\<close>

theorem update_effective:
  "let (m', raised) = manager_update getenv w files m;
       first_source = (\<lambda>name native.
         case (case readDynamicOptionValue m of Some dynamic \<Rightarrow> dynamic w name | None \<Rightarrow> None) of
           Some t \<Rightarrow> Some t
         | None \<Rightarrow>
             (case readIniValue m w (if native then name else getIniName name) of
                Some t \<Rightarrow> Some t
              | None \<Rightarrow> map_option c_str (getenv w (c_str (if native then name else getEnvName name)))))
   in upcomingConfigRevision m' = upcomingConfigRevision m + 1 \<and> readIniValue m' = readIniValue m \<and>
      readDynamicOptionValue m' = readDynamicOptionValue m \<and>
      (case escaping first_source option_table of
         e # _ \<Rightarrow> raised = Some e \<and> current m' = current m
       | [] \<Rightarrow> raised = None \<and>
           current m' = \<lparr>options = map (\<lambda>(n, d). (n, effective_value first_source option_table n d)) default_options,
                         revision = upcomingConfigRevision m + 1, remoteConfigFiles = files\<rparr>)"
proof -
  have "fetchStringValue getenv w m = (\<lambda>name native.
         case (case readDynamicOptionValue m of Some dynamic \<Rightarrow> dynamic w name | None \<Rightarrow> None) of
           Some t \<Rightarrow> Some t
         | None \<Rightarrow>
             (case readIniValue m w (if native then name else getIniName name) of
                Some t \<Rightarrow> Some t
              | None \<Rightarrow> map_option c_str (getenv w (c_str (if native then name else getEnvName name)))))"
    by (intro ext) (simp add: fetchStringValue_def Let_def split: option.split)
  from manager_update_eq [of getenv w files m, unfolded this] show ?thesis
    by (simp only: Let_def split: list.split) (simp split: prod.split list.split)
qed

text \<open>
  The option table agrees with the struct: it has exactly the members of the snapshot, each at the
  offset of its own name and with the type the member is declared with.
\<close>

theorem option_table_matches_struct:
  "map_option (\<lambda>md. (offset md, opt_type md)) (map_of option_table n)
     = map_option (\<lambda>v. (n, type_of_value v)) (map_of default_options n)"
  using option_table_type [of n] option_table_offset [of n] by (cases "map_of option_table n"; cases "map_of default_options n") auto

lemma effective_value_type:
  assumes "map_of default_options n = Some d"
  shows "type_of_value (effective_value fetch option_table n d) = type_of_value d"
  using option_table_type [of n] assms
  by (auto simp: effective_value_def parse_option_type split: option.splits sum.splits)

lemma manager_update_well_typed [keeps]:
  assumes "well_typed (current m)"
  shows "well_typed (current (fst (manager_update getenv w files m)))"
proof -
  have "type_of_value (effective_value fetch option_table n d) = type_of_value d" if "(n, d) \<in> set default_options" for fetch n d
    using that by (intro effective_value_type) (simp add: default_names_distinct)
  then show ?thesis
    using assms by (auto simp: manager_update_eq Let_def well_typed_def split: list.split)
qed

lemma new_manager_well_typed [keeps]: "well_typed (current (new_ConfigurationManager rd))"
  by (simp add: new_ConfigurationManager_def getNextRevision_def Let_def new_ConfigurationSnapshot_def well_typed_def)

lemma well_typed_option:
  assumes "well_typed cfg"
  shows "map_option type_of_value (option_value cfg n) = map_option opt_type (map_of option_table n)"
proof -
  have "map_of (map (\<lambda>(n, v). (n, type_of_value v)) xs) n = map_option type_of_value (map_of xs n)" for xs
    by (induction xs) auto
  then show ?thesis
    using assms arg_cong [of _ _ "\<lambda>xs. map_of xs n"] by (metis option_table_type option_value_def well_typed_def)
qed

subsection \<open>Options written and read back\<close>

lemma filter_digits: "filter (\<lambda>c. \<not> isspace c) (to_string n) = to_string n"
  using to_string_digits [of n] digit_not_special by (auto simp: filter_id_conv)

lemma parseByteUnits_to_string: "n < 2 ^ 64 \<Longrightarrow> parseByteUnits (to_string n) = Inr (of_nat n)"
proof -
  assume n: "n < 2 ^ 64"
  have "find_if (\<lambda>c. \<not> isdigit c) (to_string n) = None"
    using to_string_digits [of n] by (simp add: find_if_None_iff)
  then show ?thesis
    using n stoul_digits [of "to_string n" "[]"] to_string_digits [of n]
    by (simp add: parseByteUnits_def filter_digits)
qed

lemma convertDuration_to_string: "int n < 2 ^ 53 \<Longrightarrow> convertDurationWithUnit (to_string n) = Inr (int n)"
  using convertDurationWithUnit_whole [of "to_string n" "to_string n" "[]" 1] to_string_digits [of n]
  by (simp add: filter_digits time_unit_def)

lemma parseBoolean_names: "parseBoolean ''true''" "\<not> parseBoolean ''false''"
  by code_simp+

lemma parseLogLevel_trimmed: "parseLogLevel (trim (getLogLevelName (level_value l))) = Inr l"
proof -
  have "\<forall>l \<in> set all_levels. parseLogLevel (trim (getLogLevelName (level_value l))) = Inr l"
    by code_simp
  then show ?thesis by (simp add: all_levels_UNIV)
qed

text \<open>Durations the text form of which the parser reads exactly.\<close>

fun exact_value :: "config_value \<Rightarrow> bool" where
  "exact_value (CDuration d) \<longleftrightarrow> 0 \<le> d \<and> d < 2 ^ 53"
| "exact_value _ \<longleftrightarrow> True"

lemma getOptionValue_well_typed:
  "well_typed cfg \<Longrightarrow> getOptionValue n cfg = Inr (option_value cfg n)"
  using well_typed_option [of cfg n] option_table_offset [of n]
  by (auto simp: getOptionValue_def split: option.splits)



subsection \<open>The storage of a worker\<close>

text \<open>
  The slots of the signal \<open>configUpdated_\<close> are numbers in the order they were connected; an update
  answers the calls it makes to them.
\<close>

record ConfigurationStorage =
  config :: ConfigurationSnapshot
  configUpdated :: "nat list"
  next_connection :: nat

definition new_ConfigurationStorage :: ConfigurationStorage where
  "new_ConfigurationStorage = \<lparr>config = new_ConfigurationSnapshot, configUpdated = [], next_connection = 0\<rparr>"

definition storage_update ::
  "(ConfigurationSnapshot \<Rightarrow> ConfigurationSnapshot \<times> bool) \<Rightarrow> ConfigurationStorage
    \<Rightarrow> ConfigurationStorage \<times> (nat \<times> ConfigurationSnapshot) list" where
  "storage_update configUpdate s =
     (let (cfg, changed) = configUpdate (config s); s' = s\<lparr>config := cfg\<rparr>
      in (s', if changed then map (\<lambda>slot. (slot, config s')) (configUpdated s') else []))"

definition storage_get :: "string \<Rightarrow> ConfigurationStorage \<Rightarrow> config_value option" where
  "storage_get member s = option_value (config s) member"

definition addConfigUpdateWatcher :: "ConfigurationStorage \<Rightarrow> ConfigurationStorage \<times> nat" where
  "addConfigUpdateWatcher s =
     (s\<lparr>configUpdated := configUpdated s @ [next_connection s], next_connection := next_connection s + 1\<rparr>, next_connection s)"

definition removeConfigUpdateWatcher :: "nat \<Rightarrow> ConfigurationStorage \<Rightarrow> ConfigurationStorage" where
  "removeConfigUpdateWatcher watcher s = s\<lparr>configUpdated := filter (\<lambda>c. c \<noteq> watcher) (configUpdated s)\<rparr>"

definition removeAllConfigUpdateWatchers :: "ConfigurationStorage \<Rightarrow> ConfigurationStorage" where
  "removeAllConfigUpdateWatchers s = s\<lparr>configUpdated := []\<rparr>"

text \<open>
  The contract of \<open>configUpdate_\<close>: the source publishes a snapshot, and answers it exactly when the
  caller's copy has another revision.
\<close>

locale config_source =
  fixes fetch :: "'s \<Rightarrow> ConfigurationSnapshot \<Rightarrow> ConfigurationSnapshot \<times> bool"
    and published :: "'s \<Rightarrow> ConfigurationSnapshot"
  assumes fetch_stale: "revision cfg \<noteq> revision (published s) \<Longrightarrow> fetch s cfg = (published s, True)"
    and fetch_fresh: "revision cfg = revision (published s) \<Longrightarrow> fetch s cfg = (cfg, False)"
begin

lemma storage_update_fetches:
  assumes "revision (config st) = revision (published s) \<Longrightarrow> config st = published s"
  shows "config (fst (storage_update (fetch s) st)) = published s"
    and "snd (storage_update (fetch s) st)
      = (if config st = published s then [] else map (\<lambda>slot. (slot, published s)) (configUpdated st))"
  using assms fetch_stale [of "config st" s] fetch_fresh [of "config st" s]
  by (cases "revision (config st) = revision (published s)"; auto simp: storage_update_def Let_def)+

end

interpretation mgr: config_source updateIfChanged current
  by unfold_locales (simp_all add: updateIfChanged_def)

text \<open>The process and one of its workers: the manager is updated and the worker fetches, in any order.\<close>

datatype 'w config_event = Manager_update 'w "(string, string) umap" | Worker_update

fun config_step ::
  "'w optionValueProvider \<Rightarrow> 'w ConfigurationManager \<times> ConfigurationStorage \<Rightarrow> 'w config_event
    \<Rightarrow> 'w ConfigurationManager \<times> ConfigurationStorage" where
  "config_step getenv (m, st) (Manager_update w files) = (fst (manager_update getenv w files m), st)"
| "config_step getenv (m, st) Worker_update = (m, fst (storage_update (updateIfChanged m) st))"

definition config_inv :: "nat \<Rightarrow> 'w ConfigurationManager \<times> ConfigurationStorage \<Rightarrow> bool" where
  "config_inv k ms \<longleftrightarrow>
     (case ms of (m, st) \<Rightarrow>
        unat (revision (config st)) \<le> unat (revision (current m)) \<and>
        unat (revision (current m)) \<le> unat (upcomingConfigRevision m) \<and>
        unat (upcomingConfigRevision m) \<le> k \<and>
        (revision (config st) = revision (current m) \<longrightarrow> config st = current m))"

lemma config_step_inv [keeps]:
  assumes "config_inv k ms" and "k + 1 < 2 ^ 64"
  shows "config_inv (k + 1) (config_step getenv ms e)"
proof (cases e)
  case (Manager_update w files)
  obtain m st where ms: "ms = (m, st)" by (cases ms)
  have "unat (upcomingConfigRevision m + 1) = unat (upcomingConfigRevision m) + 1"
    using assms u64_unat_add [of "upcomingConfigRevision m" 1] by (simp add: config_inv_def ms)
  then show ?thesis
    using assms(1) by (auto simp: config_inv_def ms Manager_update manager_update_eq Let_def split: list.split)
next
  case Worker_update
  obtain m st where ms: "ms = (m, st)" by (cases ms)
  have "config (fst (storage_update (updateIfChanged m) st)) = current m"
    using assms(1) by (intro mgr.storage_update_fetches(1)) (simp add: config_inv_def ms)
  then show ?thesis
    using assms(1) by (auto simp: config_inv_def ms Worker_update)
qed

lemma config_run_inv:
  "config_inv k ms \<Longrightarrow> k + length es < 2 ^ 64 \<Longrightarrow> config_inv (k + length es) (fold (\<lambda>e ms. config_step getenv ms e) es ms)"
proof (induction es arbitrary: k ms)
  case (Cons e es)
  then show ?case using Cons.IH [of "k + 1" "config_step getenv ms e"] config_step_inv [of k ms getenv e] by simp
qed simp

text \<open>
  C36. A worker's configuration follows the manager: after any sequence of manager updates and worker
  fetches (fewer than \<open>2 ^ 64\<close>), the next fetch leaves the worker with the manager's current snapshot,
  and its watchers are called in the order they were connected, with that snapshot, exactly when it
  differs from the one the worker had.
\<close>

theorem worker_follows_manager:
  assumes "length es + 1 < 2 ^ 64"
    and "fold (\<lambda>e ms. config_step getenv ms e) es (new_ConfigurationManager rd, new_ConfigurationStorage\<lparr>configUpdated := slots\<rparr>) = (m, st)"
  shows "config (fst (storage_update (updateIfChanged m) st)) = current m \<and>
    snd (storage_update (updateIfChanged m) st)
      = (if config st = current m then [] else map (\<lambda>slot. (slot, current m)) (configUpdated st))"
proof -
  have "config_inv 1 (new_ConfigurationManager rd, new_ConfigurationStorage\<lparr>configUpdated := slots\<rparr>)"
    by (simp add: config_inv_def new_ConfigurationManager_def new_ConfigurationStorage_def getNextRevision_def Let_def
        new_ConfigurationSnapshot_def)
  from config_run_inv [OF this, of es getenv] have "config_inv (1 + length es) (m, st)" using assms by simp
  then have inv: "revision (config st) = revision (current m) \<Longrightarrow> config st = current m"
    by (simp add: config_inv_def)
  show ?thesis
    using mgr.storage_update_fetches [OF inv] by blast
qed

lemma worker_follows_manager_witness:
  "\<exists>m st. fold (\<lambda>e ms. config_step (\<lambda>_ _. None) ms e) [Manager_update () [], Worker_update, Manager_update () [(''elastic'', ''{}'')]]
        (new_ConfigurationManager (\<lambda>_ _. None), new_ConfigurationStorage\<lparr>configUpdated := [7, 8]\<rparr>) = (m, st) \<and>
      config (fst (storage_update (updateIfChanged m) st)) = current m"
proof -
  obtain m st where r: "fold (\<lambda>e ms. config_step (\<lambda>_ _. None) ms e) [Manager_update () [], Worker_update, Manager_update () [(''elastic'', ''{}'')]]
        (new_ConfigurationManager (\<lambda>_ _. None), new_ConfigurationStorage\<lparr>configUpdated := [7, 8]\<rparr>) = (m, st)"
    by (rule prod.exhaust)
  from worker_follows_manager [OF _ r] r show ?thesis by (intro exI conjI) auto
qed

subsection \<open>The members other components read\<close>

text \<open>
  A member by name at the type the struct declares; the names used are members of that type, so the
  last branch is never taken for a snapshot with \<open>well_typed\<close>.
\<close>

definition cfg_level :: "string \<Rightarrow> ConfigurationSnapshot \<Rightarrow> LogLevel" where
  "cfg_level name cfg = (case option_value cfg name of Some (CLogLevel l) \<Rightarrow> l | _ \<Rightarrow> logLevel_off)"

definition cfg_string :: "string \<Rightarrow> ConfigurationSnapshot \<Rightarrow> string" where
  "cfg_string name cfg = (case option_value cfg name of Some (CString s) \<Rightarrow> s | _ \<Rightarrow> [])"

definition cfg_bool :: "string \<Rightarrow> ConfigurationSnapshot \<Rightarrow> bool" where
  "cfg_bool name cfg = (case option_value cfg name of Some (CBool b) \<Rightarrow> b | _ \<Rightarrow> False)"

definition cfg_duration :: "string \<Rightarrow> ConfigurationSnapshot \<Rightarrow> ms" where
  "cfg_duration name cfg = (case option_value cfg name of Some (CDuration d) \<Rightarrow> d | _ \<Rightarrow> 0)"

definition cfg_bytes :: "string \<Rightarrow> ConfigurationSnapshot \<Rightarrow> u64" where
  "cfg_bytes name cfg = (case option_value cfg name of Some (CBytes n) \<Rightarrow> n | _ \<Rightarrow> 0)"

end
