(* ===== verification/RemoteConfig.thy ===== *)
theory RemoteConfig
  imports Config
begin

text \<open>
  Configuration received from the server: the adapter that turns the \<open>elastic\<close> file into option texts
  (\<open>ElasticDynamicConfigurationAdapter\<close>), the shared memory between the coordinator process, which
  stores the files, and the workers, which notice a new revision
  (\<open>CoordinatorConfigurationProvider.h\<close>), and the callbacks that connect a worker's provider to its
  adapter and configuration manager (\<open>ModuleInit.cpp\<close>, \<open>ModuleEntry.cpp\<close>).

  The JSON parser and the text of a float are parameters. Memory of the shared segment is not bounded
  here. \<open>debug\<close> says whether \<open>ELOG_DEBUG\<close> of the \<open>CONFIG\<close> feature is enabled: the macro evaluates its
  arguments only then.
\<close>

subsection \<open>The adapter\<close>

datatype 'f json_value =
    JString string
  | JInteger int
  | JFloat 'f
  | JBoolean bool
  | JComposite

datatype 'f json_doc = JObject "(string \<times> 'f json_value) list" | JNot_object

text \<open>\<open>value.get<int>()\<close> converts the 64-bit number to \<open>int\<close>.\<close>

definition get_int :: "int \<Rightarrow> int" where
  "get_int i = sint (word_of_int i :: 32 word)"

definition item_text :: "('f \<Rightarrow> string) \<Rightarrow> 'f json_value \<Rightarrow> string option" where
  "item_text show_float v =
     (case v of
        JString s \<Rightarrow> Some s
      | JInteger i \<Rightarrow> Some (show_int (get_int i))
      | JFloat f \<Rightarrow> Some (show_float f)
      | JBoolean b \<Rightarrow> Some (if b then ''true'' else ''false'')
      | JComposite \<Rightarrow> None)"

definition parseJsonConfigFile ::
  "(string \<Rightarrow> 'f json_doc result) \<Rightarrow> ('f \<Rightarrow> string) \<Rightarrow> string \<Rightarrow> (string, string) umap result" where
  "parseJsonConfigFile parse show_float jsonStr =
     (case parse jsonStr of
        Inl e \<Rightarrow> Inl (Runtime_error ''Error parsing json config'')
      | Inr JNot_object \<Rightarrow> Inl (Runtime_error ''Expected top-level JSON object'')
      | Inr (JObject items) \<Rightarrow>
          Inr (fold (\<lambda>(key, v) m. case item_text show_float v of Some t \<Rightarrow> um_assign key t m | None \<Rightarrow> m) items []))"

definition remap_level :: "string \<Rightarrow> string" where
  "remap_level level =
     (if level \<in> set [''trace'', ''debug'', ''info'', ''error'', ''off''] then level
      else if level = ''warn'' then ''warning''
      else if level = ''fatal'' then ''critical''
      else level)"

text \<open>
  One remote option. The log statement of \<open>infer_spans\<close> reads the result through \<open>operator[]\<close>, which
  adds an empty entry where there is none.
\<close>

definition remap_option :: "bool \<Rightarrow> string \<times> string \<Rightarrow> (string, string) umap \<Rightarrow> (string, string) umap" where
  "remap_option debug opt m =
     (let m1 = (if fst opt = ''logging_level'' then um_assign ''log_level'' (remap_level (snd opt)) m else m)
      in if fst opt = ''infer_spans'' then
           (let m2 = (if snd opt = ''true'' then um_assign ''inferred_spans_enabled'' ''true'' m1
                      else if snd opt = ''false'' then um_assign ''inferred_spans_enabled'' ''false'' m1
                      else m1)
            in if debug then um_emplace ''inferred_spans_enabled'' [] m2 else m2)
         else m1)"

definition remapOptions :: "bool \<Rightarrow> (string, string) umap \<Rightarrow> (string, string) umap" where
  "remapOptions debug remoteOptions = fold (remap_option debug) remoteOptions []"

record adapter =
  adapter_options :: "(string, string) umap"

definition adapter_update ::
  "(string \<Rightarrow> 'f json_doc result) \<Rightarrow> ('f \<Rightarrow> string) \<Rightarrow> bool \<Rightarrow> (string, string) umap \<Rightarrow> adapter \<Rightarrow> adapter" where
  "adapter_update parse show_float debug files a =
     (case map_of files ''elastic'' of
        None \<Rightarrow> a\<lparr>adapter_options := []\<rparr>
      | Some elasticConfig \<Rightarrow>
          if elasticConfig = [] then a\<lparr>adapter_options := []\<rparr>
          else (case parseJsonConfigFile parse show_float elasticConfig of
                  Inl _ \<Rightarrow> a
                | Inr remote \<Rightarrow> a\<lparr>adapter_options := remapOptions debug remote\<rparr>))"

definition getOption :: "string \<Rightarrow> adapter \<Rightarrow> string option" where
  "getOption optionName a = map_of (adapter_options a) optionName"

subsection \<open>Files in shared memory\<close>

record SharedData =
  configRevision :: u64
  configFiles :: "(string \<times> string) list"

record provider =
  localConfigRevision :: u64
  configUpdatedWatchers :: "nat list"

definition new_SharedData :: SharedData where
  "new_SharedData = \<lparr>configRevision = 1, configFiles = []\<rparr>"

definition new_provider :: provider where
  "new_provider = \<lparr>localConfigRevision = 0, configUpdatedWatchers = []\<rparr>"

definition getConfiguration :: "SharedData \<Rightarrow> (string, string) umap" where
  "getConfiguration sh = fold (\<lambda>(n, t) m. um_emplace (c_str n) (c_str t) m) (configFiles sh) []"

text \<open>\<open>storeConfigFiles\<close> runs in the coordinator process, the update callback of its \<open>OpAmp\<close>.\<close>

definition storeConfigFiles :: "(string, string) umap \<Rightarrow> SharedData \<Rightarrow> SharedData" where
  "storeConfigFiles files sh =
     \<lparr>configRevision = configRevision sh + 1,
      configFiles = fold (\<lambda>(n, t) m. map_assign n t m) files (configFiles sh)\<rparr>"

text \<open>\<open>triggerUpdateIfChanged\<close> of a worker: its new state and the files it hands to its watchers.\<close>

definition triggerUpdateIfChanged :: "SharedData \<Rightarrow> provider \<Rightarrow> provider \<times> (string, string) umap option" where
  "triggerUpdateIfChanged sh p =
     (if configRevision sh \<noteq> localConfigRevision p
      then (p\<lparr>localConfigRevision := configRevision sh\<rparr>, Some (getConfiguration sh))
      else (p, None))"

subsection \<open>A worker\<close>

text \<open>
  The process-wide parts of a worker: its provider, its adapter, the configuration manager, whose
  dynamic source is the adapter, and the storage the request code reads.
\<close>

record 'w worker =
  w_provider :: provider
  w_adapter :: adapter
  w_manager :: "('w \<times> adapter) ConfigurationManager"
  w_storage :: ConfigurationStorage

text \<open>\<open>ModuleEntry.cpp\<close>: the dynamic option source.\<close>

definition dynamic_source :: "('w \<times> adapter) optionValueProvider" where
  "dynamic_source = (\<lambda>(_, a) optionName. getOption optionName a)"

text \<open>\<open>ModuleInit.cpp\<close>: what the watcher of the provider does with new files.\<close>

definition config_watcher ::
  "(string \<Rightarrow> 'f json_doc result) \<Rightarrow> ('f \<Rightarrow> string) \<Rightarrow> bool \<Rightarrow> ('w \<times> adapter) optionValueProvider \<Rightarrow> 'w
     \<Rightarrow> (string, string) umap \<Rightarrow> 'w worker \<Rightarrow> 'w worker \<times> exn option" where
  "config_watcher parse show_float debug getenv w files wk =
     (let a = adapter_update parse show_float debug files (w_adapter wk);
          (mg, raised) = manager_update getenv (w, a) files (w_manager wk)
      in (wk\<lparr>w_adapter := a, w_manager := mg\<rparr>, raised))"

text \<open>Noticing new files, then fetching the configuration, as at the start of a request.\<close>

definition worker_refresh ::
  "(string \<Rightarrow> 'f json_doc result) \<Rightarrow> ('f \<Rightarrow> string) \<Rightarrow> bool \<Rightarrow> ('w \<times> adapter) optionValueProvider \<Rightarrow> 'w
     \<Rightarrow> SharedData \<Rightarrow> 'w worker \<Rightarrow> 'w worker \<times> exn option" where
  "worker_refresh parse show_float debug getenv w sh wk =
     (let (p, files) = triggerUpdateIfChanged sh (w_provider wk);
          (wk1, raised) = (case files of
              None \<Rightarrow> (wk\<lparr>w_provider := p\<rparr>, None)
            | Some fs \<Rightarrow> config_watcher parse show_float debug getenv w fs (wk\<lparr>w_provider := p\<rparr>))
      in case raised of
           Some e \<Rightarrow> (wk1, Some e)
         | None \<Rightarrow> (wk1\<lparr>w_storage := fst (storage_update (updateIfChanged (w_manager wk1)) (w_storage wk1))\<rparr>, None))"

subsection \<open>What the adapter answers\<close>

definition remapped :: "bool \<Rightarrow> (string \<Rightarrow> string option) \<Rightarrow> string \<Rightarrow> string option" where
  "remapped debug remote n =
     (if n = ''log_level'' then map_option remap_level (remote ''logging_level'')
      else if n = ''inferred_spans_enabled'' then
        (case remote ''infer_spans'' of
           None \<Rightarrow> None
         | Some t \<Rightarrow> if t = ''true'' \<or> t = ''false'' then Some t else if debug then Some [] else None)
      else None)"

lemma remap_option_other:
  "fst opt \<noteq> ''logging_level'' \<Longrightarrow> fst opt \<noteq> ''infer_spans'' \<Longrightarrow> remap_option debug opt m = m"
  by (simp add: remap_option_def)

lemma remap_option_lookup:
  assumes "um_wf ((k, t) # remote)" and "map_of m = remapped debug (map_of remote)"
  shows "map_of (remap_option debug (k, t) m) = remapped debug (map_of ((k, t) # remote))"
proof -
  have n: "map_of remote k = None" using assms(1) by (simp add: map_of_eq_None_iff)
  have m: "map_of m x = remapped debug (map_of remote) x" for x using assms(2) by simp
  consider "k = ''logging_level''" | "k = ''infer_spans''" | "k \<noteq> ''logging_level''" "k \<noteq> ''infer_spans''" by blast
  then show ?thesis
  proof cases
    case 1
    then show ?thesis
      by (simp add: remap_option_def umap_simps fun_eq_iff m remapped_def)
  next
    case 2
    then show ?thesis using n
      by (auto simp: remap_option_def umap_simps fun_eq_iff m remapped_def split: option.splits)
  next
    case 3
    then show ?thesis
      by (simp add: remap_option_other fun_eq_iff m remapped_def)
  qed
qed

lemma remap_fold:
  assumes "um_wf (remote @ rev seen)" and "map_of m = remapped debug (map_of (rev seen))"
  shows "map_of (fold (remap_option debug) remote m) = remapped debug (map_of (remote @ rev seen))"
  using assms
proof (induction remote arbitrary: m seen)
  case (Cons opt remote)
  obtain k t where opt: "opt = (k, t)" by (cases opt)
  have "map_of (remap_option debug (k, t) m) = remapped debug (map_of ((k, t) # rev seen))"
    using Cons.prems by (intro remap_option_lookup) (auto simp: opt)
  moreover have "map_of (remote @ (k, t) # rev seen) = map_of (opt # remote @ rev seen)"
    using Cons.prems(1) by (auto simp: opt fun_eq_iff map_add_def map_of_eq_None_iff image_iff split: option.splits)
  moreover have "map_of (fold (remap_option debug) remote (remap_option debug (k, t) m))
      = remapped debug (map_of (remote @ rev (seen @ [(k, t)])))"
  proof (rule Cons.IH)
    show "um_wf (remote @ rev (seen @ [(k, t)]))" using Cons.prems(1) by (auto simp: opt)
    show "map_of (remap_option debug (k, t) m) = remapped debug (map_of (rev (seen @ [(k, t)])))"
      using calculation(1) by (simp del: fun_upd_apply)
  qed
  ultimately show ?case by (simp add: opt del: map_of.simps map_of_append)
qed simp

text \<open>
  \<open>remapOptions\<close> maps the server's \<open>logging_level\<close> to \<open>log_level\<close> (\<open>warn\<close> and \<open>fatal\<close> renamed) and
  \<open>infer_spans\<close> to \<open>inferred_spans_enabled\<close>, whatever the order of the remote options, and no other option
  comes out of it. A text of \<open>infer_spans\<close> that is neither \<open>true\<close> nor \<open>false\<close> is dropped, but with
  debug logging enabled it becomes an empty value, which overrides php.ini and the environment.
\<close>

theorem remapOptions_lookup:
  assumes "um_wf remote"
  shows "map_of (remapOptions debug remote) = remapped debug (map_of remote)"
  using remap_fold [of remote "[]" "[]" debug] assms by (simp add: remapOptions_def remapped_def fun_eq_iff)

lemma remapOptions_lookup_witness:
  "map_of (remapOptions True [(''infer_spans'', ''maybe''), (''logging_level'', ''warn'')])
     = [''log_level'' \<mapsto> ''warning'', ''inferred_spans_enabled'' \<mapsto> []]"
  using remapOptions_lookup [of "[(''infer_spans'', ''maybe''), (''logging_level'', ''warn'')]" True]
  by (auto simp: remapped_def remap_level_def fun_eq_iff)

subsection \<open>Files\<close>

lemma map_of_store:
  "um_wf files \<Longrightarrow> map_of (configFiles (storeConfigFiles files sh)) n
     = (case map_of files n of Some t \<Rightarrow> Some t | None \<Rightarrow> map_of (configFiles sh) n)"
proof -
  have "map_of (fold (\<lambda>(n, t) m. map_assign n t m) fs m) n = (case map_of (rev fs) n of Some t \<Rightarrow> Some t | None \<Rightarrow> map_of m n)" for fs and m :: "(string \<times> string) list"
    by (induction fs arbitrary: m) (auto simp: map_of_map_assign map_add_def split: option.splits)
  moreover assume "um_wf files"
  then have "map_of (rev files) = map_of files"
    by (intro map_of_inject_set [THEN iffD2]) (auto simp flip: rev_map)
  ultimately show ?thesis by (simp add: storeConfigFiles_def)
qed

text \<open>
  Files accumulate in the shared memory: each store overwrites the files it names and leaves every
  other one, so a file the server no longer sends is handed to the workers for ever.
\<close>

theorem stored_file_persists:
  assumes "\<forall>files \<in> set updates. um_wf files \<and> map_of files n = None"
    and "um_wf files0" and "map_of files0 n = Some t"
  shows "map_of (configFiles (fold storeConfigFiles updates (storeConfigFiles files0 sh))) n = Some t"
proof -
  have "map_of (configFiles (fold storeConfigFiles us sh')) n = map_of (configFiles sh') n"
    if "\<forall>files \<in> set us. um_wf files \<and> map_of files n = None" for us sh'
    using that by (induction us arbitrary: sh') (auto simp: map_of_store)
  with assms show ?thesis by (simp add: map_of_store)
qed

lemma stored_file_persists_witness:
  "map_of (configFiles (fold storeConfigFiles [[(''other'', ''x'')], []] (storeConfigFiles [(''elastic'', ''{}'')] new_SharedData)))
     ''elastic'' = Some ''{}''"
  by (rule stored_file_persists) simp_all

lemma map_of_effective: "map_of (map (\<lambda>(n, d). (n, f n d)) opts) n = map_option (f n) (map_of opts n)"
  by (induction opts) auto

subsection \<open>From the server to the worker\<close>

lemma escaping_Nil_iff:
  "escaping fetch es = [] \<longleftrightarrow>
     (\<forall>(name, md) \<in> set es. \<forall>t e. fetch name (otelNativeOption md) = Some t \<longrightarrow> parse_option (opt_type md) t = Inl e \<longrightarrow> is_invalid_argument e)"
  by (induction fetch es rule: escaping.induct) (auto split: option.split sum.split)

text \<open>
  C25. A remote option reaches the worker. When a worker notices new files, its adapter holds what the files say. The refresh
  raises an exception exactly when the text some source has for some option has a number out of the range of its type (an
  error that is not an invalid argument), and then the configuration the request code reads stays as it was. Otherwise each
  option the adapter answers, if the text is valid for its type, has that value in the configuration the request code
  reads, although php.ini or the environment say otherwise.
\<close>

theorem remote_option_wins:
  assumes inv: "config_inv k (w_manager wk, w_storage wk)" "k + 1 < 2 ^ 64"
    and dyn: "readDynamicOptionValue (w_manager wk) = Some dynamic_source"
    and new: "configRevision sh \<noteq> localConfigRevision (w_provider wk)"
    and run: "worker_refresh parse show_float debug getenv w sh wk = (wk', raised)"
    and a: "a = adapter_update parse show_float debug (getConfiguration sh) (w_adapter wk)"
  shows "w_adapter wk' = a \<and>
    (raised = None \<longleftrightarrow>
      (\<forall>(name, md) \<in> set option_table. \<forall>t e. fetchStringValue getenv (w, a) (w_manager wk) name (otelNativeOption md) = Some t \<longrightarrow>
         parse_option (opt_type md) t = Inl e \<longrightarrow> is_invalid_argument e)) \<and>
    (raised \<noteq> None \<longrightarrow> w_storage wk' = w_storage wk) \<and>
    (raised = None \<longrightarrow>
      (\<forall>name t md v. getOption name a = Some t \<longrightarrow> map_of option_table name = Some md \<longrightarrow> parse_option (opt_type md) t = Inr v \<longrightarrow>
         option_value (config (w_storage wk')) name = Some v))"
proof -
  let ?fetch = "fetchStringValue getenv (w, a) (w_manager wk)"
  obtain mg raised' where mg: "manager_update getenv (w, a) (getConfiguration sh) (w_manager wk) = (mg, raised')"
    by (rule prod.exhaust)
  from run new mg have wk': "raised' = raised" "w_adapter wk' = a"
      "w_storage wk' = (if raised = None then fst (storage_update (updateIfChanged mg) (w_storage wk)) else w_storage wk)"
    by (auto simp: worker_refresh_def triggerUpdateIfChanged_def config_watcher_def Let_def a split: option.splits)
  have esc: "raised = None \<longleftrightarrow> escaping ?fetch option_table = []"
    using mg by (auto simp: manager_update_eq Let_def wk'(1) split: list.splits)
  have win: "option_value (config (w_storage wk')) n = Some v"
    if r: "raised = None" and opt: "getOption n a = Some t" "map_of option_table n = Some md" "parse_option (opt_type md) t = Inr v" for n t md v
  proof -
    have cur: "current mg = \<lparr>options = map (\<lambda>(n, d). (n, effective_value ?fetch option_table n d)) default_options,
                    revision = upcomingConfigRevision (w_manager wk) + 1, remoteConfigFiles = getConfiguration sh\<rparr>"
      using mg r esc by (auto simp: manager_update_eq Let_def split: list.splits)
    have "config_inv (k + 1) (config_step getenv (w_manager wk, w_storage wk) (Manager_update (w, a) (getConfiguration sh)))"
      by (rule config_step_inv [OF inv])
    then have "revision (config (w_storage wk)) = revision (current mg) \<Longrightarrow> config (w_storage wk) = current mg"
      by (simp add: mg config_inv_def)
    then have cfg: "config (w_storage wk') = current mg"
      unfolding wk'(3) using r by (simp add: mgr.storage_update_fetches(1))
    obtain d where "map_of default_options n = Some d"
      using option_table_type [of n] opt(2) by (cases "map_of default_options n") auto
    then have "option_value (config (w_storage wk')) n = Some (effective_value ?fetch option_table n d)"
      by (simp add: cfg cur option_value_def map_of_effective)
    moreover have "?fetch n (otelNativeOption md) = Some t"
      using opt(1) by (simp add: fetchStringValue_def dyn dynamic_source_def Let_def)
    ultimately show ?thesis using opt(2,3) by (simp add: effective_value_def)
  qed
  have "escaping ?fetch option_table = [] \<longleftrightarrow>
      (\<forall>(name, md) \<in> set option_table. \<forall>t e. ?fetch name (otelNativeOption md) = Some t \<longrightarrow>
         parse_option (opt_type md) t = Inl e \<longrightarrow> is_invalid_argument e)"
    by (rule escaping_Nil_iff)
  with esc win wk' show ?thesis by simp
qed

text \<open>A worker of a process whose php.ini answers \<open>debug\<close> to everything.\<close>

definition sample_worker :: "unit worker" where
  "sample_worker =
     \<lparr>w_provider = new_provider, w_adapter = \<lparr>adapter_options = []\<rparr>,
      w_manager = setReadDynamicOptionValue dynamic_source (new_ConfigurationManager (\<lambda>_ _. Some ''debug'')),
      w_storage = new_ConfigurationStorage\<rparr>"

definition sample_parse :: "string \<Rightarrow> unit json_doc result" where
  "sample_parse jsonStr = Inr (JObject [(''logging_level'', JString ''warn'')])"

lemma sample_texts:
  "parse_option t ''debug'' = Inl e \<Longrightarrow> is_invalid_argument e"
  "parse_option opt_loglevel ''warning'' = Inr (CLogLevel logLevel_warning)"
proof -
  have "convertDurationWithUnit ''debug'' = Inl (Invalid_argument ''stod'')" "parseByteUnits ''debug'' = Inl (Invalid_argument ''stoul'')"
    "parseLogLevel ''debug'' = Inr logLevel_debug" by code_simp+
  then show "parse_option t ''debug'' = Inl e \<Longrightarrow> is_invalid_argument e"
    by (cases t) (auto simp: parse_option_def)
  show "parse_option opt_loglevel ''warning'' = Inr (CLogLevel logLevel_warning)" by code_simp
qed

lemma remote_option_wins_witness:
  "option_value (config (w_storage (fst (worker_refresh sample_parse (\<lambda>_. []) False (\<lambda>_ _. None) ()
      (storeConfigFiles [(''elastic'', ''{}'')] new_SharedData) sample_worker)))) ''log_level'' = Some (CLogLevel logLevel_warning)"
proof -
  let ?sh = "storeConfigFiles [(''elastic'', ''{}'')] new_SharedData"
  let ?a = "adapter_update sample_parse (\<lambda>_. []) False (getConfiguration ?sh) (w_adapter sample_worker)"
  have sh: "getConfiguration ?sh = [(''elastic'', ''{}'')]" "configRevision ?sh = 2" by code_simp+
  have a: "?a = \<lparr>adapter_options = [(''log_level'', ''warning'')]\<rparr>"
    unfolding sh by (simp add: adapter_update_def sample_worker_def parseJsonConfigFile_def sample_parse_def item_text_def
        remapOptions_def remap_option_def remap_level_def)
  have opt: "getOption ''log_level'' ?a = Some ''warning''" by (simp add: a getOption_def)
  have md: "map_of option_table ''log_level'' = Some (snd (meta ''log_level'' opt_loglevel False False))" by code_simp
  have "escaping (fetchStringValue (\<lambda>_ _. None) ((), ?a) (w_manager sample_worker)) option_table = []"
  proof (unfold escaping_Nil_iff, clarify)
    fix n md' t e
    assume "(n, md') \<in> set option_table" "fetchStringValue (\<lambda>_ _. None) ((), ?a) (w_manager sample_worker) n (otelNativeOption md') = Some t"
      "parse_option (opt_type md') t = Inl e"
    moreover have "opt_type md' = opt_loglevel" if "(''log_level'', md') \<in> set option_table"
    proof -
      have "distinct (map fst option_table)" using option_table(1) strict_sorted_iff by blast
      with that have "map_of option_table ''log_level'' = Some md'" by simp
      with md show ?thesis by (simp add: meta_def)
    qed
    moreover note a [unfolded sample_worker_def worker.simps]
    ultimately show "is_invalid_argument e"
      using sample_texts by (auto simp: fetchStringValue_def sample_worker_def setReadDynamicOptionValue_def dynamic_source_def
          new_ConfigurationManager_def getNextRevision_def Let_def getOption_def split: if_splits)
  qed
  then obtain wk' where run: "worker_refresh sample_parse (\<lambda>_. []) False (\<lambda>_ _. None) () ?sh sample_worker = (wk', None)"
    by (auto simp: worker_refresh_def triggerUpdateIfChanged_def config_watcher_def Let_def sh manager_update_eq sample_worker_def new_provider_def)
  have "config_inv 1 (w_manager sample_worker, w_storage sample_worker)"
    by (simp add: config_inv_def sample_worker_def new_ConfigurationManager_def new_ConfigurationStorage_def getNextRevision_def Let_def
        new_ConfigurationSnapshot_def setReadDynamicOptionValue_def)
  from remote_option_wins [OF this _ _ _ run refl]
  have "option_value (config (w_storage wk')) ''log_level'' = Some (CLogLevel logLevel_warning)"
    using opt md sample_texts(2) by (simp add: sh(2) sample_worker_def setReadDynamicOptionValue_def new_provider_def meta_def)
  then show ?thesis by (simp only: run fst_conv)
qed

end
