(* ===== verification/Logger.thy ===== *)
theory Logger
  imports Config RetryAfter
begin

text \<open>
  The logger and its sinks (\<open>Logger.h\<close>, \<open>Logger.cpp\<close>, \<open>LoggerInterface.h\<close>,
  \<open>LoggerSinkInterface.h\<close>), and the callback that applies a new configuration to them
  (\<open>AgentGlobals.cpp\<close>). What a sink does to the operating system is a list of outputs; \<open>open\<close> is a
  parameter that answers the file descriptor, negative on failure. Formatting by \<open>printf\<close> and
  \<open>std::format\<close> is left to the caller: a message arrives formatted. The broken-down time of
  \<open>gmtime_r\<close> and the process and thread numbers are arguments.
\<close>

subsection \<open>Sinks\<close>

datatype log_output = Write_fd int string | Syslog string | Close_fd int

record LoggerSinkFile =
  file_level :: LogLevel
  fd :: int
  openedFilePath :: string

datatype log_sink = Sink_file LoggerSinkFile | Sink_stderr LogLevel | Sink_syslog LogLevel

definition new_LoggerSinkFile :: LoggerSinkFile where
  "new_LoggerSinkFile = \<lparr>file_level = logLevel_off, fd = - 1, openedFilePath = []\<rparr>"

fun getLevel :: "log_sink \<Rightarrow> LogLevel" where
  "getLevel (Sink_file f) = file_level f"
| "getLevel (Sink_stderr l) = l"
| "getLevel (Sink_syslog l) = l"

fun setLevel :: "LogLevel \<Rightarrow> log_sink \<Rightarrow> log_sink" where
  "setLevel l (Sink_file f) = Sink_file (f\<lparr>file_level := l\<rparr>)"
| "setLevel l (Sink_stderr _) = Sink_stderr l"
| "setLevel l (Sink_syslog _) = Sink_syslog l"

text \<open>The system log gets the formatted text twice; \<open>%.*s\<close> stops at a NUL.\<close>

fun writeLog :: "string \<Rightarrow> log_sink \<Rightarrow> log_output list" where
  "writeLog formattedOutput (Sink_stderr _) = [Write_fd 2 formattedOutput]"
| "writeLog formattedOutput (Sink_syslog _) = [Syslog (c_str formattedOutput @ '' '' @ c_str formattedOutput)]"
| "writeLog formattedOutput (Sink_file f) = (if fd f < 0 then [] else [Write_fd (fd f) formattedOutput])"

text \<open>\<open>LoggerSinkFile::reopen\<close>: the new sink, the answer and the outputs.\<close>

definition reopen :: "(string \<Rightarrow> int) \<Rightarrow> string \<Rightarrow> LoggerSinkFile \<Rightarrow> LoggerSinkFile \<times> bool \<times> log_output list" where
  "reopen open_file fileName f =
     (if openedFilePath f = fileName then (f, True, [])
      else
        (let closing = fd f \<ge> 0;
             f1 = (if closing then f\<lparr>openedFilePath := []\<rparr> else f);
             d = open_file (c_str fileName);
             f2 = f1\<lparr>fd := d\<rparr>
         in (if d \<ge> 0 then f2\<lparr>openedFilePath := fileName\<rparr> else f2, d \<ge> 0, if closing then [Close_fd (fd f)] else [])))"

subsection \<open>The logger\<close>

record Logger =
  sinks :: "log_sink list"
  features :: "(LogFeature, LogLevel) umap"

definition new_Logger :: "log_sink list \<Rightarrow> Logger" where
  "new_Logger ss = \<lparr>sinks = ss, features = []\<rparr>"

definition attachSink :: "log_sink \<Rightarrow> Logger \<Rightarrow> Logger" where
  "attachSink s lg = lg\<lparr>sinks := sinks lg @ [s]\<rparr>"

definition setLogFeatures :: "(LogFeature, LogLevel) umap \<Rightarrow> Logger \<Rightarrow> Logger" where
  "setLogFeatures fs lg = lg\<lparr>features := fs\<rparr>"

definition getMaxLogLevel :: "Logger \<Rightarrow> LogLevel" where
  "getMaxLogLevel lg = fold (\<lambda>s maxLevel. max (getLevel s) maxLevel) (sinks lg) logLevel_off"

definition doesMeetsLevelCondition :: "LogLevel \<Rightarrow> Logger \<Rightarrow> bool" where
  "doesMeetsLevelCondition level lg \<longleftrightarrow>
     level \<le> fold (\<lambda>s maxLevel. max (getLevel s) maxLevel) (sinks lg) logLevel_off"

definition doesFeatureMeetsLevelCondition :: "LogLevel \<Rightarrow> LogFeature \<Rightarrow> Logger \<Rightarrow> bool" where
  "doesFeatureMeetsLevelCondition level feature lg =
     (if features lg = [] then doesMeetsLevelCondition level lg
      else (case map_of (features lg) feature of
              Some l \<Rightarrow> level \<le> l
            | None \<Rightarrow> (case map_of (features lg) FEATURE_ALL of Some l \<Rightarrow> level \<le> l | None \<Rightarrow> False)))"

text \<open>\<open>%n.nd\<close> of a number that is not negative.\<close>

definition zero_padded :: "nat \<Rightarrow> int \<Rightarrow> string" where
  "zero_padded n i = replicate (n - length (to_string (nat i))) (CHR ''0'') @ to_string (nat i)"

definition getFormattedTime :: "tm \<Rightarrow> int \<Rightarrow> string" where
  "getFormattedTime b micros =
     ''['' @ zero_padded 4 (tm_year b + 1900) @ ''-'' @ zero_padded 2 (tm_mon b + 1) @ ''-'' @ zero_padded 2 (tm_mday b) @ '' ''
       @ zero_padded 2 (tm_hour b) @ '':'' @ zero_padded 2 (tm_min b) @ '':'' @ zero_padded 2 (tm_sec b) @ ''.''
       @ zero_padded 6 micros @ '' UTC]''"

definition getFormattedProcessData :: "nat \<Rightarrow> nat \<Rightarrow> string" where
  "getFormattedProcessData pid tid = ''['' @ to_string pid @ ''/'' @ to_string tid @ '']''"

text \<open>The views a log call hands to its sinks beside the whole text; \<open>substr\<close> past the end raises.\<close>

record log_views =
  message_view :: string
  time_view :: string
  level_view :: string
  process_view :: string

definition substr :: "string \<Rightarrow> nat \<Rightarrow> nat \<Rightarrow> string result" where
  "substr s pos count = (if pos > length s then Inl (Out_of_range ''substr'') else Inr (take count (drop pos s)))"

definition format_log :: "string \<Rightarrow> string \<Rightarrow> LogLevel \<Rightarrow> string \<Rightarrow> (string \<times> log_views) result" where
  "format_log time processData level message =
     (let o1 = ''[EDOT] '' @ time @ '' '';
          indexOfProcessData = length o1;
          o2 = o1 @ processData;
          indexOfLogLevel = length o2;
          o3 = o2 @ '' ['' @ getLogLevelName (level_value level) @ ''] '';
          indexOfMessage = length o3;
          output = o3 @ message @ [CHR 0x0A]
      in bind_result (substr output indexOfMessage (length output - indexOfMessage - 1)) (\<lambda>msgSv.
         bind_result (substr output 0 (indexOfProcessData - 1)) (\<lambda>timeSv.
         bind_result (substr output indexOfProcessData (indexOfLogLevel - indexOfProcessData)) (\<lambda>processSv.
         bind_result (substr output (indexOfLogLevel + 1) (indexOfMessage - indexOfLogLevel - 2)) (\<lambda>levelSv.
           Inr (output, \<lparr>message_view = msgSv, time_view = timeSv, level_view = levelSv, process_view = processSv\<rparr>))))))"

text \<open>\<open>Logger::log\<close>, and \<open>Logger::printf\<close> once \<open>stringVPrintf\<close> has made its message.\<close>

definition logger_log :: "string \<Rightarrow> string \<Rightarrow> LogLevel \<Rightarrow> string \<Rightarrow> Logger \<Rightarrow> log_output list result" where
  "logger_log time processData level message lg =
     bind_result (format_log time processData level message) (\<lambda>(output, _).
       Inr (concat (map (\<lambda>s. if getLevel s < level then [] else writeLog output s) (sinks lg))))"

text \<open>The macros \<open>ELOG\<close> and \<open>ELOGF\<close>: nothing without a logger or when the feature is filtered out.\<close>

definition ELOG :: "string \<Rightarrow> string \<Rightarrow> LogLevel \<Rightarrow> LogFeature \<Rightarrow> string \<Rightarrow> Logger option \<Rightarrow> log_output list result" where
  "ELOG time processData level feature text logger =
     (case logger of
        None \<Rightarrow> Inr []
      | Some lg \<Rightarrow>
          if \<not> doesFeatureMeetsLevelCondition level feature lg then Inr []
          else logger_log time processData level ((CHR ''['' # feature_name feature) @ ''] '' @ text) lg)"

subsection \<open>Applying a configuration\<close>

record log_globals =
  logSinkStdErr :: LogLevel
  logSinkSysLog :: LogLevel
  logSinkFile :: "LoggerSinkFile option"
  log_features :: "(LogFeature, LogLevel) umap"

text \<open>The watcher \<open>AgentGlobals\<close> connects to the configuration storage.\<close>

definition apply_log_config ::
  "(string \<Rightarrow> LogFeature option) \<Rightarrow> (string \<Rightarrow> int) \<Rightarrow> nat \<Rightarrow> nat \<Rightarrow> ConfigurationSnapshot \<Rightarrow> log_globals \<Rightarrow> log_globals \<times> log_output list" where
  "apply_log_config enum_cast open_file pid now cfg g =
     (let (sink, outs) =
        (case logSinkFile g of
           None \<Rightarrow> (None, [])
         | Some f \<Rightarrow>
             if cfg_string ''log_file'' cfg = [] then (Some (f\<lparr>file_level := logLevel_off\<rparr>), [])
             else (let (f', _, outs) = reopen open_file (getParameterizedString pid now (cfg_string ''log_file'' cfg))
                                   (f\<lparr>file_level := cfg_level ''log_level_file'' cfg\<rparr>)
                   in (Some f', outs)))
      in (\<lparr>logSinkStdErr = cfg_level ''log_level_stderr'' cfg, logSinkSysLog = cfg_level ''log_level_syslog'' cfg,
           logSinkFile = sink, log_features = parseLogFeatures enum_cast (cfg_string ''log_features'' cfg)\<rparr>, outs))"

text \<open>The logger of the agent writes to these sinks.\<close>

definition agent_logger :: "log_globals \<Rightarrow> Logger" where
  "agent_logger g =
     \<lparr>sinks = [Sink_stderr (logSinkStdErr g), Sink_syslog (logSinkSysLog g)]
        @ (case logSinkFile g of None \<Rightarrow> [] | Some f \<Rightarrow> [Sink_file f]),
      features = log_features g\<rparr>"

subsection \<open>The contract of a sink\<close>

text \<open>
  What the logger relies on (\<open>LoggerSinkInterface\<close>): a level that is set is the level answered, and
  setting it changes nothing of what a write does.
\<close>

locale log_sink_contract =
  fixes get :: "'s \<Rightarrow> LogLevel"
    and set_level :: "LogLevel \<Rightarrow> 's \<Rightarrow> 's"
    and emit :: "string \<Rightarrow> 's \<Rightarrow> log_output list"
  assumes get_set: "get (set_level l s) = l"
    and emit_set: "emit out (set_level l s) = emit out s"
begin

lemma max_level: "level \<le> fold (\<lambda>s m. max (get s) m) ss l \<longleftrightarrow> level \<le> l \<or> (\<exists>s \<in> set ss. level \<le> get s)"
  by (induction ss arbitrary: l) (auto simp: le_max_iff_disj)

lemma dispatch:
  "concat (map (\<lambda>s. if get s < level then [] else emit out s) ss) = concat (map (emit out) (filter (\<lambda>s. level \<le> get s) ss))"
  by (induction ss) auto

lemma dispatch_set:
  "concat (map (emit out) (filter (\<lambda>s. level \<le> get s) [set_level l s])) = (if level \<le> l then emit out s else [])"
  by (simp add: get_set emit_set)

lemma dispatch_below_max:
  assumes "\<not> level \<le> fold (\<lambda>s m. max (get s) m) ss logLevel_off"
  shows "filter (\<lambda>s. level \<le> get s) ss = []"
  using assms by (auto simp: max_level filter_empty_conv)

end

interpretation snk: log_sink_contract getLevel setLevel writeLog
proof
  fix l s out
  show "getLevel (setLevel l s) = l" and "writeLog out (setLevel l s) = writeLog out s"
    by (cases s; simp)+
qed

subsection \<open>What a log call writes\<close>

definition log_line :: "string \<Rightarrow> string \<Rightarrow> LogLevel \<Rightarrow> string \<Rightarrow> string" where
  "log_line time processData level message =
     ''[EDOT] '' @ time @ '' '' @ processData @ '' ['' @ getLogLevelName (level_value level) @ ''] '' @ message @ [CHR 0x0A]"

lemma substr_append: "substr (xs @ ys @ zs) (length xs) (length ys) = Inr ys"
  by (simp add: substr_def)

lemma format_log_views_eq:
  "format_log time processData level message =
     Inr (log_line time processData level message,
          \<lparr>message_view = message, time_view = ''[EDOT] '' @ time,
           level_view = ''['' @ getLogLevelName (level_value level) @ '']'', process_view = processData\<rparr>)"
proof -
  let ?n = "getLogLevelName (level_value level)"
  let ?o1 = "''[EDOT] '' @ time @ '' ''"
  let ?o3 = "(?o1 @ processData) @ '' ['' @ ?n @ ''] ''"
  let ?out = "?o3 @ message @ [CHR 0x0A]"
  have m: "substr ?out (length ?o3) (length ?out - length ?o3 - 1) = Inr message"
    using substr_append [of ?o3 message "[CHR 0x0A]"] by simp
  have t: "substr ?out 0 (length ?o1 - 1) = Inr (''[EDOT] '' @ time)"
    using substr_append [of "[]" "''[EDOT] '' @ time" "'' '' @ processData @ '' ['' @ ?n @ ''] '' @ message @ [CHR 0x0A]"] by simp
  have p: "substr ?out (length ?o1) (length (?o1 @ processData) - length ?o1) = Inr processData"
    using substr_append [of ?o1 processData "'' ['' @ ?n @ ''] '' @ message @ [CHR 0x0A]"] by simp
  have l: "substr ?out (length (?o1 @ processData) + 1) (length ?o3 - length (?o1 @ processData) - 2) = Inr (''['' @ ?n @ '']'')"
    using substr_append [of "(?o1 @ processData) @ '' ''" "''['' @ ?n @ '']''" "'' '' @ message @ [CHR 0x0A]"] by simp
  show ?thesis
    unfolding format_log_def Let_def m t p l bind_result.simps by (simp add: log_line_def)
qed

text \<open>
  The views of a log line are the pieces it was built from: \<open>format_log\<close> raises nothing and answers,
  beside the whole line, exactly the message, the prefix with the time, the process data and the level
  name in its brackets.
\<close>

theorem format_log_views:
  "format_log time processData level message =
     Inr (log_line time processData level message,
          \<lparr>message_view = message, time_view = ''[EDOT] '' @ time,
           level_view = ''['' @ getLogLevelName (level_value level) @ '']'', process_view = processData\<rparr>)"
  by (rule format_log_views_eq)

text \<open>The filter of features: with no setting every feature passes, else its own level or that of \<open>ALL\<close> decides.\<close>

definition feature_passes :: "LogLevel \<Rightarrow> LogFeature \<Rightarrow> (LogFeature, LogLevel) umap \<Rightarrow> bool" where
  "feature_passes level feature fs \<longleftrightarrow>
     fs = [] \<or> (case map_of fs feature of Some l \<Rightarrow> level \<le> l
                | None \<Rightarrow> (case map_of fs FEATURE_ALL of Some l \<Rightarrow> level \<le> l | None \<Rightarrow> False))"

lemma logger_log_eq:
  "logger_log time processData level message lg
     = Inr (concat (map (writeLog (log_line time processData level message)) (filter (\<lambda>s. level \<le> getLevel s) (sinks lg))))"
  by (simp add: logger_log_def format_log_views_eq snk.dispatch)

lemma ELOG_passes:
  "ELOG time processData level feature text (Some lg) =
     Inr (if feature_passes level feature (features lg)
          then concat (map (writeLog (log_line time processData level (''['' @ feature_name feature @ ''] '' @ text)))
                        (filter (\<lambda>s. level \<le> getLevel s) (sinks lg)))
          else [])"
proof (cases "features lg = [] \<and> \<not> doesMeetsLevelCondition level lg")
  case True
  then have "filter (\<lambda>s. level \<le> getLevel s) (sinks lg) = []"
    by (intro snk.dispatch_below_max) (simp add: doesMeetsLevelCondition_def)
  with True show ?thesis
    by (simp add: ELOG_def doesFeatureMeetsLevelCondition_def)
next
  case False
  then show ?thesis
    by (auto simp: ELOG_def doesFeatureMeetsLevelCondition_def feature_passes_def logger_log_eq split: option.splits)
qed

text \<open>
  A log statement writes its line to exactly the sinks whose level admits it, in the order they were
  attached, when the settings of the feature let it through, and nothing otherwise; it never raises.
  The test of the greatest sink level, made when there are no feature settings, loses no message.
\<close>

theorem ELOG_delivers:
  "ELOG time processData level feature text (Some lg) =
     Inr (if feature_passes level feature (features lg)
          then concat (map (writeLog (log_line time processData level (''['' @ feature_name feature @ ''] '' @ text)))
                        (filter (\<lambda>s. level \<le> getLevel s) (sinks lg)))
          else [])"
  by (rule ELOG_passes)

text \<open>
  A new configuration governs the log statements that follow: standard error and the system log get a
  line when their configured level admits it, the file when a log file is configured, its level admits
  the line and the file is open, each under the configured features.
\<close>

theorem log_config_applied:
  "let (g', outs) = apply_log_config enum_cast open_file pid now cfg g;
       line = log_line time processData level (''['' @ feature_name feature @ ''] '' @ text)
   in ELOG time processData level feature text (Some (agent_logger g')) =
     Inr (if feature_passes level feature (parseLogFeatures enum_cast (cfg_string ''log_features'' cfg))
          then (if level \<le> cfg_level ''log_level_stderr'' cfg then [Write_fd 2 line] else [])
            @ (if level \<le> cfg_level ''log_level_syslog'' cfg then [Syslog (c_str line @ '' '' @ c_str line)] else [])
            @ (case logSinkFile g' of
                 None \<Rightarrow> []
               | Some f \<Rightarrow> if level \<le> (if cfg_string ''log_file'' cfg = [] then logLevel_off else cfg_level ''log_level_file'' cfg) \<and> 0 \<le> fd f
                          then [Write_fd (fd f) line] else [])
          else [])"
proof -
  have lvl: "file_level f' = file_level f" if "reopen open_file n f = (f', b, outs)" for n f f' b outs
    using that by (auto simp: reopen_def Let_def split: if_splits)
  show ?thesis
  proof (cases "logSinkFile g")
    case None
    then show ?thesis by (simp add: ELOG_passes apply_log_config_def agent_logger_def)
  next
    case (Some f)
    obtain f' b outs where r: "reopen open_file (getParameterizedString pid now (cfg_string ''log_file'' cfg))
        (f\<lparr>file_level := cfg_level ''log_level_file'' cfg\<rparr>) = (f', b, outs)" by (rule prod_cases3)
    from lvl [OF r] Some r show ?thesis
      by (cases "cfg_string ''log_file'' cfg = []") (simp_all add: ELOG_passes apply_log_config_def agent_logger_def)
  qed
qed

end
