(* ===== verification/Coordinator.thy ===== *)
theory Coordinator
  imports Chunked Transport "HOL-Library.Sublist"
begin

text \<open>
  The coordinator process and the workers that talk to it. In a worker,
  \<open>CoordinatorTelemetrySignalsSender\<close> stands in for the HTTP transport: it serializes each call as a
  \<open>CoordinatorCommand\<close> and hands it to the chunked channel, whose chunks go to a boost message queue
  (\<open>CoordinatorProcess::enqueueMessage\<close>). In the coordinator the loop receives chunks, and
  \<open>CoordinatorMessagesDispatcher\<close> makes the calls on the real transport.

  Protobuf serialization (\<open>encode\<close>, \<open>decode\<close>) and the message queue (\<open>try_send\<close>) are parameters. The
  widths of the fields of \<open>CoordinatorCommands.proto\<close> are kept, with the conversions of the setters.
\<close>

subsection \<open>Calls on a transport\<close>

record connection_args =
  a_url :: string
  a_hash :: u64
  a_contentType :: string
  a_headers :: "(string \<times> string) list"
  a_timeout :: ms
  a_maxRetries :: nat
  a_retryDelay :: ms
  a_ssl :: HttpEndpointSSLOptions

datatype transport_call = Initialize_call connection_args | Enqueue_call u64 "byte list"

definition apply_call ::
  "url_env \<Rightarrow> curl_env \<Rightarrow> transport_config \<Rightarrow> transport_call \<Rightarrow> ('w, 'cb) transport \<Rightarrow> ('w, 'cb) transport" where
  "apply_call ue ce cfg call s =
     (case call of
        Initialize_call a \<Rightarrow>
          initializeConnection ue ce (a_url a) (a_hash a) (a_contentType a) (a_headers a) (a_timeout a)
            (a_maxRetries a) (a_retryDelay a) (a_ssl a) s
      | Enqueue_call h p \<Rightarrow> enqueue cfg (h, p, None) s)"

subsection \<open>Commands\<close>

datatype command_type =
    UNKNOWN | ESTABLISH_CONNECTION | SEND_ENDPOINT_PAYLOAD | WORKER_STARTED | WORKER_IS_GOING_TO_SHUTDOWN | Other_type int

record EstablishConnectionCommand =
  endpoint_url :: string
  endpoint_hash :: u64
  content_type :: string
  endpoint_headers :: "(string, string) umap"
  timeout_ms :: u64
  max_retries :: u32
  retry_delay_ms :: u64
  ssl_options :: "HttpEndpointSSLOptions option"

record SendEndpointPayloadCommand =
  sp_hash :: u64
  sp_payload :: "byte list"

record CoordinatorCommand =
  command_type :: command_type
  establish_connection :: "EstablishConnectionCommand option"
  send_endpoint_payload :: "SendEndpointPayloadCommand option"

subsection \<open>The worker's side\<close>

definition establish_command :: "connection_args \<Rightarrow> CoordinatorCommand" where
  "establish_command a =
     \<lparr>command_type = ESTABLISH_CONNECTION,
      establish_connection = Some
        \<lparr>endpoint_url = a_url a, endpoint_hash = a_hash a, content_type = a_contentType a,
         endpoint_headers = fold (\<lambda>(key, v) m. um_assign key v m) (a_headers a) [],
         timeout_ms = of_int (a_timeout a), max_retries = of_nat (a_maxRetries a), retry_delay_ms = of_int (a_retryDelay a),
         ssl_options = Some (a_ssl a)\<rparr>,
      send_endpoint_payload = None\<rparr>"

definition payload_command :: "u64 \<Rightarrow> byte list \<Rightarrow> CoordinatorCommand" where
  "payload_command h p =
     \<lparr>command_type = SEND_ENDPOINT_PAYLOAD, establish_connection = None,
      send_endpoint_payload = Some \<lparr>sp_hash = h, sp_payload = p\<rparr>\<rparr>"

text \<open>\<open>initializeConnection\<close> and \<open>enqueue\<close> of the sender. The callback of \<open>enqueue\<close> goes nowhere.\<close>

definition sender_call ::
  "(CoordinatorCommand \<Rightarrow> byte list option) \<Rightarrow> ('p \<Rightarrow> byte list \<Rightarrow> 'p \<times> bool) \<Rightarrow> CoordinatorCommand \<Rightarrow> 'p \<Rightarrow> 'p" where
  "sender_call encode send_payload command w =
     (case encode command of None \<Rightarrow> w | Some serializedCommand \<Rightarrow> fst (send_payload w serializedCommand))"

definition sender_initializeConnection ::
  "(CoordinatorCommand \<Rightarrow> byte list option) \<Rightarrow> ('p \<Rightarrow> byte list \<Rightarrow> 'p \<times> bool) \<Rightarrow> connection_args \<Rightarrow> 'p \<Rightarrow> 'p" where
  "sender_initializeConnection encode send_payload a = sender_call encode send_payload (establish_command a)"

definition sender_enqueue ::
  "(CoordinatorCommand \<Rightarrow> byte list option) \<Rightarrow> ('p \<Rightarrow> byte list \<Rightarrow> 'p \<times> bool) \<Rightarrow> u64 \<Rightarrow> byte list \<Rightarrow> 'cb option \<Rightarrow> 'p \<Rightarrow> 'p" where
  "sender_enqueue encode send_payload h p callback = sender_call encode send_payload (payload_command h p)"

text \<open>
  \<open>CoordinatorProcess::enqueueMessage\<close>: \<open>try_send\<close> throws (a chunk that is too long), or answers
  whether there was room; that answer is not looked at.
\<close>

definition enqueueMessage ::
  "('q \<Rightarrow> CoordinatorPayload \<Rightarrow> u64 \<Rightarrow> ('q \<times> bool) result) \<Rightarrow> 'q \<Rightarrow> CoordinatorPayload \<Rightarrow> u64 \<Rightarrow> 'q \<times> bool" where
  "enqueueMessage try_send q chunk sz =
     (case try_send q chunk sz of Inr (q', _) \<Rightarrow> (q', True) | Inl e \<Rightarrow> (q, False))"

text \<open>\<open>getCoordinatorSender\<close>: the sender on the processor of this process. \<open>arr\<close> is stack memory.\<close>

definition process_sendPayload ::
  "('q \<Rightarrow> CoordinatorPayload \<Rightarrow> u64 \<Rightarrow> ('q \<times> bool) result) \<Rightarrow> byte list
    \<Rightarrow> ChunkedMessageProcessor \<times> 'q \<Rightarrow> byte list \<Rightarrow> (ChunkedMessageProcessor \<times> 'q) \<times> bool" where
  "process_sendPayload try_send arr pq bytes =
     (let (p', q', sent) = sendPayload (enqueueMessage try_send) arr (snd pq) (fst pq) bytes in ((p', q'), sent))"

subsection \<open>The coordinator's side\<close>

text \<open>\<open>processRecievedMessage\<close>: the call it makes on the transport, if any.\<close>

definition processRecievedMessage :: "(byte list \<Rightarrow> CoordinatorCommand option) \<Rightarrow> byte list \<Rightarrow> transport_call option" where
  "processRecievedMessage decode bytes =
     (case decode bytes of
        None \<Rightarrow> None
      | Some command \<Rightarrow>
          (case command_type command of
             ESTABLISH_CONNECTION \<Rightarrow>
               (case establish_connection command of
                  None \<Rightarrow> None
                | Some c \<Rightarrow>
                    Some (Initialize_call
                      \<lparr>a_url = endpoint_url c, a_hash = endpoint_hash c, a_contentType = content_type c,
                       a_headers = endpoint_headers c, a_timeout = sint (timeout_ms c), a_maxRetries = unat (max_retries c),
                       a_retryDelay = sint (retry_delay_ms c),
                       a_ssl = (case ssl_options c of None \<Rightarrow> no_ssl | Some o1 \<Rightarrow> o1)\<rparr>))
           | SEND_ENDPOINT_PAYLOAD \<Rightarrow>
               (case send_endpoint_payload command of
                  None \<Rightarrow> None
                | Some p \<Rightarrow> Some (Enqueue_call (sp_hash p) (sp_payload p)))
           | _ \<Rightarrow> None))"

record ('w, 'cb) coordinator =
  co_processor :: ChunkedMessageProcessor
  co_transport :: "('w, 'cb) transport"
  co_working :: bool
  co_parent :: int
  co_lastCleanup :: int

text \<open>
  The loop and the periodic task run in two threads: \<open>Receive\<close> is a turn of the loop that got a
  message, \<open>Tick\<close> a run of the task, with the parent process the system reports. Times are in
  milliseconds. An exception of the receiver is caught by the loop.
\<close>

datatype coordinator_event = Receive CoordinatorPayload u64 int | Receive_nothing | Tick int int

definition coordinator_receive ::
  "(byte list \<Rightarrow> CoordinatorCommand option) \<Rightarrow> url_env \<Rightarrow> curl_env \<Rightarrow> transport_config
    \<Rightarrow> CoordinatorPayload \<Rightarrow> u64 \<Rightarrow> int \<Rightarrow> ('w, 'cb) coordinator \<Rightarrow> ('w, 'cb) coordinator" where
  "coordinator_receive decode ue ce cfg chunk sz now c =
     (let (p, r) = processReceivedChunk (co_processor c) chunk sz now;
          c' = c\<lparr>co_processor := p\<rparr>
      in case r of
           Inr (Some message) \<Rightarrow>
             (case processRecievedMessage decode message of
                Some call \<Rightarrow> c'\<lparr>co_transport := apply_call ue ce cfg call (co_transport c')\<rparr>
              | None \<Rightarrow> c')
         | _ \<Rightarrow> c')"

definition coordinator_tick :: "int \<Rightarrow> int \<Rightarrow> ('w, 'cb) coordinator \<Rightarrow> ('w, 'cb) coordinator" where
  "coordinator_tick ppid now c =
     (let c1 = (if ppid \<noteq> co_parent c then c\<lparr>co_working := False\<rparr> else c)
      in if now - co_lastCleanup c1 \<ge> 60000
         then c1\<lparr>co_processor := cleanupAbandonedMessages (co_processor c1) now 10000, co_lastCleanup := now\<rparr>
         else c1)"

definition coordinator_step ::
  "(byte list \<Rightarrow> CoordinatorCommand option) \<Rightarrow> url_env \<Rightarrow> curl_env \<Rightarrow> transport_config
    \<Rightarrow> coordinator_event \<Rightarrow> ('w, 'cb) coordinator \<Rightarrow> ('w, 'cb) coordinator" where
  "coordinator_step decode ue ce cfg e c =
     (case e of
        Receive chunk sz now \<Rightarrow> if co_working c then coordinator_receive decode ue ce cfg chunk sz now c else c
      | Receive_nothing \<Rightarrow> c
      | Tick ppid now \<Rightarrow> coordinator_tick ppid now c)"

subsection \<open>The contract of a transport\<close>

text \<open>
  What a caller of \<open>HttpTransportAsyncInterface\<close> relies on: a payload that finds room is queued behind
  the others, one that does not is dropped, and connecting an endpoint leaves the queue alone.
\<close>

locale transport_interface =
  fixes enq :: "u64 \<Rightarrow> byte list \<Rightarrow> 's \<Rightarrow> 's"
    and connect :: "connection_args \<Rightarrow> 's \<Rightarrow> 's"
    and pending :: "'s \<Rightarrow> (u64 \<times> byte list) list"
    and room :: "'s \<Rightarrow> nat \<Rightarrow> bool"
  assumes enq_room: "room s (length p) \<Longrightarrow> pending (enq h p s) = pending s @ [(h, p)]"
    and enq_full: "\<not> room s (length p) \<Longrightarrow> pending (enq h p s) = pending s"
    and connect_pending: "pending (connect a s) = pending s"
begin

definition make_call :: "transport_call \<Rightarrow> 's \<Rightarrow> 's" where
  "make_call call s = (case call of Initialize_call a \<Rightarrow> connect a s | Enqueue_call h p \<Rightarrow> enq h p s)"

lemma make_call_simps:
  "make_call (Initialize_call a) s = connect a s"
  "make_call (Enqueue_call h p) s = enq h p s"
  by (simp_all add: make_call_def)

lemma calls_pending:
  "\<exists>xs. pending (fold make_call calls s) = pending s @ xs
     \<and> subseq xs (List.map_filter (\<lambda>c. case c of Enqueue_call h p \<Rightarrow> Some (h, p) | _ \<Rightarrow> None) calls)"
proof (induction calls arbitrary: s)
  case (Cons c cs)
  obtain xs where xs: "pending (fold make_call cs (make_call c s)) = pending (make_call c s) @ xs"
    "subseq xs (List.map_filter (\<lambda>c. case c of Enqueue_call h p \<Rightarrow> Some (h, p) | _ \<Rightarrow> None) cs)"
    using Cons.IH by blast
  show ?case
  proof (cases c)
    case (Initialize_call a)
    with xs show ?thesis by (auto simp: make_call_simps connect_pending map_filter_simps)
  next
    case (Enqueue_call h p)
    with xs show ?thesis
      by (cases "room s (length p)") (auto simp: make_call_simps enq_room enq_full map_filter_simps intro: exI [of _ "(h, p) # xs"] exI [of _ xs])
  qed
qed simp

end

definition transport_pending :: "('w, 'cb) transport \<Rightarrow> (u64 \<times> byte list) list" where
  "transport_pending s = map (\<lambda>(h, p, _). (h, p)) (payloadsToSend s)"

definition transport_room :: "transport_config \<Rightarrow> ('w, 'cb) transport \<Rightarrow> nat \<Rightarrow> bool" where
  "transport_room cfg s n \<longleftrightarrow> payloadsByteUsage s + of_nat n \<le> max_send_queue_size cfg"

interpretation http: transport_interface
  "\<lambda>h p. apply_call ue ce cfg (Enqueue_call h p)" "\<lambda>a. apply_call ue ce cfg (Initialize_call a)"
  transport_pending "transport_room cfg"
  for ue ce cfg
  by unfold_locales
    (auto simp: apply_call_def transport_pending_def transport_room_def enqueue_def initializeConnection_def startThread_def Let_def
      not_less split: sum.split prod.split)

lemma http_make_call: "http.make_call ue ce cfg = apply_call ue ce cfg"
  by (auto simp: http.make_call_def fun_eq_iff split: transport_call.split)

subsection \<open>What the coordinator does with the chunks it receives\<close>

text \<open>The calls a run without cleanup leads to, by the chunks received, each with the sender and message it came from.\<close>

definition coordinator_calls ::
  "(byte list \<Rightarrow> CoordinatorCommand option) \<Rightarrow> ChunkedMessageProcessor \<Rightarrow> rx_event list \<Rightarrow> ((pid \<times> u64) \<times> transport_call) list" where
  "coordinator_calls decode r es =
     List.map_filter (\<lambda>(e, out). case out of
         Inr (Some message) \<Rightarrow> map_option (\<lambda>call. (rx_key e, call)) (processRecievedMessage decode message)
       | _ \<Rightarrow> None) (run_outputs rx_step r es)"

definition received :: "coordinator_event list \<Rightarrow> rx_event list" where
  "received es = List.map_filter (\<lambda>e. case e of Receive c sz now \<Rightarrow> Some (c, sz, now) | _ \<Rightarrow> None) es"

text \<open>Ticks while the parent lives and the next cleanup is not yet due.\<close>

definition quiet :: "('w, 'cb) coordinator \<Rightarrow> coordinator_event \<Rightarrow> bool" where
  "quiet c e = (case e of Tick ppid now \<Rightarrow> ppid = co_parent c \<and> now - co_lastCleanup c < 60000 | _ \<Rightarrow> True)"

lemma coordinator_step_simps:
  "coordinator_step decode ue ce cfg (Receive chunk sz now) c
     = (if co_working c then coordinator_receive decode ue ce cfg chunk sz now c else c)"
  "coordinator_step decode ue ce cfg Receive_nothing c = c"
  "coordinator_step decode ue ce cfg (Tick ppid now) c = coordinator_tick ppid now c"
  by (simp_all add: coordinator_step_def)

lemma received_simps:
  "received [] = []"
  "received (Receive chunk sz now # es) = (chunk, sz, now) # received es"
  "received (Receive_nothing # es) = received es"
  "received (Tick ppid t # es) = received es"
  by (simp_all add: received_def map_filter_simps)

lemma coordinator_calls_simps:
  "coordinator_calls decode r [] = []"
  "coordinator_calls decode r (e # es) =
     (case snd (rx_step r e) of
        Inr (Some message) \<Rightarrow>
          (case processRecievedMessage decode message of Some call \<Rightarrow> [(rx_key e, call)] | None \<Rightarrow> [])
      | _ \<Rightarrow> []) @ coordinator_calls decode (fst (rx_step r e)) es"
  by (auto simp: coordinator_calls_def map_filter_simps split: sum.splits option.splits)

lemma coordinator_run:
  assumes "co_working c" and "list_all (quiet c) es"
  shows "fold (coordinator_step decode ue ce cfg) es c
    = c\<lparr>co_processor := run_state rx_step (co_processor c) (received es),
        co_transport := fold (apply_call ue ce cfg) (map snd (coordinator_calls decode (co_processor c) (received es))) (co_transport c)\<rparr>"
  using assms
proof (induction es arbitrary: c)
  case Nil
  then show ?case by (simp add: received_simps coordinator_calls_simps)
next
  case (Cons e es)
  show ?case
  proof (cases e)
    case (Receive chunk sz now)
    obtain p r where pr: "processReceivedChunk (co_processor c) chunk sz now = (p, r)" by (rule prod.exhaust)
    let ?c = "coordinator_receive decode ue ce cfg chunk sz now c"
    have c: "co_processor ?c = p" "co_working ?c = co_working c" "co_parent ?c = co_parent c" "co_lastCleanup ?c = co_lastCleanup c"
      by (auto simp: coordinator_receive_def pr Let_def split: sum.splits option.splits)
    then have "quiet ?c = quiet c" by (auto simp: quiet_def fun_eq_iff split: coordinator_event.split)
    with c Cons.prems have "co_working ?c" "list_all (quiet ?c) es" by simp_all
    note IH = Cons.IH [OF this]
    have step: "rx_step (co_processor c) (chunk, sz, now) = (p, r)" by (simp add: rx_step_def pr)
    define cs where "cs = (case r of
        Inr (Some message) \<Rightarrow> (case processRecievedMessage decode message of Some call \<Rightarrow> [(rx_key (chunk, sz, now), call)] | None \<Rightarrow> [])
      | _ \<Rightarrow> [])"
    have rc: "?c = c\<lparr>co_processor := p, co_transport := fold (apply_call ue ce cfg) (map snd cs) (co_transport c)\<rparr>"
      by (simp add: coordinator_receive_def pr cs_def split: sum.split option.split)
    have calls: "coordinator_calls decode (co_processor c) (received (e # es)) = cs @ coordinator_calls decode p (received es)"
      by (simp add: Receive received_simps coordinator_calls_simps step cs_def)
    have "fold (coordinator_step decode ue ce cfg) (e # es) c = fold (coordinator_step decode ue ce cfg) es ?c"
      using Cons.prems(1) by (simp add: Receive coordinator_step_simps)
    also note IH
    finally show ?thesis
      unfolding calls by (simp add: rc Receive received_simps step)
  next
    case Receive_nothing
    with Cons show ?thesis by (simp add: coordinator_step_simps received_simps)
  next
    case (Tick ppid t)
    with Cons show ?thesis by (simp add: coordinator_step_simps coordinator_tick_def quiet_def received_simps)
  qed
qed

lemma coordinator_calls_of_key:
  "filter (\<lambda>kc. fst kc = k) (coordinator_calls decode r es)
     = List.map_filter (\<lambda>out. case out of
           Inr (Some message) \<Rightarrow> map_option (Pair k) (processRecievedMessage decode message)
         | _ \<Rightarrow> None) (map snd (filter (\<lambda>eo. rx_key (fst eo) = k) (run_outputs rx_step r es)))"
proof -
  have "filter (\<lambda>kc. fst kc = k) (List.map_filter (\<lambda>(e, out). case out of
         Inr (Some message) \<Rightarrow> map_option (\<lambda>call. (rx_key e, call)) (processRecievedMessage decode message)
       | _ \<Rightarrow> None) eos)
    = List.map_filter (\<lambda>out. case out of
           Inr (Some message) \<Rightarrow> map_option (Pair k) (processRecievedMessage decode message)
         | _ \<Rightarrow> None) (map snd (filter (\<lambda>eo. rx_key (fst eo) = k) eos))" for eos :: "(rx_event \<times> (byte list option) result) list"
    by (induction eos) (auto simp: map_filter_simps split: sum.splits option.splits)
  then show ?thesis by (simp add: coordinator_calls_def)
qed

lemma map_filter_replicate_None: "f x = None \<Longrightarrow> List.map_filter f (replicate n x @ ys) = List.map_filter f ys"
  by (induction n) (simp_all add: map_filter_simps)

subsection \<open>Messages of which chunks are lost\<close>

text \<open>
  The bytes a chunk carries, and the invariant of the receiver's slot for a message: what it holds, followed by what the
  chunks still to come carry, is the message with pieces missing.
\<close>

definition chunk_body :: "CoordinatorPayload \<times> u64 \<Rightarrow> byte list" where
  "chunk_body = (\<lambda>(c, sz). take (unat (sz - of_nat header_size)) (payload c))"

definition chunk_of :: "byte list \<Rightarrow> CoordinatorPayload \<times> u64 \<Rightarrow> bool" where
  "chunk_of bytes = (\<lambda>(c, sz). payloadTotalSize c = of_nat (length bytes) \<and> chunk_body (c, sz) \<noteq> [] \<and>
     length (chunk_body (c, sz)) = unat (sz - of_nat header_size))"

definition slot_data :: "ChunkedMessage option \<Rightarrow> byte list" where
  "slot_data slot = (case slot of None \<Rightarrow> [] | Some m \<Rightarrow> msg_data m)"

definition slot_open :: "byte list \<Rightarrow> ChunkedMessage option \<Rightarrow> (CoordinatorPayload \<times> u64) list \<Rightarrow> bool" where
  "slot_open bytes slot rest \<longleftrightarrow>
     subseq (slot_data slot @ concat (map chunk_body rest)) bytes \<and> list_all (chunk_of bytes) rest \<and>
     (\<forall>m. slot = Some m \<longrightarrow> totalSize m = of_nat (length bytes))"

lemma wire_chunks_of:
  assumes "payloadTotalSize chunk = of_nat (length bytes)"
  shows "list_all (\<lambda>(c, sz). chunk_of bytes (c, sz) \<and> senderProcessId c = senderProcessId chunk \<and> msgId c = msgId chunk) (wire_chunks chunk bytes off) \<and>
    concat (map chunk_body (wire_chunks chunk bytes off)) = drop off bytes"
  using assms
proof (induction chunk bytes off rule: wire_chunks.induct)
  case (1 chunk bytes off)
  define n where "n = min payload_capacity (length bytes - off)"
  define c where "c = chunk\<lparr>payloadOffset := of_nat off, payload := take n (drop off bytes) @ drop n (payload chunk)\<rparr>"
  show ?case
  proof (cases "off < length bytes")
    case True
    then have n: "0 < n" "off + n \<le> length bytes" "n < 2 ^ 64" by (auto simp: n_def payload_capacity_def)
    have c: "payloadTotalSize c = of_nat (length bytes)" "senderProcessId c = senderProcessId chunk" "msgId c = msgId chunk"
      using 1(2) by (simp_all add: c_def)
    have w: "wire_chunks chunk bytes off = (c, of_nat (n + header_size)) # wire_chunks c bytes (off + n)"
      using True by (subst wire_chunks.simps) (simp add: Let_def n_def c_def)
    have b: "chunk_body (c, of_nat (n + header_size)) = take n (drop off bytes)"
      using n by (simp only: chunk_body_def prod.case header_minus u64_unat_of_nat) (simp add: c_def)
    have d: "take n (drop off bytes) @ drop (off + n) bytes = drop off bytes"
      by (metis append_take_drop_id drop_drop add.commute)
    have of: "chunk_of bytes (c, of_nat (n + header_size))"
      unfolding chunk_of_def prod.case b header_minus using n by (simp add: c(1) u64_unat_of_nat)
    show ?thesis using 1(1) [OF True n_def c_def c(1)] of b d c unfolding w by simp
  qed (simp add: wire_chunks.simps)
qed

lemma subseq_chunks_lossy:
  assumes "subseq xs ys" and "list_all (chunk_of bytes) ys"
  shows "xs = ys \<or> length (concat (map chunk_body xs)) < length (concat (map chunk_body ys))"
  using assms
proof (induction rule: list_emb.induct)
  case (list_emb_Nil ys)
  then show ?case by (cases ys) (auto simp: chunk_of_def)
next
  case (list_emb_Cons xs ys y)
  then show ?case by (cases y) (auto simp: chunk_of_def)
qed auto

lemma subseq_chunks_bodies: "subseq xs ys \<Longrightarrow> subseq (concat (map chunk_body xs)) (concat (map chunk_body ys))"
  by (induction rule: list_emb.induct) (auto intro: list_emb_append_mono subseq_append_le_same_iff)

lemma chunk_step_open:
  assumes open_: "slot_open bytes slot ((c, sz) # rest)" and len: "length bytes \<le> vector_max_size"
    and step: "chunk_step slot (c, sz, now) = (slot', out)"
  shows "slot_open bytes slot' rest \<and>
    (\<forall>message. out = Inr (Some message) \<longrightarrow> message = bytes \<and> rest = [] \<and> slot_data slot @ chunk_body (c, sz) = bytes) \<and>
    length (slot_data slot' @ concat (map chunk_body rest)) \<le> length (slot_data slot @ concat (map chunk_body ((c, sz) # rest)))"
proof -
  from open_ have sub: "subseq (slot_data slot @ chunk_body (c, sz) @ concat (map chunk_body rest)) bytes"
    and of: "chunk_of bytes (c, sz)" "list_all (chunk_of bytes) rest" and total: "\<And>m. slot = Some m \<Longrightarrow> totalSize m = of_nat (length bytes)"
    by (auto simp: slot_open_def)
  have b: "length bytes < 2 ^ 64" using len by (simp add: vector_max_size_def)
  have lenc: "payloadTotalSize c = of_nat (length bytes)" using of by (simp add: chunk_of_def)
  define m where "m = (case slot of None \<Rightarrow> \<lparr>totalSize = of_nat (length bytes), msg_data = [], lastUpdated = 0\<rparr> | Some m \<Rightarrow> m)"
  have m: "(case slot of None \<Rightarrow> new_message (payloadTotalSize c) | Some m \<Rightarrow> Inr m) = Inr m" "msg_data m = slot_data slot"
    "totalSize m = of_nat (length bytes)"
    using total len b by (auto simp: m_def new_message_def lenc u64_unat_of_nat slot_data_def split: option.splits)
  have skip: "subseq (slot_data slot @ concat (map chunk_body rest)) bytes"
    using sub by (meson subseq_order.trans list_emb_append_mono list_emb_append2 subseq_order.refl)
  have keep: "slot_open bytes (Some m) rest" "slot_data (Some m) = slot_data slot"
    using skip of(2) m by (simp_all add: slot_open_def slot_data_def)
  show ?thesis
  proof (cases "\<exists>e. out = Inl e")
    case True
    then have "slot' = Some m"
      using step by (auto simp: chunk_step_def m(1) Let_def split: if_splits sum.splits prod.splits)
    then show ?thesis using keep True by auto
  next
    case False
    then obtain m' complete where add: "addNextChunk m (payload c) (sz - of_nat header_size) now = Inr (m', complete)"
      "slot' = (if complete then None else Some m')" "out = (if complete then Inr (Some (msg_data m')) else Inr None)"
      using step by (auto simp: chunk_step_def m(1) Let_def split: if_splits sum.splits prod.splits)
    then have m': "msg_data m' = slot_data slot @ chunk_body (c, sz)" "totalSize m' = of_nat (length bytes)"
      "complete \<longleftrightarrow> of_nat (length (msg_data m')) = (of_nat (length bytes) :: u64)"
      by (auto simp: addNextChunk_def Let_def m(2,3) chunk_body_def split: if_splits)
    have le: "length (msg_data m') \<le> length bytes"
      using list_emb_length [OF sub] by (simp add: m')
    then have complete: "complete \<longleftrightarrow> length (msg_data m') = length bytes"
      using b by (simp add: m'(3) u64_of_nat_eq)
    show ?thesis
    proof (cases complete)
      case True
      with complete have n: "length (slot_data slot @ chunk_body (c, sz)) = length bytes" by (simp add: m')
      with list_emb_length [OF sub] have "length (concat (map chunk_body rest)) = 0"
        unfolding length_append by linarith
      then have r: "concat (map chunk_body rest) = []" by (simp only: length_0_conv)
      moreover have "msg_data m' = bytes"
        using sub n unfolding r append_Nil2 m' by (rule subseq_same_length)
      moreover from r have "rest = []" using of(2) by (cases rest) (auto simp: chunk_of_def)
      ultimately show ?thesis using add True m' by (simp add: slot_open_def slot_data_def)
    next
      case False
      then show ?thesis using add m' sub of(2) by (auto simp: slot_open_def slot_data_def)
    qed
  qed
qed


subsection \<open>The calls of a run\<close>

text \<open>The calls on the transport in a run of the coordinator, each with the sender and the message it came of.\<close>

definition step_call ::
  "(byte list \<Rightarrow> CoordinatorCommand option) \<Rightarrow> coordinator_event \<Rightarrow> ('w, 'cb) coordinator \<Rightarrow> ((pid \<times> u64) \<times> transport_call) list" where
  "step_call decode e c =
     (case e of
        Receive chunk sz now \<Rightarrow>
          (case snd (processReceivedChunk (co_processor c) chunk sz now) of
             Inr (Some message) \<Rightarrow>
               (case processRecievedMessage decode message of
                  Some call \<Rightarrow> if co_working c then [((senderProcessId chunk, msgId chunk), call)] else []
                | None \<Rightarrow> [])
           | _ \<Rightarrow> [])
      | _ \<Rightarrow> [])"

fun run_calls ::
  "(byte list \<Rightarrow> CoordinatorCommand option) \<Rightarrow> url_env \<Rightarrow> curl_env \<Rightarrow> transport_config
    \<Rightarrow> coordinator_event list \<Rightarrow> ('w, 'cb) coordinator \<Rightarrow> ((pid \<times> u64) \<times> transport_call) list" where
  "run_calls decode ue ce cfg [] c = []"
| "run_calls decode ue ce cfg (e # es) c = step_call decode e c @ run_calls decode ue ce cfg es (coordinator_step decode ue ce cfg e c)"

lemma coordinator_step_transport:
  "co_transport (coordinator_step decode ue ce cfg e c) = fold (apply_call ue ce cfg) (map snd (step_call decode e c)) (co_transport c)"
  by (auto simp: coordinator_step_def step_call_def coordinator_receive_def coordinator_tick_def Let_def
      split: coordinator_event.split sum.split option.split prod.split)

lemma run_calls_transport:
  "co_transport (fold (coordinator_step decode ue ce cfg) es c)
     = fold (apply_call ue ce cfg) (map snd (run_calls decode ue ce cfg es c)) (co_transport c)"
  by (induction es arbitrary: c) (simp_all add: coordinator_step_transport)

lemma run_calls_append:
  "run_calls decode ue ce cfg (xs @ ys) c =
     run_calls decode ue ce cfg xs c @ run_calls decode ue ce cfg ys (fold (coordinator_step decode ue ce cfg) xs c)"
  by (induction xs arbitrary: c) simp_all

lemma coordinator_step_processor:
  "co_processor (coordinator_step decode ue ce cfg e c) =
     (case e of
        Receive chunk sz now \<Rightarrow> if co_working c then fst (rx_step (co_processor c) (chunk, sz, now)) else co_processor c
      | Receive_nothing \<Rightarrow> co_processor c
      | Tick ppid now \<Rightarrow>
          if now - co_lastCleanup c \<ge> 60000 then cleanupAbandonedMessages (co_processor c) now 10000 else co_processor c)"
  by (auto simp: coordinator_step_def coordinator_receive_def coordinator_tick_def Let_def rx_step_def
      split: coordinator_event.split sum.split option.split prod.split)

lemma run_calls_quiet:
  assumes "co_working c" and "list_all (quiet c) es"
  shows "run_calls decode ue ce cfg es c = coordinator_calls decode (co_processor c) (received es)"
  using assms
proof (induction es arbitrary: c)
  case Nil
  then show ?case by (simp add: received_simps coordinator_calls_simps)
next
  case (Cons e es)
  let ?c = "coordinator_step decode ue ce cfg e c"
  have c: "co_working ?c" "co_parent ?c = co_parent c" "co_lastCleanup ?c = co_lastCleanup c"
    using Cons.prems by (auto simp: coordinator_step_def coordinator_receive_def coordinator_tick_def quiet_def Let_def
        split: coordinator_event.split sum.split option.split prod.split)
  then have "quiet ?c = quiet c" by (auto simp: quiet_def fun_eq_iff split: coordinator_event.split)
  with Cons.prems have "list_all (quiet ?c) es" by simp
  note IH = Cons.IH [OF c(1) this]
  show ?case
  proof (cases e)
    case (Receive chunk sz now)
    then show ?thesis
      using Cons.prems(1) by (simp add: IH [unfolded Receive] received_simps coordinator_calls_simps coordinator_step_processor step_call_def rx_step_def
          rx_key_def split: sum.split option.split)
  next
    case Receive_nothing
    then show ?thesis by (simp add: IH [unfolded Receive_nothing] received_simps coordinator_step_processor step_call_def)
  next
    case (Tick ppid now)
    then have "co_processor ?c = co_processor c" "step_call decode e c = []" "received (e # es) = received es"
      using Cons.prems by (simp_all add: received_simps coordinator_step_processor step_call_def quiet_def)
    then show ?thesis by (simp add: IH)
  qed
qed

text \<open>The chunks of a message that the coordinator still receives.\<close>

definition still_to_come :: "pid \<times> u64 \<Rightarrow> coordinator_event list \<Rightarrow> (CoordinatorPayload \<times> u64) list" where
  "still_to_come k es = map (\<lambda>(c, sz, now). (c, sz)) (filter (\<lambda>e. rx_key e = k) (received es))"

lemma still_to_come_simps:
  "still_to_come k [] = []"
  "still_to_come k (Receive chunk sz now # es) =
     (if (senderProcessId chunk, msgId chunk) = k then [(chunk, sz)] else []) @ still_to_come k es"
  "still_to_come k (Receive_nothing # es) = still_to_come k es"
  "still_to_come k (Tick ppid t # es) = still_to_come k es"
  by (simp_all add: still_to_come_def received_simps rx_key_def)

lemma slot_open_less:
  assumes "slot_open bytes slot (xs @ rest)" and "slot' = slot \<or> slot' = None"
  shows "slot_open bytes slot' rest \<and>
    length (slot_data slot' @ concat (map chunk_body rest)) \<le> length (slot_data slot @ concat (map chunk_body (xs @ rest)))"
proof -
  have "subseq (slot_data slot' @ concat (map chunk_body rest)) (slot_data slot @ concat (map chunk_body (xs @ rest)))"
    using assms(2) by (auto simp: slot_data_def intro: list_emb_append_mono)
  then show ?thesis
    using assms by (auto simp: slot_open_def intro: subseq_order.trans dest: list_emb_length)
qed

lemma coordinator_step_open:
  assumes "rx_wf (co_processor c)" and "length bytes \<le> vector_max_size"
    and "slot_open bytes (msg_slot (co_processor c) k) (still_to_come k (e # es))"
    and c'_def: "c' = coordinator_step decode ue ce cfg e c"
  shows "rx_wf (co_processor c') \<and> slot_open bytes (msg_slot (co_processor c') k) (still_to_come k es) \<and>
    length (slot_data (msg_slot (co_processor c') k) @ concat (map chunk_body (still_to_come k es)))
      \<le> length (slot_data (msg_slot (co_processor c) k) @ concat (map chunk_body (still_to_come k (e # es)))) \<and>
    (filter (\<lambda>kc. fst kc = k) (step_call decode e c) = [] \<or>
       (filter (\<lambda>kc. fst kc = k) (step_call decode e c) = map (Pair k) (case processRecievedMessage decode bytes of Some call \<Rightarrow> [call] | None \<Rightarrow> []) \<and>
        still_to_come k es = [] \<and>
        slot_data (msg_slot (co_processor c) k) @ concat (map chunk_body (still_to_come k (e # es))) = bytes))"
proof (cases e)
  case (Receive chunk sz now)
  let ?e = "(chunk, sz, now)" and ?p = "co_processor c"
  show ?thesis
  proof (cases "co_working c")
    case False
    have "slot_open bytes (msg_slot ?p k) ((if (senderProcessId chunk, msgId chunk) = k then [(chunk, sz)] else []) @ still_to_come k es)"
      using assms(3) by (simp only: Receive still_to_come_simps)
    from slot_open_less [OF this disjI1 [OF refl]] show ?thesis
      using False assms(1) by (auto simp: c'_def Receive coordinator_step_processor step_call_def still_to_come_simps split: sum.split option.split)
  next
    case True
    note keyed = rx_step_keyed [OF assms(1), of ?e]
    have c': "co_processor c' = fst (rx_step ?p ?e)"
      using True by (simp add: c'_def Receive coordinator_step_processor)
    show ?thesis
    proof (cases "rx_key ?e = k")
      case False
      then have "msg_slot (co_processor c') k = msg_slot ?p k"
        using keyed unfolding c' by metis
      then show ?thesis
        using False keyed assms(3)
        by (auto simp: c' Receive step_call_def still_to_come_simps rx_key_def split: sum.split option.split)
    next
      case key: True
      obtain slot' out where step: "chunk_step (msg_slot ?p k) ?e = (slot', out)" by (rule prod.exhaust)
      have "slot_open bytes (msg_slot ?p k) ((chunk, sz) # still_to_come k es)"
        using assms(3) key by (simp add: Receive still_to_come_simps rx_key_def)
      note open_ = chunk_step_open [OF this assms(2) step]
      have out: "snd (processReceivedChunk ?p chunk sz now) = out" "msg_slot (co_processor c') k = slot'"
        using keyed key step by (auto simp: rx_step_def c')
      have wf: "rx_wf (co_processor c')" using keyed by (simp add: c')
      have call: "step_call decode e c = (case out of
          Inr (Some message) \<Rightarrow> (case processRecievedMessage decode message of Some call \<Rightarrow> [(k, call)] | None \<Rightarrow> []) | _ \<Rightarrow> [])"
        using True key by (simp add: Receive step_call_def out(1) rx_key_def split: sum.split option.split)
      have stc: "still_to_come k (e # es) = (chunk, sz) # still_to_come k es"
        using key by (simp add: Receive still_to_come_simps rx_key_def)
      have "filter (\<lambda>kc. fst kc = k) (step_call decode e c) = [] \<or>
          (filter (\<lambda>kc. fst kc = k) (step_call decode e c) =
             map (Pair k) (case processRecievedMessage decode bytes of Some call \<Rightarrow> [call] | None \<Rightarrow> []) \<and>
           still_to_come k es = [] \<and>
           slot_data (msg_slot (co_processor c) k) @ concat (map chunk_body (still_to_come k (e # es))) = bytes)"
      proof (cases "\<exists>message. out = Inr (Some message)")
        case True
        with open_ have "out = Inr (Some bytes)" "still_to_come k es = []" "slot_data (msg_slot ?p k) @ chunk_body (chunk, sz) = bytes" by auto
        then show ?thesis by (simp add: call stc split: option.split)
      next
        case False
        then have "step_call decode e c = []" by (simp add: call split: sum.split option.split)
        then show ?thesis by simp
      qed
      with open_ wf show ?thesis unfolding out(2) stc by blast
    qed
  qed
next
  case Receive_nothing
  then show ?thesis using assms by (simp add: c'_def coordinator_step_processor step_call_def still_to_come_simps)
next
  case (Tick ppid now)
  have "msg_slot (co_processor c') k = msg_slot (co_processor c) k \<or> msg_slot (co_processor c') k = None"
    using cleanup_removes_expired [OF assms(1), of now 10000, THEN conjunct2, THEN conjunct1, THEN spec, of k]
    by (simp add: c'_def Tick coordinator_step_processor split: option.split)
  moreover have "rx_wf (co_processor c')"
    using cleanup_removes_expired [OF assms(1), of now 10000] assms(1) by (simp add: c'_def Tick coordinator_step_processor)
  ultimately show ?thesis
    using slot_open_less [of bytes "msg_slot (co_processor c) k" "[]" "still_to_come k es" "msg_slot (co_processor c') k"] assms(3)
    by (simp add: Tick step_call_def still_to_come_simps)
qed

lemma run_calls_none: "still_to_come k es = [] \<Longrightarrow> filter (\<lambda>kc. fst kc = k) (run_calls decode ue ce cfg es c) = []"
proof (induction es arbitrary: c)
  case (Cons e es)
  then show ?case by (cases e) (auto simp: still_to_come_simps step_call_def split: if_splits sum.split option.split)
qed simp

lemma run_calls_open:
  assumes "rx_wf (co_processor c)" and "length bytes \<le> vector_max_size"
    and "slot_open bytes (msg_slot (co_processor c) k) (still_to_come k es)"
  shows "filter (\<lambda>kc. fst kc = k) (run_calls decode ue ce cfg es c) = [] \<or>
    (filter (\<lambda>kc. fst kc = k) (run_calls decode ue ce cfg es c) = map (Pair k) (case processRecievedMessage decode bytes of Some call \<Rightarrow> [call] | None \<Rightarrow> []) \<and>
     length (slot_data (msg_slot (co_processor c) k) @ concat (map chunk_body (still_to_come k es))) = length bytes)"
  using assms(1,3)
proof (induction es arbitrary: c)
  case (Cons e es)
  let ?c = "coordinator_step decode ue ce cfg e c"
  note step = coordinator_step_open [OF Cons.prems(1) assms(2) Cons.prems(2) refl, of decode ue ce cfg]
  note IH = Cons.IH [of ?c]
  have le: "length (slot_data (msg_slot (co_processor c) k) @ concat (map chunk_body (still_to_come k (e # es)))) \<le> length bytes"
    using Cons.prems(2) by (auto simp: slot_open_def dest: list_emb_length)
  show ?case using step IH run_calls_none [of k es decode ue ce cfg ?c] le by auto
qed simp


subsection \<open>A message queue that may be full\<close>

text \<open>
  The queue has 100 places and the coordinator empties it while workers fill it: \<open>room\<close> says at which of the
  calls of \<open>try_send\<close> there was a place. The state is what was taken and the number of calls.
\<close>

definition mq_try_send ::
  "(nat \<Rightarrow> bool) \<Rightarrow> (CoordinatorPayload \<times> u64) list \<times> nat \<Rightarrow> CoordinatorPayload \<Rightarrow> u64
     \<Rightarrow> (((CoordinatorPayload \<times> u64) list \<times> nat) \<times> bool) result" where
  "mq_try_send room q chunk sz =
     (case q of (got, n) \<Rightarrow> Inr ((if room n then got @ [(chunk, sz)] else got, Suc n), room n))"

fun kept :: "(nat \<Rightarrow> bool) \<Rightarrow> nat \<Rightarrow> 'a list \<Rightarrow> 'a list" where
  "kept room n [] = []"
| "kept room n (x # xs) = (if room n then x # kept room (Suc n) xs else kept room (Suc n) xs)"

lemma kept_subseq: "subseq (kept room n xs) xs"
  by (induction room n xs rule: kept.induct) auto

lemma kept_length: "length (kept room n xs) \<le> length xs"
  by (induction room n xs rule: kept.induct) auto

lemma kept_all_iff: "kept room n xs = xs \<longleftrightarrow> list_all room [n ..< n + length xs]"
proof (induction room n xs rule: kept.induct)
  case (2 room n x xs)
  have "[n ..< n + length (x # xs)] = n # [Suc n ..< Suc n + length xs]" by (subst upt_rec) simp
  with 2 kept_length [of room "Suc n" xs] show ?case by (auto dest: arg_cong [of _ _ length])
qed simp

lemma send_all_mq: "send_all (enqueueMessage (mq_try_send room)) (got, n) cs = ((got @ kept room n cs, n + length cs), True)"
  by (induction cs arbitrary: got n) (auto simp: enqueueMessage_def mq_try_send_def)

text \<open>The chunks of a message, of which the queue keeps some.\<close>

definition message_chunks :: "ChunkedMessageProcessor \<Rightarrow> byte list \<Rightarrow> byte list \<Rightarrow> (CoordinatorPayload \<times> u64) list" where
  "message_chunks p arr bytes =
     wire_chunks \<lparr>senderProcessId = ownProcessId p, msgId = lastMsgId p + 1,
        payloadTotalSize = of_nat (length bytes), payloadOffset = 0, payload = arr\<rparr> bytes 0"

lemma process_sendPayload_mq:
  "process_sendPayload (mq_try_send room) arr (p, got, n) bytes =
     ((p\<lparr>lastMsgId := lastMsgId p + 1\<rparr>, got @ kept room n (message_chunks p arr bytes), n + length (message_chunks p arr bytes)), True)"
  by (simp add: process_sendPayload_def sendPayload_def send_loop_wire message_chunks_def send_all_mq Let_def)

lemma message_chunks_of:
  "list_all (chunk_of bytes) (message_chunks p arr bytes)"
  "concat (map chunk_body (message_chunks p arr bytes)) = bytes"
  "(c, sz) \<in> set (message_chunks p arr bytes) \<Longrightarrow> (senderProcessId c, msgId c) = (ownProcessId p, lastMsgId p + 1)"
  using wire_chunks_of [of "\<lparr>senderProcessId = ownProcessId p, msgId = lastMsgId p + 1,
        payloadTotalSize = of_nat (length bytes), payloadOffset = 0, payload = arr\<rparr>" bytes 0]
  by (auto simp: message_chunks_def list_all_iff)

text \<open>At most one call comes of a message, the right one, and none when a chunk is missing.\<close>

lemma message_at_most_once:
  assumes "rx_wf (co_processor c)" and "length bytes \<le> vector_max_size"
    and "msg_slot (co_processor c) k = None"
    and "subseq (still_to_come k es) (message_chunks p arr bytes)"
  shows "filter (\<lambda>kc. fst kc = k) (run_calls decode ue ce cfg es c) = [] \<or>
    (filter (\<lambda>kc. fst kc = k) (run_calls decode ue ce cfg es c) = map (Pair k) (case processRecievedMessage decode bytes of Some call \<Rightarrow> [call] | None \<Rightarrow> []) \<and>
     still_to_come k es = message_chunks p arr bytes)"
proof -
  have "list_all (chunk_of bytes) (still_to_come k es)"
    using message_chunks_of(1) [of bytes p arr] list_emb_set [OF assms(4)] by (auto simp: list_all_iff)
  moreover have "subseq (concat (map chunk_body (still_to_come k es))) bytes"
    using subseq_chunks_bodies [OF assms(4)] by (simp add: message_chunks_of)
  ultimately have "slot_open bytes (msg_slot (co_processor c) k) (still_to_come k es)"
    by (simp add: slot_open_def slot_data_def assms(3))
  note run = run_calls_open [OF assms(1,2) this, of decode ue ce cfg]
  have "still_to_come k es = message_chunks p arr bytes" if "length (concat (map chunk_body (still_to_come k es))) = length bytes"
    using subseq_chunks_lossy [OF assms(4) message_chunks_of(1)] that by (simp add: message_chunks_of)
  with run show ?thesis by (auto simp: assms(3) slot_data_def)
qed

text \<open>Exactly one call comes of a message of which every chunk arrives in a quiet period.\<close>

lemma message_arrives:
  assumes "rx_wf (co_processor c)" and "bytes \<noteq> []" "length bytes \<le> vector_max_size"
    and "msg_slot (co_processor c) (ownProcessId p, lastMsgId p + 1) = None"
    and "still_to_come (ownProcessId p, lastMsgId p + 1) es = message_chunks p arr bytes"
    and "co_working c" and "list_all (quiet c) es"
    and "processRecievedMessage decode bytes = Some call"
  shows "filter (\<lambda>kc. fst kc = (ownProcessId p, lastMsgId p + 1)) (run_calls decode ue ce cfg es c) = [((ownProcessId p, lastMsgId p + 1), call)]"
proof -
  let ?k = "(ownProcessId p, lastMsgId p + 1)"
  have "map snd (filter (\<lambda>eo. rx_key (fst eo) = ?k) (run_outputs rx_step (co_processor c) (received es)))
      = replicate (length (message_chunks p arr bytes) - 1) (Inr None) @ [Inr (Some bytes)]"
    using chunks_delivered [of "co_processor c" bytes arr p "p\<lparr>lastMsgId := lastMsgId p + 1\<rparr>" "message_chunks p arr bytes" "received es"] assms
    by (simp add: sendPayload_record message_chunks_def still_to_come_def)
  then have "filter (\<lambda>kc. fst kc = ?k) (coordinator_calls decode (co_processor c) (received es)) = [(?k, call)]"
    by (simp add: coordinator_calls_of_key map_filter_replicate_None map_filter_simps assms(8))
  then show ?thesis by (simp add: run_calls_quiet [OF assms(6,7)])
qed

subsection \<open>Two messages of one worker\<close>

definition arrivals :: "(pid \<times> u64) set \<Rightarrow> coordinator_event list \<Rightarrow> (CoordinatorPayload \<times> u64) list" where
  "arrivals ks es = map (\<lambda>(c, sz, now). (c, sz)) (filter (\<lambda>e. rx_key e \<in> ks) (received es))"

lemma arrivals_simps:
  "arrivals ks [] = []"
  "arrivals ks (Receive chunk sz now # es) =
     (if (senderProcessId chunk, msgId chunk) \<in> ks then [(chunk, sz)] else []) @ arrivals ks es"
  "arrivals ks (Receive_nothing # es) = arrivals ks es"
  "arrivals ks (Tick ppid t # es) = arrivals ks es"
  by (simp_all add: arrivals_def received_simps rx_key_def)

lemma still_to_come_arrivals:
  "k \<in> ks \<Longrightarrow> still_to_come k es = filter (\<lambda>(c, sz). (senderProcessId c, msgId c) = k) (arrivals ks es)"
proof (induction es)
  case (Cons e es)
  then show ?case by (cases e) (auto simp: still_to_come_simps arrivals_simps)
qed (simp add: still_to_come_simps arrivals_simps)

lemma arrivals_of_sent:
  "\<forall>(chunk, sz) \<in> set w. (senderProcessId chunk, msgId chunk) \<in> ks \<Longrightarrow>
    arrivals ks (map (\<lambda>(chunk, sz). Receive chunk sz now) w) = w"
  by (induction w) (auto simp: arrivals_simps)

lemma arrivals_split:
  "arrivals ks es = xs @ ys \<Longrightarrow> \<exists>es1 es2. es = es1 @ es2 \<and> arrivals ks es1 = xs \<and> arrivals ks es2 = ys"
proof (induction es arbitrary: xs)
  case (Cons e es)
  show ?case
  proof (cases "xs = []")
    case True
    with Cons.prems show ?thesis by (intro exI [of _ "[]"] exI [of _ "e # es"]) (simp add: arrivals_simps)
  next
    case False
    have e: "arrivals ks (e # es) = arrivals ks [e] @ arrivals ks es" for es by (cases e) (simp_all add: arrivals_simps)
    have "arrivals ks [e] = [] \<or> (\<exists>x. arrivals ks [e] = [x])" by (cases e) (simp_all add: arrivals_simps)
    with False Cons.prems obtain xs' where xs': "xs = arrivals ks [e] @ xs'" "arrivals ks es = xs' @ ys"
      by (cases xs) (auto simp: e [of es])
    from Cons.IH [OF xs'(2)] obtain es1 es2 where "es = es1 @ es2" "arrivals ks es1 = xs'" "arrivals ks es2 = ys" by blast
    then show ?thesis using xs'(1) by (intro exI [of _ "e # es1"] exI [of _ es2]) (simp add: e [of es1])
  qed
qed (simp add: arrivals_simps)

lemma filter_two: "filter (\<lambda>kc. fst kc = b) xs = [] \<Longrightarrow> filter (\<lambda>kc. fst kc = a \<or> fst kc = b) xs = filter (\<lambda>kc. fst kc = a) xs"
  by (rule filter_cong) (auto simp: filter_empty_conv)

lemma two_messages_arrive:
  fixes p :: ChunkedMessageProcessor
  defines "k1 \<equiv> (ownProcessId p, lastMsgId p + 1)" and "k2 \<equiv> (ownProcessId p, lastMsgId p + 2)"
  assumes "rx_wf (co_processor c)" and "msg_slot (co_processor c) k1 = None" "msg_slot (co_processor c) k2 = None"
    and "bytes1 \<noteq> []" "length bytes1 \<le> vector_max_size" "bytes2 \<noteq> []" "length bytes2 \<le> vector_max_size"
    and "processRecievedMessage decode bytes1 = Some call1" "processRecievedMessage decode bytes2 = Some call2"
    and "co_working c" and "list_all (quiet c) es"
    and "arrivals {k1, k2} es = message_chunks p arr bytes1 @ message_chunks (p\<lparr>lastMsgId := lastMsgId p + 1\<rparr>) arr2 bytes2"
  shows "\<exists>pre mid post. run_calls decode ue ce cfg es c = pre @ (k1, call1) # mid @ (k2, call2) # post \<and>
    filter (\<lambda>kc. fst kc = k1 \<or> fst kc = k2) (run_calls decode ue ce cfg es c) = [(k1, call1), (k2, call2)]"
proof -
  let ?p2 = "p\<lparr>lastMsgId := lastMsgId p + 1\<rparr>"
  have ne: "k1 \<noteq> k2" by (simp add: k1_def k2_def)
  have k2: "k2 = (ownProcessId ?p2, lastMsgId ?p2 + 1)" by (simp add: k2_def)
  obtain es1 es2 where es: "es = es1 @ es2" and a1: "arrivals {k1, k2} es1 = message_chunks p arr bytes1"
    and a2: "arrivals {k1, k2} es2 = message_chunks ?p2 arr2 bytes2"
    using arrivals_split [OF assms(14)] by blast
  have keys: "(senderProcessId (fst x), msgId (fst x)) = k1" if "x \<in> set (message_chunks p arr bytes1)" for x
    using message_chunks_of(3) [of "fst x" "snd x" p arr bytes1] that by (simp add: k1_def)
  have keys2: "(senderProcessId (fst x), msgId (fst x)) = k2" if "x \<in> set (message_chunks ?p2 arr2 bytes2)" for x
    using message_chunks_of(3) [of "fst x" "snd x" ?p2 arr2 bytes2] that by (simp add: k2)
  have s: "still_to_come k1 es1 = message_chunks p arr bytes1" "still_to_come k2 es1 = []"
    "still_to_come k1 es2 = []" "still_to_come k2 es2 = message_chunks ?p2 arr2 bytes2"
    using ne keys keys2 by (auto simp: still_to_come_arrivals [of _ "{k1, k2}"] a1 a2 case_prod_unfold filter_empty_conv intro!: filter_True)
  define c2 where "c2 = fold (coordinator_step decode ue ce cfg) es1 c"
  have q: "list_all (quiet c) es1" "list_all (quiet c) es2" using assms(13) by (simp_all add: es)
  have c2: "co_processor c2 = run_state rx_step (co_processor c) (received es1)" "co_working c2"
    "co_parent c2 = co_parent c" "co_lastCleanup c2 = co_lastCleanup c"
    using assms(12) by (simp_all add: c2_def coordinator_run [OF assms(12) q(1)])
  then have qq: "quiet c2 = quiet c" by (auto simp: quiet_def fun_eq_iff split: coordinator_event.split)
  have "filter (\<lambda>e. rx_key e = k2) (received es1) = []" using s(2) by (simp add: still_to_come_def)
  then have slot2: "rx_wf (co_processor c2)" "msg_slot (co_processor c2) k2 = None"
    using rx.run_invar [OF assms(3)] rx.run_state_of_key [OF assms(3), of "received es1" k2] assms(5) by (simp_all add: c2(1))
  let ?r1 = "run_calls decode ue ce cfg es1 c" and ?r2 = "run_calls decode ue ce cfg es2 c2"
  have r: "run_calls decode ue ce cfg es c = ?r1 @ ?r2" by (simp add: es run_calls_append c2_def)
  have f1: "filter (\<lambda>kc. fst kc = k1) ?r1 = [(k1, call1)]"
    unfolding k1_def by (rule message_arrives [OF assms(3,6,7) _ _ assms(12) q(1) assms(10)]) (use s assms(4) in \<open>auto simp: k1_def\<close>)
  have f2: "filter (\<lambda>kc. fst kc = k2) ?r2 = [(k2, call2)]"
    unfolding k2 by (rule message_arrives [OF slot2(1) assms(8,9) _ _ c2(2) _ assms(11)]) (use s slot2 q qq in \<open>auto simp: k2\<close>)
  have n1: "filter (\<lambda>kc. fst kc = k2) ?r1 = []" and n2: "filter (\<lambda>kc. fst kc = k1) ?r2 = []"
    using s by (simp_all add: run_calls_none)
  have "filter (\<lambda>kc. fst kc = k1 \<or> fst kc = k2) ?r1 = [(k1, call1)]" using filter_two [OF n1] f1 by simp
  moreover have "filter (\<lambda>kc. fst kc = k1 \<or> fst kc = k2) ?r2 = [(k2, call2)]" using filter_two [OF n2, of k2] f2 by (simp only: disj_commute)
  moreover obtain pre m1 where "?r1 = pre @ (k1, call1) # m1" using f1 by (auto simp: filter_eq_Cons_iff)
  moreover obtain m2 post where "?r2 = m2 @ (k2, call2) # post" using f2 by (auto simp: filter_eq_Cons_iff)
  ultimately show ?thesis unfolding r by (intro exI [of _ pre] exI [of _ "m1 @ m2"] exI [of _ post]) simp
qed


text \<open>
  Whatever calls arrive, the coordinator's transport queues accepted payloads behind those it had, in
  the order of the calls, none twice and none it was not given.
\<close>

theorem coordinator_queue_order:
  assumes "co_working c" and "list_all (quiet c) es"
  shows "\<exists>xs. transport_pending (co_transport (fold (coordinator_step decode ue ce cfg) es c)) = transport_pending (co_transport c) @ xs
    \<and> subseq xs (List.map_filter (\<lambda>call. case call of Enqueue_call h p \<Rightarrow> Some (h, p) | _ \<Rightarrow> None)
          (map snd (coordinator_calls decode (co_processor c) (received es))))"
  using http.calls_pending [where s = "co_transport c" and calls = "map snd (coordinator_calls decode (co_processor c) (received es))"
      and ue = ue and ce = ce and cfg = cfg]
  by (simp add: coordinator_run [OF assms] http_make_call)

text \<open>
  A full message queue loses messages silently: when \<open>try_send\<close> answers that there is no room,
  \<open>sendPayload\<close> nevertheless reports success for every payload, although nothing of it was sent, and the
  sender does not log the loss.
\<close>

theorem full_queue_reported_as_sent:
  assumes "\<And>q chunk sz. try_send q chunk sz = Inr (q, False)"
  shows "process_sendPayload try_send arr (p, q) bytes = ((p\<lparr>lastMsgId := lastMsgId p + 1\<rparr>, q), True)"
proof -
  have "enqueueMessage try_send q chunk sz = (q, True)" for q chunk sz
    by (simp add: enqueueMessage_def assms)
  then have "send_all (enqueueMessage try_send) q cs = (q, True)" for q cs
    by (induction cs) (simp_all add: split_paired_all)
  then show ?thesis by (simp add: process_sendPayload_def sendPayload_def send_loop_wire)
qed

definition same_command :: "CoordinatorCommand \<Rightarrow> CoordinatorCommand \<Rightarrow> bool" where
  "same_command c d \<longleftrightarrow>
     command_type c = command_type d \<and> send_endpoint_payload c = send_endpoint_payload d \<and>
     rel_option (\<lambda>x y. \<exists>hs. y = x\<lparr>endpoint_headers := hs\<rparr> \<and> um_wf hs \<and> map_of hs = map_of (endpoint_headers x))
       (establish_connection c) (establish_connection d)"

lemma map_of_fold_assign: "map_of (fold (\<lambda>(k, v) m. um_assign k v m) xs m) = map_of m ++ map_of (rev xs)"
  by (induction xs arbitrary: m) (auto simp: umap_simps)

text \<open>
  A connection set up through the coordinator is the one the worker asked for: the dispatcher makes
  the call with the same URL, hash, content type, timeout, delay and TLS options, the retries modulo
  \<open>2 ^ 32\<close>, and the headers as a map, in which the last of equal names counts. Protobuf is assumed to
  read back the command, its header map in any order; times are within 64 bits.
\<close>

lemma connection_reaches_coordinator:
  assumes "decode bytes = Some d" and "same_command (establish_command a) d"
    and "- (2 ^ 63) \<le> a_timeout a" "a_timeout a < 2 ^ 63" "- (2 ^ 63) \<le> a_retryDelay a" "a_retryDelay a < 2 ^ 63"
  shows "\<exists>hs. processRecievedMessage decode bytes
        = Some (Initialize_call (a\<lparr>a_headers := hs, a_maxRetries := a_maxRetries a mod 2 ^ 32\<rparr>))
      \<and> um_wf hs \<and> map_of hs = map_of (rev (a_headers a))"
proof -
  have s: "sint (of_int i :: u64) = i" if "- (2 ^ 63) \<le> i" "i < 2 ^ 63" for i
    using that by (simp add: sint_sbintrunc' signed_take_bit_int_eq_self)
  show ?thesis
    using assms(1,2) s [OF assms(3,4)] s [OF assms(5,6)]
    by (cases a) (auto simp: processRecievedMessage_def same_command_def establish_command_def rel_option_iff map_of_fold_assign
        unat_of_nat take_bit_eq_mod split: option.splits)
qed


subsection \<open>Examples\<close>

definition sample_coordinator :: "(unit, unit) coordinator" where
  "sample_coordinator =
     \<lparr>co_processor = new_processor 1, co_transport = new_transport (), co_working = True, co_parent = 1, co_lastCleanup = 0\<rparr>"


lemma coordinator_queue_order_witness:
  "\<exists>xs. transport_pending (co_transport (fold (coordinator_step (\<lambda>_. None) sample_url_env \<lparr>curl_init = True, tracing = False\<rparr> sample_config)
       [Tick 1 100, Receive sample_chunk 35 5] sample_coordinator)) = xs \<and> subseq xs []"
  using coordinator_queue_order [of sample_coordinator "[Tick 1 100, Receive sample_chunk 35 5]" "\<lambda>_. None" sample_url_env
      "\<lparr>curl_init = True, tracing = False\<rparr>" sample_config]
  by (simp add: sample_coordinator_def quiet_def transport_pending_def new_transport_def received_simps coordinator_calls_simps
      processRecievedMessage_def map_filter_simps split: sum.splits option.splits)

lemma full_queue_reported_as_sent_witness:
  "process_sendPayload (\<lambda>q _ _. Inr (q, False)) [] (new_processor 7, ()) [1, 2] = (((new_processor 7)\<lparr>lastMsgId := 1\<rparr>, ()), True)"
  using full_queue_reported_as_sent [of "\<lambda>q _ _. Inr (q, False)" "[]" "new_processor 7" "()" "[1, 2]"]
  by (simp add: new_processor_def)

definition sample_args :: connection_args where
  "sample_args = \<lparr>a_url = ''http://h/v1'', a_hash = 5, a_contentType = [], a_headers = [(''A'', ''1''), (''A'', ''2'')],
     a_timeout = 100, a_maxRetries = 3, a_retryDelay = 10, a_ssl = no_ssl\<rparr>"

lemma connection_reaches_coordinator_witness:
  "\<exists>hs. processRecievedMessage (\<lambda>_. Some (establish_command sample_args)) [1]
        = Some (Initialize_call (sample_args\<lparr>a_headers := hs, a_maxRetries := 3\<rparr>)) \<and> map_of hs = [''A'' \<mapsto> ''2'']"
proof -
  have "same_command (establish_command sample_args) (establish_command sample_args)"
    by (simp add: same_command_def establish_command_def sample_args_def)
  from connection_reaches_coordinator [where decode = "\<lambda>_. Some (establish_command sample_args)" and bytes = "[1]", OF refl this]
  show ?thesis by (auto simp: sample_args_def)
qed

end
