(* ===== verification/Forkable.thy ===== *)
theory Forkable
  imports Transport
begin

text \<open>
  Components with a thread that must not be running when the process forks (\<open>ForkableInterface.h\<close>):
  the contract of \<open>prefork\<close> and \<open>postfork\<close>, and its first provider, the HTTP transport. \<open>prefork\<close> asks
  the thread to stop and joins it, so what matters is that the thread, once asked, ends after a bounded
  number of its turns whatever it is doing.
\<close>

subsection \<open>The contract\<close>

text \<open>
  \<open>turn\<close> is one turn of the component's thread, \<open>alive\<close> says that the thread has not ended, \<open>stopping\<close>
  that it was asked to. \<open>turns_left\<close> bounds the turns a stopping thread still takes.
\<close>

locale forkable =
  fixes request_stop :: "'s \<Rightarrow> 's"
    and turn :: "'s \<Rightarrow> 's \<Rightarrow> bool"
    and alive :: "'s \<Rightarrow> bool"
    and stopping :: "'s \<Rightarrow> bool"
    and turns_left :: "'s \<Rightarrow> nat"
    and join :: "'s \<Rightarrow> 's option"
    and resume :: "bool \<Rightarrow> 's \<Rightarrow> 's"
    and no_thread :: "'s \<Rightarrow> bool"
  assumes stop_stopping: "stopping (request_stop s)"
    and turn_stopping: "stopping s \<Longrightarrow> turn s s' \<Longrightarrow> stopping s'"
    and turn_decreases: "stopping s \<Longrightarrow> turn s s' \<Longrightarrow> turns_left s' < turns_left s"
    and alive_turn: "stopping s \<Longrightarrow> alive s \<Longrightarrow> \<exists>s'. turn s s'"
    and join_blocks: "alive s \<Longrightarrow> join s = None"
    and join_ended: "\<not> alive s \<Longrightarrow> \<exists>s'. join s = Some s' \<and> no_thread s'"
    and resume_alive: "no_thread s \<Longrightarrow> alive (resume child s) \<and> \<not> stopping (resume child s)"
begin

text \<open>A run of the thread of a given number of turns, and \<open>prefork\<close> as a whole.\<close>

inductive turns :: "nat \<Rightarrow> 's \<Rightarrow> 's \<Rightarrow> bool" where
  turns_0: "turns 0 s s"
| turns_Suc: "turn s s' \<Longrightarrow> turns n s' s'' \<Longrightarrow> turns (Suc n) s s''"

definition prefork :: "'s \<Rightarrow> 's \<Rightarrow> bool" where
  "prefork s s' \<longleftrightarrow> (\<exists>n s1. turns n (request_stop s) s1 \<and> join s1 = Some s')"

lemma turns_bounded: "turns n s s' \<Longrightarrow> stopping s \<Longrightarrow> stopping s' \<and> n + turns_left s' \<le> turns_left s"
proof (induction rule: turns.induct)
  case (turns_Suc s s' n s'')
  then show ?case using turn_stopping turn_decreases by fastforce
qed simp

lemma turns_end: "stopping s \<Longrightarrow> \<exists>n s'. turns n s s' \<and> \<not> alive s'"
proof (induction "turns_left s" arbitrary: s rule: less_induct)
  case less
  show ?case
  proof (cases "alive s")
    case True
    then obtain s' where s': "turn s s'" using alive_turn less.prems by blast
    then obtain n s'' where "turns n s' s''" "\<not> alive s''"
      using less.hyps turn_decreases turn_stopping less.prems by blast
    with s' show ?thesis by (blast intro: turns_Suc)
  qed (blast intro: turns_0)
qed

lemma prefork_terminates: "\<exists>s'. prefork s s' \<and> no_thread s'"
proof -
  obtain n s1 where "turns n (request_stop s) s1" "\<not> alive s1"
    using turns_end stop_stopping by blast
  with join_ended show ?thesis unfolding prefork_def by blast
qed

lemma prefork_no_thread: "prefork s s' \<Longrightarrow> no_thread s'"
  unfolding prefork_def using join_ended join_blocks by (metis option.distinct(1) option.inject)

lemma prefork_bounded: "turns n (request_stop s) s' \<Longrightarrow> n \<le> turns_left (request_stop s)"
  using turns_bounded stop_stopping by fastforce

lemma fork_cycle: "prefork s s' \<Longrightarrow> alive (resume child s')"
  using prefork_no_thread resume_alive by blast

end

subsection \<open>The HTTP transport\<close>

definition transport_turn :: "'w net \<Rightarrow> transport_config \<Rightarrow> ('w, 'cb) transport \<Rightarrow> ('w, 'cb) transport \<Rightarrow> bool" where
  "transport_turn nt cfg s s' \<longleftrightarrow> (\<exists>now ls. sender_step nt cfg now s = Some (ls, s'))"

definition transport_alive :: "('w, 'cb) transport \<Rightarrow> bool" where
  "transport_alive s \<longleftrightarrow> thread s \<noteq> No_thread \<and> thread s \<noteq> Exited"

definition transport_turns_left :: "('w, 'cb) transport \<Rightarrow> nat" where
  "transport_turns_left s =
     (case thread s of
        No_thread \<Rightarrow> 0 | Exited \<Rightarrow> 0 | At_loop_head \<Rightarrow> 1
      | Waiting \<Rightarrow> length (payloadsToSend s) + 3 | Posting _ \<Rightarrow> length (payloadsToSend s) + 3)"

text \<open>The join of \<open>shutdownThread\<close>, followed by \<open>CurlCleanup\<close>.\<close>

definition transport_join :: "('w, 'cb) transport \<Rightarrow> ('w, 'cb) transport option" where
  "transport_join s = map_option CurlCleanup (join_thread s)"

lemma next_payload_stopping:
  assumes "next_payload s = (l, s')" and "working s = w"
  shows "working s' = w \<and> transport_turns_left s' < length (payloadsToSend s) + 3"
  using assms by (auto simp: next_payload_def transport_turns_left_def split: list.splits)

lemma transport_turn_stopping:
  assumes "\<not> working s" and "transport_turn nt cfg s s'"
  shows "\<not> working s' \<and> transport_turns_left s' < transport_turns_left s"
proof -
  obtain now ls where step: "sender_step nt cfg now s = Some (ls, s')"
    using assms(2) by (auto simp: transport_turn_def)
  show ?thesis
  proof (cases "thread s")
    case (Posting it)
    obtain tr w' es' r where item: "send_item nt it (world s) (endpoint_set s) = (tr, w', es', r)"
      by (rule prod_cases4)
    let ?s = "s\<lparr>world := w', endpoint_set := es'\<rparr>"
    obtain l s1 where n: "next_payload ?s = (l, s1)" by (rule prod.exhaust)
    show ?thesis
      using step assms(1) next_payload_stopping [OF n refl]
      by (auto simp: sender_step_def Posting item n Let_def transport_turns_left_def split: if_splits)
  next
    case Waiting
    obtain l s1 where n: "next_payload s = (l, s1)" by (rule prod.exhaust)
    show ?thesis
      using step assms(1) next_payload_stopping [OF n refl]
      by (auto simp: sender_step_def Waiting n Let_def transport_turns_left_def split: if_splits)
  qed (use step assms(1) in \<open>auto simp: sender_step_def transport_turns_left_def\<close>)
qed

interpretation http_fork: forkable request_shutdown "transport_turn nt cfg" "transport_alive :: ('w, 'cb) transport \<Rightarrow> bool" "\<lambda>s. \<not> working s"
  transport_turns_left transport_join postfork "\<lambda>s. thread s = No_thread"
  for nt :: "'w net" and cfg
proof
  fix s s' :: "('w, 'cb) transport" and child
  show "\<not> working (request_shutdown s)" by (simp add: request_shutdown_def)
  show "\<not> working s'" and "transport_turns_left s' < transport_turns_left s" if "\<not> working s" "transport_turn nt cfg s s'"
    using transport_turn_stopping [OF that] by simp_all
  show "\<exists>s'. transport_turn nt cfg s s'" if "\<not> working s" "transport_alive s"
  proof -
    have "sender_step nt cfg 0 s \<noteq> None"
      using that by (cases "thread s") (simp_all add: sender_step_def transport_alive_def Let_def case_prod_unfold)
    then show ?thesis by (auto simp: transport_turn_def)
  qed
  show "transport_join s = None" if "transport_alive s"
    using that by (simp add: transport_alive_def transport_join_def join_thread_def)
  show "\<exists>s'. transport_join s = Some s' \<and> thread s' = No_thread" if "\<not> transport_alive s"
    using that by (simp add: transport_alive_def transport_join_def join_thread_def CurlCleanup_def)
  show "transport_alive (postfork child s) \<and> \<not> \<not> working (postfork child s)" if "thread s = No_thread"
    using that by (simp add: postfork_def startThread_def CurlInit_def transport_alive_def Let_def)
qed

end
