(* ===== verification/PeriodicTasks.thy ===== *)
theory PeriodicTasks
  imports Forkable
begin

text \<open>
  The thread that runs periodic tasks (\<open>PeriodicTaskExecutor.h\<close>) and its client, the sampling of
  inferred spans (\<open>InferredSpans.h\<close>). Tasks are of a type \<open>'t\<close>; a turn of the thread that runs one says
  which and when. Times and intervals are in milliseconds.
\<close>

subsection \<open>The executor\<close>

datatype 't executor_thread = Ex_none | Ex_start | Ex_head | Ex_waiting | Ex_sleeping | Ex_running "'t list" | Ex_ended

record 't executor =
  sleepInterval :: ms
  periodicTasks :: "'t list"
  ex_thread :: "'t executor_thread"
  ex_working :: bool
  resumed :: bool

datatype 't executor_output = Worker_init | Slept_for ms | Ran 't int

definition new_executor :: "'t list \<Rightarrow> 't executor" where
  "new_executor tasks =
     \<lparr>sleepInterval = 20, periodicTasks = tasks, ex_thread = Ex_start, ex_working = True, resumed = False\<rparr>"

definition addTask :: "'t \<Rightarrow> 't executor \<Rightarrow> 't executor" where
  "addTask t s = s\<lparr>periodicTasks := periodicTasks s @ [t]\<rparr>"

definition setInterval :: "ms \<Rightarrow> 't executor \<Rightarrow> 't executor" where
  "setInterval interval s = s\<lparr>sleepInterval := interval\<rparr>"

definition resumePeriodicTasks :: "'t executor \<Rightarrow> 't executor" where
  "resumePeriodicTasks s = s\<lparr>resumed := True\<rparr>"

definition suspendPeriodicTasks :: "'t executor \<Rightarrow> 't executor" where
  "suspendPeriodicTasks s = s\<lparr>resumed := False\<rparr>"

definition executor_shutdown :: "'t executor \<Rightarrow> 't executor" where
  "executor_shutdown s = s\<lparr>ex_working := False\<rparr>"

definition executor_join :: "'t executor \<Rightarrow> 't executor option" where
  "executor_join s =
     (if ex_thread s = Ex_none \<or> ex_thread s = Ex_ended then Some (s\<lparr>ex_thread := Ex_none\<rparr>) else None)"

text \<open>Assigning a thread to \<open>thread_\<close> while one is joinable would terminate the process: \<open>prefork\<close> comes first.\<close>

definition executor_postfork :: "bool \<Rightarrow> 't executor \<Rightarrow> 't executor" where
  "executor_postfork child s = s\<lparr>ex_working := True, ex_thread := Ex_start\<rparr>"

text \<open>
  One turn of \<open>work\<close>; \<open>None\<close> when the thread does not exist or waits to be resumed. The lock is held
  from \<open>Ex_head\<close> to the end of the wait and taken again for the copy of the task list.
\<close>

definition work_step :: "int \<Rightarrow> 't executor \<Rightarrow> ('t executor_output list \<times> 't executor) option" where
  "work_step now s =
     (case ex_thread s of
        Ex_none \<Rightarrow> None
      | Ex_ended \<Rightarrow> None
      | Ex_start \<Rightarrow> Some ([Worker_init], s\<lparr>ex_thread := Ex_head\<rparr>)
      | Ex_head \<Rightarrow> Some ([], s\<lparr>ex_thread := (if ex_working s then Ex_waiting else Ex_ended)\<rparr>)
      | Ex_waiting \<Rightarrow>
          (if \<not> resumed s \<and> ex_working s then None
           else Some ([], s\<lparr>ex_thread := (if ex_working s then Ex_sleeping else Ex_ended)\<rparr>))
      | Ex_sleeping \<Rightarrow> Some ([Slept_for (sleepInterval s)], s\<lparr>ex_thread := Ex_running (periodicTasks s)\<rparr>)
      | Ex_running ts \<Rightarrow>
          (case ts of
             [] \<Rightarrow> Some ([], s\<lparr>ex_thread := Ex_head\<rparr>)
           | t # ts' \<Rightarrow> Some ([Ran t now], s\<lparr>ex_thread := Ex_running ts'\<rparr>)))"

definition executor_turn :: "'t executor \<Rightarrow> 't executor \<Rightarrow> bool" where
  "executor_turn s s' \<longleftrightarrow> (\<exists>now out. work_step now s = Some (out, s'))"

definition executor_alive :: "'t executor \<Rightarrow> bool" where
  "executor_alive s \<longleftrightarrow> ex_thread s \<noteq> Ex_none \<and> ex_thread s \<noteq> Ex_ended"

definition executor_turns_left :: "'t executor \<Rightarrow> nat" where
  "executor_turns_left s =
     (case ex_thread s of
        Ex_none \<Rightarrow> 0 | Ex_ended \<Rightarrow> 0 | Ex_head \<Rightarrow> 1 | Ex_waiting \<Rightarrow> 1 | Ex_start \<Rightarrow> 2
      | Ex_running ts \<Rightarrow> length ts + 2 | Ex_sleeping \<Rightarrow> length (periodicTasks s) + 3)"

lemma executor_turn_stopping:
  assumes "\<not> ex_working s" and "executor_turn s s'"
  shows "\<not> ex_working s' \<and> executor_turns_left s' < executor_turns_left s"
proof -
  obtain now out where "work_step now s = Some (out, s')"
    using assms(2) by (auto simp: executor_turn_def)
  then show ?thesis
    using assms(1) by (cases "ex_thread s") (auto simp: work_step_def executor_turns_left_def split: list.splits)
qed

interpretation exec_fork: forkable executor_shutdown executor_turn executor_alive "\<lambda>s. \<not> ex_working s"
  executor_turns_left executor_join executor_postfork "\<lambda>s. ex_thread s = Ex_none"
proof
  fix s s' :: "'t executor" and child
  show "\<not> ex_working (executor_shutdown s)" by (simp add: executor_shutdown_def)
  show "\<not> ex_working s'" and "executor_turns_left s' < executor_turns_left s" if "\<not> ex_working s" "executor_turn s s'"
    using executor_turn_stopping [OF that] by simp_all
  show "\<exists>s'. executor_turn s s'" if "\<not> ex_working s" "executor_alive s"
  proof -
    have "work_step 0 s \<noteq> None"
      using that by (cases "ex_thread s") (simp_all add: work_step_def executor_alive_def split: list.split)
    then show ?thesis by (auto simp: executor_turn_def)
  qed
  show "executor_join s = None" if "executor_alive s"
    using that by (simp add: executor_alive_def executor_join_def)
  show "\<exists>s'. executor_join s = Some s' \<and> ex_thread s' = Ex_none" if "\<not> executor_alive s"
    using that by (simp add: executor_alive_def executor_join_def)
  show "executor_alive (executor_postfork child s) \<and> \<not> \<not> ex_working (executor_postfork child s)" if "ex_thread s = Ex_none"
    by (simp add: executor_postfork_def executor_alive_def)
qed

subsection \<open>Inferred spans\<close>

record inferred =
  interruptedRequested :: bool
  samplingInterval :: ms
  lastInterruptRequestTick :: int
  phpSideBacktracePending :: bool

definition new_inferred :: "int \<Rightarrow> inferred" where
  "new_inferred now =
     \<lparr>interruptedRequested = False, samplingInterval = 20, lastInterruptRequestTick = now, phpSideBacktracePending = False\<rparr>"

definition spans_setInterval :: "ms \<Rightarrow> inferred \<Rightarrow> inferred" where
  "spans_setInterval interval s = s\<lparr>samplingInterval := interval\<rparr>"

definition spans_reset :: "int \<Rightarrow> inferred \<Rightarrow> inferred" where
  "spans_reset now s = s\<lparr>lastInterruptRequestTick := now\<rparr>"

text \<open>\<open>tryRequestInterrupt\<close>, run by the executor's thread: whether it sets the interrupt flag of the engine.\<close>

definition tryRequestInterrupt :: "int \<Rightarrow> inferred \<Rightarrow> inferred \<times> bool" where
  "tryRequestInterrupt now s =
     (if interruptedRequested s then (s, False)
      else if now > lastInterruptRequestTick s + samplingInterval s
      then (s\<lparr>lastInterruptRequestTick := now, interruptedRequested := True\<rparr>, True)
      else (s, False))"

text \<open>
  \<open>attachBacktraceIfInterrupted\<close>, run by the request's thread at an interrupt. It begins by taking the
  request, and ends when the PHP side has made its backtrace; in between the function may be entered
  again from the PHP code it runs.
\<close>

definition attach_begin :: "inferred \<Rightarrow> inferred \<times> int option" where
  "attach_begin s =
     (if phpSideBacktracePending s then (s, None)
      else if interruptedRequested s
      then (s\<lparr>interruptedRequested := False, phpSideBacktracePending := True\<rparr>, Some (lastInterruptRequestTick s))
      else (s, None))"

definition attach_end :: "inferred \<Rightarrow> inferred" where
  "attach_end s = s\<lparr>phpSideBacktracePending := False\<rparr>"

datatype spans_event = Try int | Attach_begin | Attach_end | Set_interval ms | Reset int

text \<open>What a run shows: interrupts requested and backtraces begun, each with its time.\<close>

datatype spans_output = Interrupt int | Backtrace int

definition spans_step :: "inferred \<Rightarrow> spans_event \<Rightarrow> inferred \<times> spans_output list" where
  "spans_step s e =
     (case e of
        Try now \<Rightarrow> (let (s', b) = tryRequestInterrupt now s in (s', if b then [Interrupt now] else []))
      | Attach_begin \<Rightarrow> (let (s', r) = attach_begin s in (s', case r of None \<Rightarrow> [] | Some t \<Rightarrow> [Backtrace t]))
      | Attach_end \<Rightarrow> (attach_end s, [])
      | Set_interval i \<Rightarrow> (spans_setInterval i s, [])
      | Reset now \<Rightarrow> (spans_reset now s, []))"

definition spans_trace :: "inferred \<Rightarrow> spans_event list \<Rightarrow> spans_output list" where
  "spans_trace s es = concat (map snd (run_outputs spans_step s es))"

text \<open>
  The specification: interrupts and backtraces alternate, and while nobody resets the clock a backtrace
  carries the time of its interrupt and the next interrupt comes more than an interval later.
\<close>

fun alternates :: "ms \<Rightarrow> int \<Rightarrow> bool \<Rightarrow> spans_output list \<Rightarrow> bool" where
  "alternates i tick requested [] = True"
| "alternates i tick requested (Interrupt t # os) \<longleftrightarrow> \<not> requested \<and> t > tick + i \<and> alternates i t True os"
| "alternates i tick requested (Backtrace t # os) \<longleftrightarrow> requested \<and> t = tick \<and> alternates i tick False os"

fun shape :: "bool \<Rightarrow> spans_output list \<Rightarrow> bool" where
  "shape requested [] = True"
| "shape requested (Interrupt _ # os) \<longleftrightarrow> \<not> requested \<and> shape True os"
| "shape requested (Backtrace _ # os) \<longleftrightarrow> requested \<and> shape False os"

lemma spans_trace_simps:
  "spans_trace s [] = []"
  "spans_trace s (e # es) = snd (spans_step s e) @ spans_trace (fst (spans_step s e)) es"
  by (simp_all add: spans_trace_def)

text \<open>
  The engine is interrupted at most once per backtrace: in any run of the two threads, interrupts and
  backtraces alternate, starting with an interrupt. While the sampling interval is not changed and the
  clock not reset, every backtrace carries the time of the interrupt that asked for it and each interrupt
  comes more than one sampling interval after the one before.
\<close>

theorem interrupts_alternate:
  "shape (interruptedRequested s) (spans_trace s es) \<and>
   (list_all (\<lambda>e. case e of Set_interval _ \<Rightarrow> False | Reset _ \<Rightarrow> False | _ \<Rightarrow> True) es \<longrightarrow>
      alternates (samplingInterval s) (lastInterruptRequestTick s) (interruptedRequested s) (spans_trace s es))"
proof (induction es arbitrary: s)
  case (Cons e es)
  show ?case
    using Cons.IH [of "fst (spans_step s e)"]
    by (cases e; cases "interruptedRequested s") (simp_all add: spans_trace_simps spans_step_def tryRequestInterrupt_def
        attach_begin_def attach_end_def spans_setInterval_def spans_reset_def split: if_splits)
qed (simp add: spans_trace_simps)

lemma interrupts_alternate_witness:
  "spans_trace (new_inferred 0) [Try 10, Try 21, Try 50, Attach_begin, Try 60, Attach_begin, Attach_end, Attach_begin]
     = [Interrupt 21, Backtrace 21, Interrupt 60, Backtrace 60]
   \<and> alternates 20 0 False [Interrupt 21, Backtrace 21, Interrupt 60, Backtrace 60]"
proof
  let ?es = "[Try 10, Try 21, Try 50, Attach_begin, Try 60, Attach_begin, Attach_end, Attach_begin]"
  show t: "spans_trace (new_inferred 0) ?es = [Interrupt 21, Backtrace 21, Interrupt 60, Backtrace 60]"
    by (simp add: spans_trace_simps spans_step_def tryRequestInterrupt_def attach_begin_def attach_end_def new_inferred_def)
  show "alternates 20 0 False [Interrupt 21, Backtrace 21, Interrupt 60, Backtrace 60]"
    using interrupts_alternate [of "new_inferred 0" ?es] t by (simp add: new_inferred_def)
qed

end
