(* ===== verification/OpAmp.thy ===== *)
theory OpAmp
  imports Config Coordinator Forkable
begin

text \<open>
  Resource attributes of the process (\<open>ResourceDetector\<close>) and the OpAMP client (\<open>OpAmp.h\<close>,
  \<open>OpAmp.cpp\<close>) by which the coordinator process gets its configuration from a server.

  Parameters: \<open>getenv\<close> and \<open>phpUname\<close>; the serialization of \<open>AgentToServer\<close> and the parser of
  \<open>ServerToAgent\<close> (protobuf messages of the OpAMP specification, of which the fields the code touches
  are kept); the text of a UUID and \<open>std::hash\<close>. An operation answers the calls it makes on the
  transport and on the watchers of the configuration as a list of effects.
\<close>

subsection \<open>Resource attributes\<close>

text \<open>\<open>std::map::merge\<close>: entries whose key is there already are left out.\<close>

definition map_merge :: "(string \<times> 'v) list \<Rightarrow> (string \<times> 'v) list \<Rightarrow> (string \<times> 'v) list" where
  "map_merge m m2 = fold (\<lambda>(k, v) m. map_insert k v m) m2 m"

definition getFromEnvironment :: "(string \<Rightarrow> string option) \<Rightarrow> (string \<times> string) list \<Rightarrow> (string \<times> string) list" where
  "getFromEnvironment getenv m =
     (let m1 = (case getenv ''OTEL_RESOURCE_ATTRIBUTES'' of
                  None \<Rightarrow> m
                | Some t \<Rightarrow> map_merge m (parseUrlEncodedKeyValueString (c_str t)))
      in case getenv ''OTEL_SERVICE_NAME'' of
           None \<Rightarrow> m1
         | Some t \<Rightarrow> if c_str t \<noteq> [] then map_assign ''service.name'' (c_str t) m1 else m1)"

definition assign_if_set :: "string \<Rightarrow> string \<Rightarrow> (string \<times> string) list \<Rightarrow> (string \<times> string) list" where
  "assign_if_set k v m = (if v = [] then m else map_assign k v m)"

text \<open>The build is for Linux.\<close>

definition getHostAndOsAttributes :: "(char \<Rightarrow> string) \<Rightarrow> (string \<times> string) list \<Rightarrow> (string \<times> string) list" where
  "getHostAndOsAttributes phpUname m =
     assign_if_set ''host.arch'' (phpUname CHR ''m'')
    (assign_if_set ''host.name'' (phpUname CHR ''n'')
    (assign_if_set ''os.version'' (phpUname CHR ''v'')
    (assign_if_set ''os.description'' (phpUname CHR ''r'')
    (assign_if_set ''os.name'' (phpUname CHR ''s'')
    (map_assign ''os.type'' ''linux'' m)))))"

definition new_ResourceDetector :: "(string \<Rightarrow> string option) \<Rightarrow> (char \<Rightarrow> string) \<Rightarrow> (string \<times> string) list" where
  "new_ResourceDetector getenv phpUname = getHostAndOsAttributes phpUname (getFromEnvironment getenv [])"

definition resource_get :: "(string \<times> string) list \<Rightarrow> string \<Rightarrow> string" where
  "resource_get m k = (case map_of m k of Some v \<Rightarrow> v | None \<Rightarrow> [])"

subsection \<open>Messages\<close>

datatype error_type = Unavailable | Other_error

record ServerErrorResponse =
  er_type :: error_type
  er_retry_after_ns :: "u64 option"

record AgentRemoteConfig =
  rc_hash :: string
  rc_config :: "(string, string) umap option"

record ServerToAgent =
  sa_new_instance_uid :: "byte list option"
  sa_heartbeat_interval_seconds :: "u64 option option"
  sa_remote_config :: "AgentRemoteConfig option"
  sa_error_response :: "ServerErrorResponse option"

datatype capability =
  AcceptsRemoteConfig | ReportsStatus | ReportsHeartbeat | AcceptsOpAMPConnectionSettings | ReportsRemoteConfig

record AgentToServer =
  as_instance_uid :: "byte list"
  as_identifying_attributes :: "(string \<times> string) list"
  as_capabilities :: "capability list"
  as_applied_config_hash :: "string option"

subsection \<open>The client\<close>

datatype heartbeat_thread = Hb_none | Hb_start | Hb_head | Hb_waiting | Hb_sending | Hb_ended

record opamp =
  hb_thread :: heartbeat_thread
  hb_working :: bool
  op_endpointHash :: u64
  agentUid :: "byte list"
  heartbeatInterval :: int
  currentConfigHash :: string
  op_configFiles :: "(string, string) umap"

datatype opamp_callback = Initial_reply | Heartbeat_reply

datatype opamp_effect =
    Connect connection_args
  | Enqueue u64 "byte list" opamp_callback
  | Update_retry u64 ms
  | Config_updated "(string, string) umap"

definition new_OpAmp :: "byte list \<Rightarrow> opamp" where
  "new_OpAmp uid =
     \<lparr>hb_thread = Hb_none, hb_working = True, op_endpointHash = 0, agentUid = uid, heartbeatInterval = 30,
      currentConfigHash = [], op_configFiles = []\<rparr>"

definition hb_startThread :: "opamp \<Rightarrow> opamp" where
  "hb_startThread s = (if hb_thread s = Hb_none then s\<lparr>hb_thread := Hb_start\<rparr> else s)"

text \<open>The URL the client posts to: the path of the protocol is added where the endpoint has none.\<close>

definition complete_endpoint :: "string \<Rightarrow> string" where
  "complete_endpoint endpointUrl =
     (case parseUrl endpointUrl of
        Some url \<Rightarrow>
          (case query url of
             None \<Rightarrow> endpointUrl @ ''/v1/opamp''
           | Some q \<Rightarrow> if q = ''/'' \<or> q = [] then endpointUrl @ ''v1/opamp'' else endpointUrl)
      | None \<Rightarrow>
          if drop (length endpointUrl - length ''/v1/opamp'') endpointUrl = ''/v1/opamp'' then endpointUrl
          else endpointUrl @ ''/v1/opamp'')"

text \<open>\<open>sendInitialAgentToServer\<close>; the exception of a failed serialization is caught by its caller.\<close>

definition initial_attributes :: "(byte list \<Rightarrow> string) \<Rightarrow> (string \<times> string) list \<Rightarrow> byte list \<Rightarrow> (string \<times> string) list" where
  "initial_attributes uuid_text resource uid =
     (let env = resource_get resource ''deployment.environment''
      in if env \<noteq> [] then [(''deployment.environment.name'', env)] else [])
     @ filter (\<lambda>(k, v). v \<noteq> []) resource
     @ (if resource_get resource ''service.instance.id'' = [] then [(''service.instance.id'', uuid_text uid)] else [])"

definition sendInitialAgentToServer ::
  "(AgentToServer \<Rightarrow> byte list option) \<Rightarrow> (byte list \<Rightarrow> string) \<Rightarrow> (string \<times> string) list \<Rightarrow> opamp \<Rightarrow> opamp_effect list result" where
  "sendInitialAgentToServer encode uuid_text resource s =
     (case encode \<lparr>as_instance_uid = agentUid s, as_identifying_attributes = initial_attributes uuid_text resource (agentUid s),
                   as_capabilities = [AcceptsRemoteConfig, ReportsStatus, ReportsHeartbeat, AcceptsOpAMPConnectionSettings,
                     ReportsRemoteConfig],
                   as_applied_config_hash = None\<rparr> of
        None \<Rightarrow> Inl (Runtime_error ''Failed to serialize AgentToServer initial message'')
      | Some bytes \<Rightarrow> Inr [Enqueue (op_endpointHash s) bytes Initial_reply])"

definition sendHeartbeat :: "(AgentToServer \<Rightarrow> byte list option) \<Rightarrow> opamp \<Rightarrow> opamp_effect list result" where
  "sendHeartbeat encode s =
     (case encode \<lparr>as_instance_uid = agentUid s, as_identifying_attributes = [], as_capabilities = [],
                   as_applied_config_hash = (if currentConfigHash s \<noteq> [] then Some (currentConfigHash s) else None)\<rparr> of
        None \<Rightarrow> Inl (Runtime_error ''Failed to serialize AgentToServer heartbeat message'')
      | Some bytes \<Rightarrow> Inr [Enqueue (op_endpointHash s) bytes Heartbeat_reply])"

definition startCommunication ::
  "(AgentToServer \<Rightarrow> byte list option) \<Rightarrow> (byte list \<Rightarrow> string) \<Rightarrow> (string \<times> string) list \<Rightarrow> (string \<Rightarrow> u64)
     \<Rightarrow> ConfigurationSnapshot \<Rightarrow> opamp \<Rightarrow> opamp \<times> opamp_effect list" where
  "startCommunication encode uuid_text resource hash cfg s =
     (if cfg_string ''opamp_endpoint'' cfg = [] then (s, [])
      else
        (let headers = parseUrlEncodedKeyValueString (cfg_string ''opamp_headers'' cfg);
             url = complete_endpoint (cfg_string ''opamp_endpoint'' cfg);
             s1 = s\<lparr>op_endpointHash := hash url,
                    heartbeatInterval := cfg_duration ''opamp_heartbeat_interval'' cfg div 1000\<rparr>;
             ssl = \<lparr>insecureSkipVerify = cfg_bool ''opamp_insecure'' cfg, caInfo = cfg_string ''opamp_certificate'' cfg,
                    cert = cfg_string ''opamp_client_certificate'' cfg, certKey = cfg_string ''opamp_client_key'' cfg,
                    certKeyPassword = cfg_string ''opamp_client_keypass'' cfg\<rparr>;
             conn = Connect \<lparr>a_url = url, a_hash = op_endpointHash s1, a_contentType = ''application/x-protobuf'',
                    a_headers = headers, a_timeout = cfg_duration ''opamp_send_timeout'' cfg,
                    a_maxRetries = unat (cfg_bytes ''opamp_send_max_retries'' cfg),
                    a_retryDelay = cfg_duration ''opamp_send_retry_delay'' cfg, a_ssl = ssl\<rparr>;
             s2 = hb_startThread s1
         in (s2, conn # (case sendInitialAgentToServer encode uuid_text resource s2 of Inl _ \<Rightarrow> [] | Inr effs \<Rightarrow> effs))))"

text \<open>The identifier of the server, cut or padded with zeros to 16 bytes.\<close>

definition uid_bytes :: "byte list \<Rightarrow> byte list" where
  "uid_bytes agentId = take 16 agentId @ replicate (16 - length agentId) 0"

text \<open>\<open>duration_cast\<close> from nanoseconds to milliseconds truncates toward zero.\<close>

definition ns_to_ms :: "u64 \<Rightarrow> ms" where
  "ns_to_ms ns = (let n = sint ns in if n < 0 then - ((- n) div 1000000) else n div 1000000)"

definition apply_remote_config :: "AgentRemoteConfig \<Rightarrow> opamp \<Rightarrow> opamp \<times> opamp_effect list" where
  "apply_remote_config rc s =
     (case rc_config rc of
        None \<Rightarrow> (s, [])
      | Some config_map \<Rightarrow>
          if currentConfigHash s \<noteq> rc_hash rc then
            (let files = fold (\<lambda>(name, content) m. um_assign name content m) config_map []
             in (s\<lparr>op_configFiles := files, currentConfigHash := rc_hash rc\<rparr>, [Config_updated files]))
          else (s, []))"

definition handle_message :: "ServerToAgent \<Rightarrow> opamp \<Rightarrow> opamp \<times> opamp_effect list" where
  "handle_message msg s =
     (let s1 = (case sa_new_instance_uid msg of None \<Rightarrow> s | Some agentId \<Rightarrow> s\<lparr>agentUid := uid_bytes agentId\<rparr>);
          s2 = (case sa_heartbeat_interval_seconds msg of
                  Some (Some secs) \<Rightarrow> s1\<lparr>heartbeatInterval := sint secs\<rparr>
                | _ \<Rightarrow> s1);
          (s3, effs) = (case sa_remote_config msg of None \<Rightarrow> (s2, []) | Some rc \<Rightarrow> apply_remote_config rc s2)
      in (s3, effs @
            (case sa_error_response msg of
               Some er \<Rightarrow>
                 (case er_retry_after_ns er of
                    Some ns \<Rightarrow> if er_type er = Unavailable then [Update_retry (op_endpointHash s3) (ns_to_ms ns)] else []
                  | None \<Rightarrow> [])
             | None \<Rightarrow> [])))"

definition handleServerToAgent :: "(string \<Rightarrow> ServerToAgent option) \<Rightarrow> string \<Rightarrow> opamp \<Rightarrow> opamp \<times> opamp_effect list" where
  "handleServerToAgent decode response s =
     (case decode response of None \<Rightarrow> (s, []) | Some msg \<Rightarrow> handle_message msg s)"

subsection \<open>The heartbeat thread\<close>

text \<open>
  One turn of \<open>opAmpHeartbeatTask\<close>. \<open>waited\<close> is how long the thread has been waiting, in milliseconds;
  \<open>None\<close> when it does not exist or goes on waiting. \<open>forceFlushOnDestruction_\<close> is never set.
\<close>

definition hb_step :: "(AgentToServer \<Rightarrow> byte list option) \<Rightarrow> int \<Rightarrow> opamp \<Rightarrow> (opamp_effect list \<times> opamp) option" where
  "hb_step encode waited s =
     (case hb_thread s of
        Hb_none \<Rightarrow> None
      | Hb_ended \<Rightarrow> None
      | Hb_start \<Rightarrow> Some ([], s\<lparr>hb_thread := Hb_head\<rparr>)
      | Hb_head \<Rightarrow> Some ([], s\<lparr>hb_thread := (if hb_working s then Hb_waiting else Hb_ended)\<rparr>)
      | Hb_waiting \<Rightarrow>
          (if hb_working s \<and> waited < 1000 * heartbeatInterval s then None
           else Some ([], s\<lparr>hb_thread := (if hb_working s then Hb_sending else Hb_ended)\<rparr>))
      | Hb_sending \<Rightarrow>
          Some ((case sendHeartbeat encode s of Inl _ \<Rightarrow> [] | Inr effs \<Rightarrow> effs), s\<lparr>hb_thread := Hb_head\<rparr>))"

definition hb_stop :: "opamp \<Rightarrow> opamp" where
  "hb_stop s = s\<lparr>hb_working := False\<rparr>"

definition hb_join :: "opamp \<Rightarrow> opamp option" where
  "hb_join s = (if hb_thread s = Hb_none \<or> hb_thread s = Hb_ended then Some (s\<lparr>hb_thread := Hb_none\<rparr>) else None)"

definition opamp_postfork :: "bool \<Rightarrow> opamp \<Rightarrow> opamp" where
  "opamp_postfork child s = hb_startThread (s\<lparr>hb_working := True\<rparr>)"

definition hb_turn :: "(AgentToServer \<Rightarrow> byte list option) \<Rightarrow> opamp \<Rightarrow> opamp \<Rightarrow> bool" where
  "hb_turn encode s s' \<longleftrightarrow> (\<exists>waited effs. hb_step encode waited s = Some (effs, s'))"

definition hb_alive :: "opamp \<Rightarrow> bool" where
  "hb_alive s \<longleftrightarrow> hb_thread s \<noteq> Hb_none \<and> hb_thread s \<noteq> Hb_ended"

definition hb_turns_left :: "opamp \<Rightarrow> nat" where
  "hb_turns_left s =
     (case hb_thread s of Hb_none \<Rightarrow> 0 | Hb_ended \<Rightarrow> 0 | Hb_head \<Rightarrow> 1 | Hb_waiting \<Rightarrow> 1 | Hb_start \<Rightarrow> 2 | Hb_sending \<Rightarrow> 2)"

interpretation opamp_fork: forkable hb_stop "hb_turn encode" hb_alive "\<lambda>s. \<not> hb_working s"
  hb_turns_left hb_join opamp_postfork "\<lambda>s. hb_thread s = Hb_none"
  for encode
proof
  fix s s' child
  show "\<not> hb_working (hb_stop s)" by (simp add: hb_stop_def)
  show "\<not> hb_working s'" and "hb_turns_left s' < hb_turns_left s" if "\<not> hb_working s" "hb_turn encode s s'"
    using that by (cases "hb_thread s"; auto simp: hb_turn_def hb_step_def hb_turns_left_def)+
  show "\<exists>s'. hb_turn encode s s'" if "\<not> hb_working s" "hb_alive s"
  proof -
    have "hb_step encode 0 s \<noteq> None"
      using that by (cases "hb_thread s") (simp_all add: hb_step_def hb_alive_def)
    then show ?thesis by (auto simp: hb_turn_def)
  qed
  show "hb_join s = None" if "hb_alive s" using that by (simp add: hb_alive_def hb_join_def)
  show "\<exists>s'. hb_join s = Some s' \<and> hb_thread s' = Hb_none" if "\<not> hb_alive s"
    using that by (simp add: hb_alive_def hb_join_def)
  show "hb_alive (opamp_postfork child s) \<and> \<not> \<not> hb_working (opamp_postfork child s)" if "hb_thread s = Hb_none"
    using that by (simp add: opamp_postfork_def hb_startThread_def hb_alive_def)
qed

subsection \<open>The server's configuration\<close>

text \<open>
  The specification of the remote configuration: the configurations the server sends, and those of them
  that differ in hash from the one before.
\<close>

definition sent_configs :: "(string \<Rightarrow> ServerToAgent option) \<Rightarrow> string list \<Rightarrow> (string \<times> (string, string) umap) list" where
  "sent_configs decode responses =
     List.map_filter (\<lambda>r. Option.bind (decode r) (\<lambda>msg. Option.bind (sa_remote_config msg) (\<lambda>rc.
        map_option (\<lambda>m. (rc_hash rc, fold (\<lambda>(name, content) m. um_assign name content m) m [])) (rc_config rc)))) responses"

fun changes :: "string \<Rightarrow> (string \<times> 'a) list \<Rightarrow> (string \<times> 'a) list" where
  "changes h [] = []"
| "changes h ((h', x) # cs) = (if h' = h then changes h cs else (h', x) # changes h' cs)"

definition updates_of :: "opamp_effect list \<Rightarrow> (string, string) umap list" where
  "updates_of effs = List.map_filter (\<lambda>e. case e of Config_updated fs \<Rightarrow> Some fs | _ \<Rightarrow> None) effs"

lemma updates_of_simps:
  "updates_of [] = []" "updates_of (a @ b) = updates_of a @ updates_of b"
  "updates_of (Config_updated fs # effs) = fs # updates_of effs"
  "updates_of (Update_retry h d # effs) = updates_of effs"
  "updates_of (Enqueue h msg cb # effs) = updates_of effs"
  by (simp_all add: updates_of_def map_filter_simps map_filter_def)

lemma handle_message_config:
  "handle_message msg s = (s', effs) \<Longrightarrow>
     (case Option.bind (sa_remote_config msg) (\<lambda>rc. map_option (\<lambda>m. (rc_hash rc, fold (\<lambda>(name, content) m. um_assign name content m) m [])) (rc_config rc)) of
        None \<Rightarrow> updates_of effs = [] \<and> currentConfigHash s' = currentConfigHash s \<and> op_configFiles s' = op_configFiles s
      | Some (h, fs) \<Rightarrow>
          if h = currentConfigHash s
          then updates_of effs = [] \<and> currentConfigHash s' = currentConfigHash s \<and> op_configFiles s' = op_configFiles s
          else updates_of effs = [fs] \<and> currentConfigHash s' = h \<and> op_configFiles s' = fs)"
  by (auto simp: handle_message_def apply_remote_config_def Let_def updates_of_simps split: option.splits if_splits)

text \<open>
  C19. The client mirrors the configuration of its server: over any sequence of responses the watchers are
  given, in order and once each, exactly the configurations whose hash differs from that of the one
  before, and afterwards the client holds the files and the hash of the last of them. Responses that
  do not parse, carry no configuration or repeat the hash change nothing.
\<close>

theorem remote_config_mirrored:
  "let outs = run_outputs (\<lambda>s r. handleServerToAgent decode r s) s responses;
       s' = run_state (\<lambda>s r. handleServerToAgent decode r s) s responses;
       cs = changes (currentConfigHash s) (sent_configs decode responses)
   in updates_of (concat (map snd outs)) = map snd cs \<and>
      (currentConfigHash s', op_configFiles s') = last ((currentConfigHash s, op_configFiles s) # cs)"
proof (induction responses arbitrary: s)
  case (Cons r rs)
  obtain s1 effs where h: "handleServerToAgent decode r s = (s1, effs)" by (rule prod.exhaust)
  note IH = Cons.IH [of s1]
  show ?case
  proof (cases "decode r")
    case None
    with h IH show ?thesis
      by (simp add: handleServerToAgent_def sent_configs_def map_filter_simps updates_of_simps Let_def)
  next
    case (Some msg)
    with h have "handle_message msg s = (s1, effs)" by (simp add: handleServerToAgent_def)
    from handle_message_config [OF this] show ?thesis
      using h IH Some
      by (auto simp: sent_configs_def map_filter_simps updates_of_simps Let_def split: option.splits if_splits)
  qed
qed (simp add: sent_configs_def map_filter_simps updates_of_simps)

text \<open>
  The endpoint is completed with the path of the protocol: a well-formed URL without a path, or with
  an empty one, gets \<open>v1/opamp\<close>, one with a path of its own is used as it is, and the result is again
  a well-formed URL of the same server.
\<close>

theorem complete_endpoint_url:
  assumes "url_ok u"
  shows "parseUrl (complete_endpoint (show_url u)) = Some (u\<lparr>query :=
     Some (case query u of
             None \<Rightarrow> ''v1/opamp''
           | Some q \<Rightarrow> if q = [] then ''v1/opamp'' else if q = ''/'' then ''/v1/opamp'' else q)\<rparr>)"
proof -
  have dots: "list_all is_dot_char ''v1/opamp''" "list_all is_dot_char ''/v1/opamp''" by code_simp+
  have p: "parseUrl (show_url u) = Some u" using assms by (simp add: parseUrl_shows)
  show ?thesis
    unfolding complete_endpoint_def p
    using assms dots by (auto simp: parseUrl_shows url_ok_def show_url_def split: option.splits)
qed

text \<open>\<open>n\<close> rounds of the loop from its head, with the time waited in each; \<open>None\<close> if it would wait longer.\<close>

fun hb_rounds :: "(AgentToServer \<Rightarrow> byte list option) \<Rightarrow> int list \<Rightarrow> opamp \<Rightarrow> (opamp_effect list \<times> opamp) option" where
  "hb_rounds encode [] s = Some ([], s)"
| "hb_rounds encode (w # ws) s =
     Option.bind (hb_step encode w s) (\<lambda>(e1, s1).
     Option.bind (hb_step encode w s1) (\<lambda>(e2, s2).
     Option.bind (hb_step encode w s2) (\<lambda>(e3, s3).
     Option.bind (hb_rounds encode ws s3) (\<lambda>(e4, s4). Some (e1 @ e2 @ e3 @ e4, s4)))))"

lemma sendHeartbeat_thread: "sendHeartbeat encode (s\<lparr>hb_thread := t\<rparr>) = sendHeartbeat encode s"
  by (cases s) (simp add: sendHeartbeat_def split: option.split)

lemma hb_rounds_busy:
  assumes "heartbeatInterval s \<le> 0" and "hb_working s" and "sendHeartbeat encode s = Inr effs"
  shows "hb_rounds encode (replicate n 0) (s\<lparr>hb_thread := Hb_head\<rparr>)
    = Some (concat (replicate n effs), s\<lparr>hb_thread := Hb_head\<rparr>)"
  using assms by (induction n) (simp_all add: hb_step_def sendHeartbeat_thread)

text \<open>
  A heartbeat interval below one second is rounded down to none: after \<open>startCommunication\<close> with such an
  interval the thread sends heartbeat after heartbeat without ever waiting.
\<close>

theorem short_interval_busy_loop:
  assumes "cfg_string ''opamp_endpoint'' cfg \<noteq> []" and "0 \<le> cfg_duration ''opamp_heartbeat_interval'' cfg"
    and "cfg_duration ''opamp_heartbeat_interval'' cfg < 1000"
    and "encode \<lparr>as_instance_uid = uid, as_identifying_attributes = [], as_capabilities = [], as_applied_config_hash = None\<rparr> = Some bytes"
    and "startCommunication encode uuid_text resource hash cfg (new_OpAmp uid) = (s, effs)"
  shows "hb_rounds encode (replicate n 0) (s\<lparr>hb_thread := Hb_head\<rparr>)
    = Some (replicate n (Enqueue (op_endpointHash s) bytes Heartbeat_reply), s\<lparr>hb_thread := Hb_head\<rparr>)"
proof -
  have s: "heartbeatInterval s = 0" "hb_working s" "agentUid s = uid" "currentConfigHash s = []"
    using assms(1,2,3,5) by (auto simp: startCommunication_def Let_def hb_startThread_def new_OpAmp_def)
  then have "sendHeartbeat encode s = Inr [Enqueue (op_endpointHash s) bytes Heartbeat_reply]"
    using assms(4) by (simp add: sendHeartbeat_def)
  from hb_rounds_busy [OF _ _ this, of n] s show ?thesis
    by (simp add: concat_replicate_single)
qed


subsection \<open>Concrete inputs\<close>

definition hasty_config :: ConfigurationSnapshot where
  "hasty_config = (let d = new_ConfigurationSnapshot in d\<lparr>options :=
     (''opamp_endpoint'', CString ''http://h'') # (''opamp_heartbeat_interval'', CDuration 500) # options d\<rparr>)"

lemma complete_endpoint_url_witness:
  "parseUrl (complete_endpoint ''http://h:4320/'') =
     Some \<lparr>protocol = ''http'', host = ''h'', port = Some ''4320'', query = Some ''v1/opamp''\<rparr>"
proof -
  have "url_ok \<lparr>protocol = ''http'', host = ''h'', port = Some ''4320'', query = Some []\<rparr>" by code_simp
  from complete_endpoint_url [OF this] show ?thesis by (simp add: show_url_def)
qed

lemma short_interval_busy_loop_witness:
  "\<exists>s effs. startCommunication (\<lambda>_. Some [1]) (\<lambda>_. []) [] (\<lambda>_. 7) hasty_config (new_OpAmp [2]) = (s, effs) \<and>
     hb_rounds (\<lambda>_. Some [1]) [0, 0] (s\<lparr>hb_thread := Hb_head\<rparr>)
       = Some (replicate 2 (Enqueue (op_endpointHash s) [1] Heartbeat_reply), s\<lparr>hb_thread := Hb_head\<rparr>)"
proof -
  obtain s effs where r: "startCommunication (\<lambda>_. Some [1]) (\<lambda>_. []) [] (\<lambda>_. 7) hasty_config (new_OpAmp [2]) = (s, effs)"
    by (rule prod.exhaust)
  have c: "cfg_string ''opamp_endpoint'' hasty_config \<noteq> []" "cfg_duration ''opamp_heartbeat_interval'' hasty_config = 500"
    by (simp_all add: cfg_string_def cfg_duration_def option_value_def hasty_config_def Let_def)
  from short_interval_busy_loop [where encode = "\<lambda>_. Some [1]" and bytes = "[1]" and n = 2, OF c(1) _ _ _ r] c(2) r
  show ?thesis by (simp add: numeral_2_eq_2)
qed

end
