(* ===== verification/ForkHandler.thy ===== *)
theory ForkHandler
  imports PeriodicTasks OpAmp
begin

text \<open>
  The three components of a process that own a thread, running side by side, and the callbacks the
  extension registers with \<open>pthread_atfork\<close> (\<open>extension/code/ForkHandler.cpp\<close>). The heartbeat thread
  fills the queue of the transport, and the transport's thread hands the responses to the client.

  A component is \<open>None\<close> when its pointer, or the pointer to the globals, is null. \<open>process_step\<close>
  interleaves the thread that forks with the three threads: it says who moved and whether the move
  put a message into the transport.
\<close>

subsection \<open>The components together\<close>

datatype fork_pc = Stop_executor | Join_executor | Stop_http | Join_http | Stop_opamp | Join_opamp | At_fork

record ('w, 't) agent =
  pc :: fork_pc
  periodicTaskExecutor :: "'t executor option"
  httpTransportAsync :: "('w, opamp_callback) transport option"
  opAmp :: "opamp option"

text \<open>The calls of the OpAMP client on the transport; both run in the heartbeat or the sender thread.\<close>

fun apply_effect :: "transport_config \<Rightarrow> ('w, opamp_callback) transport \<Rightarrow> opamp_effect \<Rightarrow> ('w, opamp_callback) transport" where
  "apply_effect tcfg h (Enqueue endpointHash bytes callback) = enqueue tcfg (endpointHash, bytes, Some callback) h"
| "apply_effect tcfg h (Update_retry endpointHash delay) = transport_updateRetryDelay endpointHash delay h"
| "apply_effect tcfg h (Connect a) = h"
| "apply_effect tcfg h (Config_updated files) = h"

text \<open>The callbacks of a sender turn: the client handles each response and may update the retry delay.\<close>

definition responses_of :: "opamp_callback label list \<Rightarrow> string list" where
  "responses_of ls = concat (map (\<lambda>l. case l of Sent evs \<Rightarrow>
     List.map_filter (\<lambda>ev. case ev of Called cb responseCode data \<Rightarrow> Some data | _ \<Rightarrow> None) evs | _ \<Rightarrow> []) ls)"

definition deliver_response ::
  "(string \<Rightarrow> ServerToAgent option) \<Rightarrow> transport_config \<Rightarrow> string \<Rightarrow> ('w, opamp_callback) transport \<times> opamp
     \<Rightarrow> ('w, opamp_callback) transport \<times> opamp" where
  "deliver_response decode tcfg response ho =
     (let (o', effs) = handleServerToAgent decode response (snd ho)
      in (fold (\<lambda>e h. apply_effect tcfg h e) effs (fst ho), o'))"

subsection \<open>The callback before the fork\<close>

text \<open>
  One move of \<open>callbackToLogForkBeforeInParent\<close>; \<open>None\<close> while it waits in a join, and when it has
  returned. Pointers do not change between the test and the call.
\<close>

definition callbackToLogForkBeforeInParent_step :: "('w, 't) agent \<Rightarrow> ('w, 't) agent option" where
  "callbackToLogForkBeforeInParent_step s =
     (case pc s of
        Stop_executor \<Rightarrow>
          (case periodicTaskExecutor s of
             None \<Rightarrow> Some (s\<lparr>pc := Stop_http\<rparr>)
           | Some e \<Rightarrow> Some (s\<lparr>pc := Join_executor, periodicTaskExecutor := Some (executor_shutdown e)\<rparr>))
      | Join_executor \<Rightarrow>
          map_option (\<lambda>e. s\<lparr>pc := Stop_http, periodicTaskExecutor := Some e\<rparr>)
            (Option.bind (periodicTaskExecutor s) executor_join)
      | Stop_http \<Rightarrow>
          (case httpTransportAsync s of
             None \<Rightarrow> Some (s\<lparr>pc := Stop_opamp\<rparr>)
           | Some h \<Rightarrow> Some (s\<lparr>pc := Join_http, httpTransportAsync := Some (request_shutdown h)\<rparr>))
      | Join_http \<Rightarrow>
          map_option (\<lambda>h. s\<lparr>pc := Stop_opamp, httpTransportAsync := Some h\<rparr>)
            (Option.bind (httpTransportAsync s) transport_join)
      | Stop_opamp \<Rightarrow>
          (case opAmp s of
             None \<Rightarrow> Some (s\<lparr>pc := At_fork\<rparr>)
           | Some p \<Rightarrow> Some (s\<lparr>pc := Join_opamp, opAmp := Some (hb_stop p)\<rparr>))
      | Join_opamp \<Rightarrow>
          map_option (\<lambda>p. s\<lparr>pc := At_fork, opAmp := Some p\<rparr>) (Option.bind (opAmp s) hb_join)
      | At_fork \<Rightarrow> None)"

text \<open>\<open>callbackToLogForkAfterInParent\<close> and \<open>callbackToLogForkAfterInChild\<close>.\<close>

definition callbackToLogForkAfter :: "bool \<Rightarrow> ('w, 't) agent \<Rightarrow> ('w, 't) agent" where
  "callbackToLogForkAfter child s =
     s\<lparr>periodicTaskExecutor := map_option (executor_postfork child) (periodicTaskExecutor s),
       httpTransportAsync := map_option (postfork child) (httpTransportAsync s),
       opAmp := map_option (opamp_postfork child) (opAmp s)\<rparr>"

subsection \<open>All threads\<close>

datatype mover = Forker | Executor_thread | Http_thread | Heartbeat_thread

definition enqueues :: "opamp_effect list \<Rightarrow> nat" where
  "enqueues effs = length (filter (\<lambda>e. case e of Enqueue _ _ _ \<Rightarrow> True | _ \<Rightarrow> False) effs)"

inductive process_step ::
  "'w net \<Rightarrow> transport_config \<Rightarrow> (string \<Rightarrow> ServerToAgent option) \<Rightarrow> (AgentToServer \<Rightarrow> byte list option)
     \<Rightarrow> ('w, 't) agent \<Rightarrow> mover \<Rightarrow> nat \<Rightarrow> ('w, 't) agent \<Rightarrow> bool"
  for nt :: "'w net" and tcfg decode encode where
  forker: "callbackToLogForkBeforeInParent_step s = Some s' \<Longrightarrow> process_step nt tcfg decode encode s Forker 0 s'"
| executor_moves: "periodicTaskExecutor s = Some e \<Longrightarrow> work_step now e = Some (out, e') \<Longrightarrow>
    process_step nt tcfg decode encode s Executor_thread 0 (s\<lparr>periodicTaskExecutor := Some e'\<rparr>)"
| http_moves: "httpTransportAsync s = Some h \<Longrightarrow> opAmp s = Some p \<Longrightarrow> sender_step nt tcfg now h = Some (ls, h') \<Longrightarrow>
    fold (deliver_response decode tcfg) (responses_of ls) (h', p) = (h'', p') \<Longrightarrow>
    process_step nt tcfg decode encode s Http_thread 0 (s\<lparr>httpTransportAsync := Some h'', opAmp := Some p'\<rparr>)"
| http_moves_alone: "httpTransportAsync s = Some h \<Longrightarrow> opAmp s = None \<Longrightarrow> sender_step nt tcfg now h = Some (ls, h') \<Longrightarrow>
    process_step nt tcfg decode encode s Http_thread 0 (s\<lparr>httpTransportAsync := Some h'\<rparr>)"
| heartbeat: "opAmp s = Some p \<Longrightarrow> hb_step encode waited p = Some (effs, p') \<Longrightarrow>
    process_step nt tcfg decode encode s Heartbeat_thread (enqueues effs)
      (s\<lparr>httpTransportAsync := map_option (\<lambda>h. fold (\<lambda>e h. apply_effect tcfg h e) effs h) (httpTransportAsync s),
         opAmp := Some p'\<rparr>)"

inductive_cases process_stepE: "process_step nt tcfg decode encode s m q s'"

text \<open>The thread the callback is waiting for, if it is in a join.\<close>

definition awaited :: "('w, 't) agent \<Rightarrow> mover option" where
  "awaited s =
     (case pc s of Join_executor \<Rightarrow> Some Executor_thread | Join_http \<Rightarrow> Some Http_thread
      | Join_opamp \<Rightarrow> Some Heartbeat_thread | _ \<Rightarrow> None)"

text \<open>A run, with the moves of the callback and the threads it awaits, and the messages put into the transport.\<close>

inductive process_run ::
  "'w net \<Rightarrow> transport_config \<Rightarrow> (string \<Rightarrow> ServerToAgent option) \<Rightarrow> (AgentToServer \<Rightarrow> byte list option)
     \<Rightarrow> ('w, 't) agent \<Rightarrow> nat \<Rightarrow> nat \<Rightarrow> ('w, 't) agent \<Rightarrow> bool"
  for nt :: "'w net" and tcfg decode encode where
  run_0: "process_run nt tcfg decode encode s 0 0 s"
| run_step: "process_run nt tcfg decode encode s p q s' \<Longrightarrow> process_step nt tcfg decode encode s' m k s'' \<Longrightarrow>
    process_run nt tcfg decode encode s (if m = Forker \<or> Some m = awaited s' then Suc p else p) (q + k) s''"


subsection \<open>What each move keeps\<close>

lemma work_step_keeps:
  assumes "work_step now e = Some (out, e')"
  shows "ex_thread e \<noteq> Ex_none \<and> ex_working e' = ex_working e \<and>
    max (length (periodicTasks e') + 3) (executor_turns_left e') \<le> max (length (periodicTasks e) + 3) (executor_turns_left e)"
  using assms by (cases "ex_thread e") (auto simp: work_step_def executor_turns_left_def split: if_splits list.splits)

lemma hb_step_keeps:
  assumes "hb_step encode waited p = Some (effs, p')"
  shows "hb_thread p \<noteq> Hb_none \<and> hb_working p' = hb_working p"
  using assms by (cases "hb_thread p") (auto simp: hb_step_def split: if_splits)

lemma handle_message_thread:
  "handle_message msg p = (p', effs) \<Longrightarrow> hb_thread p' = hb_thread p \<and> hb_working p' = hb_working p \<and> enqueues effs = 0"
  by (auto simp: handle_message_def apply_remote_config_def Let_def enqueues_def split: option.splits if_splits)

lemma apply_effect_keeps:
  "thread (apply_effect tcfg h e) = thread h \<and> working (apply_effect tcfg h e) = working h \<and>
   length (payloadsToSend (apply_effect tcfg h e)) \<le> length (payloadsToSend h) + enqueues [e]"
  by (cases e) (simp_all add: enqueue_def transport_updateRetryDelay_def enqueues_def Let_def split: sum.split)

lemma apply_effects_keep:
  "thread (fold (\<lambda>e h. apply_effect tcfg h e) effs h) = thread h \<and> working (fold (\<lambda>e h. apply_effect tcfg h e) effs h) = working h \<and>
   length (payloadsToSend (fold (\<lambda>e h. apply_effect tcfg h e) effs h)) \<le> length (payloadsToSend h) + enqueues effs"
proof (induction effs arbitrary: h)
  case (Cons e effs)
  have "enqueues (e # effs) = enqueues [e] + enqueues effs" by (simp add: enqueues_def)
  with Cons.IH [of "apply_effect tcfg h e"] apply_effect_keeps [of tcfg h e] show ?case by simp
qed (simp add: enqueues_def)

lemma deliver_responses_keep:
  "fold (deliver_response decode tcfg) rs (h, p) = (h', p') \<Longrightarrow>
     thread h' = thread h \<and> working h' = working h \<and> length (payloadsToSend h') \<le> length (payloadsToSend h) \<and>
     hb_thread p' = hb_thread p \<and> hb_working p' = hb_working p"
proof (induction rs arbitrary: h p)
  case (Cons r rs)
  obtain p1 effs where m: "handleServerToAgent decode r p = (p1, effs)" by (rule prod.exhaust)
  have "hb_thread p1 = hb_thread p \<and> hb_working p1 = hb_working p \<and> enqueues effs = 0"
    using m handle_message_thread by (cases "decode r") (auto simp: handleServerToAgent_def enqueues_def [of "[]"])
  then show ?case
    using Cons.IH [of "fold (\<lambda>e h. apply_effect tcfg h e) effs h" p1] Cons.prems apply_effects_keep [of tcfg effs h]
    by (auto simp: deliver_response_def m)
qed simp

lemma next_payload_keeps:
  "next_payload s = (l, s') \<Longrightarrow> working s' = working s \<and> length (payloadsToSend s') \<le> length (payloadsToSend s)"
  by (auto simp: next_payload_def split: list.splits)

lemma sender_step_keeps:
  assumes "sender_step nt tcfg now h = Some (ls, h')"
  shows "thread h \<noteq> No_thread \<and> working h' = working h \<and> length (payloadsToSend h') \<le> length (payloadsToSend h)"
proof (cases "thread h")
  case (Posting it)
  obtain tr w' es' r where item: "send_item nt it (world h) (endpoint_set h) = (tr, w', es', r)"
    by (rule prod_cases4)
  obtain l s1 where n: "next_payload (h\<lparr>world := w', endpoint_set := es'\<rparr>) = (l, s1)" by (rule prod.exhaust)
  show ?thesis
    using assms next_payload_keeps [OF n] by (auto simp: sender_step_def Posting item n Let_def split: if_splits)
next
  case Waiting
  obtain l s1 where n: "next_payload h = (l, s1)" by (rule prod.exhaust)
  show ?thesis
    using assms next_payload_keeps [OF n] by (auto simp: sender_step_def Waiting n Let_def split: if_splits)
qed (use assms in \<open>auto simp: sender_step_def\<close>)

lemma transport_turns_left_le: "transport_turns_left h \<le> length (payloadsToSend h) + 3"
  by (simp add: transport_turns_left_def split: sender_thread.split)

lemma transport_turns_left_mono:
  "thread h' = thread h \<Longrightarrow> length (payloadsToSend h') \<le> length (payloadsToSend h) + k \<Longrightarrow>
     transport_turns_left h' \<le> transport_turns_left h + k"
  by (simp add: transport_turns_left_def split: sender_thread.split)

lemma transport_turns_left_request: "transport_turns_left (request_shutdown h) < 4 + length (payloadsToSend h)"
  using transport_turns_left_le [of "request_shutdown h"] by (simp add: request_shutdown_def)

lemma hb_turns_left_stop: "hb_turns_left (hb_stop p) < 3"
  by (simp add: hb_turns_left_def split: heartbeat_thread.split)

subsection \<open>The invariant of the callback and the moves it has left\<close>

definition executor_gone :: "('w, 't) agent \<Rightarrow> bool" where
  "executor_gone s \<longleftrightarrow> (\<forall>e. periodicTaskExecutor s = Some e \<longrightarrow> ex_thread e = Ex_none)"

definition http_gone :: "('w, 't) agent \<Rightarrow> bool" where
  "http_gone s \<longleftrightarrow> (\<forall>h. httpTransportAsync s = Some h \<longrightarrow> thread h = No_thread)"

definition opamp_gone :: "('w, 't) agent \<Rightarrow> bool" where
  "opamp_gone s \<longleftrightarrow> (\<forall>p. opAmp s = Some p \<longrightarrow> hb_thread p = Hb_none)"

lemmas gone_defs = executor_gone_def http_gone_def opamp_gone_def

definition fork_inv :: "('w, 't) agent \<Rightarrow> bool" where
  "fork_inv s =
     (case pc s of
        Stop_executor \<Rightarrow> True
      | Join_executor \<Rightarrow> (\<exists>e. periodicTaskExecutor s = Some e \<and> \<not> ex_working e)
      | Stop_http \<Rightarrow> executor_gone s
      | Join_http \<Rightarrow> executor_gone s \<and> (\<exists>h. httpTransportAsync s = Some h \<and> \<not> working h)
      | Stop_opamp \<Rightarrow> executor_gone s \<and> http_gone s
      | Join_opamp \<Rightarrow> executor_gone s \<and> http_gone s \<and> (\<exists>p. opAmp s = Some p \<and> \<not> hb_working p)
      | At_fork \<Rightarrow> executor_gone s \<and> http_gone s \<and> opamp_gone s)"

definition moves_left :: "('w, 't) agent \<Rightarrow> nat" where
  "moves_left s =
     (let ex = (case periodicTaskExecutor s of None \<Rightarrow> 0 | Some e \<Rightarrow> max (length (periodicTasks e) + 3) (executor_turns_left e));
          ht = (case httpTransportAsync s of None \<Rightarrow> 0 | Some h \<Rightarrow> length (payloadsToSend h) + 3)
      in case pc s of
           Stop_executor \<Rightarrow> 8 + ex + ht
         | Join_executor \<Rightarrow> 7 + (case periodicTaskExecutor s of None \<Rightarrow> 0 | Some e \<Rightarrow> executor_turns_left e) + ht
         | Stop_http \<Rightarrow> 6 + ht
         | Join_http \<Rightarrow> 5 + (case httpTransportAsync s of None \<Rightarrow> 0 | Some h \<Rightarrow> transport_turns_left h)
         | Stop_opamp \<Rightarrow> 4
         | Join_opamp \<Rightarrow> 1 + (case opAmp s of None \<Rightarrow> 0 | Some p \<Rightarrow> hb_turns_left p)
         | At_fork \<Rightarrow> 0)"

definition advances :: "('w, 't) agent \<Rightarrow> mover \<Rightarrow> nat" where
  "advances s m = (if m = Forker \<or> Some m = awaited s then 1 else 0)"

lemma executor_turns_left_shutdown: "executor_turns_left (executor_shutdown e) = executor_turns_left e"
  by (simp add: executor_shutdown_def executor_turns_left_def split: executor_thread.split)

lemmas forker_defs = callbackToLogForkBeforeInParent_step_def fork_inv_def moves_left_def gone_defs Let_def

lemma forker_decreases:
  fixes s :: "('w, 't) agent"
  assumes "fork_inv s" and "callbackToLogForkBeforeInParent_step s = Some s'"
  shows "fork_inv s' \<and> moves_left s' < moves_left s"
proof (cases "pc s")
  case Stop_executor
  show ?thesis
    using assms by (cases "periodicTaskExecutor s")
      (auto simp: forker_defs Stop_executor executor_turns_left_shutdown, simp add: executor_shutdown_def)
next
  case Join_executor
  then show ?thesis
    using assms by (auto simp: forker_defs executor_join_def bind_eq_Some_conv split: if_splits)
next
  case Stop_http
  show ?thesis
    using assms by (cases "httpTransportAsync s")
      (auto simp: forker_defs Stop_http transport_turns_left_request, simp add: request_shutdown_def)
next
  case Join_http
  then show ?thesis
    using assms by (auto simp: forker_defs transport_join_def join_thread_def CurlCleanup_def bind_eq_Some_conv split: if_splits)
next
  case Stop_opamp
  show ?thesis
    using assms by (cases "opAmp s") (auto simp: forker_defs Stop_opamp hb_turns_left_stop, simp add: hb_stop_def)
next
  case Join_opamp
  then show ?thesis
    using assms by (auto simp: forker_defs hb_join_def bind_eq_Some_conv split: if_splits)
next
  case At_fork
  then show ?thesis using assms by (simp add: forker_defs)
qed


lemmas inv_defs = fork_inv_def moves_left_def gone_defs advances_def awaited_def Let_def

lemma executor_moves_inv:
  assumes "fork_inv s" and "periodicTaskExecutor s = Some e" and "work_step now e = Some (out, e')"
  shows "fork_inv (s\<lparr>periodicTaskExecutor := Some e'\<rparr>) \<and>
    moves_left (s\<lparr>periodicTaskExecutor := Some e'\<rparr>) + advances s Executor_thread \<le> moves_left s"
proof -
  note k = work_step_keeps [OF assms(3)]
  have dec: "\<not> ex_working e \<Longrightarrow> executor_turns_left e' < executor_turns_left e"
    using executor_turn_stopping [of e e'] assms(3) by (auto simp: executor_turn_def)
  show ?thesis
    using assms(1,2) k dec by (cases "pc s") (auto simp: inv_defs)
qed

lemma http_moves_inv:
  assumes "fork_inv s" and "httpTransportAsync s = Some h" and "sender_step nt tcfg now h = Some (ls, h')"
    and "thread h'' = thread h'" and "working h'' = working h'" and "length (payloadsToSend h'') \<le> length (payloadsToSend h')"
    and "opAmp s' = opAmp s \<or> (\<exists>p p'. opAmp s = Some p \<and> opAmp s' = Some p' \<and> hb_thread p' = hb_thread p \<and> hb_working p' = hb_working p)"
    and "pc s' = pc s" and "periodicTaskExecutor s' = periodicTaskExecutor s" and "httpTransportAsync s' = Some h''"
  shows "fork_inv s' \<and> moves_left s' + advances s Http_thread \<le> moves_left s"
proof -
  note k = sender_step_keeps [OF assms(3)]
  have dec: "\<not> working h \<Longrightarrow> transport_turns_left h' < transport_turns_left h"
    using transport_turn_stopping [of h nt tcfg h'] assms(3) by (auto simp: transport_turn_def)
  have le: "transport_turns_left h'' \<le> transport_turns_left h'"
    using transport_turns_left_mono [of h'' h' 0] assms(4,6) by simp
  show ?thesis
    using assms(1,2,4-) k dec le by (cases "pc s") (auto simp: inv_defs)
qed

lemma heartbeat_inv:
  fixes s :: "('w, 't) agent"
  assumes "fork_inv s" and "opAmp s = Some p" and "hb_step encode waited p = Some (effs, p')"
    and "s' = s\<lparr>httpTransportAsync := map_option (\<lambda>h. fold (\<lambda>e h. apply_effect tcfg h e) effs h) (httpTransportAsync s), opAmp := Some p'\<rparr>"
  shows "fork_inv s' \<and> moves_left s' + advances s Heartbeat_thread \<le> moves_left s + enqueues effs"
proof -
  note k = hb_step_keeps [OF assms(3)]
  have dec: "\<not> hb_working p \<Longrightarrow> hb_turns_left p' < hb_turns_left p"
    using opamp_fork.turn_decreases [of p encode p'] assms(3) by (auto simp: hb_turn_def)
  note a = apply_effects_keep [of tcfg effs]
  have le: "transport_turns_left (fold (\<lambda>e h. apply_effect tcfg h e) effs h) \<le> transport_turns_left h + enqueues effs" for h :: "('w, opamp_callback) transport"
    by (rule transport_turns_left_mono) (simp_all add: a)
  show ?thesis
    using assms(1,2) k dec le a by (cases "httpTransportAsync s"; cases "pc s") (auto simp: assms(4) inv_defs)
qed

lemma process_step_inv:
  assumes "fork_inv s" and "process_step nt tcfg decode encode s m k s'"
  shows "fork_inv s' \<and> moves_left s' + advances s m \<le> moves_left s + k"
  using assms(2)
proof cases
  case forker
  with forker_decreases [OF assms(1)] show ?thesis by (fastforce simp: advances_def)
next
  case (executor_moves e now out e')
  with executor_moves_inv [OF assms(1)] show ?thesis by simp
next
  case (http_moves h p now ls h' h'' p')
  show ?thesis
    using http_moves_inv [OF assms(1) http_moves(4) http_moves(6), of h'' s'] deliver_responses_keep [OF http_moves(7)] http_moves by simp
next
  case (http_moves_alone h now ls h')
  show ?thesis
    using http_moves_inv [OF assms(1) http_moves_alone(4) http_moves_alone(6), of h' s'] http_moves_alone by simp
next
  case (heartbeat p waited effs p')
  with heartbeat_inv [OF assms(1)] show ?thesis by simp
qed

lemma process_run_inv:
  assumes "process_run nt tcfg decode encode s p q s'" and "fork_inv s"
  shows "fork_inv s' \<and> moves_left s' + p \<le> moves_left s + q"
  using assms
proof (induction rule: process_run.induct)
  case (run_step s p q s' m k s'')
  with process_step_inv [OF _ run_step.hyps(2)] show ?case by (fastforce simp: advances_def)
qed simp

lemma never_stuck:
  assumes "fork_inv s" and "pc s \<noteq> At_fork"
  shows "\<exists>m k s'. process_step nt tcfg decode encode s m k s' \<and> (m = Forker \<or> Some m = awaited s)"
proof (cases "callbackToLogForkBeforeInParent_step s")
  case (Some s')
  then show ?thesis using process_step.forker by blast
next
  case None
  show ?thesis
  proof (cases "pc s")
    case Join_executor
    then obtain e where e: "periodicTaskExecutor s = Some e" "\<not> ex_working e" using assms by (auto simp: fork_inv_def)
    then have "executor_alive e"
      using None Join_executor by (auto simp: callbackToLogForkBeforeInParent_step_def executor_join_def executor_alive_def split: if_splits)
    then obtain e' now out where "work_step now e = Some (out, e')"
      using exec_fork.alive_turn [OF e(2)] by (auto simp: executor_turn_def)
    from process_step.executor_moves [OF e(1) this] Join_executor show ?thesis by (fastforce simp: awaited_def)
  next
    case Join_http
    then obtain h where h: "httpTransportAsync s = Some h" "\<not> working h" using assms by (auto simp: fork_inv_def)
    then have "transport_alive h"
      using None Join_http by (auto simp: callbackToLogForkBeforeInParent_step_def transport_join_def join_thread_def transport_alive_def split: if_splits)
    then obtain h' now ls where st: "sender_step nt tcfg now h = Some (ls, h')"
      using http_fork.alive_turn [OF h(2)] unfolding transport_turn_def by blast
    obtain h'' p' where d: "fold (deliver_response decode tcfg) (responses_of ls) (h', the (opAmp s)) = (h'', p')" by (rule prod.exhaust)
    show ?thesis
    proof (cases "opAmp s")
      case None
      from process_step.http_moves_alone [OF h(1) this st] Join_http show ?thesis by (fastforce simp: awaited_def)
    next
      case (Some p)
      with d process_step.http_moves [OF h(1) this st] Join_http show ?thesis by (fastforce simp: awaited_def)
    qed
  next
    case Join_opamp
    then obtain p where p: "opAmp s = Some p" "\<not> hb_working p" using assms by (auto simp: fork_inv_def)
    then have "hb_alive p"
      using None Join_opamp by (auto simp: callbackToLogForkBeforeInParent_step_def hb_join_def hb_alive_def split: if_splits)
    then obtain p' waited effs where "hb_step encode waited p = Some (effs, p')"
      using opamp_fork.alive_turn [OF p(2), of encode] by (auto simp: hb_turn_def)
    from process_step.heartbeat [OF p(1) this] Join_opamp show ?thesis by (fastforce simp: awaited_def)
  qed (use None assms(2) in \<open>auto simp: callbackToLogForkBeforeInParent_step_def split: option.splits\<close>)
qed


subsection \<open>Forking\<close>

text \<open>
  C3. The callback before a fork ends, whatever the threads are doing: it is never stuck (it can move, or
  the thread it waits for can), and its own moves together with the turns of the threads it waits for
  number at most \<open>moves_left\<close> of the state it starts in plus the heartbeats sent meanwhile, each of
  which the sender thread may have to deliver before it ends.
\<close>

theorem fork_callback_terminates:
  assumes "pc s = Stop_executor" and "process_run nt tcfg decode encode s p q s'"
  shows "p \<le> moves_left s + q \<and>
    (pc s' = At_fork \<or> (\<exists>m k s''. process_step nt tcfg decode encode s' m k s'' \<and> (m = Forker \<or> Some m = awaited s')))"
proof -
  have "fork_inv s" using assms(1) by (simp add: fork_inv_def)
  from process_run_inv [OF assms(2) this] have inv: "fork_inv s'" "moves_left s' + p \<le> moves_left s + q" by simp_all
  then show ?thesis using never_stuck [OF inv(1)] by auto
qed

text \<open>
  C7. When the process forks, no component has a thread, whatever the threads did while the callback ran;
  and after the callback in the parent or the child every component that exists has a running thread,
  also one that had none before the fork.
\<close>

theorem no_threads_at_fork:
  assumes "pc s = Stop_executor" and "process_run nt tcfg decode encode s p q s'" and "pc s' = At_fork"
  shows "executor_gone s' \<and> http_gone s' \<and> opamp_gone s' \<and>
    pred_option (\<lambda>e. executor_alive e \<and> ex_working e) (periodicTaskExecutor (callbackToLogForkAfter child s')) \<and>
    pred_option (\<lambda>h. transport_alive h \<and> working h) (httpTransportAsync (callbackToLogForkAfter child s')) \<and>
    pred_option (\<lambda>p. hb_alive p \<and> hb_working p) (opAmp (callbackToLogForkAfter child s'))"
proof -
  have "fork_inv s" using assms(1) by (simp add: fork_inv_def)
  from process_run_inv [OF assms(2) this] have gone: "executor_gone s' \<and> http_gone s' \<and> opamp_gone s'"
    using assms(3) by (simp add: fork_inv_def)
  then show ?thesis
    by (auto simp: callbackToLogForkAfter_def option.pred_set gone_defs elem_set
        exec_fork.resume_alive [simplified] http_fork.resume_alive [simplified] opamp_fork.resume_alive [simplified])
qed

subsection \<open>A concrete fork\<close>

text \<open>A worker that has never used the transport or OpAMP.\<close>

definition idle_worker :: "(unit, unit) agent" where
  "idle_worker = \<lparr>pc = Stop_executor, periodicTaskExecutor = None, httpTransportAsync = Some (new_transport ()), opAmp = Some (new_OpAmp [1])\<rparr>"

definition idle_at_fork :: "(unit, unit) agent" where
  "idle_at_fork = idle_worker\<lparr>pc := At_fork, httpTransportAsync := Some (CurlCleanup (request_shutdown (new_transport ()))),
     opAmp := Some (hb_stop (new_OpAmp [1]))\<rparr>"

lemma idle_worker_run: "\<exists>p. process_run nt tcfg decode encode idle_worker p 0 idle_at_fork"
proof -
  have "\<exists>p. process_run nt tcfg decode encode idle_worker p 0 s"
    if "\<exists>n. ((\<lambda>r. Option.bind r callbackToLogForkBeforeInParent_step) ^^ n) (Some idle_worker) = Some s" for s
  proof -
    from that obtain n where "((\<lambda>r. Option.bind r callbackToLogForkBeforeInParent_step) ^^ n) (Some idle_worker) = Some s" by blast
    then show ?thesis
    proof (induction n arbitrary: s)
      case 0
      then show ?case by (auto intro: process_run.run_0)
    next
      case (Suc n)
      then obtain s1 where s1: "((\<lambda>r. Option.bind r callbackToLogForkBeforeInParent_step) ^^ n) (Some idle_worker) = Some s1"
        and st: "callbackToLogForkBeforeInParent_step s1 = Some s" by (auto simp: bind_eq_Some_conv)
      from Suc.IH [OF s1] process_run.run_step [OF _ process_step.forker [OF st]] show ?case by fastforce
    qed
  qed
  moreover have "((\<lambda>r. Option.bind r callbackToLogForkBeforeInParent_step) ^^ 5) (Some idle_worker) = Some idle_at_fork"
    by (simp add: numeral_eq_Suc callbackToLogForkBeforeInParent_step_def idle_worker_def idle_at_fork_def new_transport_def new_OpAmp_def
        request_shutdown_def transport_join_def join_thread_def CurlCleanup_def hb_stop_def hb_join_def)
  ultimately show ?thesis by blast
qed

lemma fork_callback_terminates_witness: "\<exists>p. p \<le> moves_left idle_worker \<and> moves_left idle_worker = 11"
proof -
  obtain nt tcfg decode encode p where "process_run nt tcfg decode encode idle_worker p 0 idle_at_fork"
    using idle_worker_run by blast
  from fork_callback_terminates [OF _ this] show ?thesis
    by (auto simp: moves_left_def idle_worker_def new_transport_def)
qed

lemma no_threads_at_fork_witness:
  "pred_option (\<lambda>p. hb_alive p \<and> hb_working p) (opAmp (callbackToLogForkAfter True idle_at_fork))"
proof -
  obtain nt tcfg decode encode p where "process_run nt tcfg decode encode idle_worker p 0 idle_at_fork"
    using idle_worker_run by blast
  from no_threads_at_fork [OF _ this] show ?thesis by (simp add: idle_worker_def idle_at_fork_def)
qed

end
