(* ===== verification/Zval.thy ===== *)
theory Zval
  imports CxxStd
begin

text \<open>
  PHP values as the native code sees them (\<open>libphpbridge/code/AutoZval.h\<close>): the typed getters, reading
  from objects, and the two iterators over arrays.

  Objects are of a type \<open>'o\<close>; what their methods answer is PHP code, a parameter (\<open>php\<close>). The methods
  the native code calls are getters: a call is a function of the object. A \<open>double\<close> is its 64 bits in
  IEEE 754 binary64. A PHP array is the sequence of its slots, \<open>Z_undef\<close> marking a deleted element, with
  its \<open>nNextFreeElement\<close>; the cursor of an array is a position in that sequence.
\<close>

subsection \<open>Values\<close>

datatype array_key = Key_string string | Key_index u64

text \<open>The key a PHP array uses for a text: the integer, if the text is one as it is printed.\<close>

definition symtable_key :: "string \<Rightarrow> array_key" where
  "symtable_key name =
     (let (neg, ds) = (case name of c # r \<Rightarrow> if c = CHR ''-'' then (True, r) else (False, name) | [] \<Rightarrow> (False, []));
          n = (if neg then - int (decimal_value ds) else int (decimal_value ds))
      in if ds \<noteq> [] \<and> list_all isdigit ds \<and> show_int n = name \<and> - (2 ^ 63) \<le> n \<and> n < 2 ^ 63 then Key_index (of_int n) else Key_string name)"

datatype 'o zval =
    Z_undef
  | Z_null
  | Z_false
  | Z_true
  | Z_long i64
  | Z_double u64
  | Z_string bool string
  | Z_array "(array_key \<times> 'o zval) list" i64
  | Z_object 'o
  | Z_resource
  | Z_reference "'o zval"

text \<open>
  The PHP side: the result of a method (\<open>None\<close> when the engine cannot call it; an exception in PHP leaves
  the result undefined), a property (\<open>None\<close> for a null pointer), the class of an object, and \<open>serialize\<close>
  applied to the array of the given values.
\<close>

record 'o php =
  method_result :: "'o \<Rightarrow> string \<Rightarrow> 'o zval option"
  property_of :: "'o \<Rightarrow> string \<Rightarrow> 'o zval option"
  class_name :: "'o \<Rightarrow> string"
  serialize_result :: "'o zval list \<Rightarrow> 'o zval option"

text \<open>\<open>AutoZval(zval *)\<close>: null for a null pointer.\<close>

definition zval_of_pointer :: "'o zval option \<Rightarrow> 'o zval" where
  "zval_of_pointer zv = (case zv of None \<Rightarrow> Z_null | Some v \<Rightarrow> v)"

text \<open>
  \<open>set\<close>, by the C++ type of its argument. The test for \<open>bool\<close> compares with the type of a forwarding
  reference and never holds, so a \<open>bool\<close> is stored as an integer.
\<close>

datatype native = N_bool bool | N_double u64 | N_string string | N_nullptr | N_integer i64

fun zval_set :: "native \<Rightarrow> 'o zval" where
  "zval_set (N_double d) = Z_double d"
| "zval_set (N_string s) = Z_string False s"
| "zval_set N_nullptr = Z_null"
| "zval_set (N_bool b) = Z_long (if b then 1 else 0)"
| "zval_set (N_integer n) = Z_long n"

subsection \<open>Type tests and getters\<close>

fun isNull :: "'o zval \<Rightarrow> bool" where "isNull Z_null = True" | "isNull _ = False"
fun isUndef :: "'o zval \<Rightarrow> bool" where "isUndef Z_undef = True" | "isUndef _ = False"
fun isString :: "'o zval \<Rightarrow> bool" where "isString (Z_string _ _) = True" | "isString _ = False"
fun isLong :: "'o zval \<Rightarrow> bool" where "isLong (Z_long _) = True" | "isLong _ = False"
fun isDouble :: "'o zval \<Rightarrow> bool" where "isDouble (Z_double _) = True" | "isDouble _ = False"
fun isArray :: "'o zval \<Rightarrow> bool" where "isArray (Z_array _ _) = True" | "isArray _ = False"
fun isObject :: "'o zval \<Rightarrow> bool" where "isObject (Z_object _) = True" | "isObject _ = False"

fun getOptStringView :: "'o zval \<Rightarrow> string option" where
  "getOptStringView (Z_string _ s) = Some s"
| "getOptStringView _ = None"

fun getStringView :: "'o zval \<Rightarrow> string result" where
  "getStringView (Z_string _ s) = Inr s"
| "getStringView _ = Inl (Runtime_error ''Not a string'')"

fun getOptLong :: "'o zval \<Rightarrow> i64 option" where
  "getOptLong (Z_long n) = Some n"
| "getOptLong _ = None"

fun getLong :: "'o zval \<Rightarrow> i64 result" where
  "getLong (Z_long n) = Inr n"
| "getLong _ = Inl (Runtime_error ''Not a long'')"

fun getDouble :: "'o zval \<Rightarrow> u64 result" where
  "getDouble (Z_double d) = Inr d"
| "getDouble _ = Inl (Runtime_error ''Not a double'')"

fun getBoolean :: "'o zval \<Rightarrow> bool result" where
  "getBoolean Z_true = Inr True"
| "getBoolean Z_false = Inr False"
| "getBoolean _ = Inl (Runtime_error ''Not a boolean'')"

text \<open>
  \<open>static_cast<double>\<close> of a \<open>zend_long\<close>: the nearest double, ties to the even one. \<open>bit_count\<close> is the number
  of binary digits.
\<close>

fun bit_count :: "nat \<Rightarrow> nat" where
  "bit_count n = (if n = 0 then 0 else Suc (bit_count (n div 2)))"

declare bit_count.simps [simp del]

definition round_half_even :: "nat \<Rightarrow> nat \<Rightarrow> nat" where
  "round_half_even m k =
     (let q = m div 2 ^ k; r = m mod 2 ^ k
      in if 2 * r > 2 ^ k \<or> (2 * r = 2 ^ k \<and> odd q) then q + 1 else q)"

definition double_of_long :: "i64 \<Rightarrow> u64" where
  "double_of_long n =
     (let m = nat \<bar>sint n\<bar>; e = bit_count m - 1;
          digits = (if e \<le> 52 then m * 2 ^ (52 - e) else round_half_even m (e - 52))
      in if m = 0 then 0
         else of_nat ((if sint n < 0 then 2 ^ 63 else 0) + (e + 1023) * 2 ^ 52 + (digits - 2 ^ 52)))"

fun getNumberAsDouble :: "'o zval \<Rightarrow> u64 result" where
  "getNumberAsDouble (Z_double d) = Inr d"
| "getNumberAsDouble (Z_long n) = Inr (double_of_long n)"
| "getNumberAsDouble _ = Inl (Runtime_error ''Not a number'')"

subsection \<open>Objects\<close>

definition callMethod :: "'o php \<Rightarrow> 'o zval \<Rightarrow> string \<Rightarrow> 'o zval result" where
  "callMethod php v methodName =
     (case v of
        Z_object ob \<Rightarrow>
          (case method_result php ob methodName of
             None \<Rightarrow> Inl (Runtime_error ''Unable to call user method'')
           | Some r \<Rightarrow> Inr r)
      | _ \<Rightarrow> Inl (Runtime_error ''Can't call method on non-object''))"

definition readProperty :: "'o php \<Rightarrow> 'o zval \<Rightarrow> string \<Rightarrow> 'o zval result" where
  "readProperty php v propertyName =
     (case v of
        Z_object ob \<Rightarrow> Inr (zval_of_pointer (property_of php ob propertyName))
      | _ \<Rightarrow> Inl (Runtime_error ''Can't get property from non-object''))"

definition instanceOf :: "'o php \<Rightarrow> 'o zval \<Rightarrow> string \<Rightarrow> bool result" where
  "instanceOf php v type =
     (case v of Z_object ob \<Rightarrow> Inr (type = class_name php ob) | _ \<Rightarrow> Inl (Runtime_error ''Non-object''))"

definition assertObjectType :: "'o php \<Rightarrow> 'o zval \<Rightarrow> string \<Rightarrow> 'o zval result" where
  "assertObjectType php v type =
     (case v of
        Z_object ob \<Rightarrow>
          if type = class_name php ob then Inr v
          else Inl (Runtime_error (''Invalid object type: expected '' @ [CHR 0x27] @ type @ [CHR 0x27]
                 @ '', but got '' @ [CHR 0x27] @ class_name php ob @ [CHR 0x27]))
      | _ \<Rightarrow> Inl (Runtime_error ''Non-object''))"

subsection \<open>Iterators\<close>

text \<open>
  \<open>IteratorImpl\<close> and \<open>KeyValueIterator\<close> move alike: both are a cursor on the array and a flag \<open>end_\<close>;
  they differ in what they answer. The cursor belongs to the array: there is one at a time.
\<close>

record iterator =
  it_cursor :: nat
  it_end :: bool

definition hasMoreElements :: "'e list \<Rightarrow> nat \<Rightarrow> bool" where
  "hasMoreElements ht i \<longleftrightarrow> i < length ht"

definition currentData :: "(array_key \<times> 'o zval) list \<Rightarrow> nat \<Rightarrow> 'o zval option" where
  "currentData ht i = (if i < length ht then Some (snd (ht ! i)) else None)"

function moveToValid :: "(array_key \<times> 'o zval) list \<Rightarrow> nat \<Rightarrow> iterator" where
  "moveToValid ht i =
     (if hasMoreElements ht i then
        (case currentData ht i of
           Some v \<Rightarrow> if \<not> isUndef v then \<lparr>it_cursor = i, it_end = False\<rparr> else moveToValid ht (Suc i)
         | None \<Rightarrow> moveToValid ht (Suc i))
      else \<lparr>it_cursor = i, it_end = True\<rparr>)"
  by pat_completeness auto
termination by (relation "measure (\<lambda>(ht, i). length ht - i)") (auto simp: hasMoreElements_def)

declare moveToValid.simps [simp del]

text \<open>\<open>zend_array_count\<close>: the elements that are not deleted.\<close>

definition getArrayCount :: "(array_key \<times> 'o zval) list \<Rightarrow> nat" where
  "getArrayCount ht = length (filter (\<lambda>(k, v). \<not> isUndef v) ht)"

definition it_begin :: "(array_key \<times> 'o zval) list \<Rightarrow> iterator" where
  "it_begin ht = (if getArrayCount ht = 0 then \<lparr>it_cursor = 0, it_end = True\<rparr> else moveToValid ht 0)"

text \<open>\<open>operator!=\<close> with the end iterator of the same array.\<close>

definition it_not_end :: "iterator \<Rightarrow> bool" where
  "it_not_end it \<longleftrightarrow> it_end it \<noteq> True"

definition it_value :: "(array_key \<times> 'o zval) list \<Rightarrow> iterator \<Rightarrow> 'o zval" where
  "it_value ht it = (case currentData ht (it_cursor it) of Some v \<Rightarrow> v | None \<Rightarrow> Z_undef)"

definition it_pair :: "(array_key \<times> 'o zval) list \<Rightarrow> iterator \<Rightarrow> array_key \<times> 'o zval" where
  "it_pair ht it =
     (if it_cursor it < length ht then fst (ht ! it_cursor it) else Key_index 0, it_value ht it)"

definition it_next :: "(array_key \<times> 'o zval) list \<Rightarrow> iterator \<Rightarrow> iterator" where
  "it_next ht it =
     (let i = Suc (it_cursor it)
      in if \<not> hasMoreElements ht i then \<lparr>it_cursor = i, it_end = True\<rparr> else moveToValid ht i)"

lemma moveToValid_drop:
  "case dropWhile (\<lambda>(k, v). isUndef v) (drop i ht) of
     [] \<Rightarrow> it_end (moveToValid ht i)
   | e # es \<Rightarrow> \<not> it_end (moveToValid ht i) \<and> i \<le> it_cursor (moveToValid ht i) \<and> it_cursor (moveToValid ht i) < length ht \<and>
       ht ! it_cursor (moveToValid ht i) = e \<and> drop (Suc (it_cursor (moveToValid ht i))) ht = es"
proof (induction "length ht - i" arbitrary: i rule: less_induct)
  case less
  show ?case
  proof (cases "i < length ht")
    case True
    then have d: "drop i ht = ht ! i # drop (Suc i) ht" by (simp add: Cons_nth_drop_Suc)
    show ?thesis
    proof (cases "isUndef (snd (ht ! i))")
      case undef: True
      then have m: "moveToValid ht i = moveToValid ht (Suc i)"
        using True by (subst moveToValid.simps) (simp add: hasMoreElements_def currentData_def)
      have w: "dropWhile (\<lambda>(k, v). isUndef v) (drop i ht) = dropWhile (\<lambda>(k, v). isUndef v) (drop (Suc i) ht)"
        unfolding d using undef by (simp add: case_prod_unfold)
      have "length ht - Suc i < length ht - i" using True by simp
      from less [OF this] show ?thesis
        unfolding m w by (auto simp del: dropWhile_eq_Nil_conv split: list.splits)
    next
      case False
      then have "moveToValid ht i = \<lparr>it_cursor = i, it_end = False\<rparr>"
        using True by (subst moveToValid.simps) (simp add: hasMoreElements_def currentData_def)
      with False True show ?thesis by (simp add: d case_prod_unfold)
    qed
  next
    case False
    then show ?thesis by (subst moveToValid.simps) (simp add: hasMoreElements_def)
  qed
qed

text \<open>\<open>for (it = begin; it != end; ++it)\<close>, collecting what the iterator answers.\<close>

definition it_left :: "(array_key \<times> 'o zval) list \<Rightarrow> iterator \<Rightarrow> nat" where
  "it_left ht it = (if it_end it then 0 else Suc (length ht - it_cursor it))"

lemma it_next_left: "\<not> it_end it \<Longrightarrow> it_left ht (it_next ht it) < it_left ht it"
  using moveToValid_drop [where i = "Suc (it_cursor it)" and ht = ht]
  by (auto simp: it_left_def it_next_def hasMoreElements_def Let_def split: list.splits)

function it_collect :: "(array_key \<times> 'o zval) list \<Rightarrow> iterator \<Rightarrow> (array_key \<times> 'o zval) list" where
  "it_collect ht it = (if it_not_end it then it_pair ht it # it_collect ht (it_next ht it) else [])"
  by pat_completeness auto
termination by (relation "measure (\<lambda>(ht, it). it_left ht it)") (auto simp: it_not_end_def it_next_left)

declare it_collect.simps [simp del]

text \<open>The two kinds of loop over a value.\<close>

definition array_pairs :: "'o zval \<Rightarrow> (array_key \<times> 'o zval) list result" where
  "array_pairs v =
     (case v of Z_array ht _ \<Rightarrow> Inr (it_collect ht (it_begin ht)) | _ \<Rightarrow> Inl (Runtime_error ''Zval is not an array''))"

definition array_values :: "'o zval \<Rightarrow> 'o zval list result" where
  "array_values v =
     (case v of Z_array ht _ \<Rightarrow> Inr (map snd (it_collect ht (it_begin ht))) | _ \<Rightarrow> Inl (Runtime_error ''Zval is not an array''))"

definition defined_elements :: "(array_key \<times> 'o zval) list \<Rightarrow> (array_key \<times> 'o zval) list" where
  "defined_elements ht = filter (\<lambda>(k, v). \<not> isUndef v) ht"

lemma it_collect_moveToValid: "it_collect ht (moveToValid ht i) = defined_elements (drop i ht)"
proof (induction "length ht - i" arbitrary: i rule: less_induct)
  case less
  let ?it = "moveToValid ht i"
  have split: "defined_elements (drop i ht)
      = (case dropWhile (\<lambda>(k, v). isUndef v) (drop i ht) of [] \<Rightarrow> [] | e # es \<Rightarrow> e # defined_elements es)"
  proof -
    have "defined_elements xs = (case dropWhile (\<lambda>(k, v). isUndef v) xs of [] \<Rightarrow> [] | e # es \<Rightarrow> e # defined_elements es)"
      for xs :: "(array_key \<times> 'a zval) list"
      by (induction xs) (auto simp: defined_elements_def)
    then show ?thesis .
  qed
  show ?case
  proof (cases "dropWhile (\<lambda>(k, v). isUndef v) (drop i ht)")
    case Nil
    with moveToValid_drop [where i = i and ht = ht] split show ?thesis by (simp add: it_collect.simps it_not_end_def)
  next
    case (Cons e es)
    with moveToValid_drop [where i = i and ht = ht] have c: "\<not> it_end ?it" "i \<le> it_cursor ?it" "it_cursor ?it < length ht"
      "ht ! it_cursor ?it = e" "drop (Suc (it_cursor ?it)) ht = es" by auto
    have "it_collect ht (it_next ht ?it) = defined_elements es"
    proof (cases "Suc (it_cursor ?it) < length ht")
      case True
      then show ?thesis using less [of "Suc (it_cursor ?it)"] c by (simp add: it_next_def hasMoreElements_def)
    next
      case False
      then have "es = []" using c by auto
      with False show ?thesis
        by (simp add: it_next_def hasMoreElements_def it_collect.simps it_not_end_def defined_elements_def)
    qed
    with c Cons split show ?thesis
      by (simp add: it_collect.simps [of ht ?it] it_not_end_def it_pair_def it_value_def currentData_def)
  qed
qed

lemma it_collect_begin: "it_collect ht (it_begin ht) = defined_elements ht"
proof (cases "getArrayCount ht = 0")
  case True
  then show ?thesis by (simp add: it_begin_def it_collect.simps it_not_end_def getArrayCount_def defined_elements_def)
next
  case False
  then show ?thesis using it_collect_moveToValid [of ht 0] by (simp add: it_begin_def)
qed

lemma array_pairs_simps [simp]:
  "array_pairs (Z_array ht next) = Inr (defined_elements ht)"
  "array_values (Z_array ht next) = Inr (map snd (defined_elements ht))"
  by (simp_all add: array_pairs_def array_values_def it_collect_begin)

text \<open>
  Iterating over a PHP array visits every element that has not been deleted, once and in order, and
  ends; with keys and without. Anything that is not an array is refused.
\<close>

theorem iteration_visits_all:
  "array_pairs v = (case v of Z_array ht next \<Rightarrow> Inr (filter (\<lambda>(k, x). \<not> isUndef x) ht)
                    | _ \<Rightarrow> Inl (Runtime_error ''Zval is not an array'')) \<and>
   array_values v = map_sum id (map snd) (array_pairs v)"
  by (cases v) (simp_all add: array_pairs_def array_values_def it_collect_begin defined_elements_def)

end
