(* ===== verification/Otlp.thy ===== *)
theory Otlp
  imports Zval Strings Utf8
begin

text \<open>
  Export of log records and spans in the OTLP format (\<open>libphpbridge/code/OtlpExporter\<close>): PHP values to
  \<open>AnyValue\<close>, attributes, the identity of resources and scopes, the grouping of a batch by resource and
  scope, and the conversion of log records and spans. The protobuf messages are kept as records of the
  fields the code sets, with the defaults of proto3 for the others; an exception is the \<open>Inl\<close> of a result.
\<close>

subsection \<open>Values and attributes\<close>

datatype AnyValue =
    Any_none
  | Any_array "AnyValue list"
  | Any_kvlist "(string \<times> AnyValue) list"
  | Any_int i64
  | Any_double u64
  | Any_bool bool
  | Any_string string
  | Any_bytes string

text \<open>\<open>nNumOfElements == nNextFreeElement\<close>.\<close>

fun isSimpleArray :: "'o zval \<Rightarrow> bool" where
  "isSimpleArray (Z_array ht nNextFreeElement) \<longleftrightarrow> of_nat (getArrayCount ht) = nNextFreeElement"
| "isSimpleArray _ = False"

definition is_string_key :: "array_key \<Rightarrow> bool" where
  "is_string_key k = (case k of Key_string _ \<Rightarrow> True | Key_index _ \<Rightarrow> False)"

definition key_text :: "array_key \<Rightarrow> string" where
  "key_text k = (case k of Key_string s \<Rightarrow> s | Key_index _ \<Rightarrow> [])"

lemma it_collect_size: "e \<in> set (it_collect ht (it_begin ht)) \<Longrightarrow> size (snd e) < Suc (size_list (size_prod (\<lambda>_. 0) size) ht)"
proof -
  assume "e \<in> set (it_collect ht (it_begin ht))"
  then have "e \<in> set ht" by (simp add: it_collect_begin defined_elements_def)
  then have "size_prod (\<lambda>_. 0) size e \<le> size_list (size_prod (\<lambda>_. 0) size) ht" by (rule size_list_estimation') simp
  then show ?thesis by (cases e) simp
qed

function convertAnyValue :: "'o zval \<Rightarrow> AnyValue" where
  "convertAnyValue (Z_array ht next) =
     (if isSimpleArray (Z_array ht next)
      then Any_array (map (\<lambda>e. convertAnyValue (snd e)) (it_collect ht (it_begin ht)))
      else Any_kvlist (map (\<lambda>e. (key_text (fst e), convertAnyValue (snd e)))
             (filter (\<lambda>e. is_string_key (fst e)) (it_collect ht (it_begin ht)))))"
| "convertAnyValue (Z_long n) = Any_int n"
| "convertAnyValue (Z_double d) = Any_double d"
| "convertAnyValue Z_true = Any_bool True"
| "convertAnyValue Z_false = Any_bool False"
| "convertAnyValue (Z_string valid s) = (if valid \<or> isUtf8 s then Any_string s else Any_bytes s)"
| "convertAnyValue Z_undef = Any_none"
| "convertAnyValue Z_null = Any_none"
| "convertAnyValue (Z_object ob) = Any_none"
| "convertAnyValue Z_resource = Any_none"
| "convertAnyValue (Z_reference v) = Any_none"
  by pat_completeness auto
termination by (relation "measure size") (auto dest: it_collect_size simp: less_Suc_eq_le)

type_synonym key_value = "string \<times> AnyValue"

definition convertAttributes :: "'o php \<Rightarrow> 'o zval \<Rightarrow> key_value list result" where
  "convertAttributes php attributes =
     bind_result (callMethod php attributes ''toArray'') (\<lambda>attributesArray.
     bind_result (array_pairs attributesArray) (\<lambda>ps.
       Inr (map (\<lambda>e. (key_text (fst e), convertAnyValue (snd e))) (filter (\<lambda>e. is_string_key (fst e)) ps))))"

text \<open>Calls followed by a getter. A string field that is not set has the default of proto3.\<close>

definition method_string :: "'o php \<Rightarrow> 'o zval \<Rightarrow> string \<Rightarrow> string result" where
  "method_string php v name = bind_result (callMethod php v name) getStringView"

definition method_long :: "'o php \<Rightarrow> 'o zval \<Rightarrow> string \<Rightarrow> i64 result" where
  "method_long php v name = bind_result (callMethod php v name) getLong"

definition method_boolean :: "'o php \<Rightarrow> 'o zval \<Rightarrow> string \<Rightarrow> bool result" where
  "method_boolean php v name = bind_result (callMethod php v name) getBoolean"

definition optional_text :: "'o zval \<Rightarrow> string" where
  "optional_text v = (case getOptStringView v of Some s \<Rightarrow> s | None \<Rightarrow> [])"

definition method_text :: "'o php \<Rightarrow> 'o zval \<Rightarrow> string \<Rightarrow> string result" where
  "method_text php v name = map_sum id optional_text (callMethod php v name)"

definition dropped_count :: "'o php \<Rightarrow> 'o zval \<Rightarrow> u32 result" where
  "dropped_count php attributes = map_sum id ucast (method_long php attributes ''getDroppedAttributesCount'')"

text \<open>A loop that converts each element; the first failure ends it.\<close>

fun map_result :: "('a \<Rightarrow> 'b result) \<Rightarrow> 'a list \<Rightarrow> 'b list result" where
  "map_result f [] = Inr []"
| "map_result f (x # xs) = bind_result (f x) (\<lambda>y. bind_result (map_result f xs) (\<lambda>ys. Inr (y # ys)))"

subsection \<open>Identities\<close>

definition php_serialize :: "'o php \<Rightarrow> 'o zval list \<Rightarrow> string" where
  "php_serialize php vs = (case serialize_result php vs of Some (Z_string _ s) \<Rightarrow> s | _ \<Rightarrow> [])"

definition getResourceId :: "'o php \<Rightarrow> 'o zval \<Rightarrow> string result" where
  "getResourceId php resourceInfo =
     bind_result (callMethod php resourceInfo ''getSchemaUrl'') (\<lambda>schemaUrl.
     bind_result (callMethod php resourceInfo ''getAttributes'') (\<lambda>attributes.
     bind_result (callMethod php attributes ''getDroppedAttributesCount'') (\<lambda>dropped.
     bind_result (callMethod php attributes ''toArray'') (\<lambda>attributesArray.
       Inr (php_serialize php [schemaUrl, attributesArray, dropped])))))"

definition getScopeId :: "'o php \<Rightarrow> 'o zval \<Rightarrow> string result" where
  "getScopeId php scopeInfo =
     bind_result (callMethod php scopeInfo ''getName'') (\<lambda>name.
     bind_result (callMethod php scopeInfo ''getVersion'') (\<lambda>version.
     bind_result (callMethod php scopeInfo ''getSchemaUrl'') (\<lambda>schemaUrl.
     bind_result (callMethod php scopeInfo ''getAttributes'') (\<lambda>attributes.
     bind_result (callMethod php attributes ''getDroppedAttributesCount'') (\<lambda>dropped.
     bind_result (callMethod php attributes ''toArray'') (\<lambda>attributesArray.
       Inr (php_serialize php [name, version, schemaUrl, attributesArray, dropped])))))))"

subsection \<open>Grouping a batch\<close>

text \<open>
  The loop all three converters share. The request is a list of resources, each with its list of scopes
  and their records; the two hash maps hold pointers into it, here the positions.
\<close>

record ('r, 's, 'x) batch =
  b_request :: "('r \<times> ('s \<times> 'x list) list) list"
  b_resources :: "(string, nat) umap"
  b_scopes :: "(string, nat \<times> nat) umap"

definition new_batch :: "('r, 's, 'x) batch" where
  "new_batch = \<lparr>b_request = [], b_resources = [], b_scopes = []\<rparr>"

definition add_scope :: "nat \<Rightarrow> 's \<Rightarrow> ('r \<times> ('s \<times> 'x list) list) list \<Rightarrow> ('r \<times> ('s \<times> 'x list) list) list" where
  "add_scope i sc req = req[i := (fst (req ! i), snd (req ! i) @ [(sc, [])])]"

definition add_record :: "nat \<Rightarrow> nat \<Rightarrow> 'x \<Rightarrow> ('r \<times> ('s \<times> 'x list) list) list \<Rightarrow> ('r \<times> ('s \<times> 'x list) list) list" where
  "add_record i j x req =
     req[i := (fst (req ! i), (snd (req ! i))[j := (fst (snd (req ! i) ! j), snd (snd (req ! i) ! j) @ [x])])]"

definition batch_resource ::
  "string \<Rightarrow> 'r result \<Rightarrow> ('r, 's, 'x) batch \<Rightarrow> (nat \<times> ('r, 's, 'x) batch) result" where
  "batch_resource resourceId resource b =
     (case map_of (b_resources b) resourceId of
        Some i \<Rightarrow> Inr (i, b)
      | None \<Rightarrow> bind_result resource (\<lambda>r. Inr (length (b_request b),
          b\<lparr>b_request := b_request b @ [(r, [])], b_resources := um_assign resourceId (length (b_request b)) (b_resources b)\<rparr>)))"

definition batch_scope ::
  "string \<Rightarrow> nat \<Rightarrow> 's result \<Rightarrow> ('r, 's, 'x) batch \<Rightarrow> ((nat \<times> nat) \<times> ('r, 's, 'x) batch) result" where
  "batch_scope compositeKey i scope b =
     (case map_of (b_scopes b) compositeKey of
        Some p \<Rightarrow> Inr (p, b)
      | None \<Rightarrow> bind_result scope (\<lambda>sc.
          let p = (i, length (snd (b_request b ! i)))
          in Inr (p, b\<lparr>b_request := add_scope i sc (b_request b), b_scopes := um_assign compositeKey p (b_scopes b)\<rparr>)))"

text \<open>\<open>ids\<close> are the calls that fetch the identities of an item, the others its three conversions.\<close>

definition batch_add ::
  "('i \<Rightarrow> (string \<times> string) result) \<Rightarrow> ('i \<Rightarrow> 'r result) \<Rightarrow> ('i \<Rightarrow> 's result) \<Rightarrow> ('i \<Rightarrow> 'x result)
     \<Rightarrow> 'i \<Rightarrow> ('r, 's, 'x) batch \<Rightarrow> ('r, 's, 'x) batch result" where
  "batch_add ids resource scope leaf it b =
     bind_result (ids it) (\<lambda>(resourceId, scopeId).
     bind_result (batch_resource resourceId (resource it) b) (\<lambda>(i, b1).
     bind_result (batch_scope (resourceId @ ''|'' @ scopeId) i (scope it) b1) (\<lambda>((i', j), b2).
     bind_result (leaf it) (\<lambda>x. Inr (b2\<lparr>b_request := add_record i' j x (b_request b2)\<rparr>)))))"

fun batch_loop ::
  "('i \<Rightarrow> (string \<times> string) result) \<Rightarrow> ('i \<Rightarrow> 'r result) \<Rightarrow> ('i \<Rightarrow> 's result) \<Rightarrow> ('i \<Rightarrow> 'x result)
     \<Rightarrow> 'i list \<Rightarrow> ('r, 's, 'x) batch \<Rightarrow> ('r, 's, 'x) batch result" where
  "batch_loop ids resource scope leaf [] b = Inr b"
| "batch_loop ids resource scope leaf (it # its) b =
     bind_result (batch_add ids resource scope leaf it b) (batch_loop ids resource scope leaf its)"

subsection \<open>What the grouping computes\<close>

text \<open>The first item with each key, in order.\<close>

definition firsts :: "('i \<Rightarrow> 'k) \<Rightarrow> 'i list \<Rightarrow> 'i list" where
  "firsts key xs = fold (\<lambda>x acc. if key x \<in> key ` set acc then acc else acc @ [x]) xs []"

lemma firsts_props:
  "distinct (map key (firsts key xs)) \<and> key ` set (firsts key xs) = key ` set xs \<and> set (firsts key xs) \<subseteq> set xs"
proof (induction xs rule: rev_induct)
  case (snoc x xs)
  then show ?case by (auto simp: firsts_def)
qed (simp add: firsts_def)

lemma firsts_snoc: "firsts key (xs @ [x]) = (if key x \<in> key ` set xs then firsts key xs else firsts key xs @ [x])"
proof -
  have "key ` set (firsts key xs) = key ` set xs" using firsts_props [of key xs] by simp
  then show ?thesis by (simp add: firsts_def)
qed

text \<open>
  The request for the resources \<open>F\<close>, the scopes \<open>S\<close> and the records \<open>xs\<close>: a scope belongs to the resource of
  the item that introduced it, a record to the scope with its composite key.
\<close>

definition grouped ::
  "('i \<Rightarrow> 'k) \<Rightarrow> ('i \<Rightarrow> 'c) \<Rightarrow> ('i \<Rightarrow> 'r) \<Rightarrow> ('i \<Rightarrow> 's) \<Rightarrow> ('i \<Rightarrow> 'x) \<Rightarrow> 'i list \<Rightarrow> 'i list \<Rightarrow> 'i list
     \<Rightarrow> ('r \<times> ('s \<times> 'x list) list) list" where
  "grouped rid ck cr cs cx F S xs =
     map (\<lambda>r. (cr r, map (\<lambda>s. (cs s, map cx (filter (\<lambda>y. ck y = ck s) xs))) (filter (\<lambda>s. rid s = rid r) S))) F"

definition group_batch ::
  "('i \<Rightarrow> 'k) \<Rightarrow> ('i \<Rightarrow> 'c) \<Rightarrow> ('i \<Rightarrow> 'r) \<Rightarrow> ('i \<Rightarrow> 's) \<Rightarrow> ('i \<Rightarrow> 'x) \<Rightarrow> 'i list \<Rightarrow> ('r \<times> ('s \<times> 'x list) list) list" where
  "group_batch rid ck cr cs cx xs = grouped rid ck cr cs cx (firsts rid xs) (firsts ck xs) xs"

definition batch_inv ::
  "('i \<Rightarrow> string) \<Rightarrow> ('i \<Rightarrow> string) \<Rightarrow> ('i \<Rightarrow> 'r) \<Rightarrow> ('i \<Rightarrow> 's) \<Rightarrow> ('i \<Rightarrow> 'x) \<Rightarrow> 'i list \<Rightarrow> 'i list \<Rightarrow> 'i list
     \<Rightarrow> ('r, 's, 'x) batch \<Rightarrow> bool" where
  "batch_inv rid ck cr cs cx F S xs b \<longleftrightarrow>
     b_request b = grouped rid ck cr cs cx F S xs \<and>
     (\<forall>k i. map_of (b_resources b) k = Some i \<longleftrightarrow> i < length F \<and> rid (F ! i) = k) \<and>
     (\<forall>c i j. map_of (b_scopes b) c = Some (i, j) \<longleftrightarrow>
        i < length F \<and> j < length (filter (\<lambda>s. rid s = rid (F ! i)) S) \<and> ck (filter (\<lambda>s. rid s = rid (F ! i)) S ! j) = c)"

lemma map_update_key:
  assumes "distinct (map key F)" and "i < length F"
  shows "(map g F)[i := v] = map (\<lambda>y. if y = F ! i then v else g y) F"
proof (rule nth_equalityI)
  fix j
  assume "j < length ((map g F)[i := v])"
  then show "(map g F)[i := v] ! j = map (\<lambda>y. if y = F ! i then v else g y) F ! j"
    using assms nth_eq_iff_index_eq [of F j i] by (auto simp: nth_list_update distinct_map)
qed simp

lemma distinct_key_nth: "distinct (map key F) \<Longrightarrow> i < length F \<Longrightarrow> y \<in> set F \<Longrightarrow> key y = key (F ! i) \<Longrightarrow> y = F ! i"
  by (metis distinct_map inj_onD nth_mem)

lemma batch_resource_inv:
  assumes inv: "batch_inv rid ck cr cs cx (firsts rid xs) S xs b" and "set S \<subseteq> set xs"
  shows "\<exists>i b'. batch_resource (rid x) (Inr (cr x)) b = Inr (i, b') \<and> batch_inv rid ck cr cs cx (firsts rid (xs @ [x])) S xs b' \<and>
    i < length (firsts rid (xs @ [x])) \<and> rid (firsts rid (xs @ [x]) ! i) = rid x"
proof (cases "map_of (b_resources b) (rid x)")
  case (Some i)
  with inv have i: "i < length (firsts rid xs)" "rid (firsts rid xs ! i) = rid x" by (auto simp: batch_inv_def)
  then have "rid x \<in> rid ` set xs" using firsts_props [of rid xs] by (metis imageI nth_mem)
  with Some i inv show ?thesis by (simp add: batch_resource_def firsts_snoc)
next
  case None
  let ?F = "firsts rid xs"
  have new: "rid x \<notin> rid ` set xs"
  proof
    assume "rid x \<in> rid ` set xs"
    then have "rid x \<in> rid ` set ?F" using firsts_props [of rid xs] by simp
    then obtain y where y: "y \<in> set ?F" "rid y = rid x" by (auto simp: image_iff)
    then obtain i where "i < length ?F" "rid (?F ! i) = rid x" by (auto simp: in_set_conv_nth)
    with inv have "map_of (b_resources b) (rid x) = Some i" by (simp add: batch_inv_def)
    with None show False by simp
  qed
  then have none: "filter (\<lambda>s. rid s = rid x) S = []" 
  proof -
    have "rid s \<noteq> rid x" if "s \<in> set S" for s
      using new assms(2) that by (metis imageI subsetD)
    then show ?thesis by simp
  qed
  have len: "length (b_request b) = length ?F" using inv by (simp add: batch_inv_def grouped_def)
  let ?b = "b\<lparr>b_request := b_request b @ [(cr x, [])], b_resources := um_assign (rid x) (length ?F) (b_resources b)\<rparr>"
  have "batch_inv rid ck cr cs cx (?F @ [x]) S xs ?b"
    unfolding batch_inv_def
  proof (intro conjI allI)
    show "b_request ?b = grouped rid ck cr cs cx (?F @ [x]) S xs"
      using inv none by (simp add: batch_inv_def grouped_def)
    show "map_of (b_resources ?b) k = Some i \<longleftrightarrow> i < length (?F @ [x]) \<and> rid ((?F @ [x]) ! i) = k" for k i
    proof -
      have "rid (?F ! i) \<noteq> rid x" if "i < length ?F"
        using new firsts_props [of rid xs] nth_mem [OF that] by (metis imageI)
      moreover have "map_of (b_resources b) k = Some i \<longleftrightarrow> i < length ?F \<and> rid (?F ! i) = k"
        using inv by (simp add: batch_inv_def)
      ultimately show ?thesis
        by (cases "k = rid x") (auto simp: umap_simps nth_append less_Suc_eq)
    qed
    show "map_of (b_scopes ?b) c = Some (i, j) \<longleftrightarrow> i < length (?F @ [x]) \<and>
        j < length (filter (\<lambda>s. rid s = rid ((?F @ [x]) ! i)) S) \<and> ck (filter (\<lambda>s. rid s = rid ((?F @ [x]) ! i)) S ! j) = c" for c i j
    proof -
      have "map_of (b_scopes b) c = Some (i, j) \<longleftrightarrow> i < length ?F \<and>
          j < length (filter (\<lambda>s. rid s = rid (?F ! i)) S) \<and> ck (filter (\<lambda>s. rid s = rid (?F ! i)) S ! j) = c"
        using inv by (simp add: batch_inv_def)
      then show ?thesis using none by (auto simp: nth_append less_Suc_eq)
    qed
  qed
  then show ?thesis using None new len by (simp add: batch_resource_def firsts_snoc)
qed

lemma filter_snoc_nth:
  assumes "distinct (map rid F)" and "i < length F" and "rid (F ! i) = rid x" and "i' < length F"
  shows "filter (\<lambda>s. rid s = rid (F ! i')) (S @ [x]) = (if i' = i then filter (\<lambda>s. rid s = rid x) S @ [x] else filter (\<lambda>s. rid s = rid (F ! i')) S)"
  using assms nth_eq_iff_index_eq [of "map rid F" i' i] by auto

lemma batch_scope_inv:
  assumes inv: "batch_inv rid ck cr cs cx F (firsts ck xs) xs b" and F: "distinct (map rid F)" "rid ` set xs \<subseteq> rid ` set F"
    and i: "i < length F" "rid (F ! i) = rid x"
  shows "\<exists>i' j b'. batch_scope (ck x) i (Inr (cs x)) b = Inr ((i', j), b') \<and> batch_inv rid ck cr cs cx F (firsts ck (xs @ [x])) xs b' \<and>
    i' < length F \<and> j < length (filter (\<lambda>s. rid s = rid (F ! i')) (firsts ck (xs @ [x]))) \<and>
    ck (filter (\<lambda>s. rid s = rid (F ! i')) (firsts ck (xs @ [x])) ! j) = ck x"
proof (cases "map_of (b_scopes b) (ck x)")
  case (Some p)
  obtain i' j where p: "p = (i', j)" by (rule prod.exhaust)
  with Some inv have ij: "i' < length F" "j < length (filter (\<lambda>s. rid s = rid (F ! i')) (firsts ck xs))"
    "ck (filter (\<lambda>s. rid s = rid (F ! i')) (firsts ck xs) ! j) = ck x" by (auto simp: batch_inv_def)
  then have "filter (\<lambda>s. rid s = rid (F ! i')) (firsts ck xs) ! j \<in> set (firsts ck xs)" using nth_mem by fastforce
  then have "ck x \<in> ck ` set xs" using ij(3) firsts_props [of ck xs] by (metis imageI)
  with Some p ij inv show ?thesis by (simp add: batch_scope_def firsts_snoc)
next
  case None
  let ?S = "firsts ck xs"
  let ?j = "length (filter (\<lambda>s. rid s = rid x) ?S)"
  have new: "ck x \<notin> ck ` set xs"
  proof
    assume "ck x \<in> ck ` set xs"
    then obtain s where s: "s \<in> set ?S" "ck s = ck x" using firsts_props [of ck xs] by (metis imageE)
    then have "rid s \<in> rid ` set F" using F(2) firsts_props [of ck xs] by blast
    then obtain i' where i': "i' < length F" "rid (F ! i') = rid s" by (metis imageE in_set_conv_nth)
    then have "s \<in> set (filter (\<lambda>s. rid s = rid (F ! i')) ?S)" using s by simp
    then obtain j where "j < length (filter (\<lambda>s. rid s = rid (F ! i')) ?S)" "filter (\<lambda>s. rid s = rid (F ! i')) ?S ! j = s"
      by (metis in_set_conv_nth)
    with inv i' s(2) have "map_of (b_scopes b) (ck x) = Some (i', j)" by (simp add: batch_inv_def)
    with None show False by simp
  qed
  then have none: "filter (\<lambda>y. ck y = ck x) xs = []" by (metis (mono_tags, lifting) filter_False image_eqI)
  have len: "length (snd (b_request b ! i)) = ?j" using inv i by (simp add: batch_inv_def grouped_def)
  let ?b = "b\<lparr>b_request := add_scope i (cs x) (b_request b), b_scopes := um_assign (ck x) (i, ?j) (b_scopes b)\<rparr>"
  have S: "filter (\<lambda>s. rid s = rid (F ! i')) (?S @ [x]) = (if i' = i then filter (\<lambda>s. rid s = rid x) ?S @ [x] else filter (\<lambda>s. rid s = rid (F ! i')) ?S)"
    if "i' < length F" for i' by (rule filter_snoc_nth [OF F(1) i that])
  have "batch_inv rid ck cr cs cx F (?S @ [x]) xs ?b"
    unfolding batch_inv_def
  proof (intro conjI allI)
    show "b_request ?b = grouped rid ck cr cs cx F (?S @ [x]) xs"
    proof -
      define g where "g S r = (cr r, map (\<lambda>s. (cs s, map cx (filter (\<lambda>y. ck y = ck s) xs))) (filter (\<lambda>s. rid s = rid r) S))" for S r
      have g: "grouped rid ck cr cs cx F S xs = map (g S) F" for S by (simp add: grouped_def g_def)
      have "add_scope i (cs x) (map (g ?S) F) = (map (g ?S) F)[i := g (?S @ [x]) (F ! i)]"
        using i none by (simp add: add_scope_def g_def)
      also have "\<dots> = map (g (?S @ [x])) F"
      proof -
        have "g (?S @ [x]) r = g ?S r" if r: "r \<in> set F" "r \<noteq> F ! i" for r
          using distinct_key_nth [OF F(1) i(1) r(1)] r(2) i(2) by (auto simp: g_def)
        then show ?thesis by (auto simp: map_update_key [OF F(1) i(1)])
      qed
      finally show ?thesis using inv by (simp add: batch_inv_def g)
    qed
    show "map_of (b_resources ?b) k = Some i' \<longleftrightarrow> i' < length F \<and> rid (F ! i') = k" for k i'
      using inv by (simp add: batch_inv_def)
    show "map_of (b_scopes ?b) c = Some (i', j') \<longleftrightarrow> i' < length F \<and>
        j' < length (filter (\<lambda>s. rid s = rid (F ! i')) (?S @ [x])) \<and> ck (filter (\<lambda>s. rid s = rid (F ! i')) (?S @ [x]) ! j') = c" for c i' j'
    proof (cases "i' < length F")
      case True
      have old: "map_of (b_scopes b) c = Some (i', j') \<longleftrightarrow>
          j' < length (filter (\<lambda>s. rid s = rid (F ! i')) ?S) \<and> ck (filter (\<lambda>s. rid s = rid (F ! i')) ?S ! j') = c"
        using inv True by (simp add: batch_inv_def)
      have fresh: "ck (filter (\<lambda>s. rid s = rid (F ! i')) ?S ! j') \<noteq> ck x"
        if "j' < length (filter (\<lambda>s. rid s = rid (F ! i')) ?S)"
      proof -
        have "filter (\<lambda>s. rid s = rid (F ! i')) ?S ! j' \<in> set ?S" using nth_mem [OF that] by simp
        then have "filter (\<lambda>s. rid s = rid (F ! i')) ?S ! j' \<in> set xs" using firsts_props [of ck xs] by blast
        with new show ?thesis by (metis imageI)
      qed
      show ?thesis
      proof (cases "c = ck x")
        case eq: True
        show ?thesis
        proof (cases "i' = i")
          case True
          with S [OF i(1)] i eq fresh show ?thesis
            by (auto simp: umap_simps nth_append less_Suc_eq)
        next
          case False
          with S [OF True] True eq fresh show ?thesis by (auto simp: umap_simps)
        qed
      next
        case False
        then show ?thesis
          unfolding S [OF True] using True old i by (auto simp: umap_simps nth_append less_Suc_eq)
      qed
    next
      case False
      then show ?thesis using inv i unfolding batch_inv_def by (auto simp: umap_simps)
    qed
  qed
  then show ?thesis using None new len i S [OF i(1)] by (auto simp: batch_scope_def firsts_snoc Let_def nth_append)
qed

lemma filter_key_snoc: "ck x \<noteq> ck s \<Longrightarrow> filter (\<lambda>y. ck y = ck s) (xs @ [x]) = filter (\<lambda>y. ck y = ck s) xs"
  by simp

lemma scopes_add_record:
  assumes "distinct (map ck G)" and "j < length G" and "ck (G ! j) = ck x"
  shows "(map (\<lambda>s. (cs s, map cx (filter (\<lambda>y. ck y = ck s) xs))) G)
      [j := (cs (G ! j), map cx (filter (\<lambda>y. ck y = ck (G ! j)) xs) @ [cx x])]
    = map (\<lambda>s. (cs s, map cx (filter (\<lambda>y. ck y = ck s) (xs @ [x])))) G"
  unfolding map_update_key [OF assms(1,2)]
proof (rule map_cong [OF refl])
  fix s
  assume s: "s \<in> set G"
  show "(if s = G ! j then (cs (G ! j), map cx (filter (\<lambda>y. ck y = ck (G ! j)) xs) @ [cx x])
      else (cs s, map cx (filter (\<lambda>y. ck y = ck s) xs))) = (cs s, map cx (filter (\<lambda>y. ck y = ck s) (xs @ [x])))"
  proof (cases "s = G ! j")
    case True
    with assms(3) show ?thesis by simp
  next
    case False
    then have "ck x \<noteq> ck s" using distinct_key_nth [OF assms(1,2) s] assms(3) by metis
    from filter_key_snoc [where ck = ck, OF this] False show ?thesis by simp
  qed
qed

lemma scopes_of_others:
  assumes "\<And>s. s \<in> set G \<Longrightarrow> ck s \<noteq> ck x"
  shows "map (\<lambda>s. (cs s, map cx (filter (\<lambda>y. ck y = ck s) (xs @ [x])))) G = map (\<lambda>s. (cs s, map cx (filter (\<lambda>y. ck y = ck s) xs))) G"
proof (rule map_cong [OF refl])
  fix s
  assume "s \<in> set G"
  then have "ck x \<noteq> ck s" using assms [of s] by metis
  from filter_key_snoc [where ck = ck, OF this] show "(cs s, map cx (filter (\<lambda>y. ck y = ck s) (xs @ [x]))) = (cs s, map cx (filter (\<lambda>y. ck y = ck s) xs))"
    by simp
qed

lemma grouped_add_record:
  assumes F: "distinct (map rid F)" and S: "distinct (map ck S)" and i: "i < length F"
    and j: "j < length (filter (\<lambda>s. rid s = rid (F ! i)) S)" "ck (filter (\<lambda>s. rid s = rid (F ! i)) S ! j) = ck x"
  shows "add_record i j (cx x) (grouped rid ck cr cs cx F S xs) = grouped rid ck cr cs cx F S (xs @ [x])"
proof -
  let ?G = "filter (\<lambda>s. rid s = rid (F ! i)) S"
  define g where "g ys r = (cr r, map (\<lambda>s. (cs s, map cx (filter (\<lambda>y. ck y = ck s) ys))) (filter (\<lambda>s. rid s = rid r) S))" for ys r
  have g: "grouped rid ck cr cs cx F S ys = map (g ys) F" for ys by (simp add: grouped_def g_def)
  have G: "distinct (map ck ?G)" using S by (rule distinct_map_filter)
  have m: "?G ! j \<in> set S" "rid (?G ! j) = rid (F ! i)" using j(1) nth_mem [of j ?G] by auto
  have "add_record i j (cx x) (map (g xs) F) = (map (g xs) F)[i := g (xs @ [x]) (F ! i)]"
    unfolding g_def scopes_add_record [OF G j, symmetric] using i j(1) by (simp add: add_record_def)
  also have "\<dots> = map (g (xs @ [x])) F"
    unfolding map_update_key [OF F i]
  proof (rule map_cong [OF refl])
    fix r
    assume r: "r \<in> set F"
    have "g (xs @ [x]) r = g xs r" if "r \<noteq> F ! i"
    proof -
      have ne: "ck s \<noteq> ck x" if "s \<in> set (filter (\<lambda>s. rid s = rid r) S)" for s
      proof
        assume "ck s = ck x"
        then have "s = ?G ! j" using S that j(2) m(1) by (metis distinct_map filter_is_subset inj_onD subsetD)
        then have "rid r = rid (F ! i)" using that m(2) by simp
        with distinct_key_nth [OF F i r] \<open>r \<noteq> F ! i\<close> show False by simp
      qed
      show ?thesis
        unfolding g_def by (rule arg_cong [where f = "Pair (cr r)"], rule scopes_of_others, rule ne)
    qed
    then show "(if r = F ! i then g (xs @ [x]) (F ! i) else g xs r) = g (xs @ [x]) r" by simp
  qed
  finally show ?thesis by (simp only: g)
qed

lemma batch_record_inv:
  assumes "batch_inv rid ck cr cs cx F S xs b" and "distinct (map rid F)" and "distinct (map ck S)" and "i < length F"
    and "j < length (filter (\<lambda>s. rid s = rid (F ! i)) S)" and "ck (filter (\<lambda>s. rid s = rid (F ! i)) S ! j) = ck x"
  shows "batch_inv rid ck cr cs cx F S (xs @ [x]) (b\<lparr>b_request := add_record i j (cx x) (b_request b)\<rparr>)"
proof -
  have "b_request b = grouped rid ck cr cs cx F S xs" using assms(1) by (simp add: batch_inv_def)
  with grouped_add_record [OF assms(2-)] assms(1) show ?thesis by (simp add: batch_inv_def)
qed

text \<open>
  The loop on a batch whose items all convert: the request is the batch grouped by resource and scope.
\<close>

lemma batch_step:
  assumes inv: "batch_inv rid ck cr cs cx (firsts rid xs) (firsts ck xs) xs b"
    and it: "ids x = Inr (rid x, sid)" "ck x = rid x @ ''|'' @ sid" "resource x = Inr (cr x)" "scope x = Inr (cs x)" "leaf x = Inr (cx x)"
  shows "\<exists>b'. batch_add ids resource scope leaf x b = Inr b' \<and>
    batch_inv rid ck cr cs cx (firsts rid (xs @ [x])) (firsts ck (xs @ [x])) (xs @ [x]) b'"
proof -
  let ?F = "firsts rid (xs @ [x])" and ?S = "firsts ck (xs @ [x])"
  have F: "distinct (map rid ?F)" "rid ` set xs \<subseteq> rid ` set ?F" and S: "distinct (map ck ?S)"
    using firsts_props [of rid "xs @ [x]"] firsts_props [of ck "xs @ [x]"] by auto
  have "set (firsts ck xs) \<subseteq> set xs" using firsts_props [of ck xs] by simp
  from batch_resource_inv [OF inv this, of x] obtain i b1 where 1: "batch_resource (rid x) (Inr (cr x)) b = Inr (i, b1)"
    "batch_inv rid ck cr cs cx ?F (firsts ck xs) xs b1" "i < length ?F" "rid (?F ! i) = rid x" by blast
  from batch_scope_inv [OF 1(2) F 1(3,4)] obtain i' j b2 where 2: "batch_scope (ck x) i (Inr (cs x)) b1 = Inr ((i', j), b2)"
    "batch_inv rid ck cr cs cx ?F ?S xs b2" "i' < length ?F" "j < length (filter (\<lambda>s. rid s = rid (?F ! i')) ?S)"
    "ck (filter (\<lambda>s. rid s = rid (?F ! i')) ?S ! j) = ck x" by blast
  from batch_record_inv [OF 2(2) F(1) S 2(3,4,5)] show ?thesis
    using 1(1) 2(1) it by (simp add: batch_add_def)
qed

lemma batch_loop_grouped:
  assumes "batch_inv rid ck cr cs cx (firsts rid xs) (firsts ck xs) xs b"
    and "\<forall>x\<in>set ys. (\<exists>sid. ids x = Inr (rid x, sid) \<and> ck x = rid x @ ''|'' @ sid) \<and> resource x = Inr (cr x) \<and> scope x = Inr (cs x) \<and> leaf x = Inr (cx x)"
  shows "\<exists>b'. batch_loop ids resource scope leaf ys b = Inr b' \<and> b_request b' = group_batch rid ck cr cs cx (xs @ ys)"
  using assms
proof (induction ys arbitrary: xs b)
  case Nil
  then show ?case by (simp add: batch_inv_def group_batch_def)
next
  case (Cons y ys)
  then obtain sid where y: "ids y = Inr (rid y, sid)" "ck y = rid y @ ''|'' @ sid" "resource y = Inr (cr y)" "scope y = Inr (cs y)" "leaf y = Inr (cx y)"
    by auto
  from batch_step [where ids = ids and resource = resource and scope = scope and leaf = leaf, OF Cons.prems(1) y] obtain b' where b': "batch_add ids resource scope leaf y b = Inr b'"
    "batch_inv rid ck cr cs cx (firsts rid (xs @ [y])) (firsts ck (xs @ [y])) (xs @ [y]) b'" by blast
  from Cons.IH [OF b'(2)] Cons.prems(2) show ?case by (simp add: b'(1))
qed

lemma new_batch_inv: "batch_inv rid ck cr cs cx (firsts rid []) (firsts ck []) [] new_batch"
  by (simp add: batch_inv_def grouped_def firsts_def new_batch_def)

end
