(* ===== verification/OtlpSignals.thy ===== *)
theory OtlpSignals
  imports Otlp "HOL-Library.Multiset"
begin

text \<open>
  The converters of log records (\<open>LogsConverter.h\<close>), spans (\<open>SpanConverter.h\<close>) and metrics
  (\<open>MetricConverter.h\<close>) on top of the grouping of \<open>Otlp\<close>.
\<close>

subsection \<open>Resources and scopes\<close>

record resource_message =
  rs_attributes :: "key_value list"
  rs_dropped_attributes_count :: u32
  rs_schema_url :: string

record scope_message =
  sc_name :: string
  sc_version :: string
  sc_attributes :: "key_value list"
  sc_dropped_attributes_count :: u32
  sc_schema_url :: string

definition convertResourceLogs :: "'o php \<Rightarrow> 'o zval \<Rightarrow> resource_message result" where
  "convertResourceLogs php resourceInfo =
     bind_result (callMethod php resourceInfo ''getAttributes'') (\<lambda>attributes.
     bind_result (convertAttributes php attributes) (\<lambda>kvs.
     bind_result (dropped_count php attributes) (\<lambda>n.
       Inr \<lparr>rs_attributes = kvs, rs_dropped_attributes_count = n, rs_schema_url = []\<rparr>)))"

definition convertInstrumentationScope :: "'o php \<Rightarrow> 'o zval \<Rightarrow> scope_message result" where
  "convertInstrumentationScope php scopeInfo =
     bind_result (method_string php scopeInfo ''getName'') (\<lambda>name.
     bind_result (method_text php scopeInfo ''getVersion'') (\<lambda>version.
     bind_result (callMethod php scopeInfo ''getAttributes'') (\<lambda>attributes.
     bind_result (convertAttributes php attributes) (\<lambda>kvs.
     bind_result (dropped_count php attributes) (\<lambda>n.
     bind_result (method_text php scopeInfo ''getSchemaUrl'') (\<lambda>schemaUrl.
       Inr \<lparr>sc_name = name, sc_version = version, sc_attributes = kvs, sc_dropped_attributes_count = n, sc_schema_url = schemaUrl\<rparr>))))))"

subsection \<open>Log records\<close>

record log_record =
  lr_body :: "AnyValue option"
  lr_time_unix_nano :: u64
  lr_observed_time_unix_nano :: u64
  lr_trace_id :: string
  lr_span_id :: string
  lr_flags :: u32
  lr_severity_number :: u32
  lr_severity_text :: string
  lr_attributes :: "key_value list"
  lr_dropped_attributes_count :: u32

definition long_or_zero :: "'o zval \<Rightarrow> i64" where
  "long_or_zero v = (case getOptLong v of Some n \<Rightarrow> n | None \<Rightarrow> 0)"

text \<open>The trace context of a log record: trace id, span id and flags, empty when there is no valid one.\<close>

definition log_context :: "'o php \<Rightarrow> 'o zval \<Rightarrow> (string \<times> string \<times> u32) result" where
  "log_context php spanContext =
     (if isNull spanContext then Inr ([], [], 0)
      else
        bind_result (method_boolean php spanContext ''isValid'') (\<lambda>valid.
          if \<not> valid then Inr ([], [], 0)
          else
            bind_result (method_string php spanContext ''getTraceIdBinary'') (\<lambda>traceId.
            bind_result (method_string php spanContext ''getSpanIdBinary'') (\<lambda>spanId.
            bind_result (method_long php spanContext ''getTraceFlags'') (\<lambda>flags.
              Inr (traceId, spanId, ucast flags))))))"

definition convertLogRecord :: "'o php \<Rightarrow> 'o zval \<Rightarrow> log_record result" where
  "convertLogRecord php log =
     bind_result (callMethod php log ''getBody'') (\<lambda>body.
     bind_result (callMethod php log ''getTimestamp'') (\<lambda>timestamp.
     bind_result (callMethod php log ''getObservedTimestamp'') (\<lambda>observed.
     bind_result (callMethod php log ''getSpanContext'') (\<lambda>spanContext.
     bind_result (log_context php spanContext) (\<lambda>(traceId, spanId, flags).
     bind_result (callMethod php log ''getSeverityNumber'') (\<lambda>severityNumber.
     bind_result (callMethod php log ''getSeverityText'') (\<lambda>severityText.
     bind_result (callMethod php log ''getAttributes'') (\<lambda>attributes.
     bind_result (convertAttributes php attributes) (\<lambda>kvs.
     bind_result (dropped_count php attributes) (\<lambda>n.
       Inr \<lparr>lr_body = (if \<not> isNull body \<and> \<not> isUndef body then Some (convertAnyValue body) else None),
            lr_time_unix_nano = long_or_zero timestamp, lr_observed_time_unix_nano = long_or_zero observed,
            lr_trace_id = traceId, lr_span_id = spanId, lr_flags = flags,
            lr_severity_number = ucast (long_or_zero severityNumber), lr_severity_text = optional_text severityText,
            lr_attributes = kvs, lr_dropped_attributes_count = n\<rparr>))))))))))"

definition log_ids :: "'o php \<Rightarrow> 'o zval \<Rightarrow> (string \<times> string) result" where
  "log_ids php log =
     bind_result (callMethod php log ''getResource'') (\<lambda>resourceInfo.
     bind_result (callMethod php log ''getInstrumentationScope'') (\<lambda>instrumentationScope.
     bind_result (getResourceId php resourceInfo) (\<lambda>resourceId.
     bind_result (getScopeId php instrumentationScope) (\<lambda>scopeId. Inr (resourceId, scopeId)))))"

type_synonym ('r, 's, 'x) export_request = "('r \<times> ('s \<times> 'x list) list) list"

definition logs_convert :: "'o php \<Rightarrow> 'o zval \<Rightarrow> (resource_message, scope_message, log_record) export_request result" where
  "logs_convert php logs =
     (if \<not> isArray logs then Inl (Runtime_error ''Invalid iterable passed to LogsConverter'')
      else
        bind_result (array_values logs) (\<lambda>items.
        map_sum id b_request (batch_loop (log_ids php)
          (\<lambda>log. bind_result (callMethod php log ''getResource'') (convertResourceLogs php))
          (\<lambda>log. bind_result (callMethod php log ''getInstrumentationScope'') (convertInstrumentationScope php))
          (convertLogRecord php) items new_batch)))"

subsection \<open>Spans\<close>

definition convertResourceSpans :: "'o php \<Rightarrow> 'o zval \<Rightarrow> resource_message result" where
  "convertResourceSpans php resourceInfo =
     bind_result (method_text php resourceInfo ''getSchemaUrl'') (\<lambda>schemaUrl.
     bind_result (callMethod php resourceInfo ''getAttributes'') (\<lambda>attributes.
     bind_result (convertAttributes php attributes) (\<lambda>kvs.
     bind_result (dropped_count php attributes) (\<lambda>n.
       Inr \<lparr>rs_attributes = kvs, rs_dropped_attributes_count = n, rs_schema_url = schemaUrl\<rparr>))))"

text \<open>The same calls in the same order as \<open>convertInstrumentationScope\<close>.\<close>

definition convertScopeSpans :: "'o php \<Rightarrow> 'o zval \<Rightarrow> scope_message result" where
  "convertScopeSpans php instrumentationScope = convertInstrumentationScope php instrumentationScope"

datatype span_kind = Kind_unspecified | Kind_internal | Kind_server | Kind_client | Kind_producer | Kind_consumer

definition convertSpanKind :: "u32 \<Rightarrow> span_kind" where
  "convertSpanKind kind =
     (if kind = 0 then Kind_internal else if kind = 1 then Kind_client else if kind = 2 then Kind_server
      else if kind = 3 then Kind_producer else if kind = 4 then Kind_consumer else Kind_unspecified)"

datatype status_code = Status_unset | Status_ok | Status_error

definition convertStatusCode :: "string \<Rightarrow> status_code" where
  "convertStatusCode status =
     (if istring_eq status ''Unset'' then Status_unset
      else if istring_eq status ''Ok'' then Status_ok
      else if istring_eq status ''Error'' then Status_error
      else Status_unset)"

definition addRemoteFlags :: "'o php \<Rightarrow> 'o zval \<Rightarrow> u32 \<Rightarrow> u32 result" where
  "addRemoteFlags php spanContext baseFlags =
     bind_result (method_boolean php spanContext ''isRemote'') (\<lambda>remote.
       let flags = baseFlags OR 0x100
       in Inr (if remote then flags OR 0x200 else flags))"

definition buildFlagsForSpan :: "'o php \<Rightarrow> 'o zval \<Rightarrow> 'o zval \<Rightarrow> u32 result" where
  "buildFlagsForSpan php spanContext parentSpanContext =
     bind_result (method_long php spanContext ''getTraceFlags'') (\<lambda>flags. addRemoteFlags php parentSpanContext (ucast flags))"

definition buildFlagsForLink :: "'o php \<Rightarrow> 'o zval \<Rightarrow> u32 result" where
  "buildFlagsForLink php linkSpanContext =
     bind_result (method_long php linkSpanContext ''getTraceFlags'') (\<lambda>flags. addRemoteFlags php linkSpanContext (ucast flags))"

record span_event =
  ev_time_unix_nano :: u64
  ev_name :: string
  ev_attributes :: "key_value list"
  ev_dropped_attributes_count :: u32

record span_link =
  ln_trace_id :: string
  ln_span_id :: string
  ln_flags :: u32
  ln_trace_state :: string
  ln_attributes :: "key_value list"
  ln_dropped_attributes_count :: u32

record span_message =
  sp_trace_id :: string
  sp_span_id :: string
  sp_flags :: u32
  sp_trace_state :: string
  sp_parent_span_id :: string
  sp_name :: string
  sp_kind :: span_kind
  sp_start_time_unix_nano :: u64
  sp_end_time_unix_nano :: u64
  sp_attributes :: "key_value list"
  sp_dropped_attributes_count :: u32
  sp_events :: "span_event list"
  sp_dropped_events_count :: u32
  sp_links :: "span_link list"
  sp_dropped_links_count :: u32
  sp_status_message :: string
  sp_status_code :: status_code

text \<open>\<open>traceState.isObject()\<close> and its text.\<close>

definition trace_state_text :: "'o php \<Rightarrow> 'o zval \<Rightarrow> string result" where
  "trace_state_text php context =
     bind_result (callMethod php context ''getTraceState'') (\<lambda>traceState.
       if isObject traceState then method_string php traceState ''__toString'' else Inr [])"

definition convertEvent :: "'o php \<Rightarrow> 'o zval \<Rightarrow> span_event result" where
  "convertEvent php event =
     bind_result (method_long php event ''getEpochNanos'') (\<lambda>t.
     bind_result (method_string php event ''getName'') (\<lambda>name.
     bind_result (callMethod php event ''getAttributes'') (\<lambda>attributes.
     bind_result (convertAttributes php attributes) (\<lambda>kvs.
     bind_result (dropped_count php attributes) (\<lambda>n.
       Inr \<lparr>ev_time_unix_nano = t, ev_name = name, ev_attributes = kvs, ev_dropped_attributes_count = n\<rparr>)))))"

definition convertLink :: "'o php \<Rightarrow> 'o zval \<Rightarrow> span_link result" where
  "convertLink php link =
     bind_result (callMethod php link ''getSpanContext'') (\<lambda>linkSpanContext.
     bind_result (method_string php linkSpanContext ''getTraceIdBinary'') (\<lambda>traceId.
     bind_result (method_string php linkSpanContext ''getSpanIdBinary'') (\<lambda>spanId.
     bind_result (buildFlagsForLink php linkSpanContext) (\<lambda>flags.
     bind_result (trace_state_text php linkSpanContext) (\<lambda>traceState.
     bind_result (callMethod php link ''getAttributes'') (\<lambda>attributes.
     bind_result (convertAttributes php attributes) (\<lambda>kvs.
     bind_result (dropped_count php attributes) (\<lambda>n.
       Inr \<lparr>ln_trace_id = traceId, ln_span_id = spanId, ln_flags = flags, ln_trace_state = traceState,
            ln_attributes = kvs, ln_dropped_attributes_count = n\<rparr>))))))))"

definition span_context :: "'o php \<Rightarrow> 'o zval \<Rightarrow> (string \<times> string \<times> u32 \<times> string \<times> string) result" where
  "span_context php span =
     bind_result (callMethod php span ''getContext'') (\<lambda>context.
     bind_result (method_string php context ''getTraceIdBinary'') (\<lambda>traceId.
     bind_result (method_string php context ''getSpanIdBinary'') (\<lambda>spanId.
     bind_result (callMethod php span ''getParentContext'') (\<lambda>parentSpanContext.
     bind_result (buildFlagsForSpan php context parentSpanContext) (\<lambda>flags.
     bind_result (trace_state_text php context) (\<lambda>traceState.
     bind_result (method_boolean php parentSpanContext ''isValid'') (\<lambda>valid.
     bind_result (if valid then method_string php parentSpanContext ''getSpanIdBinary'' else Inr []) (\<lambda>parentId.
       Inr (traceId, spanId, flags, traceState, parentId)))))))))"

definition convertSpan :: "'o php \<Rightarrow> 'o zval \<Rightarrow> span_message result" where
  "convertSpan php span =
     bind_result (span_context php span) (\<lambda>(traceId, spanId, flags, traceState, parentId).
     bind_result (method_string php span ''getName'') (\<lambda>name.
     bind_result (method_long php span ''getKind'') (\<lambda>kind.
     bind_result (method_long php span ''getStartEpochNanos'') (\<lambda>start.
     bind_result (method_long php span ''getEndEpochNanos'') (\<lambda>finish.
     bind_result (callMethod php span ''getAttributes'') (\<lambda>attributes.
     bind_result (dropped_count php attributes) (\<lambda>droppedAttributes.
     bind_result (convertAttributes php attributes) (\<lambda>kvs.
     bind_result (bind_result (callMethod php span ''getEvents'') array_values) (\<lambda>events.
     bind_result (map_result (convertEvent php) events) (\<lambda>outEvents.
     bind_result (method_long php span ''getTotalDroppedEvents'') (\<lambda>droppedEvents.
     bind_result (bind_result (callMethod php span ''getLinks'') array_values) (\<lambda>links.
     bind_result (map_result (convertLink php) links) (\<lambda>outLinks.
     bind_result (method_long php span ''getTotalDroppedLinks'') (\<lambda>droppedLinks.
     bind_result (callMethod php span ''getStatus'') (\<lambda>status.
     bind_result (method_string php status ''getDescription'') (\<lambda>description.
     bind_result (method_string php status ''getCode'') (\<lambda>statusCode.
       Inr \<lparr>sp_trace_id = traceId, sp_span_id = spanId, sp_flags = flags, sp_trace_state = traceState,
            sp_parent_span_id = parentId, sp_name = name, sp_kind = convertSpanKind (ucast kind),
            sp_start_time_unix_nano = start, sp_end_time_unix_nano = finish,
            sp_attributes = kvs, sp_dropped_attributes_count = droppedAttributes,
            sp_events = outEvents, sp_dropped_events_count = ucast droppedEvents,
            sp_links = outLinks, sp_dropped_links_count = ucast droppedLinks,
            sp_status_message = description, sp_status_code = convertStatusCode statusCode\<rparr>)))))))))))))))))"

text \<open>A PHP class name: the parts joined by backslashes.\<close>

fun qualified_name :: "string list \<Rightarrow> string" where
  "qualified_name [] = []"
| "qualified_name [x] = x"
| "qualified_name (x # xs) = x @ CHR 0x5C # qualified_name xs"

definition span_resource :: "'o php \<Rightarrow> 'o zval \<Rightarrow> 'o zval result" where
  "span_resource php span =
     bind_result (assertObjectType php span (qualified_name [''OpenTelemetry'', ''SDK'', ''Trace'', ''ImmutableSpan''])) (\<lambda>s. callMethod php s ''getResource'')"

definition span_ids :: "'o php \<Rightarrow> 'o zval \<Rightarrow> (string \<times> string) result" where
  "span_ids php span =
     bind_result (span_resource php span) (\<lambda>resourceInfo.
     bind_result (callMethod php span ''getInstrumentationScope'') (\<lambda>instrumentationScope.
     bind_result (getResourceId php resourceInfo) (\<lambda>resourceId.
     bind_result (getScopeId php instrumentationScope) (\<lambda>scopeId. Inr (resourceId, scopeId)))))"

definition spans_convert :: "'o php \<Rightarrow> 'o zval \<Rightarrow> (resource_message, scope_message, span_message) export_request result" where
  "spans_convert php spans =
     (if \<not> isArray spans then Inl (Runtime_error ''Invalid iterable passed to SpanConverter'')
      else
        bind_result (array_values spans) (\<lambda>items.
        map_sum id b_request (batch_loop (span_ids php)
          (\<lambda>span. bind_result (span_resource php span) (convertResourceSpans php))
          (\<lambda>span. bind_result (callMethod php span ''getInstrumentationScope'') (convertScopeSpans php))
          (convertSpan php) items new_batch)))"

subsection \<open>Metrics\<close>

definition convertResourceMetrics :: "'o php \<Rightarrow> 'o zval \<Rightarrow> resource_message result" where
  "convertResourceMetrics php resource =
     bind_result (callMethod php resource ''getAttributes'') (\<lambda>attributes.
     bind_result (convertAttributes php attributes) (\<lambda>kvs.
     bind_result (dropped_count php attributes) (\<lambda>n.
     bind_result (method_text php resource ''getSchemaUrl'') (\<lambda>schemaUrl.
       Inr \<lparr>rs_attributes = kvs, rs_dropped_attributes_count = n, rs_schema_url = schemaUrl\<rparr>))))"

text \<open>The same calls in the same order as \<open>convertInstrumentationScope\<close>.\<close>

definition convertScopeMetrics :: "'o php \<Rightarrow> 'o zval \<Rightarrow> scope_message result" where
  "convertScopeMetrics php scopeMetrics = convertInstrumentationScope php scopeMetrics"

definition property_string :: "'o php \<Rightarrow> 'o zval \<Rightarrow> string \<Rightarrow> string result" where
  "property_string php v name = bind_result (readProperty php v name) getStringView"

definition property_long :: "'o php \<Rightarrow> 'o zval \<Rightarrow> string \<Rightarrow> i64 result" where
  "property_long php v name = bind_result (readProperty php v name) getLong"

definition property_values :: "'o php \<Rightarrow> 'o zval \<Rightarrow> string \<Rightarrow> 'o zval list result" where
  "property_values php v name = bind_result (readProperty php v name) array_values"

text \<open>The value of a point or an exemplar: an integer, a double, or none.\<close>

datatype number_value = As_none | As_int i64 | As_double u64

fun value_of_point :: "'o zval \<Rightarrow> number_value" where
  "value_of_point (Z_long n) = As_int n"
| "value_of_point (Z_double d) = As_double d"
| "value_of_point _ = As_none"

text \<open>\<open>boost::algorithm::unhex\<close> is a parameter; \<open>None\<close> stands for its exceptions, which derive from \<open>std::exception\<close>.\<close>

definition hex2bin :: "(string \<Rightarrow> string option) \<Rightarrow> string \<Rightarrow> string result" where
  "hex2bin unhex input =
     (if odd (length input) then Inl (Invalid_argument ''hex2bin: input string must have even length'')
      else case unhex input of None \<Rightarrow> Inl (Runtime_error ''unhex'') | Some s \<Rightarrow> Inr s)"

definition optional_hex :: "(string \<Rightarrow> string option) \<Rightarrow> 'o zval \<Rightarrow> string result" where
  "optional_hex unhex v = (case getOptStringView v of Some s \<Rightarrow> hex2bin unhex s | None \<Rightarrow> Inr [])"

record exemplar =
  xm_filtered_attributes :: "key_value list"
  xm_time_unix_nano :: u64
  xm_span_id :: string
  xm_trace_id :: string
  xm_value :: number_value

definition convertExemplar :: "(string \<Rightarrow> string option) \<Rightarrow> 'o php \<Rightarrow> 'o zval \<Rightarrow> exemplar result" where
  "convertExemplar unhex php ex =
     bind_result (bind_result (readProperty php ex ''attributes'') (convertAttributes php)) (\<lambda>kvs.
     bind_result (property_long php ex ''timestamp'') (\<lambda>t.
     bind_result (bind_result (readProperty php ex ''spanId'') (optional_hex unhex)) (\<lambda>spanId.
     bind_result (bind_result (readProperty php ex ''traceId'') (optional_hex unhex)) (\<lambda>traceId.
     bind_result (readProperty php ex ''value'') (\<lambda>val.
       Inr \<lparr>xm_filtered_attributes = kvs, xm_time_unix_nano = t, xm_span_id = spanId, xm_trace_id = traceId,
            xm_value = value_of_point val\<rparr>)))))"

record number_point =
  np_attributes :: "key_value list"
  np_start_time_unix_nano :: u64
  np_time_unix_nano :: u64
  np_value :: number_value
  np_exemplars :: "exemplar list"

definition convertNumberDataPoint :: "(string \<Rightarrow> string option) \<Rightarrow> 'o php \<Rightarrow> 'o zval \<Rightarrow> number_point result" where
  "convertNumberDataPoint unhex php point =
     bind_result (bind_result (readProperty php point ''attributes'') (convertAttributes php)) (\<lambda>kvs.
     bind_result (property_long php point ''startTimestamp'') (\<lambda>start.
     bind_result (property_long php point ''timestamp'') (\<lambda>t.
     bind_result (readProperty php point ''value'') (\<lambda>val.
     bind_result (property_values php point ''exemplars'') (\<lambda>exemplars.
     bind_result (map_result (convertExemplar unhex php) exemplars) (\<lambda>outExemplars.
       Inr \<lparr>np_attributes = kvs, np_start_time_unix_nano = start, np_time_unix_nano = t,
            np_value = value_of_point val, np_exemplars = outExemplars\<rparr>))))))"

record histogram_point =
  hp_attributes :: "key_value list"
  hp_start_time_unix_nano :: u64
  hp_time_unix_nano :: u64
  hp_count :: u64
  hp_sum :: u64
  hp_bucket_counts :: "u64 list"
  hp_explicit_bounds :: "u64 list"
  hp_exemplars :: "exemplar list"

definition convertHistogramDataPoint :: "(string \<Rightarrow> string option) \<Rightarrow> 'o php \<Rightarrow> 'o zval \<Rightarrow> histogram_point result" where
  "convertHistogramDataPoint unhex php point =
     bind_result (bind_result (readProperty php point ''attributes'') (convertAttributes php)) (\<lambda>kvs.
     bind_result (property_long php point ''startTimestamp'') (\<lambda>start.
     bind_result (property_long php point ''timestamp'') (\<lambda>t.
     bind_result (property_long php point ''count'') (\<lambda>n.
     bind_result (bind_result (readProperty php point ''sum'') getNumberAsDouble) (\<lambda>total.
     bind_result (property_values php point ''bucketCounts'') (\<lambda>counts.
     bind_result (map_result getLong counts) (\<lambda>outCounts.
     bind_result (property_values php point ''explicitBounds'') (\<lambda>bounds.
     bind_result (map_result getNumberAsDouble bounds) (\<lambda>outBounds.
     bind_result (property_values php point ''exemplars'') (\<lambda>exemplars.
     bind_result (map_result (convertExemplar unhex php) exemplars) (\<lambda>outExemplars.
       Inr \<lparr>hp_attributes = kvs, hp_start_time_unix_nano = start, hp_time_unix_nano = t, hp_count = n, hp_sum = total,
            hp_bucket_counts = outCounts, hp_explicit_bounds = outBounds, hp_exemplars = outExemplars\<rparr>)))))))))))"

datatype temporality = Temporality_unspecified | Temporality_delta | Temporality_cumulative

fun convertTemporality :: "'o zval \<Rightarrow> temporality result" where
  "convertTemporality (Z_long n) =
     Inr (if n = 1 then Temporality_delta else if n = 2 then Temporality_cumulative else Temporality_unspecified)"
| "convertTemporality (Z_string valid s) =
     Inr (if istring_eq s ''Delta'' then Temporality_delta
          else if istring_eq s ''Cumulative'' then Temporality_cumulative
          else Temporality_unspecified)"
| "convertTemporality _ =
     Inl (Runtime_error ''Invalid temporality value: expected int or string (DELTA, CUMULATIVE, UNSPECIFIED)'')"

datatype metric_data =
    Metric_none
  | Metric_gauge "number_point list"
  | Metric_sum "number_point list" bool temporality
  | Metric_histogram "histogram_point list" temporality

definition convertGauge :: "(string \<Rightarrow> string option) \<Rightarrow> 'o php \<Rightarrow> 'o zval \<Rightarrow> metric_data result" where
  "convertGauge unhex php gauge =
     bind_result (property_values php gauge ''dataPoints'') (\<lambda>points.
     bind_result (map_result (convertNumberDataPoint unhex php) points) (\<lambda>out. Inr (Metric_gauge out)))"

definition convertSum :: "(string \<Rightarrow> string option) \<Rightarrow> 'o php \<Rightarrow> 'o zval \<Rightarrow> metric_data result" where
  "convertSum unhex php summed =
     bind_result (property_values php summed ''dataPoints'') (\<lambda>points.
     bind_result (map_result (convertNumberDataPoint unhex php) points) (\<lambda>out.
     bind_result (bind_result (readProperty php summed ''monotonic'') getBoolean) (\<lambda>monotonic.
     bind_result (bind_result (readProperty php summed ''temporality'') convertTemporality) (\<lambda>t. Inr (Metric_sum out monotonic t)))))"

definition convertHistogram :: "(string \<Rightarrow> string option) \<Rightarrow> 'o php \<Rightarrow> 'o zval \<Rightarrow> metric_data result" where
  "convertHistogram unhex php hist =
     bind_result (property_values php hist ''dataPoints'') (\<lambda>points.
     bind_result (map_result (convertHistogramDataPoint unhex php) points) (\<lambda>out.
     bind_result (bind_result (readProperty php hist ''temporality'') convertTemporality) (\<lambda>t. Inr (Metric_histogram out t))))"

definition convertMetricData :: "(string \<Rightarrow> string option) \<Rightarrow> 'o php \<Rightarrow> 'o zval \<Rightarrow> metric_data result" where
  "convertMetricData unhex php data =
     bind_result (instanceOf php data (qualified_name [''OpenTelemetry'', ''SDK'', ''Metrics'', ''Data'', ''Gauge''])) (\<lambda>gauge.
     if gauge then convertGauge unhex php data
     else
       bind_result (instanceOf php data (qualified_name [''OpenTelemetry'', ''SDK'', ''Metrics'', ''Data'', ''Sum''])) (\<lambda>summing.
       if summing then convertSum unhex php data
       else
         bind_result (instanceOf php data (qualified_name [''OpenTelemetry'', ''SDK'', ''Metrics'', ''Data'', ''Histogram''])) (\<lambda>hist.
         if hist then convertHistogram unhex php data else Inr Metric_none)))"

record metric_message =
  mt_name :: string
  mt_description :: string
  mt_unit :: string
  mt_data :: metric_data

definition convertMetric :: "(string \<Rightarrow> string option) \<Rightarrow> 'o php \<Rightarrow> 'o zval \<Rightarrow> metric_message result" where
  "convertMetric unhex php metric =
     bind_result (property_string php metric ''name'') (\<lambda>name.
     bind_result (readProperty php metric ''description'') (\<lambda>description.
     bind_result (readProperty php metric ''unit'') (\<lambda>unit.
     bind_result (bind_result (readProperty php metric ''data'') (convertMetricData unhex php)) (\<lambda>data.
       Inr \<lparr>mt_name = name, mt_description = optional_text description, mt_unit = optional_text unit, mt_data = data\<rparr>))))"

definition metric_ids :: "'o php \<Rightarrow> 'o zval \<Rightarrow> (string \<times> string) result" where
  "metric_ids php metric =
     bind_result (readProperty php metric ''resource'') (\<lambda>resource.
     bind_result (readProperty php metric ''instrumentationScope'') (\<lambda>scope.
     bind_result (getResourceId php resource) (\<lambda>resourceId.
     bind_result (getScopeId php scope) (\<lambda>scopeId. Inr (resourceId, scopeId)))))"

definition metrics_convert ::
  "(string \<Rightarrow> string option) \<Rightarrow> 'o php \<Rightarrow> 'o zval \<Rightarrow> (resource_message, scope_message, metric_message) export_request result" where
  "metrics_convert unhex php metrics =
     (if \<not> isArray metrics then Inl (Runtime_error ''Invalid iterable passed to MetricsConverter'')
      else
        bind_result (array_values metrics) (\<lambda>items.
        map_sum id b_request (batch_loop (metric_ids php)
          (\<lambda>metric. bind_result (readProperty php metric ''resource'') (convertResourceMetrics php))
          (\<lambda>metric. bind_result (readProperty php metric ''instrumentationScope'') (convertScopeMetrics php))
          (convertMetric unhex php) items new_batch)))"

subsection \<open>Nothing lost, nothing twice\<close>

lemma mset_partition:
  "distinct (map key F) \<Longrightarrow> mset (concat (map (\<lambda>r. filter (\<lambda>x. key x = key r) xs) F)) = filter_mset (\<lambda>x. key x \<in> key ` set F) (mset xs)"
proof (induction F)
  case (Cons r F)
  have "filter_mset (\<lambda>x. key x = key r) (mset xs) + filter_mset (\<lambda>x. key x \<in> key ` set F) (mset xs)
      = filter_mset (\<lambda>x. key x \<in> key ` set (r # F)) (mset xs)"
    using Cons.prems by (intro multiset_eqI) auto
  with Cons show ?case by simp
qed simp

lemma mset_partition_all:
  "distinct (map key F) \<Longrightarrow> key ` set xs \<subseteq> key ` set F \<Longrightarrow> mset (concat (map (\<lambda>r. filter (\<lambda>x. key x = key r) xs) F)) = mset xs"
  by (subst mset_partition) (auto simp: filter_mset_eq_conv)

lemma mset_concat_map_cong: "mset xs = mset ys \<Longrightarrow> mset (concat (map h xs)) = mset (concat (map h ys))"
  by (simp only: mset_concat map_map sum_mset_sum_list [symmetric] mset_map)

lemma concat_map_concat: "concat (map h (concat (map G F))) = concat (map (\<lambda>r. concat (map h (G r))) F)"
  by (induction F) simp_all

lemma concat_concat_map: "concat (concat L) = concat (map concat L)"
  by (induction L) simp_all

definition all_records :: "('r, 's, 'x) export_request \<Rightarrow> 'x list" where
  "all_records req = concat (map (\<lambda>(r, scopes). concat (map snd scopes)) req)"

lemma group_batch_complete: "mset (all_records (group_batch rid ck cr cs cx xs)) = mset (map cx xs)"
proof -
  let ?F = "firsts rid xs" and ?S = "firsts ck xs"
  let ?h = "\<lambda>s. filter (\<lambda>y. ck y = ck s) xs"
  have F: "distinct (map rid ?F)" "rid ` set ?S \<subseteq> rid ` set ?F" and S: "distinct (map ck ?S)" "ck ` set xs \<subseteq> ck ` set ?S"
    using firsts_props [of rid xs] firsts_props [of ck xs] by auto
  have "all_records (group_batch rid ck cr cs cx xs) = map cx (concat (map ?h (concat (map (\<lambda>r. filter (\<lambda>s. rid s = rid r) ?S) ?F))))"
    by (simp add: all_records_def group_batch_def grouped_def map_concat comp_def concat_map_concat concat_concat_map)
  moreover have "mset (concat (map ?h (concat (map (\<lambda>r. filter (\<lambda>s. rid s = rid r) ?S) ?F)))) = mset xs"
    using mset_concat_map_cong [OF mset_partition_all [OF F], of ?h] mset_partition_all [OF S] by simp
  ultimately show ?thesis by (simp only: mset_map)
qed

text \<open>
  C9. A batch of spans is exported as a whole: when every span converts, the request has one resource per
  distinct resource identity and under it one scope per distinct scope identity, both in order of first
  appearance and converted from the span they first appear in; each span is in the scope of its
  identities, in the order of the batch; and the spans of the request are exactly those of the batch,
  none lost and none twice.
\<close>

theorem spans_grouped:
  assumes "array_values spans = Inr items"
    and "\<forall>s\<in>set items. span_ids php s = Inr (rid s, sid s) \<and> bind_result (span_resource php s) (convertResourceSpans php) = Inr (cr s) \<and>
      bind_result (callMethod php s ''getInstrumentationScope'') (convertScopeSpans php) = Inr (cs s) \<and> convertSpan php s = Inr (cx s)"
  shows "\<exists>req. spans_convert php spans = Inr req \<and>
    req = map (\<lambda>r. (cr r, map (\<lambda>s. (cs s, map cx (filter (\<lambda>x. rid x @ ''|'' @ sid x = rid s @ ''|'' @ sid s) items)))
                           (filter (\<lambda>s. rid s = rid r) (firsts (\<lambda>s. rid s @ ''|'' @ sid s) items)))) (firsts rid items) \<and>
    mset (all_records req) = mset (map cx items)"
proof -
  let ?ck = "\<lambda>s. rid s @ ''|'' @ sid s"
  have "isArray spans" using assms(1) by (cases spans) (simp_all add: array_values_def)
  moreover obtain b where "batch_loop (span_ids php) (\<lambda>s. bind_result (span_resource php s) (convertResourceSpans php))
      (\<lambda>s. bind_result (callMethod php s ''getInstrumentationScope'') (convertScopeSpans php)) (convertSpan php) items new_batch = Inr b"
    "b_request b = group_batch rid ?ck cr cs cx items"
    using batch_loop_grouped [OF new_batch_inv [of rid ?ck cr cs cx], of items "span_ids php" "\<lambda>s. bind_result (span_resource php s) (convertResourceSpans php)"
        "\<lambda>s. bind_result (callMethod php s ''getInstrumentationScope'') (convertScopeSpans php)" "convertSpan php"] assms(2) by auto
  ultimately have "spans_convert php spans = Inr (group_batch rid ?ck cr cs cx items)"
    using assms(1) by (simp add: spans_convert_def)
  then show ?thesis
    using group_batch_complete [of rid ?ck cr cs cx items] unfolding group_batch_def grouped_def by blast
qed

subsection \<open>Values that survive\<close>

text \<open>
  The PHP value of an \<open>AnyValue\<close>: a list is an array with the keys \<open>0, 1, ...\<close> whose next free element is its
  length; a map is an array under the keys PHP makes of its texts, and \<open>e\<close> is its next free element, which
  for an array without integer keys is the one of an empty array.
\<close>

fun php_value :: "i64 \<Rightarrow> AnyValue \<Rightarrow> 'o zval" where
  "php_value e Any_none = Z_null"
| "php_value e (Any_array vs) = Z_array (zip (map (\<lambda>i. Key_index (of_nat i)) [0..<length vs]) (map (php_value e) vs)) (of_nat (length vs))"
| "php_value e (Any_kvlist kvs) = Z_array (map (\<lambda>kv. (symtable_key (fst kv), php_value e (snd kv))) kvs) e"
| "php_value e (Any_int n) = Z_long n"
| "php_value e (Any_double d) = Z_double d"
| "php_value e (Any_bool b) = (if b then Z_true else Z_false)"
| "php_value e (Any_string s) = Z_string False s"
| "php_value e (Any_bytes s) = Z_string False s"

fun any_ok :: "AnyValue \<Rightarrow> bool" where
  "any_ok (Any_array vs) \<longleftrightarrow> vs \<noteq> [] \<and> list_all any_ok vs"
| "any_ok (Any_kvlist kvs) \<longleftrightarrow> length kvs < 2 ^ 32 \<and> distinct (map fst kvs) \<and>
     list_all (\<lambda>kv. symtable_key (fst kv) = Key_string (fst kv) \<and> any_ok (snd kv)) kvs"
| "any_ok (Any_string s) \<longleftrightarrow> isUtf8 s"
| "any_ok (Any_bytes s) \<longleftrightarrow> \<not> isUtf8 s"
| "any_ok _ \<longleftrightarrow> True"

lemma php_value_defined: "\<not> isUndef (php_value e a)"
  by (cases a) auto

lemma defined_all: "(\<And>k v. (k, v) \<in> set ht \<Longrightarrow> \<not> isUndef v) \<Longrightarrow> defined_elements ht = ht \<and> getArrayCount ht = length ht"
  by (induction ht) (auto simp: defined_elements_def getArrayCount_def)

text \<open>
  C27. Exported values are not distorted: a value of the protocol converts from its PHP form back to itself,
  nested values included, if its lists are not empty (an empty list comes back as an empty map), its strings
  are valid UTF-8 and its byte strings are not (PHP has one type for both), and each of its maps has fewer
  than \<open>2\<^sup>3\<^sup>2\<close> keys, distinct and none the text of an integer (PHP makes such a key an integer, and the converter
  drops it). The next free element of an array without integer keys is negative, as it is in an empty array.
\<close>

theorem convertAnyValue_roundtrip:
  assumes "any_ok a" and "sint e < 0"
  shows "convertAnyValue (php_value e a :: 'o zval) = a"
  using assms(1)
proof (induction a)
  case (Any_array vs)
  let ?ht = "zip (map (\<lambda>i. Key_index (of_nat i)) [0..<length vs]) (map (php_value e) vs) :: (array_key \<times> 'o zval) list"
  have d: "defined_elements ?ht = ?ht \<and> getArrayCount ?ht = length ?ht"
    by (rule defined_all) (auto dest!: set_zip_rightD simp: php_value_defined)
  then have "map (\<lambda>e. convertAnyValue (snd e)) ?ht = vs"
    using Any_array by (auto intro!: nth_equalityI simp: list_all_length)
  with d show ?case by (simp add: it_collect_begin)
next
  case (Any_kvlist kvs)
  let ?ht = "map (\<lambda>kv. (Key_string (fst kv), php_value e (snd kv))) kvs :: (array_key \<times> 'o zval) list"
  have ht: "map (\<lambda>kv. (symtable_key (fst kv), php_value e (snd kv))) kvs = ?ht"
    using Any_kvlist.prems by (simp add: list_all_iff)
  have d: "defined_elements ?ht = ?ht \<and> getArrayCount ?ht = length ?ht"
    by (rule defined_all) (auto simp: php_value_defined)
  have "signed_take_bit 63 (int (length kvs)) = int (length kvs)"
    using Any_kvlist.prems by (simp add: signed_take_bit_int_eq_self)
  then have "sint (of_nat (length kvs) :: i64) \<ge> 0" by (simp add: signed_of_nat)
  then have "of_nat (length kvs) \<noteq> e" using assms(2) by auto
  with d Any_kvlist show ?case unfolding php_value.simps ht
    by (auto simp: it_collect_begin is_string_key_def key_text_def list_all_iff comp_def intro!: map_idI)
qed (auto split: if_splits)

text \<open>
  A PHP list that had an element removed with \<open>unset\<close> loses all the others: the deleted slot makes the
  number of elements differ from the next free key, the array counts as a map, and a map keeps only
  elements with string keys.
\<close>

theorem unset_list_exported_empty:
  assumes "k < length xs" and "\<forall>x\<in>set xs. \<not> isUndef x"
  shows "convertAnyValue (Z_array ((zip (map (\<lambda>i. Key_index (of_nat i)) [0..<length xs]) xs)[k := (Key_index (of_nat k), Z_undef)])
      (of_nat (length xs))) = Any_kvlist []"
proof -
  let ?ht = "zip (map (\<lambda>i. Key_index (of_nat i)) [0..<length xs]) xs"
  have split: "?ht[k := (Key_index (of_nat k), Z_undef)] = take k ?ht @ (Key_index (of_nat k), Z_undef) # drop (Suc k) ?ht"
    using assms(1) by (simp add: upd_conv_take_nth_drop)
  have all: "filter (\<lambda>(k, v). \<not> isUndef v) (take k ?ht) = take k ?ht" "filter (\<lambda>(k, v). \<not> isUndef v) (drop (Suc k) ?ht) = drop (Suc k) ?ht"
    using assms(2) by (auto simp: filter_id_conv dest!: in_set_takeD in_set_dropD set_zip_rightD)
  have "getArrayCount (?ht[k := (Key_index (of_nat k), Z_undef)]) = length xs - 1"
    using assms(1) all unfolding split by (simp add: getArrayCount_def)
  moreover have "of_nat (length xs - 1) \<noteq> (of_nat (length xs) :: i64)"
    using assms(1) by (simp add: of_nat_diff)
  moreover have "filter (\<lambda>e. is_string_key (fst e)) (it_collect (?ht[k := (Key_index (of_nat k), Z_undef)]) (it_begin (?ht[k := (Key_index (of_nat k), Z_undef)]))) = []"
    by (auto simp: it_collect_begin defined_elements_def filter_empty_conv is_string_key_def in_set_zip
        dest!: set_update_subset_insert [THEN subsetD])
  ultimately show ?thesis by simp
qed

subsection \<open>Concrete values\<close>

text \<open>Two spans of one resource and two scopes; the objects are numbers.\<close>

definition sample_methods :: "nat \<Rightarrow> (string \<times> nat zval) list" where
  "sample_methods ob =
     (if ob < 2 then
        [(''getResource'', Z_object 10), (''getInstrumentationScope'', Z_object (20 + ob)), (''getContext'', Z_object 11),
         (''getParentContext'', Z_object 12), (''getName'', Z_string True ''span''), (''getKind'', Z_long 2),
         (''getStartEpochNanos'', Z_long 5), (''getEndEpochNanos'', Z_long 9), (''getAttributes'', Z_object 13),
         (''getEvents'', Z_array [] 0), (''getLinks'', Z_array [] 0), (''getTotalDroppedEvents'', Z_long 0),
         (''getTotalDroppedLinks'', Z_long 0), (''getStatus'', Z_object 14)]
      else if ob = 11 then
        [(''getTraceIdBinary'', Z_string False ''trace''), (''getSpanIdBinary'', Z_string False ''id''), (''getTraceFlags'', Z_long 1),
         (''getTraceState'', Z_null)]
      else if ob = 12 then [(''isRemote'', Z_false), (''isValid'', Z_false)]
      else if ob = 13 then [(''toArray'', Z_array [(Key_string ''a'', Z_long 1)] 0), (''getDroppedAttributesCount'', Z_long 0)]
      else if ob = 14 then [(''getDescription'', Z_string True []), (''getCode'', Z_string True ''OK'')]
      else
        [(''getName'', Z_string True (if ob = 20 then ''A'' else ''B'')), (''getVersion'', Z_null), (''getSchemaUrl'', Z_null),
         (''getAttributes'', Z_object 13)])"

definition sample_php :: "nat php" where
  "sample_php = \<lparr>method_result = (\<lambda>ob name. map_of (sample_methods ob) name), property_of = (\<lambda>_ _. None),
     class_name = (\<lambda>_. qualified_name [''OpenTelemetry'', ''SDK'', ''Trace'', ''ImmutableSpan'']),
     serialize_result = (\<lambda>vs. Some (Z_string True (case vs of Z_string _ s # _ \<Rightarrow> s | _ \<Rightarrow> ''R'')))\<rparr>"

lemma sample_converts:
  "span_ids sample_php (Z_object 0) = Inr (''R'', ''A'')" "span_ids sample_php (Z_object 1) = Inr (''R'', ''B'')"
  "\<not> isl (bind_result (span_resource sample_php (Z_object 0)) (convertResourceSpans sample_php))"
  "\<not> isl (bind_result (span_resource sample_php (Z_object 1)) (convertResourceSpans sample_php))"
  "\<not> isl (bind_result (callMethod sample_php (Z_object 0) ''getInstrumentationScope'') (convertScopeSpans sample_php))"
  "\<not> isl (bind_result (callMethod sample_php (Z_object 1) ''getInstrumentationScope'') (convertScopeSpans sample_php))"
  "\<not> isl (convertSpan sample_php (Z_object 0))" "\<not> isl (convertSpan sample_php (Z_object 1))"
  by code_simp+

lemma projr_Inr: "\<not> isl r \<Longrightarrow> r = Inr (projr r)"
  by (cases r) simp_all

lemma spans_grouped_witness:
  "\<exists>req. spans_convert sample_php (Z_array [(Key_index 0, Z_object 0), (Key_index 1, Z_object 1)] 2) = Inr req \<and>
     map (\<lambda>(r, scopes). map (length \<circ> snd) scopes) req = [[1, 1]] \<and> size (mset (all_records req)) = 2"
proof -
  let ?cr = "\<lambda>s. projr (bind_result (span_resource sample_php s) (convertResourceSpans sample_php))"
  let ?cs = "\<lambda>s. projr (bind_result (callMethod sample_php s ''getInstrumentationScope'') (convertScopeSpans sample_php))"
  let ?cx = "\<lambda>s. projr (convertSpan sample_php s)"
  let ?rid = "\<lambda>_ :: nat zval. ''R''" and ?sid = "\<lambda>s. if s = Z_object 0 then ''A'' else ''B''"
  have "\<forall>s\<in>set [Z_object 0, Z_object 1]. span_ids sample_php s = Inr (?rid s, ?sid s) \<and>
      bind_result (span_resource sample_php s) (convertResourceSpans sample_php) = Inr (?cr s) \<and>
      bind_result (callMethod sample_php s ''getInstrumentationScope'') (convertScopeSpans sample_php) = Inr (?cs s) \<and>
      convertSpan sample_php s = Inr (?cx s)"
    using sample_converts(3-) [THEN projr_Inr] sample_converts(1,2) by simp
  from spans_grouped [where spans = "Z_array [(Key_index 0, Z_object 0), (Key_index 1, Z_object 1)] 2", OF _ this]
  show ?thesis by (auto simp: defined_elements_def firsts_def all_records_def)
qed

lemma convertAnyValue_roundtrip_witness:
  "convertAnyValue (php_value (- 1) (Any_kvlist [(''a'', Any_array [Any_int 1, Any_bool True])]) :: unit zval)
    = Any_kvlist [(''a'', Any_array [Any_int 1, Any_bool True])]"
  by (rule convertAnyValue_roundtrip) (simp_all add: symtable_key_def isdigit_def)

lemma unset_list_exported_empty_witness:
  "convertAnyValue (Z_array [(Key_index 0, Z_undef), (Key_index 1, Z_long 8)] 2 :: unit zval) = Any_kvlist []"
  using unset_list_exported_empty [of 0 "[Z_long 7, Z_long 8] :: unit zval list"] by simp

end
