(* ===== verification/Request.thy ===== *)
theory Request
  imports Config PeriodicTasks "HOL-Library.Sublist"
begin

text \<open>
  The life of a PHP request in a worker: the SAPI (\<open>PhpSapi.h\<close>), the flag the workers share
  (\<open>SharedMemoryState.h\<close>), the guard against loading a dependency twice
  (\<open>DependencyAutoLoaderGuard.h\<close>, \<open>.cpp\<close>) and the sequence of calls at the start and the end of a
  request (\<open>RequestScope.h\<close>).
\<close>

subsection \<open>The SAPI\<close>

datatype sapi_type =
  Apache | FPM | CLI | CLI_SERVER | CGI | CGI_FCGI | LITESPEED | PHPDBG | EMBED | FUZZER | UWSGI | FRANKENPHP | UNKNOWN

definition parseSapi :: "string \<Rightarrow> sapi_type" where
  "parseSapi sapiName =
     (if sapiName = ''cli'' then CLI
      else if sapiName = ''cli-server'' then CLI_SERVER
      else if sapiName = ''cgi'' then CGI
      else if sapiName = ''cgi-fcgi'' then CGI_FCGI
      else if sapiName = ''fpm-fcgi'' then FPM
      else if sapiName = ''apache2handler'' then Apache
      else if sapiName = ''litespeed'' then LITESPEED
      else if sapiName = ''phpdbg'' then PHPDBG
      else if sapiName = ''embed'' then EMBED
      else if sapiName = ''fuzzer'' then FUZZER
      else if sapiName = ''uwsgi'' then UWSGI
      else if sapiName = ''frankenphp'' then FRANKENPHP
      else UNKNOWN)"

definition isSupported :: "sapi_type \<Rightarrow> bool" where
  "isSupported t \<longleftrightarrow> t \<noteq> UNKNOWN \<and> t \<noteq> PHPDBG \<and> t \<noteq> EMBED"

subsection \<open>One task among all workers\<close>

text \<open>
  \<open>shouldExecuteOneTimeTaskAmongWorkers\<close> in its two critical sections: a look under the shared lock, then
  the decision under the exclusive lock. Between them other workers run.
\<close>

datatype task_phase = Not_asked | Looked | Answered bool

record shared_state =
  oneTimeTaskAmongWorkersExecuted :: bool
  task_of :: "nat \<Rightarrow> task_phase"

definition task_look :: "nat \<Rightarrow> shared_state \<Rightarrow> shared_state" where
  "task_look w s = s\<lparr>task_of := (task_of s)(w := (if oneTimeTaskAmongWorkersExecuted s then Answered False else Looked))\<rparr>"

definition task_decide :: "nat \<Rightarrow> shared_state \<Rightarrow> shared_state" where
  "task_decide w s =
     (if oneTimeTaskAmongWorkersExecuted s then s\<lparr>task_of := (task_of s)(w := Answered False)\<rparr>
      else s\<lparr>oneTimeTaskAmongWorkersExecuted := True, task_of := (task_of s)(w := Answered True)\<rparr>)"

inductive shared_reach :: "shared_state \<Rightarrow> bool" where
  shared_start: "shared_reach \<lparr>oneTimeTaskAmongWorkersExecuted = False, task_of = (\<lambda>_. Not_asked)\<rparr>"
| shared_look: "shared_reach s \<Longrightarrow> task_of s w = Not_asked \<Longrightarrow> shared_reach (task_look w s)"
| shared_decide: "shared_reach s \<Longrightarrow> task_of s w = Looked \<Longrightarrow> shared_reach (task_decide w s)"

definition winners :: "shared_state \<Rightarrow> nat set" where
  "winners s = {w. task_of s w = Answered True}"

text \<open>
  C28. Whatever the interleaving, no two workers are told to execute the one-time task, and as soon as any
  worker has its answer exactly one worker has been told to: the task is never skipped by all.
\<close>

theorem one_time_task:
  assumes "shared_reach s"
  shows "(\<exists>w. winners s = (if oneTimeTaskAmongWorkersExecuted s then {w} else {})) \<and>
    (\<forall>w b. task_of s w = Answered b \<longrightarrow> (\<exists>!w. w \<in> winners s))"
proof -
  have "(\<exists>w. winners s = (if oneTimeTaskAmongWorkersExecuted s then {w} else {})) \<and>
      (\<forall>w b. task_of s w = Answered b \<longrightarrow> oneTimeTaskAmongWorkersExecuted s)"
    using assms
  proof (induction rule: shared_reach.induct)
    case (shared_look s w)
    then have "winners (task_look w s) = winners s" by (auto simp: task_look_def winners_def)
    moreover have "oneTimeTaskAmongWorkersExecuted (task_look w s) = oneTimeTaskAmongWorkersExecuted s" by (simp add: task_look_def)
    ultimately show ?case using shared_look.IH by (auto simp: task_look_def)
  next
    case (shared_decide s w)
    show ?case
    proof (cases "oneTimeTaskAmongWorkersExecuted s")
      case True
      then have "winners (task_decide w s) = winners s" using shared_decide.hyps(2) by (auto simp: task_decide_def winners_def)
      with True shared_decide.IH show ?thesis by (auto simp: task_decide_def)
    next
      case False
      then have "winners s = {}" using shared_decide.IH by simp
      then have "winners (task_decide w s) = {w}" using False by (auto simp: task_decide_def winners_def)
      with False show ?thesis by (auto simp: task_decide_def)
    qed
  qed (simp add: winners_def)
  then show ?thesis by auto
qed

lemma one_time_task_witness:
  "\<exists>!w. w \<in> winners (task_decide 1 (task_decide 0 (task_look 1 (task_look 0 \<lparr>oneTimeTaskAmongWorkersExecuted = False, task_of = (\<lambda>_. Not_asked)\<rparr>))))"
proof -
  let ?s = "task_decide 1 (task_decide 0 (task_look 1 (task_look 0 \<lparr>oneTimeTaskAmongWorkersExecuted = False, task_of = (\<lambda>_. Not_asked)\<rparr>)))"
  have "shared_reach ?s"
    by (intro shared_reach.intros) (simp_all add: task_look_def task_decide_def)
  from one_time_task [OF this] have "\<forall>w b. task_of ?s w = Answered b \<longrightarrow> (\<exists>!w. w \<in> winners ?s)" by blast
  moreover have "task_of ?s 0 = Answered True" by (simp add: task_look_def task_decide_def)
  ultimately show ?thesis by blast
qed

subsection \<open>The dependency guard\<close>

text \<open>
  A slot of the class or function table of the engine: \<open>None\<close> deleted, \<open>Some None\<close> internal or without a
  file, \<open>Some (Some f)\<close> compiled from the file \<open>f\<close>. \<open>scan_from\<close> is the loop over a table from a slot on.
\<close>

type_synonym symbol_table = "string option option list"

definition files_of :: "symbol_table \<Rightarrow> string list" where
  "files_of table = List.map_filter (\<lambda>slot. case slot of Some (Some f) \<Rightarrow> Some f | _ \<Rightarrow> None) table"

definition scan_from :: "symbol_table \<Rightarrow> nat \<Rightarrow> string list \<times> nat" where
  "scan_from table lastIndex =
     (files_of (drop lastIndex table), lastIndex + length (filter (\<lambda>slot. slot \<noteq> None) (drop lastIndex table)))"

definition getNewlyCompiledFiles :: "symbol_table \<Rightarrow> symbol_table \<Rightarrow> nat \<Rightarrow> nat \<Rightarrow> string list \<times> nat \<times> nat" where
  "getNewlyCompiledFiles class_table function_table lastClassIndex lastFunctionIndex =
     (let (classFiles, lastClass) = scan_from class_table lastClassIndex;
          (functionFiles, lastFunction) = scan_from function_table lastFunctionIndex
      in (classFiles @ functionFiles, lastClass, lastFunction))"

record guard =
  compiledFiles :: "string list"
  lastClass :: nat
  lastFunction :: nat
  vendorPath :: string

text \<open>\<open>std::filesystem::path\<close>: the directory of a path, and \<open>operator/=\<close> with a relative path.\<close>

definition parent_path :: "string \<Rightarrow> string" where
  "parent_path p =
     (case find_last_if (\<lambda>c. c = CHR ''/'') p of
        None \<Rightarrow> []
      | Some i \<Rightarrow>
          let dir = rev (dropWhile (\<lambda>c. c = CHR ''/'') (rev (take i p)))
          in if dir = [] then ''/'' else dir)"

definition path_append :: "string \<Rightarrow> string \<Rightarrow> string" where
  "path_append p q = (if p = [] then q else if last p = CHR ''/'' then p @ q else p @ CHR ''/'' # q)"

definition setBootstrapPath :: "nat \<Rightarrow> nat \<Rightarrow> string \<Rightarrow> guard \<Rightarrow> guard" where
  "setBootstrapPath major minor bootstrapFilePath g =
     g\<lparr>vendorPath := path_append (parent_path bootstrapFilePath) (''vendor_'' @ to_string major @ to_string minor)\<rparr>"

definition guard_clear :: "guard \<Rightarrow> guard" where
  "guard_clear g = g\<lparr>lastClass := 0, lastFunction := 0, compiledFiles := []\<rparr>"

text \<open>The callback that records a compiled file: only dependencies of EDOT, except those of composer.\<close>

definition record_file :: "string \<Rightarrow> string \<Rightarrow> string list \<Rightarrow> string list" where
  "record_file vendor name files =
     (if prefix vendor name then
        (if prefix ''/composer/'' (drop (length vendor) name) then files else insort_insert name files)
      else files)"

text \<open>What follows the first occurrence of a text.\<close>

fun after_first :: "string \<Rightarrow> string \<Rightarrow> string option" where
  "after_first needle s =
     (if prefix needle s then Some (drop (length needle) s)
      else case s of [] \<Rightarrow> None | c # s' \<Rightarrow> after_first needle s')"

declare after_first.simps [simp del]

fun find_stored :: "nat \<Rightarrow> string \<Rightarrow> string list \<Rightarrow> bool result" where
  "find_stored bootstrapLen afterVendor [] = Inr False"
| "find_stored bootstrapLen afterVendor (storedFile # fs) =
     (if bootstrapLen + 1 > length storedFile then Inl (Out_of_range ''substr'')
      else if drop (bootstrapLen + 1) storedFile = afterVendor then Inr True
      else find_stored bootstrapLen afterVendor fs)"

definition wasDeliveredByEDOT :: "string \<Rightarrow> guard \<Rightarrow> bool result" where
  "wasDeliveredByEDOT fileName g =
     (case after_first ''/vendor/'' fileName of
        None \<Rightarrow> Inr False
      | Some afterVendor \<Rightarrow> find_stored (length (vendorPath g)) afterVendor (compiledFiles g))"

text \<open>
  \<open>resolve\<close> stands for the file system: the canonical path of a file that exists, the name itself
  otherwise, or the exception of the library. Every exception is caught and the file is compiled.
\<close>

definition shouldDiscardFileCompilation ::
  "(string \<Rightarrow> string result) \<Rightarrow> symbol_table \<Rightarrow> symbol_table \<Rightarrow> string \<Rightarrow> guard \<Rightarrow> bool \<times> guard" where
  "shouldDiscardFileCompilation resolve class_table function_table fileName g =
     (case resolve fileName of
        Inl e \<Rightarrow> (False, g)
      | Inr compiledFilePath \<Rightarrow>
          if prefix (vendorPath g) compiledFilePath then (False, g)
          else
            (let (names, lc, lf) = getNewlyCompiledFiles class_table function_table (lastClass g) (lastFunction g);
                 g' = g\<lparr>compiledFiles := fold (record_file (vendorPath g)) names (compiledFiles g), lastClass := lc, lastFunction := lf\<rparr>
             in (case wasDeliveredByEDOT compiledFilePath g' of Inl e \<Rightarrow> False | Inr b \<Rightarrow> b, g')))"

text \<open>The files a guard with the vendor path \<open>v\<close> counts as delivered by EDOT.\<close>

definition edot_file :: "string \<Rightarrow> string \<Rightarrow> bool" where
  "edot_file v f \<longleftrightarrow> prefix v f \<and> \<not> prefix ''/composer/'' (drop (length v) f)"

text \<open>The guard has scanned the tables up to \<open>C0\<close> and \<open>F0\<close>, which have no deleted slot and only grow.\<close>

definition guard_inv :: "string \<Rightarrow> symbol_table \<Rightarrow> symbol_table \<Rightarrow> guard \<Rightarrow> bool" where
  "guard_inv v C F g \<longleftrightarrow> vendorPath g = v \<and> (\<exists>C0 F0. prefix C0 C \<and> prefix F0 F \<and> lastClass g = length C0 \<and> lastFunction g = length F0 \<and>
     set (compiledFiles g) = {f \<in> set (files_of C0 @ files_of F0). edot_file v f})"

lemma set_record_files:
  "set (fold (record_file v) names files) = set files \<union> {f \<in> set names. edot_file v f}"
  by (induction names arbitrary: files) (auto simp: record_file_def edot_file_def set_insort_insert)

lemma files_of_append: "files_of (a @ b) = files_of a @ files_of b"
  by (simp add: files_of_def map_filter_def)

lemma scan_from_prefix:
  assumes "prefix T0 T" and "None \<notin> set T"
  shows "scan_from T (length T0) = (files_of (drop (length T0) T), length T)" and "files_of T = files_of T0 @ files_of (drop (length T0) T)"
proof -
  obtain rest where T: "T = T0 @ rest" using assms(1) by (auto simp: prefix_def)
  have "filter (\<lambda>slot. slot \<noteq> None) rest = rest" using assms(2) by (auto simp: T filter_id_conv) (metis option.exhaust)
  then show "scan_from T (length T0) = (files_of (drop (length T0) T), length T)" by (simp add: scan_from_def T)
  show "files_of T = files_of T0 @ files_of (drop (length T0) T)" by (simp add: T files_of_append)
qed

lemma find_stored_iff:
  assumes "\<forall>f\<in>set files. n < length f"
  shows "find_stored n r files = Inr (\<exists>f\<in>set files. drop (n + 1) f = r)"
  using assms by (induction files) auto

lemma guard_step:
  assumes inv: "guard_inv v C F g" and tables: "prefix C C'" "prefix F F'" "None \<notin> set C'" "None \<notin> set F'"
  shows "guard_inv v C' F' (snd (shouldDiscardFileCompilation resolve C' F' name g))"
    and "\<forall>f\<in>set (files_of C' @ files_of F'). f \<noteq> v \<Longrightarrow> resolve name = Inr path \<Longrightarrow>
      fst (shouldDiscardFileCompilation resolve C' F' name g) \<longleftrightarrow> \<not> prefix v path \<and>
        (\<exists>f\<in>set (files_of C' @ files_of F'). edot_file v f \<and> after_first ''/vendor/'' path = Some (drop (length v + 1) f))"
proof -
  obtain C0 F0 where v: "vendorPath g = v" and pre: "prefix C0 C'" "prefix F0 F'" and lc: "lastClass g = length C0" "lastFunction g = length F0"
    and files: "set (compiledFiles g) = {f \<in> set (files_of C0 @ files_of F0). edot_file v f}"
    using inv tables(1,2) unfolding guard_inv_def by (meson prefix_order.trans)
  note sc = scan_from_prefix [OF pre(1) tables(3)] and sf = scan_from_prefix [OF pre(2) tables(4)]
  let ?fs = "fold (record_file v) (files_of (drop (length C0) C') @ files_of (drop (length F0) F')) (compiledFiles g)"
  have set: "set ?fs = {f \<in> set (files_of C' @ files_of F'). edot_file v f}"
    unfolding set_record_files files sc(2) sf(2) by auto
  let ?g = "g\<lparr>compiledFiles := ?fs, lastClass := length C', lastFunction := length F'\<rparr>"
  have new: "getNewlyCompiledFiles C' F' (lastClass g) (lastFunction g)
      = (files_of (drop (length C0) C') @ files_of (drop (length F0) F'), length C', length F')"
    by (simp add: getNewlyCompiledFiles_def lc sc(1) sf(1))
  have inv': "guard_inv v C' F' ?g" using v set unfolding guard_inv_def by auto
  have keep: "guard_inv v C' F' g" using v pre lc files unfolding guard_inv_def by blast
  show "guard_inv v C' F' (snd (shouldDiscardFileCompilation resolve C' F' name g))"
    using inv' keep by (auto simp: shouldDiscardFileCompilation_def v new Let_def split: sum.split)
  assume no_dir: "\<forall>f\<in>set (files_of C' @ files_of F'). f \<noteq> v" and path: "resolve name = Inr path"
  have "\<forall>f\<in>set ?fs. length v < length f"
    unfolding set using no_dir by (auto simp: edot_file_def prefix_def)
  from find_stored_iff [OF this]
  have "wasDeliveredByEDOT path ?g = Inr (\<exists>f\<in>set ?fs. after_first ''/vendor/'' path = Some (drop (length v + 1) f))"
    by (auto simp: wasDeliveredByEDOT_def v split: option.split)
  then show "fst (shouldDiscardFileCompilation resolve C' F' name g) \<longleftrightarrow> \<not> prefix v path \<and>
        (\<exists>f\<in>set (files_of C' @ files_of F'). edot_file v f \<and> after_first ''/vendor/'' path = Some (drop (length v + 1) f))"
    unfolding set by (auto simp: shouldDiscardFileCompilation_def v new path Let_def)
qed

text \<open>The files compiled in a request: a name and the tables of the engine at that time.\<close>

definition guard_run :: "(string \<Rightarrow> string result) \<Rightarrow> guard \<Rightarrow> (string \<times> symbol_table \<times> symbol_table) list \<Rightarrow> guard" where
  "guard_run resolve g calls = fold (\<lambda>(name, C, F) g. snd (shouldDiscardFileCompilation resolve C F name g)) calls g"

fun growing :: "symbol_table \<Rightarrow> symbol_table \<Rightarrow> (string \<times> symbol_table \<times> symbol_table) list \<Rightarrow> bool" where
  "growing C F [] \<longleftrightarrow> True"
| "growing C F ((name, C', F') # calls) \<longleftrightarrow> prefix C C' \<and> prefix F F' \<and> None \<notin> set C' \<and> None \<notin> set F' \<and> growing C' F' calls"

lemma guard_run_inv:
  "guard_inv v C F g \<Longrightarrow> growing C F (calls @ [(name, C', F')]) \<Longrightarrow>
     \<exists>C1 F1. guard_inv v C1 F1 (guard_run resolve g calls) \<and> prefix C1 C' \<and> prefix F1 F' \<and> None \<notin> set C' \<and> None \<notin> set F'"
proof (induction calls arbitrary: C F g)
  case (Cons call calls)
  obtain n C1 F1 where call: "call = (n, C1, F1)" by (rule prod_cases3)
  from Cons.prems have "guard_inv v C1 F1 (snd (shouldDiscardFileCompilation resolve C1 F1 n g))"
    by (intro guard_step(1)) (auto simp: call)
  from Cons.IH [OF this] Cons.prems(2) show ?case by (simp add: guard_run_def call)
qed (auto simp: guard_run_def)

text \<open>
  C13. The guard scans the tables of the engine incrementally, each call from where the last one stopped,
  and that changes nothing: in any sequence of compilations of a request, with tables that only grow, a
  file is discarded exactly when it lies outside the vendor directory of EDOT and the part of its path
  after the first \<open>/vendor/\<close> is the path, inside that directory, of a file compiled so far that is not one
  of composer.
\<close>

theorem guard_equals_full_scan:
  assumes "growing [] [] (calls @ [(name, C, F)])" and "resolve name = Inr path"
    and "\<forall>f\<in>set (files_of C @ files_of F). f \<noteq> vendorPath g"
  shows "fst (shouldDiscardFileCompilation resolve C F name (guard_run resolve (guard_clear g) calls)) \<longleftrightarrow>
    \<not> prefix (vendorPath g) path \<and>
    (\<exists>f\<in>set (files_of C @ files_of F). edot_file (vendorPath g) f \<and>
       after_first ''/vendor/'' path = Some (drop (length (vendorPath g) + 1) f))"
proof -
  have "guard_inv (vendorPath g) [] [] (guard_clear g)" by (simp add: guard_inv_def guard_clear_def files_of_def map_filter_simps)
  from guard_run_inv [OF this assms(1)] obtain C1 F1 where
    "guard_inv (vendorPath g) C1 F1 (guard_run resolve (guard_clear g) calls)" "prefix C1 C" "prefix F1 F" "None \<notin> set C" "None \<notin> set F"
    by blast
  from guard_step(2) [where resolve = resolve and name = name, OF this assms(3,2)] show ?thesis .
qed

definition sample_guard :: guard where
  "sample_guard = setBootstrapPath 8 4 ''/edot/boot.php'' \<lparr>compiledFiles = [], lastClass = 0, lastFunction = 0, vendorPath = []\<rparr>"

lemma guard_equals_full_scan_witness:
  "fst (shouldDiscardFileCompilation Inr [Some None, Some (Some ''/edot/vendor_84/a/B.php'')] [] ''/app/vendor/a/B.php''
     (guard_run Inr (guard_clear sample_guard) [(''/app/x.php'', [Some None], [])]))"
proof -
  have v: "vendorPath sample_guard = ''/edot/vendor_84''" by code_simp
  have n: "after_first ''/vendor/'' ''/app/vendor/a/B.php'' = Some ''a/B.php''" by code_simp
  show ?thesis
    by (subst guard_equals_full_scan [where path = "''/app/vendor/a/B.php''"])
      (simp_all add: v n files_of_def map_filter_simps edot_file_def)
qed

subsection \<open>The request\<close>

text \<open>
  The worker's part in a request: the scope itself and the components it drives. Calls on the PHP bridge,
  the hooks and the configuration are listed in order; \<open>request_env\<close> is what they answer in one request,
  with the configuration after its update. The executor has the one task of \<open>AgentGlobals\<close> and is made when
  it is first needed.
\<close>

record request_worker =
  requestCounter :: nat
  bootstrapSuccessfull :: bool
  preloadDetected :: bool
  w_guard :: guard
  w_executor :: "unit executor option"
  w_spans :: inferred

record request_env =
  sapi :: sapi_type
  env_config :: ConfigurationSnapshot
  php_version :: "nat \<times> nat"
  detectOpcachePreload :: bool
  one_time :: bool
  isScriptRestricedByOpcacheAPI :: bool
  detectOpcacheRestartPending :: bool
  compileAndExecuteFile :: "unit result"
  callPHPSideEntryPoint :: bool
  clock_now :: int

datatype bridge_call =
    Clear_hooks
  | Trigger_remote_config
  | Update_config
  | Enable_server_global
  | Store_diagnostics string
  | Execute_file string
  | Entry_point
  | Exit_point

definition new_request_worker :: "guard \<Rightarrow> inferred \<Rightarrow> request_worker" where
  "new_request_worker g i =
     \<lparr>requestCounter = 0, bootstrapSuccessfull = False, preloadDetected = False, w_guard = g, w_executor = None, w_spans = i\<rparr>"

definition getPeriodicTaskExecutor :: "request_worker \<Rightarrow> unit executor" where
  "getPeriodicTaskExecutor s = (case w_executor s of Some e \<Rightarrow> e | None \<Rightarrow> new_executor [()])"

definition resetRequest :: "request_worker \<Rightarrow> bridge_call list \<times> request_worker" where
  "resetRequest s = ([Clear_hooks], s\<lparr>bootstrapSuccessfull := False\<rparr>)"

text \<open>The result of the entry point is not looked at.\<close>

definition bootstrapPHPSideInstrumentation :: "request_env \<Rightarrow> bridge_call list \<times> bool" where
  "bootstrapPHPSideInstrumentation env =
     (let file = cfg_string ''bootstrap_php_part_file'' (env_config env)
      in case compileAndExecuteFile env of
           Inl e \<Rightarrow> ([Execute_file file], False)
         | Inr _ \<Rightarrow> ([Execute_file file, Entry_point], True))"

definition diagnostics_calls :: "request_env \<Rightarrow> request_worker \<Rightarrow> bridge_call list" where
  "diagnostics_calls env s =
     (let file = cfg_string ''debug_diagnostic_file'' (env_config env)
      in if \<not> preloadDetected s \<and> requestCounter s \<le> 2 \<and> file \<noteq> [] \<and> one_time env then [Store_diagnostics file] else [])"

definition resume_spans :: "request_env \<Rightarrow> request_worker \<Rightarrow> request_worker" where
  "resume_spans env s =
     (let d = cfg_duration ''inferred_spans_sampling_interval'' (env_config env);
          interval = (if d = 0 then cfg_duration ''inferred_spans_sampling_interval'' new_ConfigurationSnapshot else d)
      in s\<lparr>w_spans := spans_reset (clock_now env) (spans_setInterval interval (w_spans s)),
           w_executor := Some (resumePeriodicTasks (setInterval interval (getPeriodicTaskExecutor s)))\<rparr>)"

text \<open>The bookkeeping between the check of \<open>enabled\<close> and the first early return.\<close>

definition begin_request :: "request_env \<Rightarrow> request_worker \<Rightarrow> request_worker" where
  "begin_request env s =
     (let s2 = s\<lparr>requestCounter := requestCounter s + 1\<rparr>;
          first = (requestCounter s2 = 1);
          s3 = (if first then
                  s2\<lparr>w_guard := setBootstrapPath (fst (php_version env)) (snd (php_version env))
                        (cfg_string ''bootstrap_php_part_file'' (env_config env)) (w_guard s2)\<rparr>
                else s2)
      in s3\<lparr>preloadDetected := first \<and> detectOpcachePreload env, w_guard := guard_clear (w_guard s3)\<rparr>)"

definition onRequestInit :: "request_env \<Rightarrow> request_worker \<Rightarrow> bridge_call list \<times> request_worker" where
  "onRequestInit env s0 =
     (let (reset, s1) = resetRequest s0
      in if \<not> isSupported (sapi env) then (reset, s1)
         else if \<not> cfg_bool ''enabled'' (env_config env) then (reset @ [Trigger_remote_config, Update_config], s1)
         else
           (let s2 = begin_request env s1;
                calls = reset @ [Trigger_remote_config, Update_config, Enable_server_global]
            in if requestCounter s2 = 1 \<and> preloadDetected s2 then (calls, s2)
               else
                 (let calls' = calls @ diagnostics_calls env s2
                  in if \<not> isScriptRestricedByOpcacheAPI env \<and> detectOpcacheRestartPending env then (calls', s2)
                     else
                       (let (boot, ok) = bootstrapPHPSideInstrumentation env;
                            s3 = s2\<lparr>bootstrapSuccessfull := ok\<rparr>
                        in (calls' @ boot,
                            if ok \<and> cfg_bool ''inferred_spans_enabled'' (env_config env) then resume_spans env s3 else s3)))))"

definition onRequestShutdown :: "request_env \<Rightarrow> request_worker \<Rightarrow> bridge_call list \<times> request_worker" where
  "onRequestShutdown env s =
     (if preloadDetected s then ([], s)
      else if \<not> bootstrapSuccessfull s then ([], s)
      else ([Exit_point],
            if cfg_bool ''inferred_spans_enabled'' (env_config env)
            then s\<lparr>w_executor := Some (suspendPeriodicTasks (getPeriodicTaskExecutor s))\<rparr> else s))"

definition onRequestPostDeactivate :: "request_worker \<Rightarrow> bridge_call list \<times> request_worker" where
  "onRequestPostDeactivate s = resetRequest (s\<lparr>w_guard := guard_clear (w_guard s)\<rparr>)"

definition isFunctional :: "request_worker \<Rightarrow> bool" where
  "isFunctional s = bootstrapSuccessfull s"

text \<open>\<open>handleError\<close>: whether the PHP-side handler is called.\<close>

definition handleError :: "bool \<Rightarrow> bool" where
  "handleError callPHPHandler = callPHPHandler"

text \<open>A whole request, and the requests of a worker.\<close>

definition whole_request :: "request_env \<Rightarrow> request_worker \<Rightarrow> request_worker" where
  "whole_request env s = snd (onRequestPostDeactivate (snd (onRequestShutdown env (snd (onRequestInit env s)))))"

definition tasks_running :: "request_worker \<Rightarrow> bool" where
  "tasks_running s \<longleftrightarrow> (case w_executor s of Some e \<Rightarrow> resumed e | None \<Rightarrow> False)"

definition between_requests :: "request_worker \<Rightarrow> bool" where
  "between_requests s \<longleftrightarrow> \<not> tasks_running s \<and> \<not> isFunctional s"

lemma resume_spans_running:
  "tasks_running (resume_spans env s)" "isFunctional (resume_spans env s) = isFunctional s"
  "preloadDetected (resume_spans env s) = preloadDetected s"
  by (simp_all add: tasks_running_def resume_spans_def resumePeriodicTasks_def isFunctional_def Let_def)

lemma begin_request_simps:
  "w_executor (begin_request env s) = w_executor s" "bootstrapSuccessfull (begin_request env s) = bootstrapSuccessfull s"
  "requestCounter (begin_request env s) = requestCounter s + 1"
  "preloadDetected (begin_request env s) \<longleftrightarrow> requestCounter s = 0 \<and> detectOpcachePreload env"
  by (simp_all add: begin_request_def Let_def)

lemma init_shape:
  assumes "onRequestInit env s = (calls, s')"
  shows "(\<not> isFunctional s' \<and> Entry_point \<notin> set calls \<and> w_executor s' = w_executor s) \<or>
    (isFunctional s' \<and> Entry_point \<in> set calls \<and> \<not> preloadDetected s' \<and>
     (if cfg_bool ''inferred_spans_enabled'' (env_config env) then tasks_running s' else w_executor s' = w_executor s))"
proof -
  obtain boot ok where b: "bootstrapPHPSideInstrumentation env = (boot, ok)" by (rule prod.exhaust)
  then have ok: "ok \<longleftrightarrow> Entry_point \<in> set boot"
    by (auto simp: bootstrapPHPSideInstrumentation_def Let_def split: sum.splits)
  have d: "Entry_point \<notin> set (diagnostics_calls env t)" for t by (simp add: diagnostics_calls_def Let_def)
  note defs = onRequestInit_def resetRequest_def Let_def b isFunctional_def begin_request_simps
  let ?on = "cfg_bool ''enabled'' (env_config env)" and ?pre = "requestCounter s = 0 \<and> detectOpcachePreload env"
  let ?stop = "\<not> isScriptRestricedByOpcacheAPI env \<and> detectOpcacheRestartPending env"
  consider "\<not> isSupported (sapi env)" | "isSupported (sapi env)" "\<not> ?on" | "isSupported (sapi env)" ?on ?pre
    | "isSupported (sapi env)" ?on "\<not> ?pre" ?stop | "isSupported (sapi env)" ?on "\<not> ?pre" "\<not> ?stop" by blast
  then show ?thesis
  proof cases
    case 4
    then have p: "?pre = False" "?stop = True" by simp_all
    from 4 have "(calls, s') = ([Clear_hooks, Trigger_remote_config, Update_config, Enable_server_global] @
        diagnostics_calls env (begin_request env (s\<lparr>bootstrapSuccessfull := False\<rparr>)), begin_request env (s\<lparr>bootstrapSuccessfull := False\<rparr>))"
      using assms by (auto simp: defs p)
    then show ?thesis using d by (simp add: isFunctional_def begin_request_simps)
  next
    case 5
    let ?s = "begin_request env (s\<lparr>bootstrapSuccessfull := False\<rparr>)"
    from 5 have p: "?pre = False" "?stop = False" by simp_all
    from 5 have r: "(calls, s') = ([Clear_hooks, Trigger_remote_config, Update_config, Enable_server_global] @ diagnostics_calls env ?s @ boot,
        if ok \<and> cfg_bool ''inferred_spans_enabled'' (env_config env) then resume_spans env (?s\<lparr>bootstrapSuccessfull := ok\<rparr>)
        else ?s\<lparr>bootstrapSuccessfull := ok\<rparr>)"
      using assms by (auto simp: defs p)
    from 5 have "\<not> preloadDetected ?s" by (simp add: begin_request_simps)
    then show ?thesis
      using r d ok by (cases ok) (auto simp: isFunctional_def begin_request_simps resume_spans_running [unfolded isFunctional_def])
  qed (use assms in \<open>auto simp: defs\<close>)
qed

lemma init_hooks: "onRequestInit env s = (calls, s') \<Longrightarrow> hd calls = Clear_hooks"
  by (auto simp: onRequestInit_def resetRequest_def Let_def case_prod_unfold split: if_splits)

lemma tasks_running_cong: "w_executor s' = w_executor s \<Longrightarrow> tasks_running s' = tasks_running s"
  by (simp add: tasks_running_def)

lemma new_executor_suspended: "resumed (getPeriodicTaskExecutor s) = tasks_running s"
  by (simp add: getPeriodicTaskExecutor_def tasks_running_def new_executor_def split: option.split)

lemma shutdown_suspends:
  assumes "onRequestShutdown env s = (calls, s')" and "tasks_running s \<Longrightarrow> isFunctional s \<and> cfg_bool ''inferred_spans_enabled'' (env_config env)"
    and "isFunctional s \<Longrightarrow> \<not> preloadDetected s"
  shows "\<not> tasks_running s' \<and> calls = (if isFunctional s then [Exit_point] else [])"
  using assms
  by (auto simp: onRequestShutdown_def isFunctional_def tasks_running_def suspendPeriodicTasks_def split: if_splits option.splits)

lemma whole_request_between:
  assumes "between_requests s"
  shows "between_requests (whole_request env s)"
proof -
  obtain c1 s1 where 1: "onRequestInit env s = (c1, s1)" by (rule prod.exhaust)
  obtain c2 s2 where 2: "onRequestShutdown env s1 = (c2, s2)" by (rule prod.exhaust)
  have "\<not> tasks_running s2"
    using shutdown_suspends [OF 2] init_shape [OF 1] assms tasks_running_cong [of s1 s] by (auto simp: between_requests_def split: if_splits)
  then show ?thesis
    by (simp add: whole_request_def 1 2 onRequestPostDeactivate_def resetRequest_def between_requests_def isFunctional_def tasks_running_def)
qed

text \<open>
  C11. Over any sequence of requests of a worker, whatever the engine answers and however the
  configuration changes between them: in a request the inferred-span tasks run exactly when the PHP side
  was started and inferred spans are enabled; at its end they are suspended again, and the exit point is
  called exactly once if the PHP side was started and not otherwise; the hooks are cleared before the
  request begins, and between requests the scope is not functional and no task runs.
\<close>

theorem request_lifecycle:
  assumes "s = fold whole_request envs (new_request_worker g i)" and "onRequestInit env s = (calls, s1)" and "onRequestShutdown env s1 = (calls2, s2)"
  shows "(tasks_running s1 \<longleftrightarrow> Entry_point \<in> set calls \<and> cfg_bool ''inferred_spans_enabled'' (env_config env)) \<and>
    (isFunctional s1 \<longleftrightarrow> Entry_point \<in> set calls) \<and> hd calls = Clear_hooks \<and>
    \<not> tasks_running s2 \<and> calls2 = (if Entry_point \<in> set calls then [Exit_point] else []) \<and>
    between_requests s \<and> between_requests (whole_request env s)"
proof -
  have "between_requests t \<Longrightarrow> between_requests (fold whole_request envs t)" for t
    by (induction envs arbitrary: t) (simp_all add: whole_request_between)
  moreover have "between_requests (new_request_worker g i)"
    by (simp add: between_requests_def new_request_worker_def tasks_running_def isFunctional_def)
  ultimately have s: "between_requests s" using assms(1) by simp
  note i = init_shape [OF assms(2)]
  have run: "tasks_running s1 \<longleftrightarrow> Entry_point \<in> set calls \<and> cfg_bool ''inferred_spans_enabled'' (env_config env)"
    and fn: "isFunctional s1 \<longleftrightarrow> Entry_point \<in> set calls" and pre: "isFunctional s1 \<Longrightarrow> \<not> preloadDetected s1"
    using i s tasks_running_cong [of s1 s] by (auto simp: between_requests_def split: if_splits)
  have "\<not> tasks_running s2 \<and> calls2 = (if isFunctional s1 then [Exit_point] else [])"
    by (rule shutdown_suspends [OF assms(3)]) (use run fn pre in auto)
  then show ?thesis using run fn s init_hooks [OF assms(2)] whole_request_between [OF s] by simp
qed

text \<open>
  A PHP side that could not be started counts as started: when the bootstrap file was executed but its
  entry point is missing or answers false, the scope is functional all the same, and hooks and exit point
  are called.
\<close>

theorem entry_point_failure_ignored:
  assumes "isSupported (sapi env)" and "cfg_bool ''enabled'' (env_config env)" and "compileAndExecuteFile env = Inr ()"
    and "isScriptRestricedByOpcacheAPI env \<or> \<not> detectOpcacheRestartPending env" and "\<not> detectOpcachePreload env" and "\<not> callPHPSideEntryPoint env"
  shows "isFunctional (snd (onRequestInit env s)) \<and> fst (onRequestShutdown env (snd (onRequestInit env s))) = [Exit_point]"
proof -
  obtain calls s1 where 1: "onRequestInit env s = (calls, s1)" by (rule prod.exhaust)
  have "Entry_point \<in> set calls"
    using 1 assms(1-5) by (auto simp: onRequestInit_def resetRequest_def Let_def begin_request_simps bootstrapPHPSideInstrumentation_def split: if_splits)
  then have s1: "isFunctional s1" "\<not> preloadDetected s1" using init_shape [OF 1] by auto
  then show ?thesis by (simp add: 1 onRequestShutdown_def isFunctional_def)
qed

definition sample_env :: request_env where
  "sample_env = \<lparr>sapi = CLI, env_config = new_ConfigurationSnapshot\<lparr>options := [(''enabled'', CBool True), (''inferred_spans_enabled'', CBool True)]\<rparr>,
     php_version = (8, 4), detectOpcachePreload = False, one_time = False, isScriptRestricedByOpcacheAPI = False,
     detectOpcacheRestartPending = False, compileAndExecuteFile = Inr (), callPHPSideEntryPoint = False, clock_now = 7\<rparr>"

lemma sample_env_config: "cfg_bool ''enabled'' (env_config sample_env)" "cfg_bool ''inferred_spans_enabled'' (env_config sample_env)"
  by (simp_all add: sample_env_def cfg_bool_def option_value_def)

lemma request_lifecycle_witness:
  "\<exists>calls s1. onRequestInit sample_env (whole_request sample_env (new_request_worker sample_guard (new_inferred 0))) = (calls, s1) \<and> (tasks_running s1 \<longleftrightarrow> Entry_point \<in> set calls)"
proof -
  let ?s = "fold whole_request [sample_env] (new_request_worker sample_guard (new_inferred 0))"
  obtain calls s1 where 1: "onRequestInit sample_env ?s = (calls, s1)" by (rule prod.exhaust)
  obtain calls2 s2 where 2: "onRequestShutdown sample_env s1 = (calls2, s2)" by (rule prod.exhaust)
  from request_lifecycle [OF refl 1 2] 1 show ?thesis by (auto simp: sample_env_config)
qed

lemma entry_point_failure_ignored_witness:
  "isFunctional (snd (onRequestInit sample_env (new_request_worker sample_guard (new_inferred 0))))"
  using entry_point_failure_ignored [of sample_env "new_request_worker sample_guard (new_inferred 0)"] sample_env_config
  by (simp add: sample_env_def isSupported_def)

end
