(* ===== verification/CallFrame.thy ===== *)
theory CallFrame
  imports Zval CxxStd
begin

text \<open>
  The arguments of an intercepted PHP call (\<open>InternalFunctionInstrumentation.cpp\<close>, \<open>PhpBridge.cpp\<close>): how
  they are read from the call frame for the hooks, and how a hook's return value replaces them
  (\<open>argsPostProcessing\<close>).

  A frame is the engine's \<open>zend_execute_data\<close> with the values that follow it. The values of an internal
  function are its arguments. Those of a user function are its compiled variables (the parameters first),
  then its temporaries, then the arguments passed beyond the declared ones. A slot is \<open>None\<close> while it
  holds nothing an engine operation may read or release.
\<close>

subsection \<open>Functions\<close>

text \<open>
  What the code reads of a \<open>zend_function\<close> and its class. \<open>fn_return_type\<close> tells whether a return type is
  declared, and if so whether it is \<open>void\<close>.
\<close>

record php_class =
  class_entry_name :: string
  class_interfaces :: "string list"

record php_function =
  fn_internal :: bool
  fn_name :: "string option"
  fn_scope :: "php_class option"
  fn_params :: "string list"
  fn_last_var :: u32
  fn_temporaries :: u32
  fn_static :: bool
  fn_closure :: bool
  fn_filename :: string
  fn_line_start :: u32
  fn_return_type :: "bool option"

text \<open>The names of the parameters of internal functions are C strings; those of user functions engine strings.\<close>

definition getFunctionArgumentIndex :: "string \<Rightarrow> php_function \<Rightarrow> u32 result" where
  "getFunctionArgumentIndex name f =
     (case find_if (\<lambda>argName. argName = name) (fn_params f) of
        Some i \<Rightarrow> Inr (of_nat i)
      | None \<Rightarrow> Inl (Runtime_error ''argument not found''))"

subsection \<open>Frames\<close>

record 'o frame =
  fr_func :: php_function
  fr_num_args :: u32
  fr_slots :: "'o zval option list"

text \<open>\<open>ZEND_CALL_ARG(frame, n)\<close> casts \<open>n\<close> to \<open>int\<close>; the first argument has number 1.\<close>

definition arg_slot :: "u64 \<Rightarrow> int" where
  "arg_slot n = sint (ucast n :: u32) - 1"

text \<open>\<open>ZVAL_UNDEF\<close> writes a slot without looking at it; \<open>zval_ptr_dtor\<close> and \<open>ZVAL_COPY\<close> release what it holds first.\<close>

definition undef_slot :: "int \<Rightarrow> 'o zval option list \<Rightarrow> 'o zval option list result" where
  "undef_slot i slots =
     (if 0 \<le> i \<and> i < int (length slots) then Inr (slots[nat i := Some Z_undef])
      else Inl (Undefined ''write outside the call frame''))"

definition assign_slot :: "int \<Rightarrow> 'o zval \<Rightarrow> 'o zval option list \<Rightarrow> 'o zval option list result" where
  "assign_slot i v slots =
     (if 0 \<le> i \<and> i < int (length slots) \<and> slots ! nat i \<noteq> None then Inr (slots[nat i := Some v])
      else Inl (Undefined ''release of a value outside the call frame''))"

fun fold_result :: "('a \<Rightarrow> 's \<Rightarrow> 's result) \<Rightarrow> 'a list \<Rightarrow> 's \<Rightarrow> 's result" where
  "fold_result f [] s = Inr s"
| "fold_result f (x # xs) s = bind_result (f x s) (fold_result f xs)"

subsection \<open>Reading the arguments\<close>

text \<open>An argument as a hook sees it: a missing one is null, a reference is followed.\<close>

fun arg_view :: "'o zval \<Rightarrow> 'o zval" where
  "arg_view Z_undef = Z_null"
| "arg_view (Z_reference v) = v"
| "arg_view v = v"

definition read_slot :: "'o zval option list \<Rightarrow> nat \<Rightarrow> 'o zval result" where
  "read_slot slots i =
     (if i < length slots then
        (case slots ! i of Some v \<Rightarrow> Inr (arg_view v) | None \<Rightarrow> Inl (Undefined ''read of an unset slot''))
      else Inl (Undefined ''read outside the call frame''))"

text \<open>Where argument \<open>i\<close> lives.\<close>

definition arg_position :: "php_function \<Rightarrow> u32 \<Rightarrow> nat \<Rightarrow> nat" where
  "arg_position f arg_count i =
     (let first_extra_arg = (if fn_internal f then unat arg_count else length (fn_params f))
      in if unat arg_count > first_extra_arg \<and> first_extra_arg \<le> i
         then unat (fn_last_var f) + unat (fn_temporaries f) + (i - first_extra_arg) else i)"

fun read_slots :: "'o zval option list \<Rightarrow> nat list \<Rightarrow> 'o zval list result" where
  "read_slots slots [] = Inr []"
| "read_slots slots (i # is) =
     bind_result (read_slot slots i) (\<lambda>v. bind_result (read_slots slots is) (\<lambda>vs. Inr (v # vs)))"

text \<open>\<open>array_init_size\<close> and the fill of a packed array: keys from 0.\<close>

definition packed_array :: "'o zval list \<Rightarrow> 'o zval" where
  "packed_array vs = Z_array (zip (map (\<lambda>i. Key_index (of_nat i)) [0..<length vs]) vs) (of_nat (length vs))"

definition getCallArguments :: "'o frame \<Rightarrow> 'o zval result" where
  "getCallArguments fr =
     (if fr_num_args fr = 0 then Inr (Z_array [] 0)
      else map_sum id packed_array
        (read_slots (fr_slots fr) (map (arg_position (fr_func fr) (fr_num_args fr)) [0..<unat (fr_num_args fr)])))"

subsection \<open>Replacing the arguments\<close>

definition highest_arg :: "(array_key \<times> 'o zval) list \<Rightarrow> u32" where
  "highest_arg ht =
     fold (\<lambda>(k, _) h. case k of Key_index i \<Rightarrow> max h (ucast i) | Key_string _ \<Rightarrow> h) ht 0"

definition offset_of_extra :: "php_function \<Rightarrow> u32" where
  "offset_of_extra f = (if fn_internal f then 0 else fn_temporaries f)"

text \<open>
  \<open>zend_vm_stack_extend_call_frame\<close> adds the slots at the end of the frame; the loop marks those it takes
  for the new arguments as undefined. The flags set on the call are not modelled.
\<close>

definition extend_frame :: "u32 \<Rightarrow> 'o frame \<Rightarrow> 'o frame result" where
  "extend_frame highestArgIdx fr =
     (let initial = fr_num_args fr
      in if highestArgIdx + 1 > initial then
           let howMany = highestArgIdx + 1 - initial
           in bind_result
                (fold_result
                   (\<lambda>idx. undef_slot (arg_slot (ucast (initial + of_nat idx + 1 + offset_of_extra (fr_func fr)))))
                   [0..<unat howMany] (fr_slots fr @ replicate (unat howMany) None))
                (\<lambda>slots. Inr (fr\<lparr>fr_slots := slots, fr_num_args := initial + howMany\<rparr>))
         else Inr fr)"

definition target_slot :: "php_function \<Rightarrow> u32 \<Rightarrow> u64 \<Rightarrow> int" where
  "target_slot f requiredArgsCount argIndex =
     (if argIndex < ucast requiredArgsCount then arg_slot (argIndex + 1)
      else arg_slot (argIndex + 1 + ucast (offset_of_extra f)))"

text \<open>One element of the array a hook returned; a name the function does not have is skipped.\<close>

definition replace_argument ::
  "php_function \<Rightarrow> u32 \<Rightarrow> array_key \<times> 'o zval \<Rightarrow> 'o zval option list \<Rightarrow> 'o zval option list result" where
  "replace_argument f requiredArgsCount kv slots =
     (case fst kv of
        Key_string name \<Rightarrow>
          (case getFunctionArgumentIndex name f of
             Inl _ \<Rightarrow> Inr slots
           | Inr i \<Rightarrow> assign_slot (target_slot f requiredArgsCount (ucast i)) (snd kv) slots)
      | Key_index i \<Rightarrow> assign_slot (target_slot f requiredArgsCount i) (snd kv) slots)"

text \<open>\<open>identical\<close> is the engine's \<open>zend_is_identical\<close>.\<close>

definition argsPostProcessing ::
  "('o zval \<Rightarrow> 'o zval \<Rightarrow> bool) \<Rightarrow> 'o zval \<Rightarrow> 'o zval \<Rightarrow> 'o frame \<Rightarrow> 'o frame result" where
  "argsPostProcessing identical functionArgs returnValue fr =
     (case returnValue of
        Z_array ht _ \<Rightarrow>
          if identical returnValue functionArgs then Inr fr
          else
            let f = fr_func fr; pairs = defined_elements ht;
                requiredArgsCount = (if fn_internal f then fr_num_args fr else fn_last_var f)
            in bind_result (extend_frame (highest_arg pairs) fr) (\<lambda>fr'.
                 bind_result (fold_result (replace_argument f requiredArgsCount) pairs (fr_slots fr')) (\<lambda>slots.
                   Inr (fr'\<lparr>fr_slots := slots\<rparr>)))
      | _ \<Rightarrow> Inr fr)"

subsection \<open>What a hook's array does to the arguments\<close>

text \<open>
  A frame at the entry of the called function: every argument and every compiled variable is set, and the
  variables that were not passed are undefined. Only a function without local variables beside its parameters
  keeps its extra arguments where \<open>argsPostProcessing\<close> looks for them. Sizes are far below the range of \<open>int\<close>.
\<close>

definition frame_wf :: "'o frame \<Rightarrow> bool" where
  "frame_wf fr \<longleftrightarrow>
     (let f = fr_func fr; n = unat (fr_num_args fr); slots = fr_slots fr;
          vars = unat (fn_last_var f); temps = unat (fn_temporaries f)
      in n + vars + temps < 2 ^ 30 \<and>
         (if fn_internal f then length slots = n \<and> (\<forall>i < n. slots ! i \<noteq> None)
          else length (fn_params f) = vars \<and> length slots = vars + temps + (n - vars) \<and>
            (\<forall>i < vars. slots ! i \<noteq> None \<and> (n \<le> i \<longrightarrow> slots ! i = Some Z_undef)) \<and>
            (\<forall>i < n. vars \<le> i \<longrightarrow> slots ! (i + temps) \<noteq> None)))"

definition argument_index :: "php_function \<Rightarrow> array_key \<Rightarrow> nat option" where
  "argument_index f k =
     (case k of Key_index i \<Rightarrow> Some (unat i) | Key_string name \<Rightarrow> find_if (\<lambda>argName. argName = name) (fn_params f))"

text \<open>The reference: the elements of the array replace, in order, the arguments they name.\<close>

definition replaced :: "php_function \<Rightarrow> (array_key \<times> 'o zval) list \<Rightarrow> 'o zval list \<Rightarrow> 'o zval list" where
  "replaced f =
     fold (\<lambda>(k, v) args. case argument_index f k of Some i \<Rightarrow> args[i := arg_view v] | None \<Rightarrow> args)"

definition slot_of :: "php_function \<Rightarrow> nat \<Rightarrow> nat" where
  "slot_of f i = (if fn_internal f \<or> i < unat (fn_last_var f) then i else i + unat (fn_temporaries f))"

lemma slot_of_inject [simp]: "slot_of f i = slot_of f j \<longleftrightarrow> i = j"
  by (auto simp: slot_of_def)

lemma unat_up [simp]: "unat (ucast (w :: u32) :: u64) = unat w"
  by (simp add: unsigned_ucast_eq take_bit_nat_eq_self_iff less_trans [OF unsigned_less])

lemma arg_slot_nat: "unat n < 2 ^ 31 \<Longrightarrow> 0 < n \<Longrightarrow> arg_slot n = int (unat n) - 1"
proof -
  assume small: "unat n < 2 ^ 31"
  then have "int (unat n) < int (2 ^ 31)" by (simp only: of_nat_less_iff)
  then have n: "uint n < 2 ^ 31" by simp
  then have "take_bit 32 (uint n) = uint n" by (intro take_bit_int_eq_self) simp_all
  then have "uint (ucast n :: u32) = uint n" by (simp add: unsigned_ucast_eq)
  then have "sint (ucast n :: u32) = signed_take_bit 31 (uint n)" by (simp only: sint_uint) simp
  also have "\<dots> = uint n"
  proof (rule signed_take_bit_int_eq_self)
    show "- (2 ^ 31) \<le> uint n" using uint_ge_0 [of n] by (rule order_trans [rotated]) simp
  qed (rule n)
  finally show ?thesis by (simp add: arg_slot_def)
qed

lemma target_slot_of:
  assumes "frame_wf fr" and "f = fr_func fr" and "unat i < 2 ^ 30"
  shows "target_slot f (if fn_internal f then fr_num_args fr else fn_last_var f) i = int (slot_of f (unat i))"
proof -
  have T: "unat (fn_temporaries f) < 2 ^ 30" using assms by (simp add: frame_wf_def Let_def)
  have i1: "unat (i + 1) = unat i + 1" using assms(3) by (simp add: unat_word_ariths)
  then have ip: "0 < i + 1" by (metis add_is_0 unat_0 word_neq_0_conv zero_neq_one)
  have a: "arg_slot (i + 1) = int (unat i)" using arg_slot_nat [OF _ ip] i1 assms(3) by simp
  have i2: "unat (i + 1 + ucast (fn_temporaries f)) = unat i + 1 + unat (fn_temporaries f)"
    using i1 T assms(3) by (simp add: unat_word_ariths)
  then have "0 < i + 1 + ucast (fn_temporaries f)" by (metis add_is_0 unat_0 word_neq_0_conv zero_neq_one)
  from arg_slot_nat [OF _ this] i2 assms(3) T
  have b: "arg_slot (i + 1 + ucast (fn_temporaries f)) = int (unat i + unat (fn_temporaries f))" by simp
  have less: "i < ucast (fn_last_var f) \<longleftrightarrow> unat i < unat (fn_last_var f)"
    by (simp add: word_less_nat_alt)
  show ?thesis
    using a b less by (auto simp: target_slot_def slot_of_def offset_of_extra_def)
qed

lemma undef_slots:
  assumes "\<forall>x \<in> set xs. g x = int (h x) \<and> h x < length s"
  shows "\<exists>s'. fold_result (\<lambda>x. undef_slot (g x)) xs s = Inr s' \<and> length s' = length s \<and>
    (\<forall>p < length s. s' ! p = (if p \<in> h ` set xs then Some Z_undef else s ! p))"
  using assms
proof (induction xs arbitrary: s)
  case (Cons x xs)
  then have u: "undef_slot (g x) s = Inr (s[h x := Some Z_undef])" by (simp add: undef_slot_def)
  from Cons.IH [of "s[h x := Some Z_undef]"] Cons.prems obtain s' where
    "fold_result (\<lambda>x. undef_slot (g x)) xs (s[h x := Some Z_undef]) = Inr s'" "length s' = length s"
    "\<forall>p < length s. s' ! p = (if p \<in> h ` set xs then Some Z_undef else s[h x := Some Z_undef] ! p)" by auto
  with u show ?case by (auto simp: nth_list_update)
qed simp

text \<open>The slots of the first \<open>m\<close> arguments are set, and hold these views; so are all compiled variables.\<close>

definition holds :: "php_function \<Rightarrow> 'o zval option list \<Rightarrow> 'o zval list \<Rightarrow> bool" where
  "holds f slots args \<longleftrightarrow>
     (\<forall>i < length args. slot_of f i < length slots \<and>
        (\<exists>v. slots ! slot_of f i = Some v \<and> arg_view v = args ! i)) \<and>
     (\<not> fn_internal f \<longrightarrow> (\<forall>i < unat (fn_last_var f). i < length slots \<and> slots ! i \<noteq> None))"

lemma holds_assign:
  assumes "holds f slots args" and "i < length args \<or> \<not> fn_internal f \<and> i < unat (fn_last_var f)"
  shows "assign_slot (int (slot_of f i)) v slots = Inr (slots[slot_of f i := Some v])"
    and "holds f (slots[slot_of f i := Some v]) (args[i := arg_view v])"
proof -
  have set: "slot_of f i < length slots \<and> slots ! slot_of f i \<noteq> None"
    using assms by (auto simp: holds_def slot_of_def)
  then show "assign_slot (int (slot_of f i)) v slots = Inr (slots[slot_of f i := Some v])"
    by (simp add: assign_slot_def)
  from set show "holds f (slots[slot_of f i := Some v]) (args[i := arg_view v])"
    using assms(1) unfolding holds_def by (auto simp: nth_list_update)
qed

lemma holds_read:
  assumes "holds f slots args"
  shows "read_slots slots (map (slot_of f) [0..<length args]) = Inr args"
proof -
  have "read_slots slots (map (slot_of f) is) = Inr (map (\<lambda>i. args ! i) is)" if "\<forall>i \<in> set is. i < length args" for "is"
    using that by (induction "is") (insert assms, auto simp: holds_def read_slot_def)
  from this [of "[0..<length args]"] show ?thesis by (simp add: map_nth)
qed

lemma holds_replaced:
  assumes "holds f slots args" and "frame_wf fr" and "f = fr_func fr"
    and "\<forall>kv \<in> set ht. \<forall>i. argument_index f (fst kv) = Some i \<longrightarrow> i < 2 ^ 30 \<and>
      (i < length args \<or> \<not> fn_internal f \<and> i < unat (fn_last_var f))"
  shows "\<exists>slots'. fold_result (replace_argument f (if fn_internal f then fr_num_args fr else fn_last_var f)) ht slots
       = Inr slots' \<and> holds f slots' (replaced f ht args)"
  using assms(1,4)
proof (induction ht arbitrary: slots args)
  case Nil
  then show ?case by (simp add: replaced_def)
next
  case (Cons kv ht)
  obtain k v where kv: "kv = (k, v)" by force
  let ?r = "if fn_internal f then fr_num_args fr else fn_last_var f"
  have T: "target_slot f ?r w = int (slot_of f (unat w))" if "unat w < 2 ^ 30" for w
    using target_slot_of [OF assms(2,3) that] .
  show ?case
  proof (cases "argument_index f k")
    case None
    then obtain name where "k = Key_string name" "find_if (\<lambda>argName. argName = name) (fn_params f) = None"
      by (cases k) (auto simp: argument_index_def)
    then have "replace_argument f ?r kv slots = Inr slots"
      by (simp add: kv replace_argument_def getFunctionArgumentIndex_def)
    moreover have "replaced f (kv # ht) args = replaced f ht args" using None by (simp add: replaced_def kv)
    ultimately show ?thesis using Cons by auto
  next
    case (Some i)
    then have i: "i < 2 ^ 30" "i < length args \<or> \<not> fn_internal f \<and> i < unat (fn_last_var f)"
      using Cons.prems(2) by (auto simp: kv)
    have "replace_argument f ?r kv slots = assign_slot (int (slot_of f i)) v slots"
    proof (cases k)
      case (Key_index w)
      then show ?thesis using Some i(1) T by (simp add: kv replace_argument_def argument_index_def)
    next
      case (Key_string name)
      then have "find_if (\<lambda>argName. argName = name) (fn_params f) = Some i" using Some by (simp add: argument_index_def)
      moreover have "unat (of_nat i :: u32) = i" using i(1) by (simp add: unat_of_nat take_bit_nat_eq_self)
      ultimately show ?thesis
        using Key_string i(1) T [of "ucast (of_nat i :: u32)"]
        by (simp add: kv replace_argument_def getFunctionArgumentIndex_def)
    qed
    with holds_assign [OF Cons.prems(1) i(2)]
    have r: "replace_argument f ?r kv slots = Inr (slots[slot_of f i := Some v])"
      and h: "holds f (slots[slot_of f i := Some v]) (args[i := arg_view v])" by simp_all
    have "replaced f (kv # ht) args = replaced f ht (args[i := arg_view v])" using Some by (simp add: replaced_def kv)
    with Cons.IH [OF h] Cons.prems(2) r show ?thesis by auto
  qed
qed

lemma find_if_less: "find_if P xs = Some i \<Longrightarrow> i < length xs"
  by (induction xs arbitrary: i) (auto split: if_splits)

lemma length_replaced: "length (replaced f ht args) = length args"
  unfolding replaced_def by (induction ht arbitrary: args) (auto split: option.splits)

lemma packed_array_inject: "packed_array vs = packed_array ws \<Longrightarrow> vs = ws"
  by (drule arg_cong [where f = "\<lambda>v. case v of Z_array ht _ \<Rightarrow> map snd ht | _ \<Rightarrow> []"]) (simp add: packed_array_def)

lemma fold_max_ge: "x \<le> fold (\<lambda>(k, _) h. case k of Key_index i \<Rightarrow> max h (ucast i) | Key_string _ \<Rightarrow> h) ht (x :: u32)"
proof (induction ht arbitrary: x)
  case (Cons e ht)
  have "x \<le> max x w" "max x w \<le> fold (\<lambda>(k, _) h. case k of Key_index i \<Rightarrow> max h (ucast i) | Key_string _ \<Rightarrow> h) ht (max x w)" for w
    using Cons.IH by simp_all
  then have "x \<le> fold (\<lambda>(k, _) h. case k of Key_index i \<Rightarrow> max h (ucast i) | Key_string _ \<Rightarrow> h) ht (max x w)" for w
    by (rule order_trans)
  then show ?case using Cons.IH [of x] by (cases e) (auto split: array_key.splits)
qed simp

lemma highest_arg_bounds:
  assumes "\<forall>kv \<in> set ht. \<forall>i. fst kv = Key_index i \<longrightarrow> unat i < 2 ^ 30"
  shows "unat (highest_arg ht) < 2 ^ 30"
    and "kv \<in> set ht \<Longrightarrow> fst kv = Key_index i \<Longrightarrow> unat i \<le> unat (highest_arg ht)"
proof -
  have u: "unat (ucast i :: u32) = unat i" if "unat i < 2 ^ 30" for i :: u64
    using that by (simp add: unsigned_ucast_eq take_bit_nat_eq_self)
  let ?g = "fold (\<lambda>(k, _) h. case k of Key_index i \<Rightarrow> max h (ucast i) | Key_string _ \<Rightarrow> h)"
  have lt: "unat (?g ht x) < 2 ^ 30" if "unat x < 2 ^ 30" for x :: u32
    using that assms
  proof (induction ht arbitrary: x)
    case (Cons e ht)
    obtain k v where e: "e = (k, v)" by force
    show ?case
    proof (cases k)
      case (Key_index i)
      then have "unat (max x (ucast i :: u32)) < 2 ^ 30" using Cons.prems e by (auto simp: max_def u)
      then show ?thesis using Cons.IH [of "max x (ucast i)"] Cons.prems Key_index e by simp
    qed (use Cons e in simp)
  qed simp
  have "kv \<in> set ht \<Longrightarrow> fst kv = Key_index i \<Longrightarrow> unat i \<le> unat (?g ht x)" for x :: u32
    using assms
  proof (induction ht arbitrary: x)
    case (Cons e ht)
    show ?case
    proof (cases "kv = e")
      case True
      then have "(ucast i :: u32) \<le> ?g (e # ht) x"
        using Cons.prems fold_max_ge [of "max x (ucast i)" ht] by (cases e) auto
      then have "unat (ucast i :: u32) \<le> unat (?g (e # ht) x)" by (simp only: word_le_nat_alt)
      with Cons.prems True u show ?thesis by simp
    qed (use Cons in \<open>auto simp: case_prod_unfold\<close>)
  qed simp
  with lt [of 0] show "unat (highest_arg ht) < 2 ^ 30"
    and "kv \<in> set ht \<Longrightarrow> fst kv = Key_index i \<Longrightarrow> unat i \<le> unat (highest_arg ht)"
    by (simp_all add: highest_arg_def)
qed

text \<open>The arguments a frame holds, as a hook sees them.\<close>

definition frame_args :: "'o frame \<Rightarrow> 'o zval list" where
  "frame_args fr =
     map (\<lambda>i. case fr_slots fr ! slot_of (fr_func fr) i of Some v \<Rightarrow> arg_view v | None \<Rightarrow> Z_null) [0..<unat (fr_num_args fr)]"

lemma frame_wf_holds: "frame_wf fr \<Longrightarrow> holds (fr_func fr) (fr_slots fr) (frame_args fr)"
  by (auto simp: frame_wf_def holds_def frame_args_def slot_of_def Let_def split: if_splits)

lemma arg_position_slot:
  assumes "fn_internal f \<or> length (fn_params f) = unat (fn_last_var f)" and "i < unat n"
  shows "arg_position f n i = slot_of f i"
  using assms by (auto simp: arg_position_def slot_of_def)

lemma getCallArguments_holds:
  assumes "holds (fr_func fr) (fr_slots fr) args" and "unat (fr_num_args fr) = length args"
    and "fn_internal (fr_func fr) \<or> length (fn_params (fr_func fr)) = unat (fn_last_var (fr_func fr))"
  shows "getCallArguments fr = Inr (packed_array args)"
proof (cases "fr_num_args fr = 0")
  case True
  then show ?thesis using assms by (simp add: getCallArguments_def packed_array_def)
next
  case False
  have "map (arg_position (fr_func fr) (fr_num_args fr)) [0..<length args] = map (slot_of (fr_func fr)) [0..<length args]"
    using assms by (auto intro: arg_position_slot)
  with holds_read [OF assms(1)] have
    "read_slots (fr_slots fr) (map (arg_position (fr_func fr) (fr_num_args fr)) [0..<length args]) = Inr args" by (simp only:)
  with False assms(2) show ?thesis by (simp add: getCallArguments_def)
qed

lemma extend_frame_holds:
  assumes "frame_wf fr" and "unat h < 2 ^ 30" and "m = max (unat (fr_num_args fr)) (Suc (unat h))"
  shows "\<exists>slots'. extend_frame h fr = Inr (fr\<lparr>fr_slots := slots', fr_num_args := of_nat m\<rparr>) \<and>
    holds (fr_func fr) slots' (frame_args fr @ replicate (m - unat (fr_num_args fr)) Z_null)"
proof -
  let ?n = "fr_num_args fr" and ?f = "fr_func fr"
  have small: "unat ?n + unat (fn_last_var ?f) + unat (fn_temporaries ?f) < 2 ^ 30"
    using assms(1) by (simp add: frame_wf_def Let_def)
  have h1: "unat (h + 1) = Suc (unat h)" using assms(2) by (simp add: unat_word_ariths)
  show ?thesis
  proof (cases "h + 1 > ?n")
    case False
    then have "m = unat ?n" using assms(3) h1 by (simp add: word_le_nat_alt not_less)
    with False frame_wf_holds [OF assms(1)] show ?thesis
      by (intro exI [of _ "fr_slots fr"]) (simp add: extend_frame_def)
  next
    case True
    then have gt: "unat ?n < Suc (unat h)" using h1 by (simp add: word_less_nat_alt)
    then have m: "m = Suc (unat h)" using assms(3) by simp
    let ?k = "unat (h + 1 - ?n)"
    have k: "?k = m - unat ?n" using True h1 m by (simp add: unat_sub word_le_nat_alt word_less_nat_alt)
    let ?s = "fr_slots fr @ replicate ?k None"
    let ?off = "offset_of_extra ?f"
    have pos: "arg_slot (ucast (?n + of_nat idx + 1 + ?off)) = int (unat ?n + idx + unat ?off)"
      if "idx < ?k" for idx
    proof -
      have "unat (of_nat idx :: u32) = idx" using that k m assms(2) by (simp add: unat_of_nat take_bit_nat_eq_self)
      then have "unat (?n + of_nat idx + 1 + ?off) = unat ?n + idx + 1 + unat ?off"
        using that k m small assms(2) by (simp add: unat_word_ariths offset_of_extra_def)
      moreover from this have "0 < (ucast (?n + of_nat idx + 1 + ?off) :: u64)"
        by (simp add: word_less_nat_alt)
      ultimately show ?thesis
        using arg_slot_nat [of "ucast (?n + of_nat idx + 1 + ?off)"] that k m small assms(2)
        by (simp add: offset_of_extra_def split: if_splits)
    qed
    have len: "unat ?n + idx + unat ?off < length ?s" if "idx < ?k" for idx
      using that assms(1) by (auto simp: frame_wf_def Let_def offset_of_extra_def split: if_splits)
    from pos len have "\<forall>x \<in> set [0..<?k]. arg_slot (ucast (?n + of_nat x + 1 + ?off)) = int (unat ?n + x + unat ?off)
        \<and> unat ?n + x + unat ?off < length ?s" by simp
    from undef_slots [OF this] obtain s' where s':
      "fold_result (\<lambda>x. undef_slot (arg_slot (ucast (?n + of_nat x + 1 + ?off)))) [0..<?k] ?s = Inr s'"
      "length s' = length ?s"
      "\<And>p. p < length ?s \<Longrightarrow> s' ! p = (if p \<in> (\<lambda>x. unat ?n + x + unat ?off) ` {0..<?k} then Some Z_undef else ?s ! p)"
      by auto
    have "?n + (h + 1 - ?n) = of_nat m" using m by simp
    then have e: "extend_frame h fr = Inr (fr\<lparr>fr_slots := s', fr_num_args := of_nat m\<rparr>)"
      using True s'(1) by (simp add: extend_frame_def Let_def)
    have "holds ?f s' (frame_args fr @ replicate ?k Z_null)"
    proof -
      have wf: "length (fr_slots fr) \<le> length s'"
        "fn_internal ?f \<Longrightarrow> length (fr_slots fr) = unat ?n"
        "\<not> fn_internal ?f \<Longrightarrow> length (fr_slots fr) =
          unat (fn_last_var ?f) + unat (fn_temporaries ?f) + (unat ?n - unat (fn_last_var ?f))"
        using assms(1) s'(2) by (simp_all add: frame_wf_def Let_def)
      have img: "p \<in> (\<lambda>x. unat ?n + x + unat ?off) ` {0..<?k} \<longleftrightarrow> unat ?n + unat ?off \<le> p \<and> p < m + unat ?off" for p
        using k gt m by (auto intro!: image_eqI [of _ _ "p - (unat ?n + unat ?off)"])
      have s'_nth: "s' ! p = (if unat ?n + unat ?off \<le> p \<and> p < m + unat ?off then Some Z_undef
          else if p < length (fr_slots fr) then fr_slots fr ! p else None)" if "p < length s'" for p
        using that s'(2) s'(3) [of p] by (simp add: img nth_append)
      have old: "s' ! slot_of ?f i = fr_slots fr ! slot_of ?f i" "slot_of ?f i < length s'" if "i < unat ?n" for i
      proof -
        show l: "slot_of ?f i < length s'" using that wf by (cases "fn_internal ?f") (auto simp: slot_of_def)
        show "s' ! slot_of ?f i = fr_slots fr ! slot_of ?f i"
          using that wf s'_nth [OF l] by (cases "fn_internal ?f") (auto simp: slot_of_def offset_of_extra_def)
      qed
      have new: "s' ! slot_of ?f i = Some Z_undef" "slot_of ?f i < length s'" if "unat ?n \<le> i" "i < m" for i
      proof -
        show l: "slot_of ?f i < length s'"
          using that wf s'(2) k by (cases "fn_internal ?f") (auto simp: slot_of_def)
        show "s' ! slot_of ?f i = Some Z_undef"
          using that wf s'_nth [OF l] assms(1)
          by (cases "fn_internal ?f") (auto simp: slot_of_def offset_of_extra_def frame_wf_def Let_def)
      qed
      have vars: "i < length s' \<and> s' ! i \<noteq> None" if "\<not> fn_internal ?f" "i < unat (fn_last_var ?f)" for i
      proof -
        have "i < length s'" using that wf by auto
        moreover have "s' ! i \<noteq> None" using that wf s'_nth [OF \<open>i < length s'\<close>] assms(1)
          by (auto simp: frame_wf_def Let_def split: if_splits)
        ultimately show ?thesis by simp
      qed
      have "\<exists>v. s' ! slot_of ?f i = Some v \<and> arg_view v = (frame_args fr @ replicate ?k Z_null) ! i" if "i < m" for i
      proof (cases "i < unat ?n")
        case True
        with frame_wf_holds [OF assms(1)] old(1) [OF True] show ?thesis
          by (auto simp: holds_def frame_args_def nth_append)
      next
        case False
        with new(1) [of i] that k show ?thesis by (simp add: frame_args_def nth_append)
      qed
      moreover have "length (frame_args fr @ replicate ?k Z_null) = m" using k gt m by (simp add: frame_args_def)
      moreover have "slot_of ?f i < length s'" if "i < m" for i
        using old(2) [of i] new(2) [of i] that by (cases "i < unat ?n") auto
      ultimately show ?thesis using vars by (simp add: holds_def)
    qed
    with e k show ?thesis by auto
  qed
qed


lemma argument_index_bound:
  assumes "\<forall>kv \<in> set ht. \<forall>i. fst kv = Key_index i \<longrightarrow> unat i < 2 ^ 30" and "m = max n (Suc (unat (highest_arg ht)))"
    and "fn_internal f \<Longrightarrow> \<forall>kv \<in> set ht. \<forall>i. argument_index f (fst kv) = Some i \<longrightarrow> i < m"
    and "\<not> fn_internal f \<Longrightarrow> length (fn_params f) = unat (fn_last_var f)"
    and "kv \<in> set ht" and "argument_index f (fst kv) = Some i"
  shows "i < m \<or> \<not> fn_internal f \<and> i < unat (fn_last_var f)"
proof (cases "fst kv")
  case (Key_index w)
  then show ?thesis
    using assms(2,6) highest_arg_bounds(2) [OF assms(1,5) Key_index] by (auto simp: argument_index_def less_max_iff_disj)
next
  case (Key_string name)
  then have "i < length (fn_params f)" using assms(6) by (simp add: argument_index_def find_if_less)
  then show ?thesis using assms(3-6) by (cases "fn_internal f") auto
qed

text \<open>
  C10. What a hook returns replaces the arguments of the intercepted call as a reader expects, in the frames for which the
  code is right: the frame of an internal function, where a parameter the array names lies within the arguments passed or
  those the call is extended to, and the frame of a user function without any variable but its parameters (\<open>frame_wf\<close>).
  There the elements of the array replace the arguments at their position, below \<open>2 ^ 30\<close>, or of that parameter name, in the
  order of the array, the call is extended to the highest position (and to one argument when there were none), arguments
  skipped over are null, and names the function does not have are ignored. For other frames \<open>extra_argument_hits_local_variable\<close>
  and \<open>named_argument_outside_frame\<close> below show what goes wrong.
\<close>

theorem hook_replaces_arguments:
  assumes wf: "frame_wf fr" and "f = fr_func fr" and ret: "\<not> identical (Z_array ht next) args"
    and idx: "\<forall>kv \<in> set (defined_elements ht). \<forall>i. fst kv = Key_index i \<longrightarrow> unat i < 2 ^ 30"
    and m: "m = max (unat (fr_num_args fr)) (Suc (unat (highest_arg (defined_elements ht))))"
    and named: "fn_internal f \<Longrightarrow> \<forall>kv \<in> set (defined_elements ht). \<forall>i. argument_index f (fst kv) = Some i \<longrightarrow> i < m"
    and passed: "getCallArguments fr = Inr (packed_array vs)"
  shows "\<exists>fr'. argsPostProcessing identical args (Z_array ht next) fr = Inr fr' \<and>
    fr_num_args fr' = of_nat m \<and>
    getCallArguments fr' = Inr (packed_array (replaced f (defined_elements ht) (vs @ replicate (m - length vs) Z_null)))"
proof -
  let ?ht = "defined_elements ht" and ?n = "unat (fr_num_args fr)"
  have user: "fn_internal f \<or> length (fn_params f) = unat (fn_last_var f)"
    using wf \<open>f = fr_func fr\<close> by (auto simp: frame_wf_def Let_def split: if_splits)
  have "unat (fr_num_args fr) = length (frame_args fr)" by (simp add: frame_args_def)
  from getCallArguments_holds [OF frame_wf_holds [OF wf] this] user \<open>f = fr_func fr\<close> passed
  have "packed_array vs = packed_array (frame_args fr)" by simp
  then have vs: "vs = frame_args fr" by (rule packed_array_inject)
  then have len: "length vs = ?n" by (simp add: frame_args_def)
  note h = highest_arg_bounds [OF idx]
  from extend_frame_holds [OF wf h(1) m] obtain slots1 where
    ext: "extend_frame (highest_arg ?ht) fr = Inr (fr\<lparr>fr_slots := slots1, fr_num_args := of_nat m\<rparr>)" and
    h1: "holds f slots1 (vs @ replicate (m - ?n) Z_null)" using vs \<open>f = fr_func fr\<close> by auto
  have small: "?n + unat (fn_last_var f) < 2 ^ 30" "\<not> fn_internal f \<Longrightarrow> length (fn_params f) = unat (fn_last_var f)"
    using wf \<open>f = fr_func fr\<close> by (simp_all add: frame_wf_def Let_def)
  have m_small: "m \<le> 2 ^ 30" using m small h(1) by simp
  have "\<forall>kv \<in> set ?ht. \<forall>i. argument_index f (fst kv) = Some i \<longrightarrow> i < 2 ^ 30 \<and>
      (i < length (vs @ replicate (m - ?n) Z_null) \<or> \<not> fn_internal f \<and> i < unat (fn_last_var f))"
    using argument_index_bound [OF idx m named small(2)] len m m_small small(1) by fastforce
  from holds_replaced [OF h1 wf \<open>f = fr_func fr\<close> this] obtain slots2 where
    rep: "fold_result (replace_argument f (if fn_internal f then fr_num_args fr else fn_last_var f)) ?ht slots1 = Inr slots2"
    and h2: "holds f slots2 (replaced f ?ht (vs @ replicate (m - ?n) Z_null))" by blast
  let ?fr = "fr\<lparr>fr_slots := slots2, fr_num_args := of_nat m\<rparr>"
  have "argsPostProcessing identical args (Z_array ht next) fr = Inr ?fr"
    using ret ext rep \<open>f = fr_func fr\<close> by (cases "fn_internal (fr_func fr)") (simp_all add: argsPostProcessing_def Let_def)
  moreover have "getCallArguments ?fr = Inr (packed_array (replaced f ?ht (vs @ replicate (m - ?n) Z_null)))"
  proof (rule getCallArguments_holds)
    show "unat (fr_num_args ?fr) = length (replaced f ?ht (vs @ replicate (m - ?n) Z_null))"
      using len m m_small by (simp add: length_replaced unat_of_nat take_bit_nat_eq_self)
  qed (use h2 user \<open>f = fr_func fr\<close> in simp_all)
  ultimately show ?thesis using len by (intro exI [of _ ?fr]) simp
qed

text \<open>
  An argument named by a hook but not passed by the caller of an internal function lies outside the call
  frame: the value there is released and overwritten. The frame is extended for positions only.
\<close>

theorem named_argument_outside_frame:
  assumes "frame_wf fr" and "fn_internal (fr_func fr)" and "\<not> identical (Z_array [(Key_string name, v)] next) args"
    and "\<not> isUndef v" and "find_if (\<lambda>argName. argName = name) (fn_params (fr_func fr)) = Some j"
    and "max (unat (fr_num_args fr)) 1 \<le> j" and "length (fn_params (fr_func fr)) < 2 ^ 30"
  shows "argsPostProcessing identical args (Z_array [(Key_string name, v)] next) fr
    = Inl (Undefined ''release of a value outside the call frame'')"
proof -
  let ?f = "fr_func fr"
  obtain slots where ext: "extend_frame 0 fr = Inr (fr\<lparr>fr_slots := slots, fr_num_args := of_nat (max (unat (fr_num_args fr)) 1)\<rparr>)"
    and len: "length slots = max (unat (fr_num_args fr)) 1"
  proof (cases "fr_num_args fr = 0")
    case True
    moreover from True assms(1,2) have "fr_slots fr = []" by (simp add: frame_wf_def Let_def)
    ultimately show ?thesis
      using assms(2) by (intro that [of "[Some Z_undef]"])
        (simp_all add: extend_frame_def undef_slot_def arg_slot_def offset_of_extra_def)
  next
    case False
    then have n: "1 \<le> unat (fr_num_args fr)" by (simp add: Suc_le_eq unat_gt_0)
    then have "\<not> fr_num_args fr < 1" by (simp add: word_less_nat_alt)
    with n show ?thesis
      using assms(1,2) by (intro that [of "fr_slots fr"]) (simp_all add: extend_frame_def frame_wf_def Let_def max_absorb1)
  qed
  have j: "j < 2 ^ 30" using find_if_less [OF assms(5)] assms(7) by simp
  then have u: "unat (ucast (of_nat j :: u32) :: u64) = j" by (simp add: unat_of_nat take_bit_nat_eq_self)
  moreover have "uint (of_nat j :: u32) = int j" using j by (simp add: unsigned_of_nat take_bit_nat_eq_self)
  ultimately have "target_slot ?f (fr_num_args fr) (ucast (of_nat j :: u32)) = int j"
    using target_slot_of [OF assms(1) refl, of "ucast (of_nat j :: u32)"] j assms(2) by (simp add: slot_of_def)
  moreover have out: "\<not> j < length slots" using len assms(6) by (auto simp: less_max_iff_disj)
  ultimately have "replace_argument ?f (fr_num_args fr) (Key_string name, v) slots
      = Inl (Undefined ''release of a value outside the call frame'')"
    using assms(5) out by (simp add: replace_argument_def getFunctionArgumentIndex_def assign_slot_def)
  with ext show ?thesis
    using assms(2-4) by (simp add: argsPostProcessing_def defined_elements_def highest_arg_def)
qed

text \<open>
  In a user function with local variables an extra argument is not replaced: the value goes to the local
  variable that has the argument's number, and the hooks and the function still see the old argument.
\<close>

theorem extra_argument_hits_local_variable:
  assumes "f = fr_func fr" and "\<not> fn_internal f" and "length (fn_params f) \<le> unat k" and "k < ucast (fn_last_var f)"
    and "k < ucast (fr_num_args fr)" and "unat k < 2 ^ 30" and "unat k < length (fr_slots fr)" and "fr_slots fr ! unat k \<noteq> None"
    and "\<not> identical (Z_array [(Key_index k, v)] next) args" and "\<not> isUndef v"
  shows "argsPostProcessing identical args (Z_array [(Key_index k, v)] next) fr
      = Inr (fr\<lparr>fr_slots := (fr_slots fr)[unat k := Some v]\<rparr>) \<and>
    getCallArguments (fr\<lparr>fr_slots := (fr_slots fr)[unat k := Some v]\<rparr>) = getCallArguments fr"
proof
  have n: "unat k < unat (fr_num_args fr)" and L: "unat k < unat (fn_last_var f)"
    using assms(4,5) by (simp_all add: word_less_nat_alt)
  have uk: "unat (ucast k :: u32) = unat k" using assms(6) by (simp add: unsigned_ucast_eq take_bit_nat_eq_self)
  then have "unat ((ucast k :: u32) + 1) = unat k + 1" using assms(6) by (simp add: unat_word_ariths)
  then have "\<not> fr_num_args fr < ucast k + 1" using n by (simp add: word_less_nat_alt)
  then have ext: "extend_frame (ucast k) fr = Inr fr" by (simp add: extend_frame_def)
  have "unat (k + 1) = unat k + 1" using assms(6) by (simp add: unat_word_ariths)
  moreover from this have "0 < k + 1" by (simp add: word_less_nat_alt)
  ultimately have "arg_slot (k + 1) = int (unat k)" using arg_slot_nat [of "k + 1"] assms(6) by simp
  moreover have "int (unat k) < int (length (fr_slots fr))" using assms(7) by (simp only: of_nat_less_iff)
  ultimately have "replace_argument f (fn_last_var f) (Key_index k, v) (fr_slots fr) = Inr ((fr_slots fr)[unat k := Some v])"
    using assms(4,8) by (simp add: replace_argument_def target_slot_def assign_slot_def)
  with ext show "argsPostProcessing identical args (Z_array [(Key_index k, v)] next) fr
      = Inr (fr\<lparr>fr_slots := (fr_slots fr)[unat k := Some v]\<rparr>)"
    using assms(1,2,9,10) by (simp add: argsPostProcessing_def defined_elements_def highest_arg_def)
  have "read_slots (slots[unat k := w]) ps = read_slots slots ps" if "unat k \<notin> set ps" for ps slots and w :: "'a zval option"
    using that by (induction ps) (auto simp: read_slot_def)
  moreover have "unat k \<notin> set (map (arg_position f (fr_num_args fr)) [0..<unat (fr_num_args fr)])"
    using assms(2,3) n L by (auto simp: arg_position_def Let_def split: if_splits)
  ultimately show "getCallArguments (fr\<lparr>fr_slots := (fr_slots fr)[unat k := Some v]\<rparr>) = getCallArguments fr"
    using assms(1) by (simp add: getCallArguments_def)
qed

text \<open>A call without arguments is given one as soon as a hook returns an array, be it empty or of unknown names.\<close>

lemma array_adds_argument:
  assumes "fr_num_args fr = 0" and "fn_internal (fr_func fr)" and "fr_slots fr = []"
    and "\<not> identical (Z_array [(Key_string name, v)] next) args" and "name \<notin> set (fn_params (fr_func fr))"
  shows "argsPostProcessing identical args (Z_array [(Key_string name, v)] next) fr
    = Inr (fr\<lparr>fr_num_args := 1, fr_slots := [Some Z_undef]\<rparr>)"
proof -
  have "find_if (\<lambda>argName. argName = name) (fn_params (fr_func fr)) = None" using assms(5) by (auto simp: find_if_None_iff)
  with assms show ?thesis
    by (simp add: argsPostProcessing_def defined_elements_def highest_arg_def extend_frame_def undef_slot_def arg_slot_def
        offset_of_extra_def replace_argument_def getFunctionArgumentIndex_def)
qed


subsection \<open>Examples\<close>

text \<open>
  A user function \<open>f($a)\<close> with two temporaries, called with three arguments; an internal function
  \<open>g($a, $b)\<close> called with one; a user function with the local variable \<open>$x\<close>, called with two.
\<close>

definition sample_function :: php_function where
  "sample_function =
     \<lparr>fn_internal = False, fn_name = Some ''f'', fn_scope = None, fn_params = [''a''], fn_last_var = 1, fn_temporaries = 2,
      fn_static = False, fn_closure = False, fn_filename = ''f.php'', fn_line_start = 1, fn_return_type = None\<rparr>"

definition sample_frame :: "nat frame" where
  "sample_frame =
     \<lparr>fr_func = sample_function, fr_num_args = 3,
      fr_slots = [Some (Z_long 1), None, None, Some (Z_long 2), Some (Z_long 3)]\<rparr>"

definition sample_internal :: "nat frame" where
  "sample_internal =
     \<lparr>fr_func = sample_function\<lparr>fn_internal := True, fn_params := [''a'', ''b'']\<rparr>, fr_num_args = 1, fr_slots = [Some (Z_long 1)]\<rparr>"

definition sample_locals :: "nat frame" where
  "sample_locals =
     \<lparr>fr_func = sample_function\<lparr>fn_last_var := 2\<rparr>, fr_num_args = 2,
      fr_slots = [Some (Z_long 1), Some Z_undef, None, None, Some (Z_long 2)]\<rparr>"

abbreviation sample_returned :: "(array_key \<times> nat zval) list" where
  "sample_returned \<equiv> [(Key_index 1, Z_true), (Key_index 4, Z_false), (Key_string ''a'', Z_null)]"

lemma all_less_3: "(\<forall>i < (3 :: nat). P i) \<longleftrightarrow> P 0 \<and> P 1 \<and> P 2"
  by (auto simp: less_Suc_eq numeral_3_eq_3 numeral_2_eq_2)

lemma upt_3: "[0..<3] = [0, 1, 2 :: nat]" by (simp add: upt_rec)

lemma hook_replaces_arguments_witness:
  "\<exists>fr'. argsPostProcessing (=) Z_null (Z_array sample_returned 5) sample_frame = Inr fr' \<and>
     getCallArguments fr' = Inr (packed_array [Z_null, Z_true, Z_long 3, Z_null, Z_false])"
proof -
  have "frame_wf sample_frame"
    by (simp add: frame_wf_def sample_frame_def sample_function_def all_less_3)
  moreover have h: "highest_arg (defined_elements sample_returned) = 4"
    by (simp add: highest_arg_def defined_elements_def)
  moreover have "getCallArguments sample_frame = Inr (packed_array [Z_long 1, Z_long 2, Z_long 3])"
    by (simp add: getCallArguments_def sample_frame_def sample_function_def arg_position_def read_slot_def upt_3)
  moreover have "\<forall>kv \<in> set (defined_elements sample_returned). \<forall>i. fst kv = Key_index i \<longrightarrow> unat i < 2 ^ 30"
    by (auto simp: defined_elements_def)
  moreover have "replaced sample_function (defined_elements sample_returned) ([Z_long 1, Z_long 2, Z_long 3] @ replicate 2 Z_null)
      = [Z_null, Z_true, Z_long 3, Z_null, Z_false]"
  proof -
    have "argument_index sample_function (Key_index 1) = Some 1" "argument_index sample_function (Key_index 4) = Some 4"
      "argument_index sample_function (Key_string ''a'') = Some 0"
      by (simp_all add: argument_index_def sample_function_def)
    then show ?thesis by (simp add: replaced_def defined_elements_def eval_nat_numeral)
  qed
  moreover have "fr_func sample_frame = sample_function" "fr_num_args sample_frame = 3" "\<not> fn_internal sample_function"
    by (simp_all add: sample_frame_def sample_function_def)
  ultimately show ?thesis
    using hook_replaces_arguments [of sample_frame sample_function "(=)" sample_returned 5 Z_null 5 "[Z_long 1, Z_long 2, Z_long 3]"]
    by auto
qed

lemma named_argument_outside_frame_witness:
  "argsPostProcessing (=) Z_null (Z_array [(Key_string ''b'', Z_true)] 0) sample_internal
    = Inl (Undefined ''release of a value outside the call frame'')"
  by (rule named_argument_outside_frame [where j = 1])
    (simp_all add: sample_internal_def sample_function_def frame_wf_def Let_def)

lemma extra_argument_hits_local_variable_witness:
  "argsPostProcessing (=) Z_null (Z_array [(Key_index 1, Z_true)] 2) sample_locals
      = Inr (sample_locals\<lparr>fr_slots := (fr_slots sample_locals)[1 := Some Z_true]\<rparr>) \<and>
   getCallArguments (sample_locals\<lparr>fr_slots := (fr_slots sample_locals)[1 := Some Z_true]\<rparr>) = getCallArguments sample_locals"
  using extra_argument_hits_local_variable [of "fr_func sample_locals" sample_locals 1 "(=)" Z_true 2 Z_null]
  by (simp add: sample_locals_def sample_function_def)

end
