(* ===== verification/Hooks.thy ===== *)
theory Hooks
  imports CallFrame
begin

text \<open>
  Registration of hooks: the hooks of a function (\<open>InstrumentedFunctionHooksStorage.h\<close>), the original
  handlers of internal functions (\<open>InternalFunctionInstrumentationStorage.h\<close>), the keys of functions
  (\<open>Helpers.cpp\<close>), \<open>instrumentFunction\<close> and \<open>elasticRegisterObserver\<close>
  (\<open>InternalFunctionInstrumentation.cpp\<close>). \<open>hash\<close> is the engine's hash of a string, a parameter.
\<close>

subsection \<open>Storage of hooks\<close>

type_synonym 'c hook_pair = "'c \<times> 'c"
type_synonym 'c hooks_storage = "(u64, 'c hook_pair list) umap"

definition callbacks_of :: "u64 \<Rightarrow> 'c hooks_storage \<Rightarrow> 'c hook_pair list" where
  "callbacks_of key m = (case map_of m key of None \<Rightarrow> [] | Some cs \<Rightarrow> cs)"

definition hooks_store :: "u64 \<Rightarrow> 'c \<Rightarrow> 'c \<Rightarrow> 'c hooks_storage \<Rightarrow> 'c hooks_storage" where
  "hooks_store key onEntry onExit m = um_assign key (callbacks_of key m @ [(onEntry, onExit)]) m"

definition hooks_storeFront :: "u64 \<Rightarrow> 'c \<Rightarrow> 'c \<Rightarrow> 'c hooks_storage \<Rightarrow> 'c hooks_storage" where
  "hooks_storeFront key onEntry onExit m = um_assign key ((onEntry, onExit) # callbacks_of key m) m"

definition hooks_find :: "u64 \<Rightarrow> 'c hooks_storage \<Rightarrow> 'c hook_pair list option" where
  "hooks_find key m = map_of m key"

definition hooks_clear :: "'c hooks_storage \<Rightarrow> 'c hooks_storage" where
  "hooks_clear m = []"

text \<open>
  The contract of the storage: a list per key, to which \<open>store\<close> appends. In the locale, what is found
  after any registrations is what was there and the registrations under that key, in order.
\<close>

locale hook_registry =
  fixes store :: "'k \<Rightarrow> 'c \<Rightarrow> 'c \<Rightarrow> 's \<Rightarrow> 's"
    and lookup :: "'k \<Rightarrow> 's \<Rightarrow> ('c \<times> 'c) list option"
    and clear :: "'s \<Rightarrow> 's"
  assumes lookup_store: "lookup k (store k' a b s) =
      (if k = k' then Some ((case lookup k s of None \<Rightarrow> [] | Some cs \<Rightarrow> cs) @ [(a, b)]) else lookup k s)"
    and lookup_clear: "lookup k (clear s) = None"
begin

abbreviation registered :: "'k \<Rightarrow> 's \<Rightarrow> ('c \<times> 'c) list" where
  "registered k s \<equiv> (case lookup k s of None \<Rightarrow> [] | Some cs \<Rightarrow> cs)"

lemma registered_fold:
  "registered k (fold (\<lambda>(k', a, b). store k' a b) rs s) = registered k s @ [(a, b). (k', a, b) \<leftarrow> rs, k' = k]"
  by (induction rs arbitrary: s) (auto simp: lookup_store)

lemma lookup_fold_other:
  "\<forall>(k', a, b) \<in> set rs. k' \<noteq> k \<Longrightarrow> lookup k (fold (\<lambda>(k', a, b). store k' a b) rs s) = lookup k s"
  by (induction rs arbitrary: s) (auto simp: lookup_store)

end

interpretation hs: hook_registry hooks_store hooks_find hooks_clear
  by unfold_locales (auto simp: hooks_store_def hooks_find_def hooks_clear_def callbacks_of_def umap_simps)

text \<open>The original handlers: \<open>store\<close> keeps what is there.\<close>

type_synonym 'h handler_storage = "(u64, 'h) umap"

definition handler_get :: "u64 \<Rightarrow> 'h handler_storage \<Rightarrow> 'h option" where
  "handler_get functionKey st = map_of st functionKey"

definition handler_store :: "u64 \<Rightarrow> 'h \<Rightarrow> 'h handler_storage \<Rightarrow> 'h handler_storage" where
  "handler_store functionKey originalHandler st =
     (case map_of st functionKey of None \<Rightarrow> um_emplace functionKey originalHandler st | Some _ \<Rightarrow> st)"

definition handler_remove :: "u64 \<Rightarrow> 'h handler_storage \<Rightarrow> 'h handler_storage" where
  "handler_remove functionKey st = um_erase functionKey st"

subsection \<open>Keys\<close>

definition combine_hash :: "u64 \<Rightarrow> u64 \<Rightarrow> u64" where
  "combine_hash classHash funcHash = xor classHash (push_bit 1 funcHash)"

text \<open>\<open>None\<close>: no frame, or a frame without a function.\<close>

definition getClassAndFunctionHash :: "(string \<Rightarrow> u64) \<Rightarrow> php_function option \<Rightarrow> u64" where
  "getClassAndFunctionHash hash fo =
     (case fo of
        None \<Rightarrow> 0
      | Some f \<Rightarrow>
          (case fn_name f of
             None \<Rightarrow> 0
           | Some name \<Rightarrow>
               combine_hash (case fn_scope f of None \<Rightarrow> 0 | Some c \<Rightarrow> hash (class_entry_name c)) (hash name)))"

subsection \<open>Registration\<close>

text \<open>
  The tables of the engine: functions by lower-case name, per class and global. A class has its own copy of an
  inherited internal method, whose scope is the class that declares it.
\<close>

datatype 'h zif_handler = Engine_handler 'h | Internal_function_handler

record 'h function_entry =
  fe_function :: php_function
  fe_handler :: "'h zif_handler"

type_synonym 'h function_table = "(string, 'h function_entry) umap"

record 'h class_entry =
  ce_name :: string
  ce_functions :: "'h function_table"

record ('h, 'o) instrumentation =
  function_table :: "'h function_table option"
  class_table :: "(string, 'h class_entry) umap option"
  hooksStorage :: "'o zval hooks_storage"
  internalStorage :: "'h handler_storage"

text \<open>Marking one entry of a table: its hooks are stored, and the handler of an internal function is exchanged once.\<close>

definition mark_entry ::
  "u64 \<Rightarrow> 'o zval option \<Rightarrow> 'o zval option \<Rightarrow> 'h function_entry \<Rightarrow> ('h, 'o) instrumentation \<Rightarrow>
     'h function_entry \<times> ('h, 'o) instrumentation" where
  "mark_entry key onEntry onExit e st =
     (let st' = st\<lparr>hooksStorage := hooks_store key (zval_of_pointer onEntry) (zval_of_pointer onExit) (hooksStorage st)\<rparr>
      in if fn_internal (fe_function e) then
           (case fe_handler e of
              Internal_function_handler \<Rightarrow> (e, st')
            | Engine_handler h \<Rightarrow>
                (e\<lparr>fe_handler := Internal_function_handler\<rparr>,
                 st'\<lparr>internalStorage := handler_store key h (internalStorage st')\<rparr>))
         else (e, st'))"

definition function_hash :: "(string \<Rightarrow> u64) \<Rightarrow> php_function \<Rightarrow> u64" where
  "function_hash hash f = (case fn_name f of None \<Rightarrow> 0 | Some name \<Rightarrow> hash name)"

definition instrumentFunction ::
  "(string \<Rightarrow> u64) \<Rightarrow> string \<Rightarrow> string \<Rightarrow> 'o zval option \<Rightarrow> 'o zval option \<Rightarrow>
     ('h, 'o) instrumentation \<Rightarrow> bool \<times> ('h, 'o) instrumentation" where
  "instrumentFunction hash cName fName onEntry onExit st =
     (let className = map tolower cName; functionName = map tolower fName
      in if className = [] then
           (case function_table st of
              None \<Rightarrow> (False, st)
            | Some table \<Rightarrow>
                (case map_of table functionName of
                   None \<Rightarrow> (False, st)
                 | Some e \<Rightarrow>
                     let (e', st') = mark_entry (combine_hash 0 (function_hash hash (fe_function e))) onEntry onExit e st
                     in (True, st'\<lparr>function_table := Some (um_assign functionName e' table)\<rparr>)))
         else
           (case class_table st of
              None \<Rightarrow> (False, st)
            | Some classes \<Rightarrow>
                (case map_of classes className of
                   None \<Rightarrow> (False, st)
                 | Some ce \<Rightarrow>
                     (case map_of (ce_functions ce) functionName of
                        None \<Rightarrow> (False, st)
                      | Some e \<Rightarrow>
                          let (e', st') = mark_entry (combine_hash (hash (ce_name ce)) (function_hash hash (fe_function e)))
                                            onEntry onExit e st
                          in (True, st'\<lparr>class_table := Some (um_assign className
                                       (ce\<lparr>ce_functions := um_assign functionName e' (ce_functions ce)\<rparr>) classes)\<rparr>)))))"


subsection \<open>Observation of user functions\<close>

definition contains_text :: "string \<Rightarrow> string \<Rightarrow> bool" where
  "contains_text needle s \<longleftrightarrow> (\<exists>i \<in> set [0..<Suc (length s)]. take (length needle) (drop i s) = needle)"

text \<open>\<open>Elastic\OTel\PhpPartFacade::debugPreHook\<close> and \<open>debugPostHook\<close>.\<close>

definition debug_hooks :: "'o zval hook_pair" where
  "debug_hooks =
     (let facade = ''Elastic'' @ [CHR 0x5C] @ ''OTel'' @ [CHR 0x5C] @ ''PhpPartFacade::''
      in (Z_string False (facade @ ''debugPreHook''), Z_string False (facade @ ''debugPostHook'')))"

fun find_interface :: "(string \<Rightarrow> u64) \<Rightarrow> u64 \<Rightarrow> string list \<Rightarrow> 'c hooks_storage \<Rightarrow> 'c hook_pair list option" where
  "find_interface hash funcHash [] m = None"
| "find_interface hash funcHash (i # is) m =
     (case hooks_find (combine_hash (hash i) funcHash) m of
        Some cs \<Rightarrow> Some cs
      | None \<Rightarrow> find_interface hash funcHash is m)"

text \<open>Hooks of the function, or of the first interface of its class that has some; those are copied.\<close>

definition lookup_callbacks ::
  "(string \<Rightarrow> u64) \<Rightarrow> u64 \<Rightarrow> php_function \<Rightarrow> 'c hooks_storage \<Rightarrow> 'c hook_pair list option \<times> 'c hooks_storage" where
  "lookup_callbacks hash key f m =
     (case hooks_find key m of
        Some cs \<Rightarrow> (Some cs, m)
      | None \<Rightarrow>
          (case fn_scope f of
             None \<Rightarrow> (None, m)
           | Some ce \<Rightarrow>
               (case find_interface hash (function_hash hash f) (class_interfaces ce) m of
                  None \<Rightarrow> (None, m)
                | Some cs \<Rightarrow> (Some cs, fold (\<lambda>(onEntry, onExit). hooks_store key onEntry onExit) cs m))))"

definition debug_instrumented :: "bool \<Rightarrow> bool \<Rightarrow> php_function \<Rightarrow> bool" where
  "debug_instrumented debug_instrument_all functional f \<longleftrightarrow>
     debug_instrument_all \<and> functional \<and> \<not> fn_closure f \<and> \<not> contains_text ''/ElasticOTel/'' (fn_filename f) \<and>
     \<not> contains_text ''/open-telemetry/'' (fn_filename f)"

text \<open>Which of the two observer handlers the engine is told to call for a function.\<close>

definition elasticRegisterObserver ::
  "(string \<Rightarrow> u64) \<Rightarrow> bool \<Rightarrow> bool \<Rightarrow> php_function \<Rightarrow> 'o zval hooks_storage \<Rightarrow> (bool \<times> bool) \<times> 'o zval hooks_storage" where
  "elasticRegisterObserver hash debug_instrument_all functional f m =
     (let key = getClassAndFunctionHash hash (Some f)
      in if fn_internal f \<or> key = 0 then ((False, False), m)
         else
           let (callbacks, m1) = lookup_callbacks hash key f m;
               (callbacks, m2) =
                 (if debug_instrumented debug_instrument_all functional f
                  then (let m' = hooks_storeFront key (fst debug_hooks) (snd debug_hooks) m1 in (Some (callbacks_of key m'), m'))
                  else (callbacks, m1))
           in (case callbacks of
                 None \<Rightarrow> ((False, False), m2)
               | Some cs \<Rightarrow> ((list_ex (\<lambda>(onEntry, _). \<not> isNull onEntry) cs, list_ex (\<lambda>(_, onExit). \<not> isNull onExit) cs), m2)))"

subsection \<open>What registration guarantees\<close>

lemma callbacks_of_store:
  "callbacks_of k (hooks_store k' a b m) = callbacks_of k m @ (if k = k' then [(a, b)] else [])"
  by (simp add: callbacks_of_def hooks_store_def umap_simps)

lemma callbacks_of_front:
  "callbacks_of k (hooks_storeFront k' a b m) = (if k = k' then [(a, b)] else []) @ callbacks_of k m"
  by (simp add: callbacks_of_def hooks_storeFront_def umap_simps)

lemma callbacks_of_find: "callbacks_of k m = (case hooks_find k m of None \<Rightarrow> [] | Some cs \<Rightarrow> cs)"
  by (simp add: callbacks_of_def hooks_find_def)

lemma callbacks_of_copies:
  "callbacks_of k (fold (\<lambda>(a, b). hooks_store key a b) cs m) = callbacks_of k m @ (if k = key then cs else [])"
  by (induction cs arbitrary: m) (auto simp: callbacks_of_store)

lemma hooks_find_copies: "k \<noteq> key \<Longrightarrow> hooks_find k (fold (\<lambda>(a, b). hooks_store key a b) cs m) = hooks_find k m"
  by (induction cs arbitrary: m) (auto simp: hs.lookup_store)

text \<open>The hooks that apply to a user function: its own, else those of its first interface with some.\<close>

definition applicable_hooks :: "(string \<Rightarrow> u64) \<Rightarrow> php_function \<Rightarrow> 'c hooks_storage \<Rightarrow> 'c hook_pair list" where
  "applicable_hooks hash f m =
     (case hooks_find (getClassAndFunctionHash hash (Some f)) m of
        Some cs \<Rightarrow> cs
      | None \<Rightarrow>
          (case dropWhile (\<lambda>key. hooks_find key m = None)
                  [combine_hash (hash i) (function_hash hash f). i \<leftarrow> (case fn_scope f of None \<Rightarrow> [] | Some ce \<Rightarrow> class_interfaces ce)] of
             [] \<Rightarrow> []
           | key # _ \<Rightarrow> callbacks_of key m))"

lemma find_interface_first:
  "(case dropWhile (\<lambda>key. hooks_find key m = None) (map (\<lambda>i. combine_hash (hash i) h) is) of
      [] \<Rightarrow> [] | key # _ \<Rightarrow> callbacks_of key m)
    = (case find_interface hash h is m of None \<Rightarrow> [] | Some cs \<Rightarrow> cs)"
  by (induction "is") (auto simp: callbacks_of_find split: option.splits)

lemma applicable_hooks_eq:
  "applicable_hooks hash f m =
     (case hooks_find (getClassAndFunctionHash hash (Some f)) m of
        Some cs \<Rightarrow> cs
      | None \<Rightarrow> (case fn_scope f of None \<Rightarrow> []
          | Some ce \<Rightarrow> (case find_interface hash (function_hash hash f) (class_interfaces ce) m of None \<Rightarrow> [] | Some cs \<Rightarrow> cs)))"
  unfolding applicable_hooks_def by (simp add: find_interface_first split: option.split)

text \<open>
  C15. A user function is observed exactly for the hooks that apply to it. After registration the hooks stored
  under its key, which the observer handlers run, are its own or those of the first interface of its class
  that has some, after the debug hooks if every function is instrumented; no other function's hooks change;
  and a handler is requested exactly if one of those hooks is not null.
\<close>

theorem observer_runs_applicable_hooks:
  assumes "\<not> fn_internal f" and "getClassAndFunctionHash hash (Some f) = key" and "key \<noteq> 0"
    and "effective = (if debug_instrumented debug_all functional f then [debug_hooks] else []) @ applicable_hooks hash f m"
  shows "\<exists>m'. elasticRegisterObserver hash debug_all functional f m
      = ((\<exists>c \<in> set effective. \<not> isNull (fst c), \<exists>c \<in> set effective. \<not> isNull (snd c)), m') \<and>
    callbacks_of key m' = effective \<and> (\<forall>k. k \<noteq> key \<longrightarrow> hooks_find k m' = hooks_find k m)"
proof -
  obtain cbs m1 where l: "lookup_callbacks hash key f m = (cbs, m1)" by force
  have "callbacks_of key m1 = applicable_hooks hash f m
    \<and> (case cbs of None \<Rightarrow> [] | Some cs \<Rightarrow> cs) = applicable_hooks hash f m
    \<and> (\<forall>k. k \<noteq> key \<longrightarrow> hooks_find k m1 = hooks_find k m)"
  proof (cases "hooks_find key m")
    case None
    then have own: "callbacks_of key m = []" by (simp add: callbacks_of_find)
    from None l assms(2) own show ?thesis
      by (auto simp: lookup_callbacks_def applicable_hooks_eq callbacks_of_copies hooks_find_copies split: option.splits)
  next
    case (Some cs)
    with l assms(2) have "cbs = Some cs" "m1 = m" by (auto simp: lookup_callbacks_def)
    with Some assms(2) show ?thesis by (simp add: applicable_hooks_eq callbacks_of_find)
  qed
  then have m1: "callbacks_of key m1 = applicable_hooks hash f m"
    and cbs: "(case cbs of None \<Rightarrow> [] | Some cs \<Rightarrow> cs) = applicable_hooks hash f m"
    and other: "\<forall>k. k \<noteq> key \<longrightarrow> hooks_find k m1 = hooks_find k m" by simp_all
  show ?thesis
  proof (cases "debug_instrumented debug_all functional f")
    case True
    let ?m = "hooks_storeFront key (fst debug_hooks) (snd debug_hooks) m1"
    have "callbacks_of key ?m = effective" using True assms(4) m1 by (simp add: callbacks_of_front)
    moreover have "\<forall>k. k \<noteq> key \<longrightarrow> hooks_find k ?m = hooks_find k m"
      using other by (simp add: hooks_storeFront_def hooks_find_def umap_simps)
    ultimately show ?thesis
      using True assms(1-3) l by (auto simp: elasticRegisterObserver_def Let_def list_ex_iff case_prod_unfold)
  next
    case False
    then have "effective = applicable_hooks hash f m" using assms(4) by simp
    with False assms(1-3) l cbs m1 other show ?thesis
      by (auto simp: elasticRegisterObserver_def Let_def list_ex_iff case_prod_unfold split: option.splits)
  qed
qed


text \<open>An entry of the engine's tables, by lower-case names, and the key under which it is instrumented.\<close>

definition entry_at :: "('h, 'o) instrumentation \<Rightarrow> string \<Rightarrow> string \<Rightarrow> 'h function_entry option" where
  "entry_at st c fn =
     (if c = [] then (case function_table st of None \<Rightarrow> None | Some table \<Rightarrow> map_of table fn)
      else (case class_table st of None \<Rightarrow> None
        | Some classes \<Rightarrow> (case map_of classes c of None \<Rightarrow> None | Some ce \<Rightarrow> map_of (ce_functions ce) fn)))"

definition class_hash_at :: "(string \<Rightarrow> u64) \<Rightarrow> ('h, 'o) instrumentation \<Rightarrow> string \<Rightarrow> u64" where
  "class_hash_at hash st c =
     (if c = [] then 0
      else (case class_table st of None \<Rightarrow> 0
        | Some classes \<Rightarrow> (case map_of classes c of None \<Rightarrow> 0 | Some ce \<Rightarrow> hash (ce_name ce))))"

definition put_entry :: "string \<Rightarrow> string \<Rightarrow> 'h function_entry \<Rightarrow> ('h, 'o) instrumentation \<Rightarrow> ('h, 'o) instrumentation" where
  "put_entry c fn e st =
     (if c = [] then st\<lparr>function_table := map_option (um_assign fn e) (function_table st)\<rparr>
      else st\<lparr>class_table := map_option (\<lambda>classes. case map_of classes c of None \<Rightarrow> classes
          | Some ce \<Rightarrow> um_assign c (ce\<lparr>ce_functions := um_assign fn e (ce_functions ce)\<rparr>) classes) (class_table st)\<rparr>)"

definition registration_key :: "(string \<Rightarrow> u64) \<Rightarrow> ('h, 'o) instrumentation \<Rightarrow> string \<Rightarrow> 'h function_entry \<Rightarrow> u64" where
  "registration_key hash st c e = combine_hash (class_hash_at hash st c) (function_hash hash (fe_function e))"

lemma mark_entry_tables [simp]:
  "function_table (snd (mark_entry key a b e st)) = function_table st"
  "class_table (snd (mark_entry key a b e st)) = class_table st"
  "fe_function (fst (mark_entry key a b e st)) = fe_function e"
  by (simp_all add: mark_entry_def Let_def split: zif_handler.split)

lemma instrumentFunction_eq:
  "instrumentFunction hash cName fName a b st =
     (let c = map tolower cName; fn = map tolower fName
      in case entry_at st c fn of
           None \<Rightarrow> (False, st)
         | Some e \<Rightarrow>
             let m = mark_entry (registration_key hash st c e) a b e st in (True, put_entry c fn (fst m) (snd m)))"
  by (auto simp: instrumentFunction_def entry_at_def class_hash_at_def put_entry_def registration_key_def Let_def case_prod_unfold
      split: option.splits)

lemma entry_at_put:
  "entry_at st c fn = Some e \<Longrightarrow> entry_at (put_entry c fn e' st) c' fn' = (if c' = c \<and> fn' = fn then Some e' else entry_at st c' fn')"
  by (auto simp: entry_at_def put_entry_def umap_simps split: option.splits)

lemma class_hash_put [simp]: "class_hash_at hash (put_entry c fn e st) c' = class_hash_at hash st c'"
  by (auto simp: class_hash_at_def put_entry_def umap_simps split: option.splits)

lemma put_entry_storages [simp]:
  "hooksStorage (put_entry c fn e st) = hooksStorage st" "internalStorage (put_entry c fn e st) = internalStorage st"
  by (simp_all add: put_entry_def)

lemma same_tables:
  "function_table st' = function_table st \<Longrightarrow> class_table st' = class_table st \<Longrightarrow> entry_at st' = entry_at st"
  "class_table st' = class_table st \<Longrightarrow> class_hash_at hash st' = class_hash_at hash st"
  by (simp_all add: entry_at_def class_hash_at_def fun_eq_iff)

text \<open>What happens to the storages over the life of a process: registrations, and the start of a request.\<close>

datatype 'o registration = Register string string "'o zval option" "'o zval option" | Clear_hooks

fun registration_step :: "(string \<Rightarrow> u64) \<Rightarrow> 'o registration \<Rightarrow> ('h, 'o) instrumentation \<Rightarrow> ('h, 'o) instrumentation" where
  "registration_step hash (Register cName fName a b) st = snd (instrumentFunction hash cName fName a b st)"
| "registration_step hash Clear_hooks st = st\<lparr>hooksStorage := hooks_clear (hooksStorage st)\<rparr>"

text \<open>
  \<open>h\<close> is the original handler of an internal function instrumented under that key. What is left of an entry \<open>e0\<close>: its
  handler is in place, or it is exchanged and there is one stored under the key.
\<close>

definition original_of_key :: "(string \<Rightarrow> u64) \<Rightarrow> ('h, 'o) instrumentation \<Rightarrow> u64 \<Rightarrow> 'h \<Rightarrow> bool" where
  "original_of_key hash st key h \<longleftrightarrow>
     (\<exists>c fn e. entry_at st c fn = Some e \<and> fn_internal (fe_function e) \<and> registration_key hash st c e = key \<and> fe_handler e = Engine_handler h)"

definition entry_kept :: "u64 \<Rightarrow> 'h function_entry \<Rightarrow> 'h function_entry \<Rightarrow> 'h handler_storage \<Rightarrow> bool" where
  "entry_kept key e0 e handlers \<longleftrightarrow>
     fe_function e = fe_function e0 \<and>
     (fn_internal (fe_function e0) \<longrightarrow>
        (if fe_handler e = Internal_function_handler then (\<exists>h. fe_handler e0 = Engine_handler h) \<and> handler_get key handlers \<noteq> None
         else fe_handler e = fe_handler e0))"

definition originals_kept :: "(string \<Rightarrow> u64) \<Rightarrow> ('h, 'o) instrumentation \<Rightarrow> ('h, 'o) instrumentation \<Rightarrow> bool" where
  "originals_kept hash st0 st \<longleftrightarrow>
     class_hash_at hash st = class_hash_at hash st0 \<and>
     (\<forall>key h. handler_get key (internalStorage st) = Some h \<longrightarrow> original_of_key hash st0 key h) \<and>
     (\<forall>c fn. rel_option (\<lambda>e0 e. entry_kept (registration_key hash st0 c e0) e0 e (internalStorage st))
        (entry_at st0 c fn) (entry_at st c fn))"

lemma mark_entry_kept:
  "entry_kept key e0 e (internalStorage st) \<Longrightarrow>
     entry_kept key e0 (fst (mark_entry key a b e st)) (internalStorage (snd (mark_entry key a b e st)))"
  by (auto simp: entry_kept_def mark_entry_def Let_def handler_store_def handler_get_def umap_simps
      split: zif_handler.splits if_splits option.splits)

lemma mark_entry_stored:
  "handler_get k (internalStorage (snd (mark_entry key a b e st))) =
     (if k = key \<and> fn_internal (fe_function e) \<and> handler_get key (internalStorage st) = None
      then (case fe_handler e of Engine_handler h \<Rightarrow> Some h | Internal_function_handler \<Rightarrow> None)
      else handler_get k (internalStorage st))"
  by (auto simp: mark_entry_def Let_def handler_store_def handler_get_def umap_simps split: zif_handler.splits option.splits)

lemma entry_kept_more:
  "entry_kept key e0 e handlers \<Longrightarrow> (handler_get key handlers \<noteq> None \<Longrightarrow> handler_get key handlers' \<noteq> None) \<Longrightarrow> entry_kept key e0 e handlers'"
  by (auto simp: entry_kept_def)

lemma instrument_keeps_originals:
  assumes "originals_kept hash st0 st"
  shows "originals_kept hash st0 (snd (instrumentFunction hash cName fName a b st))"
proof -
  define c fn where "c = map tolower cName" and "fn = map tolower fName"
  note kept = assms(1) [unfolded originals_kept_def]
  note entries = kept [THEN conjunct2, THEN conjunct2, rule_format]
  show ?thesis
  proof (cases "entry_at st c fn")
    case None
    with assms(1) show ?thesis by (simp add: instrumentFunction_eq c_def fn_def)
  next
    case (Some e)
    from entries [of c fn] Some obtain e0 where e0: "entry_at st0 c fn = Some e0"
      and e: "entry_kept (registration_key hash st0 c e0) e0 e (internalStorage st)"
      by (auto simp: option_rel_Some2)
    let ?key = "registration_key hash st0 c e0"
    have f: "fe_function e = fe_function e0" using e by (simp add: entry_kept_def)
    have key: "registration_key hash st c e = ?key" using kept [THEN conjunct1] by (simp add: registration_key_def f)
    define m where "m = mark_entry ?key a b e st"
    have run: "snd (instrumentFunction hash cName fName a b st) = put_entry c fn (fst m) (snd m)"
      unfolding instrumentFunction_eq c_def [symmetric] fn_def [symmetric] Let_def Some option.case snd_conv key m_def ..
    have tables: "entry_at (snd m) = entry_at st" "class_hash_at hash (snd m) = class_hash_at hash st"
      unfolding m_def by (rule same_tables; simp)+
    have at: "entry_at (put_entry c fn (fst m) (snd m)) c' fn' = (if c' = c \<and> fn' = fn then Some (fst m) else entry_at st c' fn')"
      for c' fn' using Some by (simp add: entry_at_put tables)
    have stored: "original_of_key hash st0 k h" if "handler_get k (internalStorage (snd m)) = Some h" for k h
    proof (cases "handler_get k (internalStorage st) = Some h")
      case True
      with kept show ?thesis by blast
    next
      case False
      with that have "k = ?key" "fn_internal (fe_function e0)" "fe_handler e = Engine_handler h"
        by (auto simp: m_def mark_entry_stored f split: if_splits zif_handler.splits)
      with e e0 show ?thesis by (auto simp: original_of_key_def entry_kept_def)
    qed
    have "rel_option (\<lambda>e0 e. entry_kept (registration_key hash st0 c' e0) e0 e (internalStorage (snd m)))
        (entry_at st0 c' fn') (entry_at (put_entry c fn (fst m) (snd m)) c' fn')" for c' fn'
    proof (cases "c' = c \<and> fn' = fn")
      case True
      have "entry_kept ?key e0 (fst m) (internalStorage (snd m))" unfolding m_def by (rule mark_entry_kept [OF e])
      with True show ?thesis using e0 by (simp add: at)
    next
      case False
      have "entry_kept k e1 e2 (internalStorage (snd m))" if "entry_kept k e1 e2 (internalStorage st)" for k e1 e2
        using that by (rule entry_kept_more) (auto simp: m_def mark_entry_stored)
      then show ?thesis
        using entries [of c' fn'] False by (auto simp: at elim: option.rel_mono_strong)
    qed
    moreover have "class_hash_at hash (put_entry c fn (fst m) (snd m)) = class_hash_at hash st0"
      using kept [THEN conjunct1] by (simp add: fun_eq_iff tables)
    ultimately show ?thesis unfolding run using stored by (simp add: originals_kept_def)
  qed
qed

lemma registrations_keep_originals:
  assumes "originals_kept hash st0 st"
  shows "originals_kept hash st0 (fold (registration_step hash) ops st)"
  using assms(1)
proof (induction ops arbitrary: st)
  case (Cons op ops)
  have "originals_kept hash st0 (registration_step hash op st)"
  proof (cases op)
    case (Register c fn a b)
    then show ?thesis using instrument_keeps_originals [OF Cons.prems] by simp
  next
    case Clear_hooks
    have "entry_at (st\<lparr>hooksStorage := m\<rparr>) = entry_at st" "class_hash_at hash (st\<lparr>hooksStorage := m\<rparr>) = class_hash_at hash st" for m
      by (rule same_tables; simp)+
    with Cons.prems Clear_hooks show ?thesis by (simp add: originals_kept_def)
  qed
  from Cons.IH [OF this] show ?case by simp
qed simp

lemma start_originals_kept:
  assumes "internalStorage st0 = []" and "\<And>c fn e. entry_at st0 c fn = Some e \<Longrightarrow> fe_handler e \<noteq> Internal_function_handler"
  shows "originals_kept hash st0 st0"
proof -
  have "rel_option (\<lambda>e0 e. entry_kept (registration_key hash st0 c e0) e0 e []) (entry_at st0 c fn) (entry_at st0 c fn)" for c fn
    using assms(2) [of c fn] by (cases "entry_at st0 c fn") (auto simp: entry_kept_def)
  then show ?thesis using assms(1) by (simp add: originals_kept_def handler_get_def)
qed

text \<open>
  C5. What becomes of the original handler of an internal function. However functions are instrumented, again or for other
  requests, from a state in which nothing is, an entry of the engine's tables either has its original handler, or it has
  \<open>internal_function_handler\<close> and there is a handler in the storage under the key by which that function is instrumented:
  the original handler of an internal function with that key, hence its own if no other internal function has its key.
\<close>

theorem original_handler_kept:
  assumes "internalStorage st0 = []" and "\<forall>c fn e. entry_at st0 c fn = Some e \<longrightarrow> fe_handler e \<noteq> Internal_function_handler"
    and "entry_at st0 c fn = Some e0" and "fn_internal (fe_function e0)" and "fe_handler e0 = Engine_handler h"
  shows "\<exists>e. entry_at (fold (registration_step hash) ops st0) c fn = Some e \<and> fe_function e = fe_function e0 \<and>
    (fe_handler e = Engine_handler h \<or>
     fe_handler e = Internal_function_handler \<and>
       (\<exists>h'. handler_get (registration_key hash st0 c e0) (internalStorage (fold (registration_step hash) ops st0)) = Some h' \<and>
          (\<exists>c' fn' e'. entry_at st0 c' fn' = Some e' \<and> fn_internal (fe_function e') \<and> fe_handler e' = Engine_handler h' \<and>
             registration_key hash st0 c' e' = registration_key hash st0 c e0) \<and>
          ((\<forall>c' fn' e'. entry_at st0 c' fn' = Some e' \<and> fn_internal (fe_function e') \<and>
              registration_key hash st0 c' e' = registration_key hash st0 c e0 \<longrightarrow> c' = c \<and> fn' = fn) \<longrightarrow> h' = h)))"
proof -
  let ?st = "fold (registration_step hash) ops st0" and ?key = "registration_key hash st0 c e0"
  have "originals_kept hash st0 st0" using assms(1,2) by (intro start_originals_kept) auto
  note kept = registrations_keep_originals [OF this, of ops, unfolded originals_kept_def]
  from kept [THEN conjunct2, THEN conjunct2, rule_format, of c fn] assms(3) obtain e where
    e: "entry_at ?st c fn = Some e" "entry_kept ?key e0 e (internalStorage ?st)" by (auto simp: option_rel_Some1)
  show ?thesis
  proof (cases "fe_handler e = Internal_function_handler")
    case True
    with e(2) assms(4) obtain h' where h': "handler_get ?key (internalStorage ?st) = Some h'" by (auto simp: entry_kept_def)
    with kept have "original_of_key hash st0 ?key h'" by blast
    then obtain c' fn' e' where o: "entry_at st0 c' fn' = Some e'" "fn_internal (fe_function e')" "registration_key hash st0 c' e' = ?key"
      "fe_handler e' = Engine_handler h'" by (auto simp: original_of_key_def)
    have "h' = h" if "c' = c \<and> fn' = fn" using o(1,4) that assms(3,5) by simp
    then show ?thesis using e True h' o by (auto simp: entry_kept_def)
  next
    case False
    with e assms(4,5) show ?thesis by (auto simp: entry_kept_def)
  qed
qed

text \<open>
  A second function with the key of one that is instrumented already is exchanged too, but its own handler is not stored:
  from then on a call of it runs the original handler of the first.
\<close>

theorem colliding_original_lost:
  assumes "entry_at st (map tolower c) (map tolower fn) = Some e" and "fn_internal (fe_function e)" and "fe_handler e = Engine_handler h"
    and "handler_get (registration_key hash st (map tolower c) e) (internalStorage st) = Some other"
  shows "let st' = snd (instrumentFunction hash c fn a b st)
    in entry_at st' (map tolower c) (map tolower fn) = Some (e\<lparr>fe_handler := Internal_function_handler\<rparr>) \<and>
       handler_get (registration_key hash st (map tolower c) e) (internalStorage st') = Some other"
proof -
  let ?m = "mark_entry (registration_key hash st (map tolower c) e) a b e st"
  have "entry_at (snd ?m) = entry_at st" by (rule same_tables) simp_all
  with assms show ?thesis
    by (simp add: instrumentFunction_eq Let_def entry_at_put mark_entry_stored) (simp add: mark_entry_def)
qed


subsection \<open>Examples\<close>

text \<open>A hash that tells the names below apart; a user method, and the tables with two internal functions.\<close>

abbreviation sample_hash :: "string \<Rightarrow> u64" where
  "sample_hash s \<equiv> of_nat (length s)"

definition sample_method :: php_function where
  "sample_method = sample_function\<lparr>fn_name := Some ''m'',
     fn_scope := Some \<lparr>class_entry_name = ''Impl'', class_interfaces = [''I'', ''Ifc'']\<rparr>\<rparr>"

definition sample_hooks :: "nat zval hooks_storage" where
  "sample_hooks = [(7, [(Z_object 1, Z_null)]), (combine_hash 3 1, [(Z_object 2, Z_null)])]"

definition sample_entry :: "string \<Rightarrow> string option \<Rightarrow> nat \<Rightarrow> nat function_entry" where
  "sample_entry name c h =
     \<lparr>fe_function = sample_function\<lparr>fn_internal := True, fn_name := Some name,
        fn_scope := map_option (\<lambda>n. \<lparr>class_entry_name = n, class_interfaces = []\<rparr>) c\<rparr>, fe_handler = Engine_handler h\<rparr>"

definition sample_tables :: "(nat, nat) instrumentation" where
  "sample_tables =
     \<lparr>function_table = Some [(''strlen'', sample_entry ''strlen'' None 10)],
      class_table = Some [(''pdo'', \<lparr>ce_name = ''PDO'', ce_functions = [(''query'', sample_entry ''query'' (Some ''PDO'') 11)]\<rparr>)],
      hooksStorage = [], internalStorage = []\<rparr>"

lemma observer_runs_applicable_hooks_witness:
  "\<exists>m'. elasticRegisterObserver sample_hash False True sample_method sample_hooks = ((True, False), m') \<and>
     callbacks_of (combine_hash 4 1) m' = [(Z_object 2, Z_null)]"
proof -
  have key: "getClassAndFunctionHash sample_hash (Some sample_method) = combine_hash 4 1"
    by (simp add: getClassAndFunctionHash_def sample_method_def)
  have "applicable_hooks sample_hash sample_method sample_hooks = [(Z_object 2, Z_null)]"
    unfolding applicable_hooks_eq key
    by (simp add: sample_method_def sample_hooks_def hooks_find_def combine_hash_def function_hash_def)
  moreover have "\<not> debug_instrumented False True sample_method" by (simp add: debug_instrumented_def)
  moreover have "combine_hash 4 1 \<noteq> (0 :: u64)" by (simp add: combine_hash_def)
  ultimately show ?thesis
    using observer_runs_applicable_hooks [OF _ key, of "[(Z_object 2, Z_null)]" False True sample_hooks]
    by (auto simp: sample_method_def sample_function_def)
qed

lemma original_handler_kept_witness:
  "\<exists>e. entry_at (fold (registration_step sample_hash)
       [Register ''PDO'' ''Query'' (Some (Z_object 1)) None, Clear_hooks, Register ''pdo'' ''query'' None None] sample_tables) ''pdo'' ''query'' = Some e \<and>
     fe_function e = fe_function (sample_entry ''query'' (Some ''PDO'') 11) \<and>
     (fe_handler e = Engine_handler 11 \<or> fe_handler e = Internal_function_handler \<and>
        handler_get (combine_hash 3 5) (internalStorage (fold (registration_step sample_hash)
          [Register ''PDO'' ''Query'' (Some (Z_object 1)) None, Clear_hooks, Register ''pdo'' ''query'' None None] sample_tables)) = Some 11)"
proof -
  have at: "entry_at sample_tables c fn =
      (if c = [] \<and> fn = ''strlen'' then Some (sample_entry ''strlen'' None 10)
       else if c = ''pdo'' \<and> fn = ''query'' then Some (sample_entry ''query'' (Some ''PDO'') 11) else None)" for c fn
    by (simp add: entry_at_def sample_tables_def)
  have key: "registration_key sample_hash sample_tables ''pdo'' (sample_entry ''query'' (Some ''PDO'') 11) = combine_hash 3 5"
    "registration_key sample_hash sample_tables [] (sample_entry ''strlen'' None 10) = combine_hash 0 6"
    by (simp_all add: registration_key_def class_hash_at_def sample_tables_def sample_entry_def function_hash_def)
  have neq: "combine_hash 3 5 \<noteq> combine_hash 0 6" by (simp add: combine_hash_def)
  have only: "c' = ''pdo'' \<and> fn' = ''query''" if "entry_at sample_tables c' fn' = Some e'" "registration_key sample_hash sample_tables c' e' = combine_hash 3 5"
    for c' fn' e' using that neq by (auto simp: at key split: if_splits)
  have "internalStorage sample_tables = []" by (simp add: sample_tables_def)
  moreover have "\<forall>c fn e. entry_at sample_tables c fn = Some e \<longrightarrow> fe_handler e \<noteq> Internal_function_handler"
    by (auto simp: at sample_entry_def split: if_splits)
  moreover have "entry_at sample_tables ''pdo'' ''query'' = Some (sample_entry ''query'' (Some ''PDO'') 11)" by (simp add: at)
  moreover have "fn_internal (fe_function (sample_entry ''query'' (Some ''PDO'') 11))" "fe_handler (sample_entry ''query'' (Some ''PDO'') 11) = Engine_handler 11"
    by (simp_all add: sample_entry_def)
  note original_handler_kept [where hash = sample_hash
      and ops = "[Register ''PDO'' ''Query'' (Some (Z_object 1)) None, Clear_hooks, Register ''pdo'' ''query'' None None]", OF calculation this]
  then show ?thesis unfolding key(1) using only by blast
qed

end
