(* ===== verification/Interception.thy ===== *)
theory Interception
  imports Hooks
begin

text \<open>
  What runs around an intercepted PHP call (\<open>InternalFunctionInstrumentation.cpp\<close>): the hooks, with the state
  of the engine's pending exception saved around each (\<open>Exceptions.h\<close>, \<open>Exceptions.cpp\<close>), the arguments given
  to them (\<open>PhpBridge.cpp\<close>), \<open>internal_function_handler\<close> and the observer handlers; and the callbacks by
  which the extension enters the engine (\<open>Hooking.h\<close>, \<open>Hooking.cpp\<close>).

  PHP code is a parameter (\<open>zend\<close>): what a hook or an original handler does to the world \<open>'w\<close> and to the pending
  exception, what it returns, and which hooks it registers. A bailout of the engine (a \<open>longjmp\<close>) is followed
  where the code catches it; a hook is taken not to bail out. There is always a current frame here.
\<close>

subsection \<open>The pending exception\<close>

record 'o ex_state =
  ex_exception :: "'o option"
  ex_prev :: "'o option"
  ex_opline_before :: "nat option"
  ex_opline :: nat

text \<open>\<open>saveExceptionState\<close> answers what was pending and clears it.\<close>

definition saveExceptionState :: "'o ex_state \<Rightarrow> 'o ex_state \<times> 'o ex_state" where
  "saveExceptionState e = (e, e\<lparr>ex_exception := None, ex_prev := None, ex_opline_before := None\<rparr>)"

definition restoreExceptionState :: "'o ex_state \<Rightarrow> 'o ex_state \<Rightarrow> 'o ex_state" where
  "restoreExceptionState saved e =
     e\<lparr>ex_exception := ex_exception saved, ex_prev := ex_prev saved, ex_opline_before := ex_opline_before saved,
       ex_opline := ex_opline saved\<rparr>"

lemma restore_saved [simp]: "restoreExceptionState (fst (saveExceptionState e)) e' = e"
  by (simp add: restoreExceptionState_def saveExceptionState_def)

text \<open>\<open>getClassPropertyValue\<close> on an object: the engine answers a null value for a property that is not there.\<close>

definition exception_property :: "'o php \<Rightarrow> 'o \<Rightarrow> string \<Rightarrow> 'o zval" where
  "exception_property php ob name = zval_of_pointer (property_of php ob name)"

definition getExceptionLine :: "'o php \<Rightarrow> 'o \<Rightarrow> i64 option" where
  "getExceptionLine php ob = (case exception_property php ob ''line'' of Z_long n \<Rightarrow> Some n | _ \<Rightarrow> Some (- 1))"

definition getExceptionCode :: "'o php \<Rightarrow> 'o \<Rightarrow> i64 option" where
  "getExceptionCode php ob = getOptLong (exception_property php ob ''code'')"

definition long_text :: "i64 \<Rightarrow> string" where
  "long_text n = (if sint n < 0 then CHR 0x2D # to_string (nat (- sint n)) else to_string (nat (sint n)))"

definition quoted :: "string \<Rightarrow> string" where
  "quoted s = [CHR 0x27] @ s @ [CHR 0x27]"

definition exceptionToString :: "'o php \<Rightarrow> ('o \<Rightarrow> bool) \<Rightarrow> 'o option \<Rightarrow> string" where
  "exceptionToString php throwable exception =
     (case exception of
        None \<Rightarrow> []
      | Some ob \<Rightarrow>
          if \<not> throwable ob then []
          else
            let property_text = (\<lambda>name. getOptStringView (exception_property php ob name))
            in (case property_text ''class'' of Some c \<Rightarrow> c | None \<Rightarrow> class_name php ob) @ '' thrown'' @
               (case property_text ''message'' of Some msg \<Rightarrow> '' with message '' @ quoted msg | None \<Rightarrow> []) @
               (case getExceptionCode php ob of
                  Some n \<Rightarrow> if n \<noteq> 0 then '' with code '' @ long_text n else [] | None \<Rightarrow> []) @
               (case property_text ''file'' of
                  Some file \<Rightarrow> '' in '' @ file @
                    (case getExceptionLine php ob of Some n \<Rightarrow> CHR 0x3A # long_text n | None \<Rightarrow> [])
                | None \<Rightarrow> []) @
               (case property_text ''string'' of
                  Some stack \<Rightarrow> if stack \<noteq> [] then '' stacktrace: '' @ quoted stack else [] | None \<Rightarrow> []))"

subsection \<open>The engine\<close>

text \<open>
  What running PHP code answers. \<open>cr_returned\<close> is \<open>None\<close> if \<open>zend_call_function\<close> fails, and the undefined
  value if the function threw; \<open>cr_registered\<close> are the hooks it stored meanwhile, by key.
\<close>

record ('o, 'w) call_result =
  cr_returned :: "'o zval option"
  cr_world :: 'w
  cr_ex :: "'o ex_state"
  cr_registered :: "(u64 \<times> 'o zval \<times> 'o zval) list"
  cr_bailout :: bool

text \<open>
  \<open>callable\<close> is \<open>zend_fcall_info_init\<close>: the declared return type of the function a value denotes (\<open>Some True\<close>
  for \<open>void\<close>), if it denotes one.
\<close>

record ('o, 'w, 'h) zend =
  php_objects :: "'o php"
  throwable :: "'o \<Rightarrow> bool"
  unwind_exit :: "'o \<Rightarrow> bool"
  identical :: "'o zval \<Rightarrow> 'o zval \<Rightarrow> bool"
  callable :: "'o zval \<Rightarrow> bool option option"
  call_function :: "'o zval \<Rightarrow> 'o zval list \<Rightarrow> 'w \<Rightarrow> 'o ex_state \<Rightarrow> ('o, 'w) call_result"
  run_handler :: "'h \<Rightarrow> 'o frame \<Rightarrow> 'w \<Rightarrow> 'o ex_state \<Rightarrow> ('o, 'w) call_result"

datatype 'o call_event =
    Pre_hook "'o zval" "'o zval list"
  | Post_hook "'o zval" "'o zval list"
  | Original "'o frame"
  | Hook_exception string
  | Hook_failure exn
  | No_handler
  | No_callbacks

record ('o, 'w) call_state =
  cs_world :: 'w
  cs_ex :: "'o ex_state"
  cs_hooks :: "'o zval hooks_storage"
  cs_frame :: "'o frame"
  cs_this :: "'o option"
  cs_called_scope :: string
  cs_return :: "'o zval option"
  cs_trace :: "'o call_event list"

definition log_event :: "'o call_event \<Rightarrow> ('o, 'w) call_state \<Rightarrow> ('o, 'w) call_state" where
  "log_event ev s = s\<lparr>cs_trace := cs_trace s @ [ev]\<rparr>"

definition after_call :: "('o, 'w) call_result \<Rightarrow> ('o, 'w) call_state \<Rightarrow> ('o, 'w) call_state" where
  "after_call r s =
     s\<lparr>cs_world := cr_world r, cs_ex := cr_ex r,
       cs_hooks := fold (\<lambda>(key, a, b). hooks_store key a b) (cr_registered r) (cs_hooks s)\<rparr>"

definition handleAndReleaseHookException :: "('o, 'w, 'h) zend \<Rightarrow> ('o, 'w) call_state \<Rightarrow> ('o, 'w) call_state" where
  "handleAndReleaseHookException z s =
     (case ex_exception (cs_ex s) of
        None \<Rightarrow> s
      | Some ob \<Rightarrow>
          if \<not> throwable z ob then s
          else log_event (Hook_exception (exceptionToString (php_objects z) (throwable z) (Some ob))) s)"

subsection \<open>Calling a hook\<close>

definition getScopeNameOrThis :: "('o, 'w) call_state \<Rightarrow> 'o zval result" where
  "getScopeNameOrThis s =
     (let f = fr_func (cs_frame s)
      in case fn_scope f of
           None \<Rightarrow> Inr Z_null
         | Some _ \<Rightarrow>
             if fn_static f then Inr (Z_string False (cs_called_scope s))
             else (case cs_this s of Some ob \<Rightarrow> Inr (Z_object ob) | None \<Rightarrow> Inl (Undefined ''copy of a null object'')))"

definition getFunctionName :: "php_function \<Rightarrow> 'o zval result" where
  "getFunctionName f =
     (case fn_name f of Some name \<Rightarrow> Inr (Z_string False name) | None \<Rightarrow> Inl (Undefined ''copy of a null string''))"

definition getFunctionDeclaringScope :: "php_function \<Rightarrow> 'o zval" where
  "getFunctionDeclaringScope f =
     (case fn_scope f of Some c \<Rightarrow> Z_string False (class_entry_name c) | None \<Rightarrow> Z_null)"

definition getFunctionDeclarationFileName :: "php_function \<Rightarrow> 'o zval" where
  "getFunctionDeclarationFileName f = (if fn_internal f then Z_null else Z_string False (fn_filename f))"

definition getFunctionDeclarationLineNo :: "php_function \<Rightarrow> 'o zval" where
  "getFunctionDeclarationLineNo f = (if fn_internal f then Z_null else Z_long (ucast (fn_line_start f)))"

definition getFunctionReturnValue :: "'o zval option \<Rightarrow> 'o zval" where
  "getFunctionReturnValue retval = (case retval of None \<Rightarrow> Z_null | Some v \<Rightarrow> if isUndef v then Z_null else v)"

definition getCurrentException :: "('o, 'w, 'h) zend \<Rightarrow> 'o option \<Rightarrow> 'o zval" where
  "getCurrentException z exception =
     (case exception of
        None \<Rightarrow> Z_null
      | Some ob \<Rightarrow> if unwind_exit z ob then Z_null else if throwable z ob then Z_object ob else Z_null)"

text \<open>The parameters of a hook; \<open>middle\<close> are the result and the exception a post hook is given.\<close>

definition hook_parameters :: "'o zval list \<Rightarrow> ('o, 'w) call_state \<Rightarrow> 'o zval list result" where
  "hook_parameters middle s =
     (let f = fr_func (cs_frame s)
      in bind_result (getScopeNameOrThis s) (\<lambda>this.
           bind_result (getCallArguments (cs_frame s)) (\<lambda>args.
             bind_result (getFunctionName f) (\<lambda>name.
               Inr ([this, args] @ middle @ [getFunctionDeclaringScope f, name, getFunctionDeclarationFileName f,
                 getFunctionDeclarationLineNo f])))))"

type_synonym ('o, 'w) attempt = "('o, 'w) call_state \<times> exn option"

definition callPreHook :: "('o, 'w, 'h) zend \<Rightarrow> 'o zval \<Rightarrow> ('o, 'w) call_state \<Rightarrow> ('o, 'w) attempt" where
  "callPreHook z prehook s =
     (case callable z prehook of
        None \<Rightarrow> (s, Some (Runtime_error ''Unable to initialize prehook fcall''))
      | Some _ \<Rightarrow>
          (case hook_parameters [] s of
             Inl e \<Rightarrow> (s, Some e)
           | Inr parameters \<Rightarrow>
               let r = call_function z prehook parameters (cs_world s) (cs_ex s);
                   s' = after_call r (log_event (Pre_hook prehook parameters) s)
               in (case cr_returned r of
                     None \<Rightarrow> (s', Some (Runtime_error ''Unable to call prehook function''))
                   | Some ret \<Rightarrow>
                       (case argsPostProcessing (identical z) (parameters ! 1) ret (cs_frame s') of
                          Inl e \<Rightarrow> (s', Some e)
                        | Inr fr \<Rightarrow> (s'\<lparr>cs_frame := fr\<rparr>, None)))))"

text \<open>The result of a post hook replaces the return value only if the hook declares a return type other than void.\<close>

definition callPostHook :: "('o, 'w, 'h) zend \<Rightarrow> 'o zval \<Rightarrow> 'o option \<Rightarrow> ('o, 'w) call_state \<Rightarrow> ('o, 'w) attempt" where
  "callPostHook z hook exception s =
     (case callable z hook of
        None \<Rightarrow> (s, Some (Runtime_error ''Unable to initialize posthook fcall''))
      | Some return_type \<Rightarrow>
          (case hook_parameters [getFunctionReturnValue (cs_return s), getCurrentException z exception] s of
             Inl e \<Rightarrow> (s, Some e)
           | Inr parameters \<Rightarrow>
               let r = call_function z hook parameters (cs_world s) (cs_ex s);
                   s' = after_call r (log_event (Post_hook hook parameters) s)
               in (case cr_returned r of
                     None \<Rightarrow> (s', Some (Runtime_error ''Unable to call posthook function''))
                   | Some hookRv \<Rightarrow>
                       if isUndef hookRv \<or> cs_return s' = None \<or> return_type \<noteq> Some False then (s', None)
                       else (s'\<lparr>cs_return := Some hookRv\<rparr>, None))))"

text \<open>
  The \<open>try\<close> block around a hook: the pending exception is put back whatever happens, and a
  \<open>std::exception\<close> ends in the log. \<open>body\<close> is given the exception that was pending.
\<close>

definition guarded :: "('o, 'w, 'h) zend \<Rightarrow> ('o option \<Rightarrow> ('o, 'w) call_state \<Rightarrow> ('o, 'w) attempt) \<Rightarrow>
    ('o, 'w) call_state \<Rightarrow> ('o, 'w) attempt" where
  "guarded z body s =
     (let (saved, cleared) = saveExceptionState (cs_ex s);
          restored = (\<lambda>s. s\<lparr>cs_ex := restoreExceptionState saved (cs_ex s)\<rparr>)
      in case body (ex_exception saved) (s\<lparr>cs_ex := cleared\<rparr>) of
           (s', None) \<Rightarrow> (restored (handleAndReleaseHookException z s'), None)
         | (s', Some e) \<Rightarrow>
             if is_std_exception e then (log_event (Hook_failure e) (restored s'), None) else (restored s', Some e))"

subsection \<open>The handlers\<close>

text \<open>
  A range-based loop over the list of hooks of a key. The list is a \<open>std::list\<close> a hook may append to while the
  loop is under way, and the loop then runs on; so it may not end, and its result is optional.
\<close>

partial_function (option) hook_loop ::
  "('o zval hook_pair \<Rightarrow> ('o, 'w) call_state \<Rightarrow> ('o, 'w) attempt) \<Rightarrow> u64 \<Rightarrow> nat \<Rightarrow> ('o, 'w) call_state \<Rightarrow>
     ('o, 'w) attempt option" where
  "hook_loop run key i s =
     (if i < length (callbacks_of key (cs_hooks s)) then
        (case run (callbacks_of key (cs_hooks s) ! i) s of
           (s', Some e) \<Rightarrow> Some (s', Some e)
         | (s', None) \<Rightarrow> hook_loop run key (Suc i) s')
      else Some (s, None))"

definition unset_hook :: "'o zval \<Rightarrow> bool" where
  "unset_hook v \<longleftrightarrow> isNull v \<or> isUndef v"

definition internal_pre :: "('o, 'w, 'h) zend \<Rightarrow> 'o zval hook_pair \<Rightarrow> ('o, 'w) call_state \<Rightarrow> ('o, 'w) attempt" where
  "internal_pre z callback s =
     (if unset_hook (fst callback) then (s, None) else guarded z (\<lambda>_. callPreHook z (fst callback)) s)"

definition internal_post :: "('o, 'w, 'h) zend \<Rightarrow> 'o zval hook_pair \<Rightarrow> ('o, 'w) call_state \<Rightarrow> ('o, 'w) attempt" where
  "internal_post z callback s =
     (if unset_hook (snd callback) then (s, None) else guarded z (callPostHook z (snd callback)) s)"

datatype outcome = Returned | Bailed_out | Undefined_behaviour exn

text \<open>\<open>callOriginalHandler\<close>: a bailout is passed on.\<close>

definition callOriginalHandler :: "('o, 'w, 'h) zend \<Rightarrow> 'h \<Rightarrow> ('o, 'w) call_state \<Rightarrow> ('o, 'w) call_state \<times> outcome" where
  "callOriginalHandler z h s =
     (let r = run_handler z h (cs_frame s) (cs_world s) (cs_ex s);
          s' = after_call r (log_event (Original (cs_frame s)) s)
      in if cr_bailout r then (s', Bailed_out) else (s'\<lparr>cs_return := cr_returned r\<rparr>, Returned))"

definition internal_function_handler ::
  "(string \<Rightarrow> u64) \<Rightarrow> ('o, 'w, 'h) zend \<Rightarrow> bool \<Rightarrow> 'h handler_storage \<Rightarrow> ('o, 'w) call_state \<Rightarrow>
     (('o, 'w) call_state \<times> outcome) option" where
  "internal_function_handler hash z functional handlers s =
     (let key = getClassAndFunctionHash hash (Some (fr_func (cs_frame s)))
      in case handler_get key handlers of
           None \<Rightarrow> Some (log_event No_handler s, Returned)
         | Some originalHandler \<Rightarrow>
             if \<not> functional then Some (callOriginalHandler z originalHandler s)
             else
               (case hooks_find key (cs_hooks s) of
                  None \<Rightarrow>
                    (case callOriginalHandler z originalHandler s of
                       (s', Returned) \<Rightarrow> Some (log_event No_callbacks s', Returned)
                     | bailed \<Rightarrow> Some bailed)
                | Some _ \<Rightarrow>
                    (case hook_loop (internal_pre z) key 0 s of
                       None \<Rightarrow> None
                     | Some (s1, Some e) \<Rightarrow> Some (s1, Undefined_behaviour e)
                     | Some (s1, None) \<Rightarrow>
                         (case callOriginalHandler z originalHandler s1 of
                            (s2, Returned) \<Rightarrow>
                              (case hook_loop (internal_post z) key 0 s2 of
                                 None \<Rightarrow> None
                               | Some (s3, Some e) \<Rightarrow> Some (s3, Undefined_behaviour e)
                               | Some (s3, None) \<Rightarrow> Some (s3, Returned))
                          | bailed \<Rightarrow> Some bailed))))"

text \<open>The observer handlers of user functions. They do not leave out hooks that are null.\<close>

definition observer_handler ::
  "('o zval hook_pair \<Rightarrow> ('o, 'w) call_state \<Rightarrow> ('o, 'w) attempt) \<Rightarrow> (string \<Rightarrow> u64) \<Rightarrow> ('o, 'w) call_state \<Rightarrow>
     ('o, 'w) attempt option" where
  "observer_handler run hash s =
     (let key = getClassAndFunctionHash hash (Some (fr_func (cs_frame s)))
      in case hooks_find key (cs_hooks s) of
           None \<Rightarrow> Some (log_event No_callbacks s, None)
         | Some _ \<Rightarrow> hook_loop run key 0 s)"

definition elasticObserverFcallBeginHandler ::
  "(string \<Rightarrow> u64) \<Rightarrow> ('o, 'w, 'h) zend \<Rightarrow> ('o, 'w) call_state \<Rightarrow> ('o, 'w) attempt option" where
  "elasticObserverFcallBeginHandler hash z =
     observer_handler (\<lambda>callback. guarded z (\<lambda>_. callPreHook z (fst callback))) hash"

definition elasticObserverFcallEndHandler ::
  "(string \<Rightarrow> u64) \<Rightarrow> ('o, 'w, 'h) zend \<Rightarrow> 'o zval option \<Rightarrow> ('o, 'w) call_state \<Rightarrow> ('o, 'w) attempt option" where
  "elasticObserverFcallEndHandler hash z retval s =
     observer_handler (\<lambda>callback. guarded z (callPostHook z (snd callback))) hash (s\<lparr>cs_return := retval\<rparr>)"

subsection \<open>What a hook may change\<close>

lemma log_event_simps [simp]:
  "cs_ex (log_event ev s) = cs_ex s" "cs_hooks (log_event ev s) = cs_hooks s" "cs_frame (log_event ev s) = cs_frame s"
  "cs_this (log_event ev s) = cs_this s" "cs_trace (log_event ev s) = cs_trace s @ [ev]"
  by (simp_all add: log_event_def)

lemma after_call_simps [simp]:
  "cs_ex (after_call r s) = cr_ex r" "cs_frame (after_call r s) = cs_frame s" "cs_this (after_call r s) = cs_this s"
  "cs_trace (after_call r s) = cs_trace s" "cs_return (after_call r s) = cs_return s"
  by (simp_all add: after_call_def)

text \<open>A hook leaves the pending exception as it was, whatever it throws.\<close>

lemma guarded_keeps_exception: "cs_ex (fst (guarded z body s)) = cs_ex s"
  by (auto simp: guarded_def saveExceptionState_def restoreExceptionState_def Let_def split: prod.split option.split)

lemma internal_pre_exception: "cs_ex (fst (internal_pre z cb s)) = cs_ex s"
  by (simp add: internal_pre_def guarded_keeps_exception)

lemma internal_post_exception: "cs_ex (fst (internal_post z cb s)) = cs_ex s"
  by (simp add: internal_post_def guarded_keeps_exception)

text \<open>PHP code registers nothing under a key while hooks of that key run.\<close>

definition registers_elsewhere :: "('o, 'w, 'h) zend \<Rightarrow> u64 \<Rightarrow> bool" where
  "registers_elsewhere z key \<longleftrightarrow>
     (\<forall>hook ps w e. key \<notin> fst ` set (cr_registered (call_function z hook ps w e))) \<and>
     (\<forall>h fr w e. key \<notin> fst ` set (cr_registered (run_handler z h fr w e)))"

lemma callbacks_of_registered:
  "callbacks_of key (cs_hooks (after_call r s)) =
     callbacks_of key (cs_hooks s) @ [(a, b). (k, a, b) \<leftarrow> cr_registered r, k = key]"
  using hs.registered_fold [of key "cr_registered r" "cs_hooks s"] by (simp add: after_call_def callbacks_of_find)

lemma callbacks_of_elsewhere:
  "key \<notin> fst ` set (cr_registered r) \<Longrightarrow> callbacks_of key (cs_hooks (after_call r s)) = callbacks_of key (cs_hooks s)"
  by (force simp: callbacks_of_registered)

lemma callPreHook_callbacks:
  "registers_elsewhere z key \<Longrightarrow> callbacks_of key (cs_hooks (fst (callPreHook z v s))) = callbacks_of key (cs_hooks s)"
  by (auto simp: callPreHook_def Let_def registers_elsewhere_def callbacks_of_elsewhere split: option.split sum.split)

lemma callPostHook_callbacks:
  "registers_elsewhere z key \<Longrightarrow> callbacks_of key (cs_hooks (fst (callPostHook z v e s))) = callbacks_of key (cs_hooks s)"
  by (auto simp: callPostHook_def Let_def registers_elsewhere_def callbacks_of_elsewhere split: option.split sum.split)

lemma handleAndRelease_simps [simp]:
  "cs_hooks (handleAndReleaseHookException z s) = cs_hooks s"
  "cs_frame (handleAndReleaseHookException z s) = cs_frame s"
  "cs_this (handleAndReleaseHookException z s) = cs_this s"
  by (simp_all add: handleAndReleaseHookException_def split: option.split)

lemma guarded_callbacks:
  assumes "\<And>e s. callbacks_of key (cs_hooks (fst (body e s))) = callbacks_of key (cs_hooks s)"
  shows "callbacks_of key (cs_hooks (fst (guarded z body s))) = callbacks_of key (cs_hooks s)"
proof -
  let ?b = "body (ex_exception (fst (saveExceptionState (cs_ex s)))) (s\<lparr>cs_ex := snd (saveExceptionState (cs_ex s))\<rparr>)"
  have "callbacks_of key (cs_hooks (fst ?b)) = callbacks_of key (cs_hooks s)" by (simp add: assms)
  then show ?thesis by (cases ?b) (auto simp: guarded_def Let_def case_prod_unfold split: option.split)
qed

subsection \<open>The loop over hooks that stay\<close>

text \<open>The loop over a fixed list.\<close>

fun run_all :: "('c \<Rightarrow> 's \<Rightarrow> 's \<times> exn option) \<Rightarrow> 'c list \<Rightarrow> 's \<Rightarrow> 's \<times> exn option" where
  "run_all run [] s = (s, None)"
| "run_all run (c # cs) s = (case run c s of (s', Some e) \<Rightarrow> (s', Some e) | (s', None) \<Rightarrow> run_all run cs s')"

lemma hook_loop_fixed:
  assumes "\<And>c s. callbacks_of key (cs_hooks (fst (run c s))) = callbacks_of key (cs_hooks s)"
    and "callbacks_of key (cs_hooks s) = cbs" and "i \<le> length cbs"
  shows "hook_loop run key i s = Some (run_all run (drop i cbs) s)"
  using assms(2,3)
proof (induction "length cbs - i" arbitrary: i s)
  case 0
  then show ?case by (subst hook_loop.simps) simp
next
  case (Suc n)
  then have i: "i < length cbs" by simp
  obtain s' err where r: "run (cbs ! i) s = (s', err)" by force
  have "callbacks_of key (cs_hooks s') = cbs" using assms(1) [of "cbs ! i" s] r Suc.prems by simp
  with Suc.hyps i have "hook_loop run key (Suc i) s' = Some (run_all run (drop (Suc i) cbs) s')" by simp
  then show ?case
    using i r Suc.prems(1) by (subst hook_loop.simps) (auto simp: Cons_nth_drop_Suc [symmetric] split: option.split)
qed

lemma run_all_keeps:
  assumes "\<And>c s. f (fst (run c s)) = f s"
  shows "f (fst (run_all run cs s)) = f s"
proof (induction cs arbitrary: s)
  case (Cons c cs)
  obtain s' err where r: "run c s = (s', err)" by force
  with assms [of c s] Cons.IH [of s'] show ?case by (auto split: option.split)
qed simp

lemma run_all_appends:
  assumes "\<And>c s. snd (run c s) = None \<Longrightarrow> f (fst (run c s)) = f s @ g c" and "snd (run_all run cs s) = None"
  shows "f (fst (run_all run cs s)) = f s @ concat (map g cs)"
  using assms(2)
proof (induction cs arbitrary: s)
  case (Cons c cs)
  obtain s' err where r: "run c s = (s', err)" by force
  with assms(1) [of c s] Cons.IH [of s'] Cons.prems show ?case by (auto split: option.splits)
qed simp

lemma run_all_error:
  assumes "\<And>c s e. snd (run c s) = Some e \<Longrightarrow> P e" and "snd (run_all run cs s) = Some e"
  shows "P e"
  using assms(2)
proof (induction cs arbitrary: s)
  case (Cons c cs)
  obtain s' err where r: "run c s = (s', err)" by force
  with assms(1) [of c s] Cons.IH [of s'] Cons.prems show ?case by (auto split: option.splits)
qed simp

subsection \<open>The trace of an intercepted call\<close>

datatype 'o call = Pre "'o zval" | Orig | Post "'o zval"

fun call_of :: "'o call_event \<Rightarrow> 'o call option" where
  "call_of (Pre_hook v _) = Some (Pre v)"
| "call_of (Post_hook v _) = Some (Post v)"
| "call_of (Original _) = Some Orig"
| "call_of _ = None"

definition calls :: "('o, 'w) call_state \<Rightarrow> 'o call list" where
  "calls s = List.map_filter call_of (cs_trace s)"

definition runnable :: "('o, 'w, 'h) zend \<Rightarrow> 'o zval \<Rightarrow> bool" where
  "runnable z v \<longleftrightarrow> \<not> unset_hook v \<and> callable z v \<noteq> None"

lemma calls_simps [simp]:
  "calls (log_event ev s) = calls s @ (case call_of ev of None \<Rightarrow> [] | Some c \<Rightarrow> [c])"
  "calls (after_call r s) = calls s"
  "calls (s\<lparr>cs_ex := e\<rparr>) = calls s" "calls (s\<lparr>cs_frame := fr\<rparr>) = calls s" "calls (s\<lparr>cs_return := v\<rparr>) = calls s"
  "calls (handleAndReleaseHookException z s) = calls s"
  by (simp_all add: calls_def map_filter_def handleAndReleaseHookException_def split: option.split)

lemma read_slots_undefined: "read_slots slots ps = Inl e \<Longrightarrow> \<not> is_std_exception e"
  by (induction ps) (auto simp: read_slot_def bind_result_Inl_iff split: if_splits option.splits)

lemma getCallArguments_undefined: "getCallArguments fr = Inl e \<Longrightarrow> \<not> is_std_exception e"
  using read_slots_undefined [of "fr_slots fr" "map (arg_position (fr_func fr) (fr_num_args fr)) [0..<unat (fr_num_args fr)]"]
  by (cases "read_slots (fr_slots fr) (map (arg_position (fr_func fr) (fr_num_args fr)) [0..<unat (fr_num_args fr)])")
    (auto simp: getCallArguments_def split: if_splits)

lemma hook_parameters_undefined: "hook_parameters middle s = Inl e \<Longrightarrow> \<not> is_std_exception e"
  using getCallArguments_undefined [of "cs_frame s"]
  by (auto simp: hook_parameters_def Let_def bind_result_Inl_iff getScopeNameOrThis_def getFunctionName_def
      split: option.splits if_splits)

lemma guarded_no_std: "snd (guarded z body s) = Some e \<Longrightarrow> \<not> is_std_exception e"
  by (auto simp: guarded_def Let_def split: prod.splits option.splits if_splits)

lemma callPreHook_calls:
  "calls (fst (callPreHook z v s)) = calls s @ (if \<exists>ps. callable z v \<noteq> None \<and> hook_parameters [] s = Inr ps then [Pre v] else [])"
  by (auto simp: callPreHook_def Let_def split: option.split sum.split)

lemma callPostHook_calls:
  "calls (fst (callPostHook z v e s)) = calls s @
     (if \<exists>ps. callable z v \<noteq> None \<and> hook_parameters [getFunctionReturnValue (cs_return s), getCurrentException z e] s = Inr ps
      then [Post v] else [])"
  by (auto simp: callPostHook_def Let_def split: option.split sum.split)

lemma guarded_calls:
  "calls (fst (guarded z body s)) = calls (fst (body (ex_exception (cs_ex s)) (s\<lparr>cs_ex := snd (saveExceptionState (cs_ex s))\<rparr>)))"
  by (auto simp: guarded_def saveExceptionState_def Let_def split: prod.split option.split)

lemma guarded_ok:
  "snd (guarded z body s) = None \<longleftrightarrow>
     (case snd (body (ex_exception (cs_ex s)) (s\<lparr>cs_ex := snd (saveExceptionState (cs_ex s))\<rparr>)) of
        None \<Rightarrow> True | Some e \<Rightarrow> is_std_exception e)"
  by (auto simp: guarded_def saveExceptionState_def Let_def split: prod.split option.split)

lemma getScopeNameOrThis_ex: "getScopeNameOrThis (s\<lparr>cs_ex := e\<rparr>) = getScopeNameOrThis s"
  by (simp add: getScopeNameOrThis_def Let_def split: option.split)

lemma hook_parameters_ex [simp]: "hook_parameters middle (s\<lparr>cs_ex := e\<rparr>) = hook_parameters middle s"
  by (simp add: hook_parameters_def getScopeNameOrThis_ex)

lemma internal_pre_calls:
  assumes "snd (internal_pre z cb s) = None"
  shows "calls (fst (internal_pre z cb s)) = calls s @ (if runnable z (fst cb) then [Pre (fst cb)] else [])"
proof (cases "runnable z (fst cb)")
  case True
  with assms have "\<exists>ps. hook_parameters [] s = Inr ps"
    by (cases "hook_parameters [] s")
      (auto simp: internal_pre_def runnable_def guarded_ok callPreHook_def dest: hook_parameters_undefined)
  with True show ?thesis by (auto simp: internal_pre_def runnable_def guarded_calls callPreHook_calls)
next
  case False
  then show ?thesis by (auto simp: internal_pre_def runnable_def guarded_calls callPreHook_calls)
qed

lemma internal_post_calls:
  assumes "snd (internal_post z cb s) = None"
  shows "calls (fst (internal_post z cb s)) = calls s @ (if runnable z (snd cb) then [Post (snd cb)] else [])"
proof (cases "runnable z (snd cb)")
  case True
  let ?middle = "[getFunctionReturnValue (cs_return s), getCurrentException z (ex_exception (cs_ex s))]"
  from True assms have "\<exists>ps. hook_parameters ?middle s = Inr ps"
    by (cases "hook_parameters ?middle s")
      (auto simp: internal_post_def runnable_def guarded_ok callPostHook_def dest: hook_parameters_undefined)
  with True show ?thesis by (auto simp: internal_post_def runnable_def guarded_calls callPostHook_calls)
next
  case False
  then show ?thesis by (auto simp: internal_post_def runnable_def guarded_calls callPostHook_calls)
qed

lemma internal_callbacks:
  assumes "registers_elsewhere z key"
  shows "callbacks_of key (cs_hooks (fst (internal_pre z cb s))) = callbacks_of key (cs_hooks s)"
    and "callbacks_of key (cs_hooks (fst (internal_post z cb s))) = callbacks_of key (cs_hooks s)"
  using assms by (simp_all add: internal_pre_def internal_post_def guarded_callbacks callPreHook_callbacks callPostHook_callbacks)

lemma concat_map_if: "concat (map (\<lambda>x. if P x then [f x] else []) xs) = map f (filter P xs)"
  by (induction xs) auto

text \<open>One of the two loops over the hooks, whatever hooks do that cannot be read as a step of their own.\<close>

lemma hook_phase:
  assumes "\<And>c s. callbacks_of key (cs_hooks (fst (run c s))) = callbacks_of key (cs_hooks s)" and "\<And>c s. cs_ex (fst (run c s)) = cs_ex s"
    and "\<And>c s. snd (run c s) = None \<Longrightarrow> calls (fst (run c s)) = calls s @ (if P c then [f c] else [])"
    and "\<And>c s e. snd (run c s) = Some e \<Longrightarrow> \<not> is_std_exception e" and "callbacks_of key (cs_hooks s) = cbs"
  shows "\<exists>s' err. hook_loop run key 0 s = Some (s', err) \<and> cs_ex s' = cs_ex s \<and> callbacks_of key (cs_hooks s') = cbs \<and>
    (err = None \<longrightarrow> calls s' = calls s @ map f (filter P cbs)) \<and> (\<forall>e. err = Some e \<longrightarrow> \<not> is_std_exception e)"
proof (intro exI conjI impI allI)
  let ?r = "run_all run cbs s"
  show "hook_loop run key 0 s = Some (fst ?r, snd ?r)" using hook_loop_fixed [of key run s cbs 0, OF assms(1,5)] by simp
  show "cs_ex (fst ?r) = cs_ex s" by (rule run_all_keeps) (rule assms(2))
  show "callbacks_of key (cs_hooks (fst ?r)) = cbs"
    using run_all_keeps [of "\<lambda>s. callbacks_of key (cs_hooks s)" run cbs s, OF assms(1)] assms(5) by simp
  show "calls (fst ?r) = calls s @ map f (filter P cbs)" if "snd ?r = None"
    using run_all_appends [of run calls "\<lambda>c. if P c then [f c] else []" cbs s, OF assms(3) that] by (simp add: concat_map_if)
  show "\<not> is_std_exception e" if "snd ?r = Some e" for e using run_all_error [of run _ cbs s, OF assms(4) that] .
qed

lemma internal_no_std:
  "snd (internal_pre z c s) = Some e \<Longrightarrow> \<not> is_std_exception e" "snd (internal_post z c s) = Some e \<Longrightarrow> \<not> is_std_exception e"
  by (auto simp: internal_pre_def internal_post_def guarded_no_std split: if_splits)

lemma internal_phases:
  assumes "registers_elsewhere z key" and "callbacks_of key (cs_hooks s) = cbs"
  shows "\<exists>s' err. hook_loop (internal_pre z) key 0 s = Some (s', err) \<and> cs_ex s' = cs_ex s \<and> callbacks_of key (cs_hooks s') = cbs \<and>
      (err = None \<longrightarrow> calls s' = calls s @ map (\<lambda>c. Pre (fst c)) (filter (\<lambda>c. runnable z (fst c)) cbs)) \<and>
      (\<forall>e. err = Some e \<longrightarrow> \<not> is_std_exception e)"
    and "\<exists>s' err. hook_loop (internal_post z) key 0 s = Some (s', err) \<and> cs_ex s' = cs_ex s \<and> callbacks_of key (cs_hooks s') = cbs \<and>
      (err = None \<longrightarrow> calls s' = calls s @ map (\<lambda>c. Post (snd c)) (filter (\<lambda>c. runnable z (snd c)) cbs)) \<and>
      (\<forall>e. err = Some e \<longrightarrow> \<not> is_std_exception e)"
  by (rule hook_phase; use assms in
      \<open>simp add: internal_callbacks internal_pre_exception internal_post_exception internal_pre_calls internal_post_calls internal_no_std\<close>)+

lemma callOriginalHandler_facts:
  assumes "callOriginalHandler z h s = (s', out)" and "registers_elsewhere z key"
  shows "calls s' = calls s @ [Orig]" and "cs_ex s' = cr_ex (run_handler z h (cs_frame s) (cs_world s) (cs_ex s))"
    and "callbacks_of key (cs_hooks s') = callbacks_of key (cs_hooks s)" and "out \<in> {Returned, Bailed_out}"
  using assms by (auto simp: callOriginalHandler_def Let_def registers_elsewhere_def callbacks_of_elsewhere split: if_splits)

text \<open>
  C2. If no PHP code that it runs registers hooks under its own key while it is running (\<open>registers_elsewhere\<close>; otherwise it
  need not end, see \<open>self_registering_hook_never_returns\<close>), an intercepted call of an internal function ends, and runs, in the
  order of registration, the hooks before the call that are set and callable, then the original handler exactly once, then
  the hooks after the call; if the original handler bails out no hook runs after it. The exception pending afterwards is the
  one the original handler left, whatever the hooks threw, and no C++ exception leaves the handler; a frame that cannot be
  read is undefined behaviour.
\<close>

theorem intercepted_call_trace:
  assumes "key = getClassAndFunctionHash hash (Some (fr_func (cs_frame s)))" and "handler_get key handlers = Some h"
    and "hooks_find key (cs_hooks s) = Some cbs" and "registers_elsewhere z key"
  shows "\<exists>s' out. internal_function_handler hash z True handlers s = Some (s', out) \<and>
    (let before = map Pre (filter (runnable z) (map fst cbs)); after = map Post (filter (runnable z) (map snd cbs))
     in (out = Returned \<longrightarrow> calls s' = calls s @ before @ [Orig] @ after) \<and>
        (out = Bailed_out \<longrightarrow> calls s' = calls s @ before @ [Orig]) \<and>
        (\<forall>e. out = Undefined_behaviour e \<longrightarrow> \<not> is_std_exception e) \<and>
        (out = Returned \<longrightarrow> (\<exists>fr w. cs_ex s' = cr_ex (run_handler z h fr w (cs_ex s)))))"
proof -
  have c0: "callbacks_of key (cs_hooks s) = cbs" using assms(3) by (simp add: callbacks_of_find)
  from internal_phases(1) [OF assms(4) c0] obtain s1 e1 where 1: "hook_loop (internal_pre z) key 0 s = Some (s1, e1)"
    "cs_ex s1 = cs_ex s" "callbacks_of key (cs_hooks s1) = cbs"
    "e1 = None \<longrightarrow> calls s1 = calls s @ map (\<lambda>c. Pre (fst c)) (filter (\<lambda>c. runnable z (fst c)) cbs)"
    "\<forall>e. e1 = Some e \<longrightarrow> \<not> is_std_exception e" by blast
  show ?thesis
  proof (cases e1)
    case (Some e)
    have "internal_function_handler hash z True handlers s = Some (s1, Undefined_behaviour e)"
      using assms(1-3) 1(1) Some by (simp add: internal_function_handler_def Let_def)
    then show ?thesis using 1(5) Some by (auto simp: Let_def)
  next
    case None
    obtain s2 out where o: "callOriginalHandler z h s1 = (s2, out)" by force
    note 2 = callOriginalHandler_facts [OF o assms(4)]
    show ?thesis
    proof (cases "out = Returned")
      case False
      then have "internal_function_handler hash z True handlers s = Some (s2, Bailed_out)"
        using assms(1-3) 1(1) None o 2(4) by (simp add: internal_function_handler_def Let_def)
      then show ?thesis using 1(4) None 2(1) by (auto simp: Let_def filter_map comp_def)
    next
      case True
      from internal_phases(2) [OF assms(4) trans [OF 2(3) 1(3)]] obtain s3 e3 where 3:
        "hook_loop (internal_post z) key 0 s2 = Some (s3, e3)" "cs_ex s3 = cs_ex s2"
        "e3 = None \<longrightarrow> calls s3 = calls s2 @ map (\<lambda>c. Post (snd c)) (filter (\<lambda>c. runnable z (snd c)) cbs)"
        "\<forall>e. e3 = Some e \<longrightarrow> \<not> is_std_exception e" by blast
      have run: "internal_function_handler hash z True handlers s = Some (s3, case e3 of None \<Rightarrow> Returned | Some e \<Rightarrow> Undefined_behaviour e)"
        using assms(1-3) 1(1) None o True 3(1) by (auto simp: internal_function_handler_def Let_def split: option.split)
      show ?thesis
        unfolding run using 1(2,4) None 2(1,2) 3(2-4) by (cases e3) (auto simp: Let_def filter_map comp_def)
    qed
  qed
qed

subsection \<open>Calls that go wrong\<close>

lemma xor_left_cancel_u64: "xor a c = xor b c \<longleftrightarrow> a = (b :: u64)"
  by (metis (no_types) xor.assoc xor_self_eq xor.right_neutral)

lemma getScopeNameOrThis_cong:
  "cs_frame s' = cs_frame s \<Longrightarrow> cs_this s' = cs_this s \<Longrightarrow> cs_called_scope s' = cs_called_scope s \<Longrightarrow>
     getScopeNameOrThis s' = getScopeNameOrThis s"
  by (simp add: getScopeNameOrThis_def Let_def split: option.split)

lemma hook_parameters_cong:
  "cs_frame s' = cs_frame s \<Longrightarrow> cs_this s' = cs_this s \<Longrightarrow> cs_called_scope s' = cs_called_scope s \<Longrightarrow>
     hook_parameters middle s' = hook_parameters middle s"
  using getScopeNameOrThis_cong [of s' s] by (simp add: hook_parameters_def)

text \<open>
  Instrumenting an inherited internal method makes it do nothing. \<open>instrumentFunction\<close> stores the original
  handler under the name of the class it was asked for, and exchanges the handler of that class's copy of the
  method; a call looks the handler up under the class that declares the method, finds none unless that one is
  instrumented too, and returns without running the original.
\<close>

theorem inherited_method_never_runs:
  assumes "map tolower cName \<noteq> []" and "entry_at st (map tolower cName) (map tolower fName) = Some e"
    and "fn_internal (fe_function e)" and "fe_handler e = Engine_handler h"
    and "fn_name (fe_function e) = Some name" and "fn_scope (fe_function e) = Some parent"
    and "class_hash_at hash st (map tolower cName) \<noteq> hash (class_entry_name parent)"
    and "handler_get (getClassAndFunctionHash hash (Some (fe_function e))) (internalStorage st) = None"
    and "instrumentFunction hash cName fName onEntry onExit st = (ok, st')"
    and "fr_func (cs_frame s) = fe_function e"
  shows "ok \<and> map_option fe_handler (entry_at st' (map tolower cName) (map tolower fName)) = Some Internal_function_handler \<and>
    internal_function_handler hash z functional (internalStorage st') s = Some (log_event No_handler s, Returned)"
proof -
  let ?c = "map tolower cName" and ?fn = "map tolower fName"
  let ?m = "mark_entry (registration_key hash st ?c e) onEntry onExit e st"
  have run: "ok" "st' = put_entry ?c ?fn (fst ?m) (snd ?m)"
    using assms(2,9) by (simp_all add: instrumentFunction_eq Let_def)
  have "entry_at (snd ?m) ?c ?fn = Some e" using assms(2) by (simp add: same_tables(1) [of "snd ?m" st])
  then have "map_option fe_handler (entry_at st' ?c ?fn) = Some Internal_function_handler"
    using assms(3,4) by (simp add: run entry_at_put) (simp add: mark_entry_def Let_def)
  moreover have "registration_key hash st ?c e \<noteq> getClassAndFunctionHash hash (Some (fe_function e))"
    using assms(5-7) by (simp add: registration_key_def getClassAndFunctionHash_def combine_hash_def function_hash_def xor_left_cancel_u64)
  then have "handler_get (getClassAndFunctionHash hash (Some (fe_function e))) (internalStorage st') = None"
    using assms(8) by (simp add: run mark_entry_stored)
  ultimately show ?thesis using run(1) assms(10) by (simp add: internal_function_handler_def Let_def)
qed

text \<open>
  A hook that registers itself for the function it is called for never lets that call return: the loop
  over the hooks reaches the hook it has just appended.
\<close>

theorem self_registering_hook_never_returns:
  assumes "key = getClassAndFunctionHash hash (Some (fr_func (cs_frame s)))" and "handler_get key handlers = Some h"
    and "hooks_find key (cs_hooks s) = Some [(c, post)]" and "runnable z c" and "hook_parameters [] s = Inr ps"
    and "\<And>w e. cr_returned (call_function z c ps w e) = Some Z_null"
    and "\<And>w e. cr_registered (call_function z c ps w e) = [(key, c, post)]"
  shows "internal_function_handler hash z True handlers s = None"
proof -
  define stuck where "stuck i s' \<longleftrightarrow> hook_parameters [] s' = Inr ps \<and>
    (\<exists>n. callbacks_of key (cs_hooks s') = replicate n (c, post) \<and> i < n)" for i and s' :: "('a, 'b) call_state"
  have step: "\<exists>s''. internal_pre z (callbacks_of key (cs_hooks s') ! i) s' = (s'', None) \<and> stuck (Suc i) s''" if "stuck i s'" for i s'
  proof -
    from that obtain n where n: "callbacks_of key (cs_hooks s') = replicate n (c, post)" "i < n"
      and ps: "hook_parameters [] s' = Inr ps" by (auto simp: stuck_def)
    let ?s = "s'\<lparr>cs_ex := snd (saveExceptionState (cs_ex s'))\<rparr>"
    let ?r = "call_function z c ps (cs_world ?s) (cs_ex ?s)"
    let ?s1 = "after_call ?r (log_event (Pre_hook c ps) ?s)"
    have "callPreHook z c ?s = (?s1, None)"
      using assms(4,6) ps by (auto simp: callPreHook_def runnable_def argsPostProcessing_def Let_def)
    then obtain s'' where s'': "internal_pre z (c, post) s' = (s'', None)" "cs_hooks s'' = cs_hooks ?s1"
      "cs_frame s'' = cs_frame ?s1" "cs_this s'' = cs_this ?s1" "cs_called_scope s'' = cs_called_scope ?s1"
      using assms(4) by (auto simp: internal_pre_def runnable_def guarded_def Let_def case_prod_unfold handleAndReleaseHookException_def
          log_event_def split: option.splits)
    have "hook_parameters [] s'' = Inr ps"
      using ps hook_parameters_cong [of s'' s'] s''(3-5) by (simp add: after_call_def log_event_def)
    moreover have "callbacks_of key (cs_hooks s'') = replicate (Suc n) (c, post)"
      using n(1) assms(7) by (simp add: s''(2) callbacks_of_registered replicate_append_same)
    ultimately show ?thesis using s''(1) n by (auto simp: stuck_def intro!: exI [of _ "Suc n"])
  qed
  have "\<not> stuck i s'" if "hook_loop run k i s' = Some y" "run = internal_pre z" "k = key" for run k i s' y
    using that(2,3)
  proof (induction rule: hook_loop.raw_induct [OF _ that(1)])
    case (1 loop run k i s y)
    show ?case
    proof
      assume st: "stuck i s"
      from step [OF st] obtain s'' where s'': "internal_pre z (callbacks_of key (cs_hooks s) ! i) s = (s'', None)" "stuck (Suc i) s''"
        by auto
      from st have "i < length (callbacks_of key (cs_hooks s))" by (auto simp: stuck_def)
      with 1 s'' show False by simp
    qed
  qed
  moreover have "stuck 0 s" using assms(3,5) by (auto simp: stuck_def callbacks_of_find intro: exI [of _ 1])
  ultimately have "hook_loop (internal_pre z) key 0 s = None" by (metis not_Some_eq)
  with assms(1-3) show ?thesis by (simp add: internal_function_handler_def Let_def)
qed


text \<open>What the log gets when a hook cannot be called.\<close>

definition uncallable :: "exn" where
  "uncallable = Runtime_error ''Unable to initialize prehook fcall''"

definition failures :: "('o, 'w) call_state \<Rightarrow> nat" where
  "failures s = length (filter (\<lambda>ev. ev = Hook_failure uncallable) (cs_trace s))"

lemma failures_simps [simp]:
  "failures (log_event ev s) = failures s + (if ev = Hook_failure uncallable then 1 else 0)"
  "failures (after_call r s) = failures s"
  "failures (s\<lparr>cs_ex := e\<rparr>) = failures s" "failures (s\<lparr>cs_frame := fr\<rparr>) = failures s"
  "failures (handleAndReleaseHookException z s) = failures s"
  by (simp_all add: failures_def handleAndReleaseHookException_def split: option.split)

lemma observed_pre_callbacks:
  "registers_elsewhere z key \<Longrightarrow>
     callbacks_of key (cs_hooks (fst (guarded z (\<lambda>_. callPreHook z v) s))) = callbacks_of key (cs_hooks s)"
  by (simp add: guarded_callbacks callPreHook_callbacks)

lemma fold_result_error:
  assumes "\<And>x s e. f x s = Inl e \<Longrightarrow> P e" and "fold_result f xs s = Inl e"
  shows "P e"
  using assms(2) by (induction xs arbitrary: s) (auto simp: bind_result_Inl_iff dest: assms(1))

lemma argsPostProcessing_undefined: "argsPostProcessing eq args v fr = Inl e \<Longrightarrow> \<not> is_std_exception e"
proof -
  have undef: "undef_slot i slots = Inl e \<Longrightarrow> \<not> is_std_exception e" for i slots e
    by (auto simp: undef_slot_def split: if_splits)
  have assign: "replace_argument f r kv slots = Inl e \<Longrightarrow> \<not> is_std_exception e" for f r kv slots e
    by (auto simp: replace_argument_def assign_slot_def split: array_key.splits sum.splits if_splits)
  have undefs: "fold_result (\<lambda>x. undef_slot (g x)) xs slots = Inl e \<Longrightarrow> \<not> is_std_exception e" for g :: "nat \<Rightarrow> int" and xs slots e
    by (erule fold_result_error [rotated]) (erule undef)
  have assigns: "fold_result (replace_argument f r) kvs slots = Inl e \<Longrightarrow> \<not> is_std_exception e" for f r kvs slots e
    by (erule fold_result_error [rotated]) (erule assign)
  have extend: "extend_frame h fr = Inl e \<Longrightarrow> \<not> is_std_exception e" for h e
    by (auto simp: extend_frame_def Let_def bind_result_Inl_iff split: if_splits dest: undefs)
  show "argsPostProcessing eq args v fr = Inl e \<Longrightarrow> \<not> is_std_exception e"
    by (auto simp: argsPostProcessing_def Let_def bind_result_Inl_iff split: zval.splits if_splits dest: extend assigns)
qed

lemma observed_pre_failures:
  assumes "snd (guarded z (\<lambda>_. callPreHook z v) s) = None"
  shows "failures (fst (guarded z (\<lambda>_. callPreHook z v) s)) = failures s + (if callable z v = None then 1 else 0)"
proof (cases "callable z v")
  case None
  then show ?thesis by (simp add: guarded_def callPreHook_def saveExceptionState_def uncallable_def)
next
  case (Some rt)
  let ?b = "callPreHook z v (s\<lparr>cs_ex := snd (saveExceptionState (cs_ex s))\<rparr>)"
  have "snd ?b \<noteq> Some uncallable" and f: "failures (fst ?b) = failures s"
    using Some by (auto simp: callPreHook_def Let_def uncallable_def split: sum.splits option.splits
        dest: hook_parameters_undefined argsPostProcessing_undefined)
  then show ?thesis
    using Some by (cases "snd ?b"; cases ?b) (auto simp: guarded_def Let_def case_prod_unfold)
qed

lemma length_concat_if: "length (concat (map (\<lambda>c. replicate (if P c then 1 else 0) ()) cs)) = length (filter P cs)"
  by (induction cs) auto

text \<open>
  The observer handlers do not leave out hooks that were not given, as the handler of internal functions
  does: on every call of an observed user function each pair of hooks without a callable hook before the call,
  a null one for instance, logs a critical failure.
\<close>

theorem observed_null_hook_fails:
  assumes "key = getClassAndFunctionHash hash (Some (fr_func (cs_frame s)))"
    and "hooks_find key (cs_hooks s) = Some cbs" and "registers_elsewhere z key"
  shows "\<exists>s' err. elasticObserverFcallBeginHandler hash z s = Some (s', err) \<and>
    (err = None \<longrightarrow> failures s' = failures s + length (filter (\<lambda>c. callable z (fst c) = None) cbs))"
proof -
  let ?run = "\<lambda>callback. guarded z (\<lambda>_. callPreHook z (fst callback))"
  have "callbacks_of key (cs_hooks s) = cbs" using assms(2) by (simp add: callbacks_of_find)
  then have "elasticObserverFcallBeginHandler hash z s = Some (run_all ?run cbs s)"
    using hook_loop_fixed [of key ?run s cbs 0] assms
    by (simp add: elasticObserverFcallBeginHandler_def observer_handler_def Let_def observed_pre_callbacks)
  moreover have "failures (fst (run_all ?run cbs s)) = failures s + length (filter (\<lambda>c. callable z (fst c) = None) cbs)"
    if "snd (run_all ?run cbs s) = None"
  proof -
    have "replicate (failures (fst (run_all ?run cbs s))) () =
        replicate (failures s) () @ concat (map (\<lambda>c. replicate (if callable z (fst c) = None then 1 else 0) ()) cbs)"
      by (rule run_all_appends [where f = "\<lambda>s. replicate (failures s) ()", OF _ that])
        (simp add: observed_pre_failures replicate_add)
    from arg_cong [OF this, of length] show ?thesis by (simp add: length_concat_if)
  qed
  ultimately show ?thesis by (cases "run_all ?run cbs s") auto
qed


subsection \<open>The engine's callbacks\<close>

text \<open>
  The function pointers of the engine the extension replaces (\<open>Hooking\<close>), each null, another component's, or
  the extension's own, and the engine's list of error observers, to which \<open>zend_observer_error_register\<close> adds one.
\<close>

datatype 'p engine_pointer = Foreign 'p | Elastic

record 'p engine_pointers =
  zend_execute_internal :: "'p engine_pointer option"
  zend_interrupt_function :: "'p engine_pointer option"
  zend_compile_file :: "'p engine_pointer option"

record 'p engine_hooks = "'p engine_pointers" +
  error_observers :: "'p engine_pointer list"

definition fetchOriginalHooks :: "'p engine_hooks \<Rightarrow> 'p engine_pointers" where
  "fetchOriginalHooks engine =
     \<lparr>zend_execute_internal = zend_execute_internal engine, zend_interrupt_function = zend_interrupt_function engine,
      zend_compile_file = zend_compile_file engine\<rparr>"

definition replaceHooks :: "bool \<Rightarrow> bool \<Rightarrow> 'p engine_hooks \<Rightarrow> 'p engine_hooks" where
  "replaceHooks enableInferredSpansHooks enableDependencyAutoloaderGuard engine =
     (let engine = engine\<lparr>error_observers := error_observers engine @ [Elastic]\<rparr>;
          engine = (if enableInferredSpansHooks
            then engine\<lparr>zend_execute_internal := Some Elastic, zend_interrupt_function := Some Elastic\<rparr> else engine)
      in if enableDependencyAutoloaderGuard then engine\<lparr>zend_compile_file := Some Elastic\<rparr> else engine)"

definition restoreOriginalHooks :: "'p engine_pointers \<Rightarrow> 'p engine_hooks \<Rightarrow> 'p engine_hooks" where
  "restoreOriginalHooks original engine =
     engine\<lparr>zend_execute_internal := zend_execute_internal original,
       zend_interrupt_function := zend_interrupt_function original, zend_compile_file := zend_compile_file original\<rparr>"

text \<open>The pointers are taken back; the error observer stays.\<close>

lemma hooks_restored:
  "restoreOriginalHooks (fetchOriginalHooks engine) (replaceHooks spans autoloader_guard engine)
     = engine\<lparr>error_observers := error_observers engine @ [Elastic]\<rparr>"
  by (simp add: restoreOriginalHooks_def fetchOriginalHooks_def replaceHooks_def Let_def)

text \<open>
  Running foreign code: the world it leaves, what it answers, and whether it bailed out. The three callbacks
  catch a bailout (\<open>zend_catch\<close>) and go on. \<open>attach\<close> is \<open>attachBacktraceIfInterrupted\<close>.
\<close>

record ('w, 'v) run =
  run_world :: 'w
  run_value :: 'v
  run_bailout :: bool

definition elastic_interrupt_function :: "('w \<Rightarrow> 'w) \<Rightarrow> ('w \<Rightarrow> ('w, unit) run) option \<Rightarrow> 'w \<Rightarrow> ('w, unit) run" where
  "elastic_interrupt_function attach original w =
     (let w = attach w
      in case original of
           None \<Rightarrow> \<lparr>run_world = w, run_value = (), run_bailout = False\<rparr>
         | Some f \<Rightarrow> (f w)\<lparr>run_bailout := False\<rparr>)"

definition elastic_execute_internal ::
  "('w \<Rightarrow> 'w) \<Rightarrow> ('w \<Rightarrow> ('w, unit) run) option \<Rightarrow> ('w \<Rightarrow> ('w, unit) run) \<Rightarrow> 'w \<Rightarrow> ('w, unit) run" where
  "elastic_execute_internal attach original execute_internal w =
     (let r = (case original of Some f \<Rightarrow> f w | None \<Rightarrow> execute_internal w)
      in \<lparr>run_world = attach (run_world r), run_value = (), run_bailout = False\<rparr>)"

definition elastic_compile_file ::
  "('w \<Rightarrow> 'w \<times> bool) \<Rightarrow> ('w \<Rightarrow> ('w, 'op option) run) option \<Rightarrow> 'w \<Rightarrow> ('w, 'op option) run" where
  "elastic_compile_file shouldDiscard original w =
     (let (w, discard) = shouldDiscard w
      in if discard then \<lparr>run_world = w, run_value = None, run_bailout = False\<rparr>
         else
           (case original of
              None \<Rightarrow> \<lparr>run_world = w, run_value = None, run_bailout = False\<rparr>
            | Some f \<Rightarrow>
                let r = f w
                in \<lparr>run_world = run_world r, run_value = (if run_bailout r then None else run_value r), run_bailout = False\<rparr>))"

text \<open>A fatal error in an internal function ends neither the call nor the script once inferred spans are enabled.\<close>

lemma bailout_swallowed:
  "\<not> run_bailout (elastic_execute_internal attach original execute_internal w)"
  by (simp add: elastic_execute_internal_def Let_def)

text \<open>
  The error callback. \<open>handling\<close> is the function's static flag; \<open>current\<close> the function of the current frame, if
  there is one; \<open>handler\<close> runs \<open>RequestScope::handleError\<close>. If that bails out, the flag stays set.
\<close>

record 'w error_state =
  errorHandling :: bool
  er_world :: 'w

definition error_left_to_posthook :: "(string \<Rightarrow> u64) \<Rightarrow> 'c hooks_storage \<Rightarrow> php_function option option \<Rightarrow> bool" where
  "error_left_to_posthook hash m current \<longleftrightarrow>
     (case current of
        None \<Rightarrow> False
      | Some f \<Rightarrow>
          let key = getClassAndFunctionHash hash f in key \<noteq> 0 \<and> hooks_find key m \<noteq> None)"

definition elastic_observer_error_cb ::
  "(string \<Rightarrow> u64) \<Rightarrow> 'c hooks_storage \<Rightarrow> php_function option option \<Rightarrow> ('w \<Rightarrow> ('w, unit) run) \<Rightarrow> 'w error_state \<Rightarrow> 'w error_state" where
  "elastic_observer_error_cb hash m current handler s =
     (if errorHandling s \<or> error_left_to_posthook hash m current then s
      else
        let r = handler (er_world s)
        in \<lparr>errorHandling = run_bailout r, er_world = run_world r\<rparr>)"

text \<open>
  One fatal error while an error is being reported ends error reporting for the process: the flag against
  recursion is not reset when the handler is left by a bailout, and every later error is dropped.
\<close>

theorem bailout_disables_error_reporting:
  assumes "\<not> errorHandling s" and "\<not> error_left_to_posthook hash m current" and "run_bailout (handler (er_world s))"
  shows "fold (\<lambda>(m', current', handler'). elastic_observer_error_cb hash m' current' handler') later
      (elastic_observer_error_cb hash m current handler s)
    = \<lparr>errorHandling = True, er_world = run_world (handler (er_world s))\<rparr>"
proof -
  have "elastic_observer_error_cb hash m current handler s = \<lparr>errorHandling = True, er_world = run_world (handler (er_world s))\<rparr>"
    using assms by (simp add: elastic_observer_error_cb_def Let_def)
  moreover have "fold (\<lambda>(m', current', handler'). elastic_observer_error_cb hash m' current' handler') later t = t"
    if "errorHandling t" for t
    using that by (induction later) (auto simp: elastic_observer_error_cb_def)
  ultimately show ?thesis by simp
qed

subsection \<open>Examples\<close>

text \<open>Objects are callable, hooks return null and register what \<open>rs\<close> says, original handlers answer 5.\<close>

definition sample_zend :: "(u64 \<times> nat zval \<times> nat zval) list \<Rightarrow> (nat, unit, nat) zend" where
  "sample_zend rs =
     \<lparr>php_objects = \<lparr>method_result = \<lambda>_ _. None, property_of = \<lambda>_ _. None, class_name = \<lambda>_. ''C'', serialize_result = \<lambda>_. None\<rparr>,
      throwable = \<lambda>_. True, unwind_exit = \<lambda>_. False, identical = (=),
      callable = (\<lambda>v. if isObject v then Some None else None),
      call_function = (\<lambda>_ _ w e. \<lparr>cr_returned = Some Z_null, cr_world = w, cr_ex = e, cr_registered = rs, cr_bailout = False\<rparr>),
      run_handler = (\<lambda>_ _ w e. \<lparr>cr_returned = Some (Z_long 5), cr_world = w, cr_ex = e, cr_registered = [], cr_bailout = False\<rparr>)\<rparr>"

definition sample_call :: "php_function \<Rightarrow> nat zval hooks_storage \<Rightarrow> (nat, unit) call_state" where
  "sample_call f m =
     \<lparr>cs_world = (), cs_ex = \<lparr>ex_exception = None, ex_prev = None, ex_opline_before = None, ex_opline = 0\<rparr>, cs_hooks = m,
      cs_frame = \<lparr>fr_func = f, fr_num_args = 0, fr_slots = []\<rparr>, cs_this = Some 9, cs_called_scope = [], cs_return = Some Z_null,
      cs_trace = []\<rparr>"

abbreviation sample_strlen :: php_function where
  "sample_strlen \<equiv> fe_function (sample_entry ''strlen'' None 10)"

lemma sample_strlen_key: "getClassAndFunctionHash sample_hash (Some sample_strlen) = 12"
  by (simp add: sample_entry_def getClassAndFunctionHash_def combine_hash_def)

lemma intercepted_call_trace_witness:
  "\<exists>s' out. internal_function_handler sample_hash (sample_zend []) True [(12, 10)]
       (sample_call sample_strlen [(12, [(Z_object 1, Z_object 2), (Z_null, Z_object 3)])]) = Some (s', out) \<and>
     (out = Returned \<longrightarrow> calls s' = [Pre (Z_object 1), Orig, Post (Z_object 2), Post (Z_object 3)])"
proof -
  let ?s = "sample_call sample_strlen [(12, [(Z_object 1, Z_object 2), (Z_null, Z_object 3)])]"
  have "registers_elsewhere (sample_zend []) 12" by (simp add: registers_elsewhere_def sample_zend_def)
  moreover have "12 = getClassAndFunctionHash sample_hash (Some (fr_func (cs_frame ?s)))"
    by (simp add: sample_call_def sample_strlen_key)
  moreover have "hooks_find 12 (cs_hooks ?s) = Some [(Z_object 1, Z_object 2), (Z_null, Z_object 3)]"
    by (simp add: sample_call_def hooks_find_def)
  moreover have "calls ?s = []" by (simp add: calls_def sample_call_def map_filter_def)
  moreover have "runnable (sample_zend []) (Z_object n)" "\<not> runnable (sample_zend []) Z_null" for n
    by (simp_all add: runnable_def unset_hook_def sample_zend_def)
  moreover have "handler_get (12 :: u64) [(12, 10 :: nat)] = Some 10" by (simp add: handler_get_def)
  ultimately show ?thesis
    using intercepted_call_trace [of 12 sample_hash ?s "[(12, 10)]" 10 "[(Z_object 1, Z_object 2), (Z_null, Z_object 3)]" "sample_zend []"]
    by (auto simp: Let_def)
qed

text \<open>A class \<open>Child\<close> with the method \<open>query\<close> of \<open>PDO\<close>.\<close>

definition sample_inherited :: "(nat, nat) instrumentation" where
  "sample_inherited =
     \<lparr>function_table = Some [],
      class_table = Some [(''child'', \<lparr>ce_name = ''Child'', ce_functions = [(''query'', sample_entry ''query'' (Some ''PDO'') 11)]\<rparr>)],
      hooksStorage = [], internalStorage = []\<rparr>"

lemma inherited_method_never_runs_witness:
  "internal_function_handler sample_hash (sample_zend []) True
     (internalStorage (snd (instrumentFunction sample_hash ''Child'' ''query'' (Some (Z_object 1)) None sample_inherited)))
     (sample_call (fe_function (sample_entry ''query'' (Some ''PDO'') 11)) [])
   = Some (log_event No_handler (sample_call (fe_function (sample_entry ''query'' (Some ''PDO'') 11)) []), Returned)"
proof -
  have "map tolower ''Child'' = ''child''" "map tolower ''query'' = ''query''" by code_simp+
  moreover have "entry_at sample_inherited ''child'' ''query'' = Some (sample_entry ''query'' (Some ''PDO'') 11)"
    "class_hash_at sample_hash sample_inherited ''child'' = 5" "internalStorage sample_inherited = []"
    by (simp_all add: entry_at_def class_hash_at_def sample_inherited_def)
  ultimately show ?thesis
    using inherited_method_never_runs [of "''Child''" sample_inherited "''query''" "sample_entry ''query'' (Some ''PDO'') 11" 11
        "''query''" "\<lparr>class_entry_name = ''PDO'', class_interfaces = []\<rparr>" sample_hash "Some (Z_object 1)" None
        "fst (instrumentFunction sample_hash ''Child'' ''query'' (Some (Z_object 1)) None sample_inherited)"
        "snd (instrumentFunction sample_hash ''Child'' ''query'' (Some (Z_object 1)) None sample_inherited)"
        "sample_call (fe_function (sample_entry ''query'' (Some ''PDO'') 11)) []" "sample_zend []" True]
    by (simp add: sample_entry_def sample_call_def handler_get_def)
qed

lemma self_registering_hook_never_returns_witness:
  "internal_function_handler sample_hash (sample_zend [(12, Z_object 1, Z_null)]) True [(12, 10)]
     (sample_call sample_strlen [(12, [(Z_object 1, Z_null)])]) = None"
proof (rule self_registering_hook_never_returns [where key = 12 and h = 10 and c = "Z_object 1" and post = Z_null
      and ps = "[Z_null, Z_array [] 0, Z_null, Z_string False ''strlen'', Z_null, Z_null]"])
  show "12 = getClassAndFunctionHash sample_hash (Some (fr_func (cs_frame (sample_call sample_strlen [(12, [(Z_object 1, Z_null)])]))))"
    by (simp add: sample_call_def sample_strlen_key)
  show "hook_parameters [] (sample_call sample_strlen [(12, [(Z_object 1, Z_null)])])
    = Inr [Z_null, Z_array [] 0, Z_null, Z_string False ''strlen'', Z_null, Z_null]"
    by (simp add: hook_parameters_def sample_call_def sample_entry_def sample_function_def getScopeNameOrThis_def getCallArguments_def
        getFunctionName_def getFunctionDeclaringScope_def getFunctionDeclarationFileName_def getFunctionDeclarationLineNo_def)
qed (simp_all add: handler_get_def hooks_find_def sample_call_def runnable_def unset_hook_def sample_zend_def)

text \<open>A null hook is not callable: two hooks registered apart, one failure.\<close>

lemma observed_null_hook_example:
  "\<exists>s' err. elasticObserverFcallBeginHandler sample_hash (sample_zend [])
       (sample_call sample_strlen [(12, [(Z_object 1, Z_null), (Z_null, Z_object 2)])]) = Some (s', err) \<and>
     (err = None \<longrightarrow> failures s' = 1)"
proof -
  let ?s = "sample_call sample_strlen [(12, [(Z_object 1, Z_null), (Z_null, Z_object 2)])]"
  have "12 = getClassAndFunctionHash sample_hash (Some (fr_func (cs_frame ?s)))"
    by (simp add: sample_call_def sample_strlen_key)
  moreover have "hooks_find 12 (cs_hooks ?s) = Some [(Z_object 1, Z_null), (Z_null, Z_object 2)]"
    by (simp add: sample_call_def hooks_find_def)
  moreover have "registers_elsewhere (sample_zend []) 12" by (simp add: registers_elsewhere_def sample_zend_def)
  moreover have "failures ?s = 0" by (simp add: failures_def sample_call_def)
  moreover have "callable (sample_zend []) Z_null = None" "callable (sample_zend []) (Z_object 1) \<noteq> None"
    by (simp_all add: sample_zend_def)
  ultimately show ?thesis
    using observed_null_hook_fails [of 12 sample_hash ?s "[(Z_object 1, Z_null), (Z_null, Z_object 2)]" "sample_zend []"] by auto
qed

end
