(* ===== verification/Bridge.thy ===== *)
theory Bridge
  imports Interception Request
begin

text \<open>
  The calls by which the extension enters the PHP engine of a request (\<open>PhpBridge.cpp\<close>, \<open>OpCache.cpp\<close>): it
  compiles and runs the bootstrap file, calls the methods of the PHP side, asks for the state of the opcache,
  and writes properties of objects.

  The engine is a parameter (\<open>runtime\<close>): each step of it answers whether it succeeded, a value, and what it does
  to the world \<open>'w\<close>, the pending exception and \<open>EG(error_reporting)\<close>, and may bail out, a \<open>longjmp\<close> that skips what the C++ code still
  has to do (\<open>None\<close> as the result). Without a current frame \<open>ex_opline\<close> stands for nothing. The file handle
  and the return values are released as in PHP 8.1 and later.
\<close>

subsection \<open>The engine\<close>

record ('o, 'w) php_step =
  ps_ok :: bool
  ps_value :: "'o zval"
  ps_world :: 'w
  ps_ex :: "'o ex_state"
  ps_error_reporting :: int
  ps_bailout :: bool

text \<open>
  \<open>marker\<close> is the value \<open>(zend_object *)-1\<close>, which the engine uses as a pending exception that is no object.
  \<open>opened_stream\<close>: whether the handle of the file still has its stream after compilation, and the path it was
  opened under, if that is known.
\<close>

record ('o, 'w) runtime =
  rt_objects :: "'o php"
  rt_throwable :: "'o \<Rightarrow> bool"
  marker :: "'o \<Rightarrow> bool"
  class_loaded :: "string \<Rightarrow> 'w \<Rightarrow> bool"
  open_for_zend :: "string \<Rightarrow> int \<Rightarrow> 'w \<Rightarrow> 'o ex_state \<Rightarrow> ('o, 'w) php_step"
  compile_file :: "string \<Rightarrow> int \<Rightarrow> 'w \<Rightarrow> 'o ex_state \<Rightarrow> ('o, 'w) php_step"
  opened_stream :: "string \<Rightarrow> 'w \<Rightarrow> string option option"
  execute_file :: "string \<Rightarrow> int \<Rightarrow> 'w \<Rightarrow> 'o ex_state \<Rightarrow> ('o, 'w) php_step"
  call_user_function :: "string \<Rightarrow> 'o zval list \<Rightarrow> int \<Rightarrow> 'w \<Rightarrow> 'o ex_state \<Rightarrow> ('o, 'w) php_step"

datatype 'o engine_event =
    Opened string
  | Compiled string
  | Handle_destroyed
  | Executed string
  | Op_array_freed
  | Exception_released 'o
  | Called string "'o zval list"

record ('o, 'w) engine =
  eg_world :: 'w
  eg_ex :: "'o ex_state"
  eg_error_reporting :: int
  eg_included_files :: "string list"
  eg_trace :: "'o engine_event list"

definition trace_event :: "'o engine_event \<Rightarrow> ('o, 'w) engine \<Rightarrow> ('o, 'w) engine" where
  "trace_event ev e = e\<lparr>eg_trace := eg_trace e @ [ev]\<rparr>"

definition after_step :: "('o, 'w) php_step \<Rightarrow> 'o engine_event \<Rightarrow> ('o, 'w) engine \<Rightarrow> ('o, 'w) engine" where
  "after_step r ev e = trace_event ev (e\<lparr>eg_world := ps_world r, eg_ex := ps_ex r, eg_error_reporting := ps_error_reporting r\<rparr>)"

lemma trace_event_simps [simp]:
  "eg_ex (trace_event ev e) = eg_ex e" "eg_trace (trace_event ev e) = eg_trace e @ [ev]"
  "eg_world (trace_event ev e) = eg_world e" "eg_error_reporting (trace_event ev e) = eg_error_reporting e"
  "eg_included_files (trace_event ev e) = eg_included_files e"
  by (simp_all add: trace_event_def)

lemma after_step_simps [simp]:
  "eg_ex (after_step r ev e) = ps_ex r" "eg_trace (after_step r ev e) = eg_trace e @ [ev]"
  "eg_world (after_step r ev e) = ps_world r" "eg_error_reporting (after_step r ev e) = ps_error_reporting r"
  "eg_included_files (after_step r ev e) = eg_included_files e"
  by (simp_all add: after_step_def)

subsection \<open>The bootstrap file\<close>

text \<open>\<open>EG(exception) && EG(exception) != (zend_object *)-1\<close>\<close>

definition thrown :: "('o, 'w) runtime \<Rightarrow> ('o, 'w) engine \<Rightarrow> 'o option" where
  "thrown rt e = (case ex_exception (eg_ex e) of Some ob \<Rightarrow> if marker rt ob then None else Some ob | None \<Rightarrow> None)"

text \<open>The scope guard \<open>releaseException\<close>.\<close>

definition release_and_restore :: "('o, 'w) runtime \<Rightarrow> 'o ex_state \<Rightarrow> ('o, 'w) engine \<Rightarrow> ('o, 'w) engine" where
  "release_and_restore rt saved e =
     (let e' = (case thrown rt e of
                  Some ob \<Rightarrow> (trace_event (Exception_released ob) e)\<lparr>eg_ex := (eg_ex e)\<lparr>ex_exception := None\<rparr>\<rparr>
                | None \<Rightarrow> e)
      in e'\<lparr>eg_ex := restoreExceptionState saved (eg_ex e')\<rparr>)"

text \<open>\<open>exceptionToString(EG(exception))\<close>; the marker is not a pointer to an object.\<close>

definition pending_text :: "('o, 'w) runtime \<Rightarrow> ('o, 'w) engine \<Rightarrow> string result" where
  "pending_text rt e =
     (case ex_exception (eg_ex e) of
        None \<Rightarrow> Inr []
      | Some ob \<Rightarrow>
          if marker rt ob then Inl (Undefined ''use of the marker of a pending exception'')
          else Inr (exceptionToString (rt_objects rt) (rt_throwable rt) (Some ob)))"

definition file_error :: "string \<Rightarrow> string \<Rightarrow> string \<Rightarrow> ('o, 'w) runtime \<Rightarrow> ('o, 'w) engine \<Rightarrow> exn" where
  "file_error before file after rt e =
     (case pending_text rt e of Inl u \<Rightarrow> u | Inr text \<Rightarrow> Runtime_error (before @ quoted file @ after @ text))"

definition add_included :: "string \<Rightarrow> string option option \<Rightarrow> ('o, 'w) engine \<Rightarrow> ('o, 'w) engine" where
  "add_included file stream e =
     (case stream of
        None \<Rightarrow> e
      | Some opened_path \<Rightarrow>
          let path = (case opened_path of Some p \<Rightarrow> p | None \<Rightarrow> file)
          in if path \<in> set (eg_included_files e) then e else e\<lparr>eg_included_files := eg_included_files e @ [path]\<rparr>)"

definition run_op_array :: "('o, 'w) runtime \<Rightarrow> string \<Rightarrow> ('o, 'w) engine \<Rightarrow> ('o, 'w) engine \<times> unit result option" where
  "run_op_array rt file e =
     (let x = execute_file rt file (eg_error_reporting e) (eg_world e) (eg_ex e); e1 = after_step x (Executed file) e
      in if ps_bailout x then (e1, None)
         else
           let e2 = trace_event Op_array_freed e1
           in (e2, Some (if thrown rt e2 \<noteq> None then Inl (file_error ''Error during execution of file '' file ''. '' rt e2) else Inr ())))"

definition compile_and_run :: "('o, 'w) runtime \<Rightarrow> string \<Rightarrow> ('o, 'w) engine \<Rightarrow> ('o, 'w) engine \<times> unit result option" where
  "compile_and_run rt file e =
     (let op = open_for_zend rt file (eg_error_reporting e) (eg_world e) (eg_ex e); e1 = after_step op (Opened file) e
      in if ps_bailout op then (e1, None)
         else if \<not> ps_ok op then
           (trace_event Handle_destroyed e1, Some (Inl (Runtime_error (''Unable to open file for compilation '' @ quoted file))))
         else
           let c = compile_file rt file (eg_error_reporting e1) (eg_world e1) (eg_ex e1); e2 = after_step c (Compiled file) e1
           in if ps_bailout c then (e2, None)
              else
                let e3 = trace_event Handle_destroyed
                           (if ps_ok c then add_included file (opened_stream rt file (eg_world e2)) e2 else e2)
                in if \<not> ps_ok c then (e3, Some (Inl (file_error ''Error during compilation of file '' file '' '' rt e3)))
                   else run_op_array rt file e3)"

definition bridge_compileAndExecuteFile ::
  "('o, 'w) runtime \<Rightarrow> string \<Rightarrow> ('o, 'w) engine \<Rightarrow> ('o, 'w) engine \<times> unit result option" where
  "bridge_compileAndExecuteFile rt file e =
     (let (saved, cleared) = saveExceptionState (eg_ex e)
      in case compile_and_run rt file (e\<lparr>eg_ex := cleared\<rparr>) of
           (e', None) \<Rightarrow> (e', None)
         | (e', Some res) \<Rightarrow> (release_and_restore rt saved e', Some res))"

subsection \<open>Calls of the PHP side\<close>

text \<open>\<open>callMethod\<close> of a function by name; it answers whether the engine could call it, and its result.\<close>

definition bridge_callMethod ::
  "('o, 'w) runtime \<Rightarrow> string \<Rightarrow> 'o zval list \<Rightarrow> ('o, 'w) engine \<Rightarrow> ('o, 'w) engine \<times> (bool \<times> 'o zval) option" where
  "bridge_callMethod rt methodName arguments e =
     (let (saved, cleared) = saveExceptionState (eg_ex e);
          r = call_user_function rt methodName arguments (eg_error_reporting e) (eg_world e) cleared;
          e' = after_step r (Called methodName arguments) e
      in if ps_bailout r then (e', None)
         else (e'\<lparr>eg_ex := restoreExceptionState saved (eg_ex e')\<rparr>, Some (ps_ok r, ps_value r)))"

text \<open>A call of the facade: nothing happens if the class is not loaded, and the result of the method is dropped.\<close>

definition facade_class :: string where
  "facade_class = ''elastic'' @ [CHR 0x5C] @ ''otel'' @ [CHR 0x5C] @ ''phppartfacade''"

definition facade_method :: "bool \<Rightarrow> string \<Rightarrow> string" where
  "facade_method rooted name =
     (if rooted then [CHR 0x5C] else []) @ ''Elastic'' @ [CHR 0x5C] @ ''OTel'' @ [CHR 0x5C] @ ''PhpPartFacade::'' @ name"

definition call_facade ::
  "('o, 'w) runtime \<Rightarrow> string \<Rightarrow> 'o zval list \<Rightarrow> ('o, 'w) engine \<Rightarrow> ('o, 'w) engine \<times> bool option" where
  "call_facade rt methodName arguments e =
     (if \<not> class_loaded rt facade_class (eg_world e) then (e, Some False)
      else (case bridge_callMethod rt methodName arguments e of (e', r) \<Rightarrow> (e', map_option fst r)))"

definition bridge_callPHPSideEntryPoint ::
  "('o, 'w) runtime \<Rightarrow> string \<Rightarrow> LogLevel \<Rightarrow> i64 \<Rightarrow> ('o, 'w) engine \<Rightarrow> ('o, 'w) engine \<times> bool option" where
  "bridge_callPHPSideEntryPoint rt version logLevel requestInitStart_us =
     call_facade rt (facade_method True ''bootstrap'')
       [zval_set (N_string version), zval_set (N_integer (of_nat (level_value logLevel))), zval_set (N_double (double_of_long requestInitStart_us))]"

definition bridge_callPHPSideExitPoint :: "('o, 'w) runtime \<Rightarrow> ('o, 'w) engine \<Rightarrow> ('o, 'w) engine \<times> bool option" where
  "bridge_callPHPSideExitPoint rt = call_facade rt (facade_method False ''shutdown'') []"

definition bridge_callPHPSideErrorHandler ::
  "('o, 'w) runtime \<Rightarrow> 32 word \<Rightarrow> string \<Rightarrow> u32 \<Rightarrow> string \<Rightarrow> ('o, 'w) engine \<Rightarrow> ('o, 'w) engine \<times> bool option" where
  "bridge_callPHPSideErrorHandler rt type errorFilename errorLineno message =
     call_facade rt (facade_method True ''handleError'')
       [zval_set (N_integer (scast type)), zval_set (N_string errorFilename), zval_set (N_integer (ucast errorLineno)), zval_set (N_string message)]"

text \<open>\<open>frame_kind\<close>: whether the function of the current frame is internal, if there is a frame.\<close>

definition bridge_callInferredSpans ::
  "('o, 'w) runtime \<Rightarrow> bool option \<Rightarrow> i64 \<Rightarrow> ('o, 'w) engine \<Rightarrow> ('o, 'w) engine \<times> bool option" where
  "bridge_callInferredSpans rt frame_kind duration =
     call_facade rt (facade_method True ''inferredSpans'') [zval_set (N_integer duration), zval_set (N_bool (frame_kind = Some True))]"

subsection \<open>The opcache\<close>

text \<open>
  The settings and the state of the request the functions on the opcache look at; \<open>other_callbacks\<close> says whether the SAPI has one of
  the callbacks that are missing while preloading, \<open>zend_functions\<close> is the function table, if there is one.
\<close>

record opcache_env =
  sapi_name :: string
  ini_bool :: "string \<Rightarrow> bool"
  ini_str :: "string \<Rightarrow> string option"
  other_callbacks :: bool
  path_translated :: "string option"
  zend_functions :: "string set option"

definition isOpcacheEnabled :: "opcache_env \<Rightarrow> bool" where
  "isOpcacheEnabled oc = (if sapi_name oc = ''cli'' then ini_bool oc ''opcache.enable_cli'' else ini_bool oc ''opcache.enable'')"

definition text_setting :: "opcache_env \<Rightarrow> string \<Rightarrow> string option" where
  "text_setting oc name = (case ini_str oc name of None \<Rightarrow> None | Some v \<Rightarrow> if c_str v = [] then None else Some (c_str v))"

definition bridge_detectOpcachePreload :: "opcache_env \<Rightarrow> bool" where
  "bridge_detectOpcachePreload oc \<longleftrightarrow> isOpcacheEnabled oc \<and> text_setting oc ''opcache.preload'' \<noteq> None \<and> \<not> other_callbacks oc"

definition bridge_isScriptRestricedByOpcacheAPI :: "opcache_env \<Rightarrow> bool" where
  "bridge_isScriptRestricedByOpcacheAPI oc =
     (if \<not> isOpcacheEnabled oc then False
      else (case text_setting oc ''opcache.restrict_api'' of
              None \<Rightarrow> False
            | Some restrict_api \<Rightarrow>
                (case path_translated oc of
                   None \<Rightarrow> True
                 | Some script \<Rightarrow>
                     length (c_str script) < length restrict_api \<or> take (length restrict_api) (c_str script) \<noteq> restrict_api)))"

text \<open>\<open>zend_hash_str_find\<close> in the slots of an array.\<close>

definition array_find :: "string \<Rightarrow> (array_key \<times> 'o zval) list \<Rightarrow> 'o zval option" where
  "array_find name slots = map_of (filter (\<lambda>(k, v). \<not> isUndef v) slots) (Key_string name)"

definition bridge_detectOpcacheRestartPending ::
  "('o, 'w) runtime \<Rightarrow> opcache_env \<Rightarrow> ('o, 'w) engine \<Rightarrow> ('o, 'w) engine \<times> bool option" where
  "bridge_detectOpcacheRestartPending rt oc e =
     (if \<not> isOpcacheEnabled oc then (e, Some False)
      else if (case zend_functions oc of Some fs \<Rightarrow> ''opcache_get_status'' \<notin> fs | None \<Rightarrow> False) then (e, Some False)
      else
        (case bridge_callMethod rt ''opcache_get_status'' [zval_set (N_bool False)] (e\<lparr>eg_error_reporting := 0\<rparr>) of
           (e', None) \<Rightarrow> (e', None)
         | (e', Some (result, rv)) \<Rightarrow>
             (e'\<lparr>eg_error_reporting := eg_error_reporting e\<rparr>,
              Some (result \<and> (case rv of Z_array slots _ \<Rightarrow> array_find ''restart_pending'' slots = Some Z_true | _ \<Rightarrow> False)))))"

subsection \<open>Properties and compiled files\<close>

text \<open>
  A class has its name and the flags of its properties; \<open>set_property\<close> is \<open>zend_update_property_ex\<close>, which may look at
  the flags. The engine's bit for a read-only property is \<open>1 << 7\<close>.
\<close>

definition acc_readonly :: u32 where
  "acc_readonly = push_bit 7 1"

definition forceSetObjectPropertyValue ::
  "((string, u32) umap \<Rightarrow> 'w \<Rightarrow> 'w) \<Rightarrow> string \<Rightarrow> (string, u32) umap \<Rightarrow> 'w \<Rightarrow> (string, u32) umap \<times> 'w \<times> bool" where
  "forceSetObjectPropertyValue set_property propertyName properties_info w =
     (if properties_info = [] then (properties_info, w, False)
      else (case map_of properties_info propertyName of
              None \<Rightarrow> (properties_info, w, False)
            | Some originalFlags \<Rightarrow>
                let info = (if and originalFlags acc_readonly \<noteq> 0
                            then um_assign propertyName (and originalFlags (not acc_readonly)) properties_info
                            else properties_info)
                in (info, set_property info w, True)))"

text \<open>The class of an object is compared by its name.\<close>

definition isObjectOfClass :: "'o php \<Rightarrow> 'o zval option \<Rightarrow> string \<Rightarrow> bool" where
  "isObjectOfClass php object className = (case object of Some (Z_object ob) \<Rightarrow> class_name php ob = className | _ \<Rightarrow> False)"

definition getCompiledFiles :: "symbol_table \<Rightarrow> symbol_table \<Rightarrow> string list" where
  "getCompiledFiles classes funs = files_of classes @ files_of funs"

subsection \<open>What the calls leave behind\<close>

text \<open>What the engine does with the file, and the step it comes to.\<close>

definition file_steps :: "('o, 'w) runtime \<Rightarrow> string \<Rightarrow> ('o, 'w) engine \<Rightarrow> 'o engine_event list \<times> ('o, 'w) php_step" where
  "file_steps rt file e =
     (let opened = open_for_zend rt file (eg_error_reporting e) (eg_world e) (snd (saveExceptionState (eg_ex e)));
          compiled = compile_file rt file (ps_error_reporting opened) (ps_world opened) (ps_ex opened);
          executed = execute_file rt file (ps_error_reporting compiled) (ps_world compiled) (ps_ex compiled)
      in if \<not> ps_ok opened then ([Opened file, Handle_destroyed], opened)
         else if \<not> ps_ok compiled then ([Opened file, Compiled file, Handle_destroyed], compiled)
         else ([Opened file, Compiled file, Handle_destroyed, Executed file, Op_array_freed], executed))"

lemma included_simps [simp]:
  "eg_trace (add_included file st e) = eg_trace e" "eg_error_reporting (add_included file st e) = eg_error_reporting e"
  "eg_world (add_included file st e) = eg_world e" "eg_ex (add_included file st e) = eg_ex e"
  by (auto simp: add_included_def Let_def split: option.split)

lemma compile_and_run_steps:
  assumes "compile_and_run rt file (e\<lparr>eg_ex := snd (saveExceptionState (eg_ex e))\<rparr>) = (e', Some res)"
    and "file_steps rt file e = (evs, final)"
  shows "eg_trace e' = eg_trace e @ evs" "eg_ex e' = ps_ex final" "eg_world e' = ps_world final"
    "eg_error_reporting e' = ps_error_reporting final" "res = Inr () \<longleftrightarrow> Executed file \<in> set evs \<and> thrown rt e' = None"
  using assms by (auto simp: compile_and_run_def run_op_array_def file_steps_def Let_def split: if_splits)

lemma release_and_restore_simps:
  "eg_ex (release_and_restore rt saved e) = restoreExceptionState saved (eg_ex e)"
  "eg_error_reporting (release_and_restore rt saved e) = eg_error_reporting e"
  "eg_world (release_and_restore rt saved e) = eg_world e"
  "eg_trace (release_and_restore rt saved e) = eg_trace e @ (case thrown rt e of None \<Rightarrow> [] | Some ob \<Rightarrow> [Exception_released ob])"
  by (auto simp: release_and_restore_def restoreExceptionState_def Let_def split: option.split)

text \<open>
  C12. The bootstrap file and the pending exception of the script do not meet. Unless the engine bails out, the file is opened
  with no exception pending and its handle is closed; it is compiled if it could be opened, executed, once, if it compiled, and
  its code is freed then. The exception object the last of these steps leaves, if it leaves one, is released, once, and the exception
  that was pending before is pending again. The call succeeds exactly when the file was executed and left no exception. The world
  and the error reporting are those the last step left: the call itself changes neither, and what the file sets stays.
\<close>

theorem bootstrap_file_isolated:
  assumes "bridge_compileAndExecuteFile rt file e = (e', Some res)" and "file_steps rt file e = (evs, final)"
  shows "let left = (case ex_exception (ps_ex final) of Some ob \<Rightarrow> if marker rt ob then None else Some ob | None \<Rightarrow> None)
    in eg_ex e' = eg_ex e \<and> eg_world e' = ps_world final \<and> eg_error_reporting e' = ps_error_reporting final \<and>
       eg_trace e' = eg_trace e @ evs @ (case left of Some ob \<Rightarrow> [Exception_released ob] | None \<Rightarrow> []) \<and>
       (res = Inr () \<longleftrightarrow> Executed file \<in> set evs \<and> left = None)"
proof -
  let ?e = "e\<lparr>eg_ex := snd (saveExceptionState (eg_ex e))\<rparr>"
  from assms(1) obtain e1 where run: "compile_and_run rt file ?e = (e1, Some res)"
    and e': "e' = release_and_restore rt (fst (saveExceptionState (eg_ex e))) e1"
    by (auto simp: bridge_compileAndExecuteFile_def saveExceptionState_def split: prod.splits option.splits)
  note steps = compile_and_run_steps [OF run assms(2)]
  have "eg_ex e' = eg_ex e" by (simp add: e' release_and_restore_simps saveExceptionState_def restoreExceptionState_def)
  then show ?thesis
    using steps by (auto simp: e' release_and_restore_simps thrown_def Let_def split: option.split)
qed

lemma callMethod_isolated:
  "bridge_callMethod rt name arguments e = (e', Some r) \<Longrightarrow>
     eg_ex e' = eg_ex e \<and> eg_trace e' = eg_trace e @ [Called name arguments]"
  by (auto simp: bridge_callMethod_def saveExceptionState_def restoreExceptionState_def Let_def split: if_splits)

text \<open>An exception the method leaves is neither released nor reported: its object is leaked.\<close>

lemma method_exception_leaked:
  assumes "ps_ex (call_user_function rt name arguments (eg_error_reporting e) (eg_world e) (snd (saveExceptionState (eg_ex e)))) = x"
    and "ex_exception x = Some ob" and "bridge_callMethod rt name arguments e = (e', Some r)"
  shows "eg_ex e' = eg_ex e \<and> Exception_released ob \<notin> set (drop (length (eg_trace e)) (eg_trace e'))"
  using callMethod_isolated [OF assms(3)] by simp

lemma facade_isolated:
  "call_facade rt name arguments e = (e', Some ok) \<Longrightarrow>
     eg_ex e' = eg_ex e \<and> eg_trace e' = eg_trace e @ (if class_loaded rt facade_class (eg_world e) then [Called name arguments] else [])"
  by (auto simp: call_facade_def dest: callMethod_isolated split: if_splits prod.splits)

text \<open>The scan of the tables from their start finds all files.\<close>

lemma first_scan_complete: "fst (getNewlyCompiledFiles classes funs 0 0) = getCompiledFiles classes funs"
  by (simp add: getNewlyCompiledFiles_def getCompiledFiles_def scan_from_def)

subsection \<open>A pending restart of the opcache\<close>

definition restart_pending :: "('o, 'w) runtime \<Rightarrow> opcache_env \<Rightarrow> ('o, 'w) engine \<Rightarrow> bool" where
  "restart_pending rt oc e \<longleftrightarrow>
     isOpcacheEnabled oc \<and> (case zend_functions oc of Some fs \<Rightarrow> ''opcache_get_status'' \<in> fs | None \<Rightarrow> True) \<and>
     (let r = call_user_function rt ''opcache_get_status'' [Z_long 0] 0 (eg_world e) (snd (saveExceptionState (eg_ex e)))
      in ps_ok r \<and> (\<exists>slots n. ps_value r = Z_array slots n \<and> array_find ''restart_pending'' slots = Some Z_true))"

lemma detectOpcacheRestartPending_iff:
  assumes "bridge_detectOpcacheRestartPending rt oc e = (e', Some pending)"
  shows "pending \<longleftrightarrow> restart_pending rt oc e" and "eg_ex e' = eg_ex e" and "eg_error_reporting e' = eg_error_reporting e"
proof -
  let ?r = "call_user_function rt ''opcache_get_status'' [Z_long 0] 0 (eg_world e) (snd (saveExceptionState (eg_ex e)))"
  have array: "(case v of Z_array slots _ \<Rightarrow> array_find name slots = Some Z_true | _ \<Rightarrow> False) \<longleftrightarrow>
      (\<exists>slots n. v = Z_array slots n \<and> array_find name slots = Some Z_true)" for v :: "'a zval" and name
    by (cases v) auto
  have called: "eg_ex e1 = eg_ex e \<and> r1 = (ps_ok ?r, ps_value ?r)"
    if "bridge_callMethod rt ''opcache_get_status'' [Z_long 0] (e\<lparr>eg_error_reporting := 0\<rparr>) = (e1, Some r1)" for e1 r1
    using that callMethod_isolated [OF that]
    by (auto simp: bridge_callMethod_def saveExceptionState_def Let_def split: if_splits)
  show "eg_ex e' = eg_ex e" and "eg_error_reporting e' = eg_error_reporting e" and "pending \<longleftrightarrow> restart_pending rt oc e"
    using assms
    by (auto simp: bridge_detectOpcacheRestartPending_def restart_pending_def Let_def array dest!: called split: if_splits option.splits prod.splits)
qed

lemma execute_file_iff:
  assumes "isSupported (sapi env)" and "cfg_bool ''enabled'' (env_config env)" and "\<not> (requestCounter s = 0 \<and> detectOpcachePreload env)"
  shows "(\<exists>file. Execute_file file \<in> set (fst (onRequestInit env s))) \<longleftrightarrow> isScriptRestricedByOpcacheAPI env \<or> \<not> detectOpcacheRestartPending env"
proof -
  have d: "Execute_file f \<notin> set (diagnostics_calls env t)" for f t by (simp add: diagnostics_calls_def Let_def)
  have b: "\<exists>f. Execute_file f \<in> set (fst (bootstrapPHPSideInstrumentation env))"
    by (auto simp: bootstrapPHPSideInstrumentation_def Let_def split: sum.split)
  show ?thesis
    using assms d b by (auto simp: onRequestInit_def resetRequest_def Let_def begin_request_simps case_prod_unfold)
qed

text \<open>
  While the opcache is about to restart, the PHP side is not started. For a request of a supported SAPI that is
  enabled and does not preload, the bootstrap file is executed exactly when the script may not use the opcache, or
  \<open>opcache_get_status\<close> does not answer an array in which \<open>restart_pending\<close> is true; asking leaves neither an exception
  nor a changed error reporting behind.
\<close>

theorem no_bootstrap_before_restart:
  assumes "detectOpcachePreload env = bridge_detectOpcachePreload oc"
    and "isScriptRestricedByOpcacheAPI env = bridge_isScriptRestricedByOpcacheAPI oc"
    and "bridge_detectOpcacheRestartPending rt oc e = (e', Some (detectOpcacheRestartPending env))"
    and "isSupported (sapi env)" and "cfg_bool ''enabled'' (env_config env)"
    and "\<not> (requestCounter s = 0 \<and> bridge_detectOpcachePreload oc)"
  shows "((\<exists>file. Execute_file file \<in> set (fst (onRequestInit env s))) \<longleftrightarrow>
      bridge_isScriptRestricedByOpcacheAPI oc \<or> \<not> restart_pending rt oc e) \<and>
    eg_ex e' = eg_ex e \<and> eg_error_reporting e' = eg_error_reporting e"
  using execute_file_iff [of env s] assms detectOpcacheRestartPending_iff [OF assms(3)] by simp

subsection \<open>Read-only properties\<close>

text \<open>
  Writing a read-only property makes it writable for good: the flag is taken from the class and never put back, so
  from then on scripts may modify the property in every object of the class. Its other flags and the
  other properties stay.
\<close>

theorem readonly_removed_for_good:
  assumes "map_of info propertyName = Some flags" and "and flags acc_readonly \<noteq> 0"
    and "forceSetObjectPropertyValue set_property propertyName info w = (info', w', ok)"
  shows "ok \<and> map_of info' propertyName = Some (and flags (not acc_readonly)) \<and> and (and flags (not acc_readonly)) acc_readonly = 0 \<and>
    w' = set_property info' w \<and> (\<forall>other. other \<noteq> propertyName \<longrightarrow> map_of info' other = map_of info other)"
proof -
  have "info \<noteq> []" using assms(1) by auto
  then have "ok" "info' = um_assign propertyName (and flags (not acc_readonly)) info" "w' = set_property info' w"
    using assms by (auto simp: forceSetObjectPropertyValue_def Let_def)
  moreover have "and (and flags (not acc_readonly)) acc_readonly = 0" by (simp add: and.assoc)
  ultimately show ?thesis by (simp add: umap_simps)
qed

definition sample_state :: "nat ex_state" where
  "sample_state = \<lparr>ex_exception = Some 7, ex_prev = None, ex_opline_before = None, ex_opline = 4\<rparr>"

definition sample_step :: "bool \<Rightarrow> nat zval \<Rightarrow> nat option \<Rightarrow> (nat, unit) php_step" where
  "sample_step ok v x =
     \<lparr>ps_ok = ok, ps_value = v, ps_world = (), ps_ex = sample_state\<lparr>ex_exception := x\<rparr>, ps_error_reporting = 7, ps_bailout = False\<rparr>"

text \<open>An engine whose bootstrap file throws, and whose opcache is about to restart.\<close>

definition sample_runtime :: "(nat, unit) runtime" where
  "sample_runtime =
     \<lparr>rt_objects = \<lparr>method_result = \<lambda>_ _. None, property_of = \<lambda>_ _. None, class_name = \<lambda>_. ''Error'', serialize_result = \<lambda>_. None\<rparr>,
      rt_throwable = \<lambda>_. True, marker = \<lambda>_. False, class_loaded = \<lambda>_ _. False,
      open_for_zend = \<lambda>_ _ _ _. sample_step True Z_null None, compile_file = \<lambda>_ _ _ _. sample_step True Z_null None,
      opened_stream = \<lambda>_ _. Some None, execute_file = \<lambda>_ _ _ _. sample_step True Z_null (Some 9),
      call_user_function = \<lambda>_ _ _ _ _. sample_step True (Z_array [(Key_string ''restart_pending'', Z_true)] 0) None\<rparr>"

definition sample_engine :: "(nat, unit) engine" where
  "sample_engine = \<lparr>eg_world = (), eg_ex = sample_state, eg_error_reporting = 32767, eg_included_files = [], eg_trace = []\<rparr>"

lemma bootstrap_file_isolated_witness:
  "\<exists>e' res. bridge_compileAndExecuteFile sample_runtime ''b.php'' sample_engine = (e', Some res) \<and> eg_ex e' = eg_ex sample_engine \<and>
     eg_trace e' = [Opened ''b.php'', Compiled ''b.php'', Handle_destroyed, Executed ''b.php'', Op_array_freed, Exception_released 9] \<and>
     eg_error_reporting e' = 7 \<and> res \<noteq> Inr ()"
proof -
  obtain e' r where run: "bridge_compileAndExecuteFile sample_runtime ''b.php'' sample_engine = (e', r)" by (rule prod.exhaust)
  then have "r \<noteq> None"
    by (auto simp: bridge_compileAndExecuteFile_def compile_and_run_def run_op_array_def sample_runtime_def sample_step_def Let_def
        case_prod_unfold split: option.splits if_splits)
  then obtain res where res: "r = Some res" by blast
  have "file_steps sample_runtime ''b.php'' sample_engine =
      ([Opened ''b.php'', Compiled ''b.php'', Handle_destroyed, Executed ''b.php'', Op_array_freed], sample_step True Z_null (Some 9))"
    by (simp add: file_steps_def sample_runtime_def sample_step_def)
  from bootstrap_file_isolated [OF run [unfolded res] this] run res show ?thesis
    by (simp add: Let_def) (simp add: sample_step_def sample_runtime_def sample_engine_def sample_state_def)
qed

definition sample_opcache :: opcache_env where
  "sample_opcache = \<lparr>sapi_name = ''fpm-fcgi'', ini_bool = \<lambda>_. True, ini_str = \<lambda>_. None, other_callbacks = True,
     path_translated = None, zend_functions = None\<rparr>"

lemma no_bootstrap_before_restart_witness:
  "\<not> (\<exists>file. Execute_file file \<in> set (fst (onRequestInit (sample_env\<lparr>detectOpcacheRestartPending := True\<rparr>)
     (new_request_worker sample_guard (new_inferred 0)))))"
proof -
  let ?env = "sample_env\<lparr>detectOpcacheRestartPending := True\<rparr>"
  have pending: "restart_pending sample_runtime sample_opcache sample_engine"
    by (simp add: restart_pending_def sample_opcache_def sample_runtime_def sample_step_def isOpcacheEnabled_def array_find_def)
  obtain e' where run: "bridge_detectOpcacheRestartPending sample_runtime sample_opcache sample_engine = (e', Some True)"
    by (simp add: bridge_detectOpcacheRestartPending_def bridge_callMethod_def saveExceptionState_def sample_opcache_def sample_runtime_def
        sample_step_def isOpcacheEnabled_def array_find_def)
  have "\<not> bridge_detectOpcachePreload sample_opcache" "\<not> bridge_isScriptRestricedByOpcacheAPI sample_opcache"
    by (simp_all add: bridge_detectOpcachePreload_def bridge_isScriptRestricedByOpcacheAPI_def text_setting_def sample_opcache_def)
  then show ?thesis
    using no_bootstrap_before_restart [of ?env sample_opcache sample_runtime sample_engine e'] run pending sample_env_config
    by (simp add: sample_env_def isSupported_def)
qed

lemma readonly_removed_for_good_witness:
  "fst (snd (forceSetObjectPropertyValue (\<lambda>info _. map_of info ''endEpochNanos'') ''endEpochNanos'' [(''endEpochNanos'', 129)] None)) = Some 1"
proof -
  have flags: "and (129 :: u32) acc_readonly \<noteq> 0" "and (129 :: u32) (not acc_readonly) = 1" by (simp_all add: acc_readonly_def)
  let ?set_property = "\<lambda>info _. map_of info ''endEpochNanos''"
  obtain info' w' ok where run: "forceSetObjectPropertyValue ?set_property ''endEpochNanos'' [(''endEpochNanos'', 129)] None = (info', w', ok)"
    by (rule prod_cases3)
  have "map_of info' ''endEpochNanos'' = Some 1 \<and> w' = map_of info' ''endEpochNanos''"
    using readonly_removed_for_good [OF _ flags(1) run] flags(2) by simp
  then show ?thesis unfolding run by simp
qed

end
