(* ===== verification/ModuleFunctions.thy ===== *)
theory ModuleFunctions
  imports Coordinator Config Logger OtlpSignals
begin

text \<open>
  The functions the extension gives to PHP (\<open>ModuleFunctions.cpp\<close>, \<open>ModuleFunctionsImpl.cpp\<close>): they read the
  configuration, write to the log, set up and feed the exporters, convert telemetry and hand out remote
  configuration. The engine has checked the number and the types of the arguments before
  (\<open>ZEND_PARSE_PARAMETERS\<close>); the functions are modelled from there. \<open>elastic_otel_hook\<close> is \<open>instrumentFunction\<close> of
  \<open>Hooks\<close> and \<open>force_set_object_property_value\<close> the function of \<open>Bridge\<close>.
\<close>

subsection \<open>Configuration\<close>

definition elastic_otel_is_enabled :: "ConfigurationSnapshot \<Rightarrow> 'o zval" where
  "elastic_otel_is_enabled cfg = (if cfg_bool ''enabled'' cfg then Z_true else Z_false)"

text \<open>The visitor of \<open>elasticApmGetConfigOption\<close>; \<open>None\<close> is \<open>std::nullopt_t\<close>.\<close>

fun zval_of_option :: "config_value option \<Rightarrow> 'o zval" where
  "zval_of_option (Some (CDuration d)) = Z_double (double_of_long (of_int d))"
| "zval_of_option (Some (CLogLevel l)) = Z_long (of_nat (level_value l))"
| "zval_of_option (Some (CBool b)) = (if b then Z_true else Z_false)"
| "zval_of_option (Some (CString s)) = Z_string False s"
| "zval_of_option (Some (CBytes n)) = Z_long n"
| "zval_of_option None = Z_null"

definition elasticApmGetConfigOption :: "string \<Rightarrow> ConfigurationSnapshot \<Rightarrow> 'o zval result" where
  "elasticApmGetConfigOption optionName cfg = map_sum id zval_of_option (getOptionValue optionName cfg)"

subsection \<open>Logging\<close>

text \<open>Casts of PHP integers to the enumerations; other numbers are not used by the PHP side.\<close>

definition cast_level :: "i64 \<Rightarrow> LogLevel option" where
  "cast_level n = find (\<lambda>l. of_nat (level_value l) = n) all_levels"

definition cast_feature :: "i64 \<Rightarrow> LogFeature option" where
  "cast_feature n = (if unat n < length all_features then Some (all_features ! unat n) else None)"

definition bracketed :: "string \<Rightarrow> string" where
  "bracketed s = ''['' @ s @ '']''"

text \<open>\<open>%d\<close> of a \<open>zend_long\<close>: its lower half.\<close>

definition printed_line :: "i64 \<Rightarrow> string" where
  "printed_line line = show_int (sint (ucast line :: 32 word))"

definition log_feature_text :: "LogFeature \<Rightarrow> string \<Rightarrow> i64 option \<Rightarrow> string \<Rightarrow> string \<Rightarrow> string" where
  "log_feature_text feature file line func message =
     bracketed (getLogFeatureName feature) @ '' '' @
     bracketed (c_str file @ (case line of None \<Rightarrow> [] | Some n \<Rightarrow> '':'' @ printed_line n)) @ '' '' @
     bracketed (c_str func) @ '' '' @ c_str message"

definition elastic_otel_log_feature ::
  "string \<Rightarrow> string \<Rightarrow> i64 \<Rightarrow> i64 \<Rightarrow> i64 \<Rightarrow> string \<Rightarrow> i64 option \<Rightarrow> string \<Rightarrow> string \<Rightarrow> Logger \<Rightarrow> log_output list result" where
  "elastic_otel_log_feature time processData isForced level feature file line func message lg =
     (case (cast_level level, cast_feature feature) of
        (Some l, Some f) \<Rightarrow>
          if isForced \<noteq> 0 \<or> doesFeatureMeetsLevelCondition l f lg
          then logger_log time processData l (log_feature_text f file line func message) lg
          else Inr []
      | _ \<Rightarrow> Inl (Undefined ''a number that is no enumerator''))"

subsection \<open>Exporting\<close>

text \<open>The TLS options under the names that begin with a prefix.\<close>

definition tls_options :: "string \<Rightarrow> ConfigurationSnapshot \<Rightarrow> HttpEndpointSSLOptions" where
  "tls_options names cfg =
     \<lparr>insecureSkipVerify = cfg_bool (names @ ''INSECURE'') cfg, caInfo = cfg_string (names @ ''CERTIFICATE'') cfg,
      cert = cfg_string (names @ ''CLIENT_CERTIFICATE'') cfg, certKey = cfg_string (names @ ''CLIENT_KEY'') cfg,
      certKeyPassword = cfg_string (names @ ''CLIENT_KEYPASS'') cfg\<rparr>"

definition ends_with :: "string \<Rightarrow> string \<Rightarrow> bool" where
  "ends_with s ending = (length ending \<le> length s \<and> drop (length s - length ending) s = ending)"

definition getSSLOptionsForSignalsEndpoint :: "ConfigurationSnapshot \<Rightarrow> string \<Rightarrow> HttpEndpointSSLOptions" where
  "getSSLOptionsForSignalsEndpoint cfg endpointUrl =
     (if ends_with endpointUrl ''/v1/traces'' \<and> cfg_string ''OTEL_EXPORTER_OTLP_TRACES_ENDPOINT'' cfg \<noteq> []
      then tls_options ''OTEL_EXPORTER_OTLP_TRACES_'' cfg
      else if ends_with endpointUrl ''/v1/metrics'' \<and> cfg_string ''OTEL_EXPORTER_OTLP_METRICS_ENDPOINT'' cfg \<noteq> []
      then tls_options ''OTEL_EXPORTER_OTLP_METRICS_'' cfg
      else if ends_with endpointUrl ''/v1/logs'' \<and> cfg_string ''OTEL_EXPORTER_OTLP_LOGS_ENDPOINT'' cfg \<noteq> []
      then tls_options ''OTEL_EXPORTER_OTLP_LOGS_'' cfg
      else tls_options ''OTEL_EXPORTER_OTLP_'' cfg)"

text \<open>
  The loop over the array of headers, as it was declared: the key of a string value is taken to be a string, and an
  integer key is a null pointer here.
\<close>

fun header_pairs :: "(array_key \<times> 'o zval) list \<Rightarrow> (string \<times> string) list result" where
  "header_pairs [] = Inr []"
| "header_pairs ((Key_string k, Z_string _ v) # slots) = map_sum id (\<lambda>hs. (k, v) # hs) (header_pairs slots)"
| "header_pairs ((Key_index _, Z_string _ v) # slots) = Inl (Undefined ''name of a header without a name'')"
| "header_pairs ((_, _) # slots) = header_pairs slots"

text \<open>
  \<open>duration_cast\<close> of seconds in a \<open>double\<close> to milliseconds: a sign and a number; what does not fit is
  undefined.
\<close>

definition seconds_to_ms :: "bool \<times> number \<Rightarrow> ms result" where
  "seconds_to_ms timeout =
     (case timeout of
        (_, Not_finite) \<Rightarrow> Inl (Undefined ''duration_cast of a number that is not finite'')
      | (neg, Finite x) \<Rightarrow>
          let t = trunc_double (times_double x 1000)
          in if t \<ge> 2 ^ 63 then Inl (Undefined ''duration_cast out of range'') else Inr (if neg then - t else t))"

definition initialize ::
  "(string \<Rightarrow> u64) \<Rightarrow> ConfigurationSnapshot \<Rightarrow> string \<Rightarrow> string \<Rightarrow> (array_key \<times> 'o zval) list \<Rightarrow> bool \<times> number \<Rightarrow> i64 \<Rightarrow> i64 \<Rightarrow>
     connection_args result" where
  "initialize hash cfg url mime headers timeout retry_delay max_retry_count =
     bind_result (header_pairs headers) (\<lambda>endpointHeaders.
     bind_result (seconds_to_ms timeout) (\<lambda>t.
       Inr \<lparr>a_url = url, a_hash = hash url, a_contentType = mime, a_headers = endpointHeaders, a_timeout = t,
            a_maxRetries = unat max_retry_count, a_retryDelay = sint retry_delay, a_ssl = getSSLOptionsForSignalsEndpoint cfg url\<rparr>))"

text \<open>The calls on the sender of the coordinator.\<close>

definition php_initialize ::
  "(string \<Rightarrow> u64) \<Rightarrow> (CoordinatorCommand \<Rightarrow> byte list option) \<Rightarrow> ('p \<Rightarrow> byte list \<Rightarrow> 'p \<times> bool) \<Rightarrow> ConfigurationSnapshot \<Rightarrow> string \<Rightarrow>
     string \<Rightarrow> (array_key \<times> 'o zval) list \<Rightarrow> bool \<times> number \<Rightarrow> i64 \<Rightarrow> i64 \<Rightarrow> 'p \<Rightarrow> 'p result" where
  "php_initialize hash encode send_payload cfg url mime headers timeout retry_delay max_retry_count w =
     map_sum id (\<lambda>a. sender_initializeConnection encode send_payload a w)
       (initialize hash cfg url mime headers timeout retry_delay max_retry_count)"

definition octets :: "string \<Rightarrow> byte list" where
  "octets = map (\<lambda>c. word_of_nat (byte_of c))"

definition php_enqueue ::
  "(string \<Rightarrow> u64) \<Rightarrow> (CoordinatorCommand \<Rightarrow> byte list option) \<Rightarrow> ('p \<Rightarrow> byte list \<Rightarrow> 'p \<times> bool) \<Rightarrow> string \<Rightarrow> string \<Rightarrow> 'p \<Rightarrow> 'p" where
  "php_enqueue hash encode send_payload url bytes =
     sender_enqueue encode send_payload (hash url) (octets bytes) (None :: unit option)"

text \<open>The conversions: an exception of the converter becomes one of PHP.\<close>

datatype 'o php_outcome = Php_value "'o zval" | Php_exception string

fun what :: "exn \<Rightarrow> string" where
  "what (Invalid_argument s) = s"
| "what (Out_of_range s) = s"
| "what (Runtime_error s) = s"
| "what (Length_error s) = s"
| "what (Undefined s) = []"

definition convert_batch :: "string \<Rightarrow> string result \<Rightarrow> 'o php_outcome result" where
  "convert_batch kind res =
     (case res of
        Inr s \<Rightarrow> Inr (Php_value (Z_string False s))
      | Inl e \<Rightarrow>
          if is_std_exception e then Inr (Php_exception (''Failed to serialize '' @ kind @ '' batch: '' @ [CHR 0x27] @ c_str (what e) @ [CHR 0x27]))
          else Inl e)"

definition convert_spans ::
  "((resource_message, scope_message, span_message) export_request \<Rightarrow> string) \<Rightarrow> 'o php \<Rightarrow> 'o zval \<Rightarrow> 'o php_outcome result" where
  "convert_spans serialize php batch = convert_batch ''spans'' (map_sum id serialize (spans_convert php batch))"

definition convert_logs ::
  "((resource_message, scope_message, log_record) export_request \<Rightarrow> string) \<Rightarrow> 'o php \<Rightarrow> 'o zval \<Rightarrow> 'o php_outcome result" where
  "convert_logs serialize php batch = convert_batch ''logs'' (map_sum id serialize (logs_convert php batch))"

definition convert_metrics ::
  "((resource_message, scope_message, metric_message) export_request \<Rightarrow> string) \<Rightarrow> (string \<Rightarrow> string option) \<Rightarrow> 'o php \<Rightarrow> 'o zval \<Rightarrow>
     'o php_outcome result" where
  "convert_metrics serialize unhex php batch = convert_batch ''metrics'' (map_sum id serialize (metrics_convert unhex php batch))"

subsection \<open>Remote configuration\<close>

text \<open>
  \<open>arrayInit\<close> and \<open>arrayAddAssocWithRef\<close>: an existing element is replaced in its place, and the next free index
  goes past an integer key.
\<close>

definition empty_array :: "(array_key \<times> 'v) list \<times> i64" where
  "empty_array = ([], - (2 ^ 63))"

definition add_assoc :: "string \<Rightarrow> 'v \<Rightarrow> (array_key \<times> 'v) list \<times> i64 \<Rightarrow> (array_key \<times> 'v) list \<times> i64" where
  "add_assoc name v = (\<lambda>(slots, next_free).
     (AList.update (symtable_key name) v slots,
      (case symtable_key name of
         Key_index h \<Rightarrow> if sint next_free \<le> sint h then (if sint h < 2 ^ 63 - 1 then h + 1 else h) else next_free
       | Key_string _ \<Rightarrow> next_free)))"

definition elastic_get_remote_configuration :: "string option \<Rightarrow> ConfigurationSnapshot \<Rightarrow> 'o zval" where
  "elastic_get_remote_configuration fileName cfg =
     (case fileName of
        Some fname \<Rightarrow> (case map_of (remoteConfigFiles cfg) fname of Some content \<Rightarrow> Z_string False content | None \<Rightarrow> Z_null)
      | None \<Rightarrow>
          (case fold (\<lambda>(name, content). add_assoc name (Z_string False content)) (remoteConfigFiles cfg) empty_array of
             (slots, next_free) \<Rightarrow> Z_array slots next_free))"

subsection \<open>What PHP is told\<close>

text \<open>The integer a \<open>double\<close> of at least one stands for.\<close>

definition int_of_double :: "u64 \<Rightarrow> int" where
  "int_of_double d =
     (let e = unat d div 2 ^ 52 mod 2048; digits = unat d mod 2 ^ 52 + 2 ^ 52; n = int (digits * 2 ^ e div 2 ^ 1075)
      in if d = 0 then 0 else if unat d \<ge> 2 ^ 63 then - n else n)"

fun option_of_zval :: "option_type \<Rightarrow> 'o zval \<Rightarrow> config_value option" where
  "option_of_zval opt_duration (Z_double d) = Some (CDuration (int_of_double d))"
| "option_of_zval opt_loglevel (Z_long n) = map_option CLogLevel (cast_level n)"
| "option_of_zval opt_boolean Z_true = Some (CBool True)"
| "option_of_zval opt_boolean Z_false = Some (CBool False)"
| "option_of_zval opt_string (Z_string _ s) = Some (CString s)"
| "option_of_zval opt_bytes (Z_long n) = Some (CBytes n)"
| "option_of_zval _ _ = None"

lemma bit_count_bounds: "0 < n \<Longrightarrow> 0 < bit_count n \<and> 2 ^ (bit_count n - 1) \<le> n \<and> n < 2 ^ bit_count n"
proof (induction n rule: bit_count.induct)
  case (1 n)
  show ?case
  proof (cases "n = 1")
    case True
    then show ?thesis by (simp add: bit_count.simps)
  next
    case False
    with 1 have h: "0 < bit_count (n div 2)" "2 ^ (bit_count (n div 2) - 1) \<le> n div 2" "n div 2 < 2 ^ bit_count (n div 2)" by auto
    then have "2 ^ bit_count (n div 2) = 2 * (2 :: nat) ^ (bit_count (n div 2) - 1)" by (cases "bit_count (n div 2)") auto
    with h 1(2) show ?thesis by (simp add: bit_count.simps [of n]) linarith
  qed
qed

lemma level_of_long: "cast_level (of_nat (level_value l)) = Some l"
  by (cases l) (simp_all add: cast_level_def all_levels_def)

lemma sint_of_small: "\<bar>d\<bar> < 2 ^ 53 \<Longrightarrow> sint (of_int d :: i64) = d"
  by (simp add: sint_sbintrunc' signed_take_bit_int_eq_self)

lemma double_of_small_long:
  assumes "\<bar>sint n\<bar> < 2 ^ 53"
  shows "int_of_double (double_of_long n) = sint n"
proof (cases "n = 0")
  case True
  then show ?thesis by (simp add: int_of_double_def double_of_long_def)
next
  case False
  define m e where "m = nat \<bar>sint n\<bar>" and "e = bit_count m - 1"
  define sign digits where "sign = (if sint n < 0 then 2 ^ 11 else 0 :: nat)" and "digits = m * 2 ^ (52 - e)"
  from False have "sint n \<noteq> 0" using signed_word_eqI [of n 0] by auto
  then have m: "0 < m" "m < 2 ^ 53" using assms by (auto simp: m_def)
  from bit_count_bounds [OF m(1)] have b: "2 ^ e \<le> m" "m < 2 ^ Suc e" by (auto simp: e_def)
  with m(2) have "(2 :: nat) ^ e < 2 ^ 53" by linarith
  then have "e < 53" by (rule power_less_imp_less_exp [rotated]) simp
  then have e: "e \<le> 52" by simp
  have d: "2 ^ 52 \<le> digits" "digits < 2 ^ 53"
  proof -
    have "2 ^ e * 2 ^ (52 - e) \<le> digits" unfolding digits_def using b(1) by (rule mult_le_mono1)
    then show "2 ^ 52 \<le> digits" using e by (simp add: power_add [symmetric])
    have "digits < 2 ^ Suc e * 2 ^ (52 - e)" unfolding digits_def using b(2) by simp
    moreover have "Suc e + (52 - e) = 53" using e by simp
    then have "(2 :: nat) ^ Suc e * 2 ^ (52 - e) = 2 ^ 53" by (metis power_add)
    ultimately show "digits < 2 ^ 53" by simp
  qed
  let ?bits = "2 ^ 52 * (sign + (e + 1023)) + (digits - 2 ^ 52)"
  have "double_of_long n = of_nat ((if sint n < 0 then 2 ^ 63 else 0) + (e + 1023) * 2 ^ 52 + (digits - 2 ^ 52))"
    using m(1) e unfolding double_of_long_def Let_def m_def [symmetric] e_def [symmetric] digits_def by simp
  moreover have "(if sint n < 0 then 2 ^ 63 else 0) + (e + 1023) * 2 ^ 52 = 2 ^ 52 * (sign + (e + 1023))"
    by (simp add: sign_def algebra_simps)
  ultimately have bits: "double_of_long n = of_nat ?bits" by simp
  have frac: "digits - 2 ^ 52 < 2 ^ 52" using d by simp
  have "sign + (e + 1023) < 2 ^ 12" using e by (simp add: sign_def)
  then have "?bits < 2 ^ 52 * (2 ^ 12 - 1) + 2 ^ 52" using frac by (intro add_le_less_mono mult_le_mono2) auto
  then have "?bits < 2 ^ 64" by simp
  moreover have "unat (of_nat x :: u64) = x" if "x < 2 ^ 64" for x using that by (simp add: unat_of_nat take_bit_nat_eq_self)
  ultimately have u: "unat (double_of_long n) = ?bits" by (simp only: bits)
  have top: "?bits div 2 ^ 52 = sign + (e + 1023)" using frac by (subst div_mult_self4) simp_all
  have rest: "?bits mod 2 ^ 52 = digits - 2 ^ 52" using frac by (simp only: mod_mult_self4 mod_less)
  have "sign = 2048 \<or> sign = 0" by (simp add: sign_def)
  then have "(sign + (e + 1023)) mod 2048 = (e + 1023) mod 2048" by (auto simp only: mod_add_self1 add_0)
  then have exp: "(sign + (e + 1023)) mod 2048 = e + 1023" using e by simp
  have "digits * 2 ^ (e + 1023) = m * 2 ^ 1075"
    using e by (simp add: digits_def power_add [symmetric] mult.assoc)
  then have v: "digits * 2 ^ (e + 1023) div 2 ^ 1075 = m" by simp
  have "double_of_long n \<noteq> 0"
  proof
    assume "double_of_long n = 0"
    then have "?bits = 0" using u by simp
    then show False by simp
  qed
  moreover have "unat (double_of_long n) \<ge> 2 ^ 63 \<longleftrightarrow> sint n < 0"
  proof (cases "sint n < 0")
    case False
    then have "sign = 0" by (simp add: sign_def)
    moreover have "2 ^ 52 * (e + 1023) + (digits - 2 ^ 52) < 2 ^ 52 * 1076 + 2 ^ 52"
      using e frac by (intro add_le_less_mono mult_le_mono2) auto
    ultimately show ?thesis using u False by simp
  qed (simp add: u sign_def)
  moreover have "unat (double_of_long n) mod 2 ^ 52 + 2 ^ 52 = digits" using d(1) by (simp only: u rest)
  moreover have "unat (double_of_long n) div 2 ^ 52 mod 2048 = e + 1023" by (simp only: u top exp)
  ultimately show ?thesis using v by (auto simp: int_of_double_def Let_def m_def)
qed

text \<open>
  C32. \<open>elastic_otel_get_config_option_by_name\<close> tells PHP the value the extension itself uses: for every option of the table
  the answer reads back, by the type of the option, to the member of the snapshot, durations as doubles without a
  rounding error below \<open>2 ^ 53\<close> milliseconds; for any other name it is null. It never throws. The members of the
  snapshot have their declared types, which every update keeps (\<open>manager_update_well_typed\<close>).
\<close>

theorem config_option_reaches_php:
  assumes "well_typed cfg"
  shows "(case map_of option_table name of
       None \<Rightarrow> elasticApmGetConfigOption name cfg = Inr Z_null
     | Some metadata \<Rightarrow> \<exists>v z. option_value cfg (offset metadata) = Some v \<and> elasticApmGetConfigOption name cfg = Inr z \<and>
         ((\<forall>d. v = CDuration d \<longrightarrow> \<bar>d\<bar> < 2 ^ 53) \<longrightarrow> option_of_zval (opt_type metadata) z = Some v))"
proof (cases "map_of option_table name")
  case (Some metadata)
  then obtain v where v: "option_value cfg (offset metadata) = Some v" "type_of_value v = opt_type metadata"
    using well_typed_option [OF assms, of name] option_table_offset [OF Some] by auto
  with Some have get: "elasticApmGetConfigOption name cfg = Inr (zval_of_option (Some v))"
    by (simp add: elasticApmGetConfigOption_def getOptionValue_def)
  have "option_of_zval (type_of_value v) (zval_of_option (Some v)) = Some v" if "\<forall>d. v = CDuration d \<longrightarrow> \<bar>d\<bar> < 2 ^ 53"
    using that by (cases v) (simp_all add: level_of_long double_of_small_long sint_of_small)
  with v get Some show ?thesis by auto
qed (simp add: elasticApmGetConfigOption_def getOptionValue_def)

subsection \<open>Exports arrive\<close>

text \<open>The last string value under a name.\<close>

definition header_value :: "(array_key \<times> 'o zval) list \<Rightarrow> string \<Rightarrow> string option" where
  "header_value headers name =
     map_of (rev (List.map_filter (\<lambda>(k, v). case (k, v) of (Key_string n, Z_string _ s) \<Rightarrow> Some (n, s) | _ \<Rightarrow> None) headers)) name"

lemma header_pairs_value: "header_pairs headers = Inr hs \<Longrightarrow> map_of (rev hs) name = header_value headers name"
proof -
  have "header_pairs headers = Inr hs \<Longrightarrow>
      hs = List.map_filter (\<lambda>(k, v). case (k, v) of (Key_string n, Z_string _ s) \<Rightarrow> Some (n, s) | _ \<Rightarrow> None) headers" for hs
    by (induction headers arbitrary: hs rule: header_pairs.induct)
      (auto simp: map_filter_simps map_sum_Inr_iff split: array_key.splits zval.splits)
  then show "header_pairs headers = Inr hs \<Longrightarrow> map_of (rev hs) name = header_value headers name" by (simp add: header_value_def)
qed

text \<open>Protobuf reads back a command it wrote.\<close>

definition reads_back :: "(CoordinatorCommand \<Rightarrow> byte list option) \<Rightarrow> (byte list \<Rightarrow> CoordinatorCommand option) \<Rightarrow> CoordinatorCommand \<Rightarrow> bool" where
  "reads_back encode decode command \<longleftrightarrow>
     (\<exists>bytes d. encode command = Some bytes \<and> bytes \<noteq> [] \<and> length bytes \<le> vector_max_size \<and> decode bytes = Some d \<and> same_command command d)"

lemma same_payload_command: "same_command (payload_command h p) d \<Longrightarrow> d = payload_command h p"
  by (cases d) (auto simp: same_command_def payload_command_def)

text \<open>
  C1. What PHP sets up and sends reaches the transport of the coordinator. A worker calls \<open>initialize\<close> and then
  \<open>enqueue\<close> for the same URL, the message queue has room for every chunk of the two commands, and the coordinator
  receives them in the order of the queue, interleaved with anything else, while its parent lives and no cleanup of lost
  messages falls due. Then exactly two calls come of them, in this order: one connects an endpoint with the hash of the URL,
  that URL, media type, timeout, delay and number of retries (modulo \<open>2 ^ 32\<close>), with the last string value PHP gave for
  each header, and with the TLS options configured for the signal of the URL; the other enqueues the bytes of the payload
  for that endpoint. The transport the coordinator ends with is the one made by these two calls and by those others around
  them, and if it has room when the second comes, the payload is put behind those that wait. Protobuf is assumed to read
  back the two commands, times are within 64 bits, and no part of a message with the two ids is left at the coordinator.
\<close>

theorem php_export_reaches_coordinator:
  assumes "initialize hash cfg url mime headers timeout retry_delay max_retry_count = Inr a"
    and "- (2 ^ 63) \<le> a_timeout a" "a_timeout a < 2 ^ 63"
    and "reads_back encode decode (establish_command a)" "reads_back encode decode (payload_command (hash url) (octets content))"
    and "php_initialize hash encode (process_sendPayload (mq_try_send room) arr) cfg url mime headers timeout retry_delay max_retry_count
      (p, [], n) = Inr w"
    and "php_enqueue hash encode (process_sendPayload (mq_try_send room) arr2) url content w = (p', wire, n')"
    and "list_all room [n ..< n']"
    and "k1 = (ownProcessId p, lastMsgId p + 1)" "k2 = (ownProcessId p, lastMsgId p + 2)"
    and "rx_wf (co_processor co)" "msg_slot (co_processor co) k1 = None" "msg_slot (co_processor co) k2 = None"
    and "co_working co" "list_all (quiet co) es" "arrivals {k1, k2} es = wire"
  shows "\<exists>c pre mid post.
    run_calls decode ue ce tcfg es co = pre @ (k1, Initialize_call c) # mid @ (k2, Enqueue_call (hash url) (octets content)) # post \<and>
    filter (\<lambda>kc. fst kc = k1 \<or> fst kc = k2) (run_calls decode ue ce tcfg es co)
      = [(k1, Initialize_call c), (k2, Enqueue_call (hash url) (octets content))] \<and>
    a_url c = url \<and> a_hash c = hash url \<and> a_contentType c = mime \<and> seconds_to_ms timeout = Inr (a_timeout c) \<and>
    a_retryDelay c = sint retry_delay \<and> a_maxRetries c = unat max_retry_count mod 2 ^ 32 \<and>
    a_ssl c = getSSLOptionsForSignalsEndpoint cfg url \<and> (\<forall>name. map_of (a_headers c) name = header_value headers name) \<and>
    (let connected = initializeConnection ue ce url (hash url) mime (a_headers c) (a_timeout c) (a_maxRetries c) (a_retryDelay c) (a_ssl c)
           (fold (apply_call ue ce tcfg) (map snd pre) (co_transport co));
         before = fold (apply_call ue ce tcfg) (map snd mid) connected;
         after = enqueue tcfg (hash url, octets content, None) before
     in co_transport (fold (coordinator_step decode ue ce tcfg) es co) = fold (apply_call ue ce tcfg) (map snd post) after \<and>
        (transport_room tcfg before (length content) \<longrightarrow>
           transport_pending after = transport_pending before @ [(hash url, octets content)]))"
proof -
  obtain hs t where a: "header_pairs headers = Inr hs" "seconds_to_ms timeout = Inr t"
    "a = \<lparr>a_url = url, a_hash = hash url, a_contentType = mime, a_headers = hs, a_timeout = t, a_maxRetries = unat max_retry_count,
       a_retryDelay = sint retry_delay, a_ssl = getSSLOptionsForSignalsEndpoint cfg url\<rparr>"
    using assms(1) by (cases "header_pairs headers"; cases "seconds_to_ms timeout") (simp_all add: initialize_def)
  have delay: "- (2 ^ 63) \<le> a_retryDelay a" "a_retryDelay a < 2 ^ 63"
    using sint_greater_eq [of retry_delay] sint_lt [of retry_delay] by (simp_all add: a(3))
  obtain b1 d where b1: "encode (establish_command a) = Some b1" "b1 \<noteq> []" "length b1 \<le> vector_max_size" "decode b1 = Some d"
    "same_command (establish_command a) d" using assms(4) by (auto simp: reads_back_def)
  obtain b2 where b2: "encode (payload_command (hash url) (octets content)) = Some b2" "b2 \<noteq> []" "length b2 \<le> vector_max_size"
    "decode b2 = Some (payload_command (hash url) (octets content))" using assms(5) by (auto simp: reads_back_def dest: same_payload_command)
  obtain hs' where call1: "processRecievedMessage decode b1 =
      Some (Initialize_call (a\<lparr>a_headers := hs', a_maxRetries := a_maxRetries a mod 2 ^ 32\<rparr>))" "map_of hs' = map_of (rev (a_headers a))"
    using connection_reaches_coordinator [where decode = decode and bytes = b1 and d = d and a = a, OF b1(4,5) assms(2,3) delay] by blast
  define c where "c = a\<lparr>a_headers := hs', a_maxRetries := a_maxRetries a mod 2 ^ 32\<rparr>"
  have call2: "processRecievedMessage decode b2 = Some (Enqueue_call (hash url) (octets content))"
    by (simp add: processRecievedMessage_def b2(4)) (simp add: payload_command_def)
  let ?m1 = "message_chunks p arr b1" and ?m2 = "message_chunks (p\<lparr>lastMsgId := lastMsgId p + 1\<rparr>) arr2 b2"
  have w: "w = (p\<lparr>lastMsgId := lastMsgId p + 1\<rparr>, kept room n ?m1, n + length ?m1)"
    using assms(6) by (auto simp: php_initialize_def assms(1) sender_initializeConnection_def sender_call_def b1(1) process_sendPayload_mq)
  have sent: "wire = kept room n ?m1 @ kept room (n + length ?m1) ?m2" "n' = n + length ?m1 + length ?m2"
    using assms(7) by (auto simp: php_enqueue_def sender_enqueue_def sender_call_def b2(1) w process_sendPayload_mq)
  have "list_all room [n ..< n + length ?m1]" "list_all room [n + length ?m1 ..< n + length ?m1 + length ?m2]"
    using assms(8) by (auto simp: sent(2) list_all_iff)
  then have "arrivals {k1, k2} es = ?m1 @ ?m2" using assms(16) by (simp add: sent(1) kept_all_iff [THEN iffD2])
  then obtain pre mid post where runs:
    "run_calls decode ue ce tcfg es co = pre @ (k1, Initialize_call c) # mid @ (k2, Enqueue_call (hash url) (octets content)) # post"
    "filter (\<lambda>kc. fst kc = k1 \<or> fst kc = k2) (run_calls decode ue ce tcfg es co)
      = [(k1, Initialize_call c), (k2, Enqueue_call (hash url) (octets content))]"
    using two_messages_arrive [where p = p and arr = arr and ?arr2.0 = arr2 and c = co and es = es and decode = decode and ue = ue and ce = ce and cfg = tcfg,
        OF assms(11) _ _ b1(2,3) b2(2,3) call1(1) call2 assms(14,15)] assms(12,13) unfolding assms(9,10) c_def [symmetric] by blast
  have fields: "a_url c = url" "a_hash c = hash url" "a_contentType c = mime" "seconds_to_ms timeout = Inr (a_timeout c)"
    "a_retryDelay c = sint retry_delay" "a_maxRetries c = unat max_retry_count mod 2 ^ 32"
    "a_ssl c = getSSLOptionsForSignalsEndpoint cfg url" "map_of (a_headers c) name = header_value headers name" for name
    using header_pairs_value [OF a(1)] call1(2) a(2) by (simp_all add: c_def a(3))
  let ?before = "fold (apply_call ue ce tcfg) (map snd mid) (initializeConnection ue ce url (hash url) mime (a_headers c) (a_timeout c)
      (a_maxRetries c) (a_retryDelay c) (a_ssl c) (fold (apply_call ue ce tcfg) (map snd pre) (co_transport co)))"
  have "co_transport (fold (coordinator_step decode ue ce tcfg) es co)
      = fold (apply_call ue ce tcfg) (map snd post) (enqueue tcfg (hash url, octets content, None) ?before)"
    by (simp add: run_calls_transport runs(1) apply_call_def fields)
  moreover have "transport_room tcfg ?before (length content) \<longrightarrow>
      transport_pending (enqueue tcfg (hash url, octets content, None) ?before) = transport_pending ?before @ [(hash url, octets content)]"
    using http.enq_room [of tcfg ?before "octets content" ue ce "hash url"] by (simp add: apply_call_def octets_def)
  ultimately show ?thesis
    using runs fields by (intro exI [of _ c] exI [of _ pre] exI [of _ mid] exI [of _ post]) (simp only: Let_def simp_thms)
qed

text \<open>The names of remote files and the keys under which PHP finds them.\<close>

lemma symtable_key_cases:
  "symtable_key x = Key_string x \<or>
     (\<exists>n. symtable_key x = Key_index (of_int n) \<and> show_int n = x \<and> - (2 ^ 63) \<le> n \<and> n < 2 ^ 63)"
proof -
  obtain neg ds where p: "(case x of c # r \<Rightarrow> if c = CHR ''-'' then (True, r) else (False, x) | [] \<Rightarrow> (False, [])) = (neg, ds)"
    by (rule prod.exhaust)
  define n where "n = (if neg then - int (decimal_value ds) else int (decimal_value ds))"
  have "symtable_key x =
      (if ds \<noteq> [] \<and> list_all isdigit ds \<and> show_int n = x \<and> - (2 ^ 63) \<le> n \<and> n < 2 ^ 63 then Key_index (of_int n) else Key_string x)"
    unfolding symtable_key_def p n_def by (simp only: Let_def prod.case)
  then show ?thesis by (metis (full_types))
qed

lemma symtable_key_inject: "symtable_key a = symtable_key b \<longleftrightarrow> a = b"
proof -
  have small: "sint (of_int n :: u64) = n" if "- (2 ^ 63) \<le> n" "n < 2 ^ 63" for n
    using that by (simp add: sint_sbintrunc' signed_take_bit_int_eq_self)
  show ?thesis using symtable_key_cases [of a] symtable_key_cases [of b] small by (metis array_key.distinct(1) array_key.inject)
qed

lemma remote_files_listed:
  assumes "um_wf (remoteConfigFiles cfg)"
  shows "\<exists>slots n. elastic_get_remote_configuration None cfg = (Z_array slots n :: 'o zval) \<and>
    (\<forall>name. map_of slots (symtable_key name) = map_option (Z_string False) (map_of (remoteConfigFiles cfg) name))"
proof -
  have folded: "map_of (fst (fold (\<lambda>(name, content). add_assoc name (Z_string False content :: 'o zval)) fs (slots, nf))) (symtable_key name) =
      (case map_of (rev fs) name of Some content \<Rightarrow> Some (Z_string False content :: 'o zval) | None \<Rightarrow> map_of slots (symtable_key name))"
    for fs slots nf name
  proof (induction fs arbitrary: slots nf)
    case (Cons f fs)
    obtain n c where f: "f = (n, c)" by (rule prod.exhaust)
    obtain nf' where "add_assoc n (Z_string False c) (slots, nf) = (AList.update (symtable_key n) (Z_string False c) slots, nf')"
      by (simp add: add_assoc_def)
    then show ?case
      by (auto simp: f Cons.IH update_conv' symtable_key_inject map_add_def split: option.splits)
  qed simp
  have same: "map_of (rev (remoteConfigFiles cfg)) = map_of (remoteConfigFiles cfg)"
    using assms by (subst map_of_inject_set) (simp_all add: rev_map [symmetric])
  have "map_of (fst (fold (\<lambda>(name, content). add_assoc name (Z_string False content :: 'o zval)) (remoteConfigFiles cfg) empty_array)) (symtable_key name)
      = map_option (Z_string False) (map_of (remoteConfigFiles cfg) name)" for name
    using folded [of "remoteConfigFiles cfg" "[]" "- (2 ^ 63)" name]
    by (cases "map_of (remoteConfigFiles cfg) name") (simp_all add: empty_array_def same)
  moreover obtain slots n where "fold (\<lambda>(name, content). add_assoc name (Z_string False content :: 'o zval)) (remoteConfigFiles cfg) empty_array = (slots, n)"
    by (rule prod.exhaust)
  ultimately show ?thesis by (simp add: elastic_get_remote_configuration_def)
qed

lemma config_option_reaches_php_witness:
  "(case map_of option_table ''enabled'' of
       None \<Rightarrow> elasticApmGetConfigOption ''enabled'' new_ConfigurationSnapshot = Inr (Z_null :: unit zval)
     | Some metadata \<Rightarrow> \<exists>v (z :: unit zval). option_value new_ConfigurationSnapshot (offset metadata) = Some v \<and>
         elasticApmGetConfigOption ''enabled'' new_ConfigurationSnapshot = Inr z \<and>
         ((\<forall>d. v = CDuration d \<longrightarrow> \<bar>d\<bar> < 2 ^ 53) \<longrightarrow> option_of_zval (opt_type metadata) z = Some v))"
proof -
  have "well_typed new_ConfigurationSnapshot" by (simp add: well_typed_def new_ConfigurationSnapshot_def)
  then show ?thesis by (rule config_option_reaches_php)
qed

definition sample_headers :: "(array_key \<times> unit zval) list" where
  "sample_headers = [(Key_string ''Authorization'', Z_string False ''ApiKey x''), (Key_string ''n'', Z_long 3)]"

definition sample_connection :: connection_args where
  "sample_connection =
     \<lparr>a_url = ''http://h/v1'', a_hash = 5, a_contentType = [], a_headers = [(''Authorization'', ''ApiKey x'')], a_timeout = 500, a_maxRetries = 3,
      a_retryDelay = 10, a_ssl = getSSLOptionsForSignalsEndpoint new_ConfigurationSnapshot ''http://h/v1''\<rparr>"

definition sample_decode :: "byte list \<Rightarrow> CoordinatorCommand option" where
  "sample_decode bytes = Some (if bytes = [1] then establish_command sample_connection else payload_command 5 [104])"

definition sample_encode :: "CoordinatorCommand \<Rightarrow> byte list option" where
  "sample_encode c = Some (if command_type c = ESTABLISH_CONNECTION then [1] else [2])"

definition sample_arr :: "byte list" where
  "sample_arr = replicate payload_capacity 0"

text \<open>The chunks of the two commands of a worker with the process id 7.\<close>

definition sample_wire :: "(CoordinatorPayload \<times> u64) list" where
  "sample_wire = message_chunks (new_processor 7) sample_arr [1] @ message_chunks ((new_processor 7)\<lparr>lastMsgId := 1\<rparr>) sample_arr [2]"

lemma php_export_reaches_coordinator_witness:
  "\<exists>c pre mid post.
     run_calls sample_decode sample_url_env \<lparr>curl_init = True, tracing = False\<rparr> sample_config
       (map (\<lambda>(chunk, sz). Receive chunk sz 5) sample_wire) sample_coordinator
       = pre @ ((7, 1), Initialize_call c) # mid @ ((7, 2), Enqueue_call 5 [104]) # post \<and>
     map_of (a_headers c) ''Authorization'' = Some ''ApiKey x''"
proof -
  let ?p = "new_processor 7"
  have p: "lastMsgId ?p = 0" "ownProcessId ?p = 7" by (simp_all add: new_processor_def)
  have "seconds_to_ms (False, Finite (1, - 1)) = Inr 500" by code_simp
  then have init: "initialize (\<lambda>_. 5) new_ConfigurationSnapshot ''http://h/v1'' [] sample_headers (False, Finite (1, - 1)) 10 3 = Inr sample_connection"
    by (simp add: initialize_def sample_headers_def sample_connection_def)
  have "same_command (establish_command sample_connection) (establish_command sample_connection)"
    by (simp add: same_command_def establish_command_def sample_connection_def)
  then have rb1: "reads_back sample_encode sample_decode (establish_command sample_connection)"
    by (simp add: reads_back_def sample_encode_def sample_decode_def vector_max_size_def) (simp add: establish_command_def)
  have content: "octets ''h'' = [104]" by (simp add: octets_def)
  have rb2: "reads_back sample_encode sample_decode (payload_command 5 (octets ''h''))"
    by (simp add: content reads_back_def sample_encode_def sample_decode_def vector_max_size_def payload_command_def same_command_def)
  have all: "kept (\<lambda>_. True) n xs = xs" for n and xs :: "(CoordinatorPayload \<times> u64) list" by (simp add: kept_all_iff list_all_iff)
  let ?send = "process_sendPayload (mq_try_send (\<lambda>_. True)) sample_arr"
  let ?m1 = "message_chunks ?p sample_arr [1]" and ?m2 = "message_chunks (?p\<lparr>lastMsgId := 1\<rparr>) sample_arr [2]"
  have w: "php_initialize (\<lambda>_. 5) sample_encode ?send new_ConfigurationSnapshot ''http://h/v1'' [] sample_headers (False, Finite (1, - 1)) 10 3
      (?p, [], 0) = Inr (?p\<lparr>lastMsgId := 1\<rparr>, ?m1, length ?m1)"
    by (simp add: php_initialize_def init sender_initializeConnection_def sender_call_def sample_encode_def establish_command_def
        process_sendPayload_mq all p)
  have w2: "php_enqueue (\<lambda>_. 5) sample_encode ?send ''http://h/v1'' ''h'' (?p\<lparr>lastMsgId := 1\<rparr>, ?m1, length ?m1)
      = (?p\<lparr>lastMsgId := 2\<rparr>, sample_wire, length ?m1 + length ?m2)"
    by (simp add: php_enqueue_def sender_enqueue_def sender_call_def sample_encode_def payload_command_def process_sendPayload_mq all
        sample_wire_def)
  have arrive: "arrivals {(7, 1), (7, 2)} (map (\<lambda>(chunk, sz). Receive chunk sz 5) sample_wire) = sample_wire"
    using message_chunks_of(3) [of _ _ ?p sample_arr "[1]"] message_chunks_of(3) [of _ _ "?p\<lparr>lastMsgId := 1\<rparr>" sample_arr "[2]"]
    by (intro arrivals_of_sent) (auto simp: sample_wire_def p)
  have quiet: "list_all (quiet sample_coordinator) (map (\<lambda>(chunk, sz). Receive chunk sz 5) sample_wire)"
    by (auto simp: list_all_iff quiet_def)
  have len: "- (2 ^ 63) \<le> a_timeout sample_connection" "a_timeout sample_connection < 2 ^ 63" by (simp_all add: sample_connection_def)
  have co: "rx_wf (co_processor sample_coordinator)" "msg_slot (co_processor sample_coordinator) k = None" "co_working sample_coordinator" for k
    by (simp_all add: sample_coordinator_def rx_wf_new slot_new)
  have k: "list_all (\<lambda>_. True) xs" "(7, 1) = (ownProcessId ?p, lastMsgId ?p + 1)" "(7, 2) = (ownProcessId ?p, lastMsgId ?p + 2)"
    for xs :: "nat list" by (simp_all add: p list_all_iff)
  obtain c pre mid post where
    "run_calls sample_decode sample_url_env \<lparr>curl_init = True, tracing = False\<rparr> sample_config
       (map (\<lambda>(chunk, sz). Receive chunk sz 5) sample_wire) sample_coordinator
       = pre @ ((7, 1), Initialize_call c) # mid @ ((7, 2), Enqueue_call 5 (octets ''h'')) # post"
    "\<forall>name. map_of (a_headers c) name = header_value sample_headers name"
    using php_export_reaches_coordinator [OF init len rb1 rb2 w w2 k(1,2,3) co(1,2,2,3) quiet arrive,
        where ue = sample_url_env and ce = "\<lparr>curl_init = True, tracing = False\<rparr>" and tcfg = sample_config]
    by (elim exE conjE) (rule that, assumption+)
  moreover have "header_value sample_headers ''Authorization'' = Some ''ApiKey x''"
    by (simp add: header_value_def sample_headers_def map_filter_simps)
  ultimately show ?thesis unfolding content
    by - (rule exI [of _ c], rule exI [of _ pre], rule exI [of _ mid], rule exI [of _ post], rule conjI, assumption, simp only: simp_thms)
qed

end
