(* ===== verification/Sanitize.thy ===== *)
theory Sanitize
  imports Strings
begin

text \<open>
  What the extension writes to the log when it is loaded (\<open>logStartupPreamble\<close> in \<open>ModuleInit.cpp\<close>), and the
  masking of secrets in it (\<open>sanitizeKeyValueString\<close> in \<open>CommonUtils.cpp\<close>, \<open>OsUtils.cpp\<close>).

  \<open>std::regex\<close> is modelled for the one expression the code builds, a name followed by
  \<open>=("[^"]*"|[^,\s]*)\<close>, in ECMAScript syntax without regard to case: alternatives are tried in order, repetition
  is greedy, a replacement starts at the leftmost match. The name is taken to hold no character that is
  special in an expression.
\<close>

subsection \<open>Masking\<close>

definition plain_value_char :: "char \<Rightarrow> bool" where
  "plain_value_char c \<longleftrightarrow> c \<noteq> CHR '','' \<and> \<not> isspace c"

definition quote_char :: char where
  "quote_char = CHR 0x22"

text \<open>What is left behind the value a text begins with: the quoted string, or else the longest plain one.\<close>

definition after_value :: "string \<Rightarrow> string" where
  "after_value t =
     (case t of
        c # r \<Rightarrow> if c = quote_char \<and> quote_char \<in> set r then tl (dropWhile (\<lambda>c. c \<noteq> quote_char) r) else dropWhile plain_value_char t
      | [] \<Rightarrow> [])"

definition match_token :: "string \<Rightarrow> string \<Rightarrow> string option" where
  "match_token tokenName t =
     (let (key, r) = (take (length tokenName) t, drop (length tokenName) t)
      in if map tolower key = map tolower tokenName \<and> r \<noteq> [] \<and> hd r = CHR ''='' then Some (after_value (tl r)) else None)"

lemma length_after_value: "length (after_value t) \<le> length t"
proof -
  have "length (dropWhile P xs) \<le> length xs" for P and xs :: string by (simp add: length_dropWhile_le)
  then show ?thesis
    by (auto simp: after_value_def split: list.split intro: le_trans [OF diff_le_self] le_SucI)
qed

lemma match_token_shorter: "match_token tokenName t = Some r \<Longrightarrow> length r < length t"
  using length_after_value [of "tl (drop (length tokenName) t)"]
  by (cases "drop (length tokenName) t") (auto simp: match_token_def Let_def dest!: arg_cong [of _ _ length] split: if_splits)

function sanitizeKeyValueString :: "string \<Rightarrow> string \<Rightarrow> string" where
  "sanitizeKeyValueString tokenName t =
     (case match_token tokenName t of
        Some r \<Rightarrow> tokenName @ ''=***'' @ sanitizeKeyValueString tokenName r
      | None \<Rightarrow> (case t of [] \<Rightarrow> [] | c # r \<Rightarrow> c # sanitizeKeyValueString tokenName r))"
  by pat_completeness auto
termination by (relation "measure (length \<circ> snd)") (auto dest: match_token_shorter)

declare sanitizeKeyValueString.simps [simp del]

subsection \<open>The preamble\<close>

text \<open>\<open>getProcDataToString\<close>: \<open>None\<close> if the file cannot be opened.\<close>

definition getProcDataToString :: "string option \<Rightarrow> string" where
  "getProcDataToString contents =
     (case contents of None \<Rightarrow> [] | Some bytes \<Rightarrow> map (\<lambda>c. if c = CHR 0x00 then CHR '' '' else c) bytes)"

text \<open>\<open>%*s\<close> with a negative width.\<close>

definition left_justified :: "nat \<Rightarrow> string \<Rightarrow> string" where
  "left_justified w s = s @ replicate (w - length s) (CHR '' '')"

text \<open>
  \<open>ELASTIC_OTEL_API_KEY\<close> is not a macro of the code, unlike the names of the options, so \<open>EL_STRINGIFY\<close> answers
  the token as it stands.
\<close>

definition masked_name :: string where
  "masked_name = getEnvName ''ELASTIC_OTEL_API_KEY''"

definition logStartupPreamble :: "string \<Rightarrow> string option \<Rightarrow> string option \<Rightarrow> string list" where
  "logStartupPreamble version cmdline environ =
     (let line = (\<lambda>title s. left_justified 40 title @ s)
      in [''Elastic Distribution for OpenTelemetry PHP'',
          line ''Native part version:'' version,
          line ''Process command line:'' (c_str (sanitizeKeyValueString masked_name (getProcDataToString cmdline))),
          line ''Process environment:'' (c_str (sanitizeKeyValueString masked_name (getProcDataToString environ)))])"

subsection \<open>Secrets in the log\<close>

definition key_char :: "char \<Rightarrow> bool" where
  "key_char c \<longleftrightarrow> isalpha c \<or> c = CHR ''_''"

lemma key_char_plain: "key_char c \<Longrightarrow> plain_value_char c \<and> c \<noteq> quote_char \<and> c \<noteq> CHR ''=''"
  by (auto simp: key_char_def plain_value_char_def quote_char_def isalpha_def isspace_def)

lemma key_char_tolower: "tolower a = tolower b \<Longrightarrow> key_char a \<Longrightarrow> key_char b"
proof -
  have lower: "key_char (tolower c) \<longleftrightarrow> key_char c" for c
  proof (cases "65 \<le> byte_of c \<and> byte_of c \<le> 90")
    case True
    then have "byte_of (tolower c) = byte_of c + 32" by (simp add: tolower_def code_char_of)
    with True show ?thesis by (simp add: key_char_def isalpha_def)
  qed (auto simp: tolower_def)
  show "tolower a = tolower b \<Longrightarrow> key_char a \<Longrightarrow> key_char b" using lower [of a] lower [of b] by simp
qed

lemma key_chars_tolower: "map tolower key = map tolower name \<Longrightarrow> \<forall>c \<in> set name. key_char c \<Longrightarrow> \<forall>c \<in> set key. key_char c"
proof (induction key arbitrary: name)
  case (Cons c key)
  from Cons.prems(1) obtain n ns where "name = n # ns" by (cases name) auto
  with Cons show ?case using key_char_tolower [of n c] by auto
qed simp

text \<open>A secret in its place: a key with a value of plain characters, up to a separator.\<close>

definition secret_at :: "string \<Rightarrow> string \<Rightarrow> string \<Rightarrow> string" where
  "secret_at key v post = key @ CHR ''='' # v @ post"

definition plain_value :: "string \<Rightarrow> bool" where
  "plain_value v \<longleftrightarrow> (\<forall>c \<in> set v. plain_value_char c \<and> c \<noteq> quote_char)"

definition value_ends :: "string \<Rightarrow> bool" where
  "value_ends post \<longleftrightarrow> post = [] \<or> \<not> plain_value_char (hd post)"

lemma drop_plain_value: "plain_value v \<Longrightarrow> value_ends post \<Longrightarrow> dropWhile plain_value_char (v @ post) = post"
  by (induction v) (auto simp: plain_value_def value_ends_def dropWhile_eq_self_iff)

lemma drop_secret:
  assumes "\<forall>c \<in> set key. key_char c" and "plain_value v" and "value_ends post"
  shows "dropWhile plain_value_char (secret_at key v post) = post"
proof -
  have "\<forall>c \<in> set key. plain_value_char c" using assms(1) key_char_plain by blast
  moreover have "plain_value_char (CHR ''='')" by (simp add: plain_value_char_def isspace_def)
  ultimately show ?thesis using drop_plain_value [OF assms(2,3)] by (simp add: secret_at_def dropWhile_append3 dropWhile_append2)
qed

lemma after_plain_value:
  assumes "plain_value v" and "value_ends post"
  shows "after_value (v @ post) = post"
proof (cases "v @ post")
  case (Cons c r)
  have "c \<noteq> quote_char"
  proof (cases v)
    case Nil
    with Cons assms(2) have "\<not> plain_value_char c" by (simp add: value_ends_def)
    then show ?thesis by (auto simp: plain_value_char_def quote_char_def isspace_def)
  next
    case (Cons _ _)
    with \<open>v @ post = c # r\<close> assms(1) show ?thesis by (simp add: plain_value_def)
  qed
  then have "after_value (v @ post) = dropWhile plain_value_char (v @ post)" using Cons by (simp add: after_value_def)
  then show ?thesis by (simp add: drop_plain_value [OF assms])
qed (simp add: after_value_def)

lemma quote_in_secret:
  assumes "\<forall>c \<in> set key. key_char c" and "plain_value v"
  shows "quote_char \<in> set (p @ secret_at key v post) \<longleftrightarrow> quote_char \<in> set p \<or> quote_char \<in> set post"
  using assms key_char_plain by (auto simp: secret_at_def plain_value_def quote_char_def)

text \<open>A value that begins before the secret either ends before it, or takes it in.\<close>

lemma after_value_secret:
  assumes "\<forall>c \<in> set key. key_char c" and "key \<noteq> []" and "value_ends post"
  shows "(\<exists>p'. length p' \<le> length p \<and> (\<forall>v. plain_value v \<longrightarrow> after_value (p @ secret_at key v post) = p' @ secret_at key v post)) \<or>
    (\<exists>r. \<forall>v. plain_value v \<longrightarrow> after_value (p @ secret_at key v post) = r)"
proof (cases p)
  case Nil
  obtain k ks where k: "key = k # ks" using assms(2) by (cases key) auto
  then have "k \<noteq> quote_char" using assms(1) key_char_plain by auto
  then have "after_value (secret_at key v post) = post" if "plain_value v" for v
    using drop_secret [OF assms(1) that assms(3)] k by (simp add: after_value_def secret_at_def)
  with Nil show ?thesis by auto
next
  case (Cons c r)
  note quotes = quote_in_secret [OF assms(1)]
  have skip: "dropWhile (\<lambda>c. c \<noteq> quote_char) (r @ secret_at key v post) = dropWhile (\<lambda>c. c \<noteq> quote_char) post"
    if "quote_char \<notin> set r" "plain_value v" for v
  proof -
    have "\<forall>c \<in> set (r @ key @ CHR ''='' # v). c \<noteq> quote_char"
      using quotes [OF that(2), of r "[]"] that(1) by (auto simp: secret_at_def)
    then show ?thesis using dropWhile_append2 [of "r @ key @ CHR ''='' # v" "\<lambda>c. c \<noteq> quote_char" post] by (simp add: secret_at_def)
  qed
  consider (quoted) "c = quote_char" "quote_char \<in> set r" | (beyond) "c = quote_char" "quote_char \<notin> set r" "quote_char \<in> set post"
    | (plain) "c = quote_char \<longrightarrow> quote_char \<notin> set r \<and> quote_char \<notin> set post" by blast
  then show ?thesis
  proof cases
    case quoted
    let ?d = "dropWhile (\<lambda>c. c \<noteq> quote_char) r"
    have d: "?d \<noteq> []" using quoted(2) by (simp add: dropWhile_eq_Nil_conv)
    have "after_value (p @ secret_at key v post) = tl ?d @ secret_at key v post" if "plain_value v" for v
      using quoted d Cons by (simp add: after_value_def dropWhile_append1 [OF quoted(2)])
    moreover have "length (tl ?d) \<le> length p" using length_dropWhile_le [of "\<lambda>c. c \<noteq> quote_char" r] Cons by simp
    ultimately show ?thesis by blast
  next
    case beyond
    have "after_value (p @ secret_at key v post) = tl (dropWhile (\<lambda>c. c \<noteq> quote_char) post)" if "plain_value v" for v
      using beyond Cons skip [OF beyond(2) that] quotes [OF that, of r post] by (simp add: after_value_def)
    then show ?thesis by blast
  next
    case plain
    have a: "after_value (p @ secret_at key v post) = dropWhile plain_value_char (p @ secret_at key v post)" if "plain_value v" for v
      using plain Cons quotes [OF that, of r post] by (auto simp: after_value_def)
    show ?thesis
    proof (cases "\<exists>x \<in> set p. \<not> plain_value_char x")
      case True
      then have "\<forall>v. plain_value v \<longrightarrow> after_value (p @ secret_at key v post) = dropWhile plain_value_char p @ secret_at key v post"
        using a dropWhile_append1 by metis
      then show ?thesis using length_dropWhile_le [of plain_value_char p] by blast
    next
      case False
      then have "\<forall>v. plain_value v \<longrightarrow> after_value (p @ secret_at key v post) = post"
        using a dropWhile_append2 drop_secret [OF assms(1) _ assms(3)] by (metis (no_types, lifting))
      then show ?thesis by blast
    qed
  qed
qed

text \<open>A name that begins before the secret cannot reach into it.\<close>

lemma match_before_secret:
  assumes "\<forall>c \<in> set key. key_char c" and "length key = length name" and "p \<noteq> []"
  shows "(\<forall>v. match_token name (p @ secret_at key v post) = None) \<or>
    (\<exists>p'. length p' < length p \<and> (\<forall>v. match_token name (p @ secret_at key v post) = Some (after_value (p' @ secret_at key v post))))"
proof (cases "length name < length p")
  case True
  then obtain c r where d: "drop (length name) p = c # r" by (cases "drop (length name) p") auto
  then have "length r < length p" by (metis length_drop length_Cons less_imp_diff_less lessI Suc_le_eq diff_le_self le_less_trans)
  moreover have "match_token name (p @ secret_at key v post) =
      (if map tolower (take (length name) p) = map tolower name \<and> c = CHR ''='' then Some (after_value (r @ secret_at key v post)) else None)" for v
    using True d by (simp add: match_token_def)
  ultimately show ?thesis by auto
next
  case False
  have "0 < length p" using assms(3) by simp
  with False assms(2) have "drop (length name - length p) key \<noteq> []" unfolding drop_eq_Nil by linarith
  then obtain c r where d: "drop (length name - length p) key = c # r"
    by (cases "drop (length name - length p) key") auto
  then have "key_char c" using assms(1) by (metis in_set_dropD list.set_intros(1))
  then have "c \<noteq> CHR ''=''" using key_char_plain by blast
  then have "match_token name (p @ secret_at key v post) = None" for v
    using False d by (simp add: match_token_def secret_at_def)
  then show ?thesis by blast
qed

lemma match_secret:
  "map tolower key = map tolower name \<Longrightarrow> plain_value v \<Longrightarrow> value_ends post \<Longrightarrow>
     match_token name (secret_at key v post) = Some post"
  using map_eq_imp_length_eq [of tolower key tolower name] by (simp add: match_token_def secret_at_def after_plain_value)

text \<open>
  C22. The masking hides the value: whatever the text, and wherever the name stands in it in upper or lower case, the
  masked text is the same for any two values that hold no comma, space or quotation mark. So nothing of such
  a value can be read from the log.
\<close>

theorem masked_value_irrelevant:
  assumes "\<forall>c \<in> set name. key_char c" and "name \<noteq> []" and "map tolower key = map tolower name"
    and "plain_value v" and "plain_value w" and "value_ends post"
  shows "sanitizeKeyValueString name (pre @ key @ CHR ''='' # v @ post) = sanitizeKeyValueString name (pre @ key @ CHR ''='' # w @ post)"
proof -
  note k = key_chars_tolower [OF assms(3,1)]
  have len: "length key = length name" using assms(3) map_eq_imp_length_eq by blast
  with assms(2) have ne: "key \<noteq> []" by auto
  have "sanitizeKeyValueString name (pre @ secret_at key v post) = sanitizeKeyValueString name (pre @ secret_at key w post)"
  proof (induction pre rule: measure_induct_rule [of length])
    case (less p)
    show ?case
    proof (cases p)
      case Nil
      then show ?thesis using match_secret [OF assms(3) _ assms(6)] assms(4,5) by (subst (1 2) sanitizeKeyValueString.simps) simp
    next
      case (Cons c r)
      from match_before_secret [OF k len, of p post] Cons
      consider (none) "\<forall>v. match_token name (p @ secret_at key v post) = None"
        | (some) p' where "length p' < length p" "\<forall>v. match_token name (p @ secret_at key v post) = Some (after_value (p' @ secret_at key v post))"
        by auto
      then show ?thesis
      proof cases
        case none
        with less Cons show ?thesis by (subst (1 2) sanitizeKeyValueString.simps) simp
      next
        case some
        from after_value_secret [OF k ne assms(6), of p'] show ?thesis
        proof (elim disjE exE conjE)
          fix q assume "length q \<le> length p'"
            "\<forall>v. plain_value v \<longrightarrow> after_value (p' @ secret_at key v post) = q @ secret_at key v post"
          then show ?thesis using some less assms(4,5) by (subst (1 2) sanitizeKeyValueString.simps) simp
        next
          fix r assume "\<forall>v. plain_value v \<longrightarrow> after_value (p' @ secret_at key v post) = r"
          then show ?thesis using some assms(4,5) by (subst (1 2) sanitizeKeyValueString.simps) simp
        qed
      qed
    qed
  qed
  then show ?thesis by (simp add: secret_at_def)
qed

definition sample_environment :: "string \<Rightarrow> string" where
  "sample_environment secret = ''PATH=/bin Elastic_otel_API_KEY='' @ secret @ '' HOME=/root''"

lemma masked_value_irrelevant_witness:
  "sanitizeKeyValueString ''ELASTIC_OTEL_API_KEY'' (sample_environment ''abc'') =
     sanitizeKeyValueString ''ELASTIC_OTEL_API_KEY'' (sample_environment ''xyz12'')"
  using masked_value_irrelevant [of "''ELASTIC_OTEL_API_KEY''" "''Elastic_otel_API_KEY''" "''abc''" "''xyz12''" "'' HOME=/root''"
      "''PATH=/bin ''"]
  by (simp add: sample_environment_def key_char_def isalpha_def tolower_def plain_value_def value_ends_def plain_value_char_def
      quote_char_def isspace_def char_of_def bit_Suc_0_iff)

text \<open>A value with a space or a comma is masked up to there.\<close>

lemma rest_of_value_shown:
  "sanitizeKeyValueString ''KEY'' ''KEY=ab cd'' = ''KEY=*** cd''"
  "sanitizeKeyValueString ''KEY'' ''KEY=ab,cd'' = ''KEY=***,cd''"
  by (simp_all add: sanitizeKeyValueString.simps match_token_def after_value_def tolower_def plain_value_char_def quote_char_def isspace_def)

fun mentions :: "string \<Rightarrow> string \<Rightarrow> bool" where
  "mentions name [] = False"
| "mentions name (c # r) = (match_token name (c # r) \<noteq> None \<or> mentions name r)"

lemma sanitize_unmentioned: "\<not> mentions name t \<Longrightarrow> sanitizeKeyValueString name t = t"
proof (induction t)
  case Nil
  then show ?case by (subst sanitizeKeyValueString.simps) (simp add: match_token_def)
next
  case (Cons c r)
  then show ?case by (subst sanitizeKeyValueString.simps) simp
qed

lemma mentions_short: "length t \<le> length name \<Longrightarrow> \<not> mentions name t"
  by (induction t) (auto simp: match_token_def)

text \<open>
  The key is not masked when the extension is loaded: the name that is masked has the prefix twice, because
  \<open>ELASTIC_OTEL_API_KEY\<close> is given to \<open>getEnvName\<close>, which adds it. So an environment in which that name does not
  occur is logged as it is, whatever \<open>ELASTIC_OTEL_API_KEY\<close> is set to in it.
\<close>

theorem api_key_logged_in_clear:
  assumes "\<not> mentions masked_name (getProcDataToString (Some environ))"
  shows "masked_name = ''ELASTIC_OTEL_ELASTIC_OTEL_API_KEY'' \<and>
    logStartupPreamble version cmdline (Some environ) ! 3 =
      left_justified 40 ''Process environment:'' @ map (\<lambda>c. if c = CHR 0x00 then CHR '' '' else c) environ"
proof -
  let ?t = "map (\<lambda>c. if c = CHR 0x00 then CHR '' '' else c) environ"
  have "c = CHR 0x00" if "byte_of c = 0" for c
  proof -
    have "char_of (byte_of c) = c" by (rule char_of_char)
    then show ?thesis using that by (simp add: char_of_def)
  qed
  then have "\<forall>c \<in> set ?t. byte_of c \<noteq> 0" by (auto split: if_splits)
  then have "c_str ?t = ?t" by (simp add: c_str_def takeWhile_eq_all_conv)
  moreover have "masked_name = ''ELASTIC_OTEL_ELASTIC_OTEL_API_KEY''"
    by (simp add: masked_name_def getEnvName_def toupper_def)
  ultimately show ?thesis
    using sanitize_unmentioned [OF assms] by (simp add: logStartupPreamble_def getProcDataToString_def Let_def)
qed

lemma api_key_logged_in_clear_witness:
  "logStartupPreamble ''1.0'' None (Some ''ELASTIC_OTEL_API_KEY=secret'') ! 3 =
     ''Process environment:                    ELASTIC_OTEL_API_KEY=secret''"
proof -
  have "\<not> mentions masked_name (getProcDataToString (Some ''ELASTIC_OTEL_API_KEY=secret''))"
    by (rule mentions_short) (simp add: masked_name_def getEnvName_def getProcDataToString_def)
  from api_key_logged_in_clear [OF this] show ?thesis by (simp add: left_justified_def numeral_eq_Suc)
qed

end
