(* ===== verification/ModuleInit.thy ===== *)
theory ModuleInit
  imports Sanitize Config Bridge
begin

text \<open>
  The life of the extension in a process (\<open>ModuleInit.cpp\<close>, \<open>ModuleEntry.cpp\<close>, \<open>ModuleIniEntries.cpp\<close>,
  \<open>ModuleInfo.cpp\<close>, \<open>SigSegvHandler.cpp\<close>): what it registers when PHP loads it, what of that it takes back when
  PHP unloads it, and what \<open>phpinfo()\<close> shows of its configuration.

  The state is what the engine and the operating system know of the extension. The answers of the engine, of \<open>fork\<close>
  and of \<open>signal\<close> are arguments. What is logged is not modelled, apart from the preamble in \<open>Sanitize\<close>.
\<close>

subsection \<open>Settings in php.ini\<close>

text \<open>
  The reader of \<open>configManager\<close>: \<open>cfg_get_entry\<close> answers what the configuration files say, not what scripts or
  servers have set since.
\<close>

definition read_ini :: "(string \<Rightarrow> 'o zval option) \<Rightarrow> string \<Rightarrow> string option" where
  "read_ini cfg_get_entry iniName = getOptStringView (zval_of_pointer (cfg_get_entry iniName))"

definition ini_entries :: "(string \<times> bool) list" where
  "ini_entries =
     [(''elastic_otel.bootstrap_php_part_file'', True), (''elastic_otel.enabled'', False), (''elastic_otel.log_file'', True),
      (''elastic_otel.log_level'', True), (''elastic_otel.log_level_file'', True), (''elastic_otel.log_level_stderr'', True),
      (''elastic_otel.log_level_syslog'', True), (''elastic_otel.debug_diagnostic_file'', True), (''elastic_otel.max_send_queue_size'', True),
      (''elastic_otel.async_transport'', True), (''elastic_otel.debug_instrument_all'', True), (''elastic_otel.debug_php_hooks_enabled'', True),
      (''elastic_otel.inferred_spans_enabled'', True), (''elastic_otel.inferred_spans_reduction_enabled'', True),
      (''elastic_otel.inferred_spans_stacktrace_enabled'', True), (''elastic_otel.inferred_spans_sampling_interval'', True),
      (''elastic_otel.inferred_spans_min_duration'', True)]"

text \<open>What is displayed of a secret entry. \<open>original\<close>: whether the value before a change is asked for.\<close>

record ini_entry =
  ini_value :: "string option"
  ini_orig_value :: "string option"
  ini_modified :: bool

definition iniEntryValue :: "ini_entry \<Rightarrow> bool \<Rightarrow> string option" where
  "iniEntryValue entry original = (if original then (if ini_modified entry then ini_orig_value entry else ini_value entry) else ini_value entry)"

definition displaySecretIniValue :: "bool \<Rightarrow> ini_entry \<Rightarrow> bool \<Rightarrow> string" where
  "displaySecretIniValue as_text entry original =
     (let shown = (case iniEntryValue entry original of Some v \<Rightarrow> if v \<noteq> [] then ''***'' else ''no value'' | None \<Rightarrow> ''no value'')
      in if as_text then shown else ''<i>'' @ shown @ ''</i>'')"

text \<open>
  The engine's table of entries: the names, and those with a displayer. Registering a displayer fails for a name that is not in
  the table; the second component are the names it failed for.
\<close>

record ini_registry =
  ir_names :: "string list"
  ir_displayers :: "string list"

definition zend_ini_register_displayer :: "string \<Rightarrow> ini_registry \<Rightarrow> ini_registry \<times> bool" where
  "zend_ini_register_displayer name r =
     (if name \<in> set (ir_names r) then (r\<lparr>ir_displayers := name # ir_displayers r\<rparr>, True) else (r, False))"

fun register_displayers :: "(string \<times> OptionMetadata) list \<Rightarrow> ini_registry \<Rightarrow> ini_registry \<times> string list" where
  "register_displayers [] r = (r, [])"
| "register_displayers ((name, metadata) # opts) r =
     (if \<not> secret metadata then register_displayers opts r
      else
        let (r', ok) = zend_ini_register_displayer (getIniName name) r;
            (r'', failed) = register_displayers opts r'
        in (r'', if ok then failed else getIniName name # failed))"

definition registerElasticApmIniEntries :: "bool \<Rightarrow> ini_registry \<Rightarrow> ini_registry \<times> string list \<times> bool" where
  "registerElasticApmIniEntries registered r =
     (if \<not> registered then (r, [], False)
      else (case register_displayers option_table (r\<lparr>ir_names := ir_names r @ map fst ini_entries\<rparr>) of (r', failed) \<Rightarrow> (r', failed, True)))"

definition zend_unregister_ini_entries :: "ini_registry \<Rightarrow> ini_registry" where
  "zend_unregister_ini_entries r =
     r\<lparr>ir_names := filter (\<lambda>n. n \<notin> set (map fst ini_entries)) (ir_names r),
       ir_displayers := filter (\<lambda>n. n \<notin> set (map fst ini_entries)) (ir_displayers r)\<rparr>"

subsection \<open>The handler of SIGSEGV\<close>

text \<open>\<open>Default\<close> is the null pointer.\<close>

datatype 'h sig_handler = Default | Foreign_handler 'h | SigSegvHandler

record 'h signals =
  sigsegv :: "'h sig_handler"
  oldSigSegvHandler :: "'h sig_handler"

definition registerSigSegvHandler :: "bool \<Rightarrow> 'h signals \<Rightarrow> 'h signals" where
  "registerSigSegvHandler signal_ok sg =
     (if \<not> signal_ok then sg else sg\<lparr>sigsegv := SigSegvHandler, oldSigSegvHandler := sigsegv sg\<rparr>)"

definition unregisterSigSegvHandler :: "'h signals \<Rightarrow> 'h signals" where
  "unregisterSigSegvHandler sg =
     (if oldSigSegvHandler sg = SigSegvHandler then sg\<lparr>sigsegv := oldSigSegvHandler sg, oldSigSegvHandler := Default\<rparr> else sg)"

text \<open>What the handler does before it raises the signal again.\<close>

definition handle_sigsegv :: "bool \<Rightarrow> 'h signals \<Rightarrow> 'h signals \<times> bool" where
  "handle_sigsegv has_logger sg =
     (if \<not> has_logger then (sg, False) else (sg\<lparr>sigsegv := oldSigSegvHandler sg\<rparr>, True))"

subsection \<open>Loading and unloading\<close>

record ('p, 'h) process =
  pr_ini :: ini_registry
  pr_signals :: "'h signals"
  pr_engine :: "'p engine_hooks"
  pr_original :: "'p engine_pointers"
  pr_observers :: nat
  pr_fork_callbacks :: nat
  pr_watchers :: nat

record init_env =
  ie_sapi :: sapi_type
  ie_config :: ConfigurationSnapshot
  ie_ini_registered :: bool
  ie_signal_ok :: bool
  ie_coordinator :: bool

definition module_active :: "sapi_type \<Rightarrow> ConfigurationSnapshot \<Rightarrow> bool" where
  "module_active t cfg \<longleftrightarrow> isSupported t \<and> cfg_bool ''enabled'' cfg \<and> cfg_string ''bootstrap_php_part_file'' cfg \<noteq> []"

text \<open>
  \<open>elasticApmModuleInit\<close>. \<open>ie_config\<close> is the configuration after the two updates, \<open>ie_coordinator\<close> whether \<open>start\<close> answers true,
  which it does in the coordinator process when its loop has ended; that process exits (\<open>None\<close>).
\<close>

definition elasticApmModuleInit :: "init_env \<Rightarrow> ('p, 'h) process \<Rightarrow> ('p, 'h) process option" where
  "elasticApmModuleInit env p =
     (let p = p\<lparr>pr_ini := fst (registerElasticApmIniEntries (ie_ini_registered env) (pr_ini p))\<rparr>
      in if \<not> isSupported (ie_sapi env) then Some p
         else
           let p = p\<lparr>pr_signals := registerSigSegvHandler (ie_signal_ok env) (pr_signals p)\<rparr>
           in if \<not> cfg_bool ''enabled'' (ie_config env) then Some p
              else if cfg_string ''bootstrap_php_part_file'' (ie_config env) = [] then Some p
              else if ie_coordinator env then None
              else
                let p = p\<lparr>pr_watchers := pr_watchers p + 1, pr_original := fetchOriginalHooks (pr_engine p)\<rparr>;
                    p = p\<lparr>pr_engine := replaceHooks (cfg_bool ''inferred_spans_enabled'' (ie_config env))
                            (cfg_bool ''dependency_autoloader_guard_enabled'' (ie_config env)) (pr_engine p)\<rparr>
                in Some (p\<lparr>pr_observers := pr_observers p + 1, pr_fork_callbacks := pr_fork_callbacks p + 1\<rparr>))"

definition elasticApmModuleShutdown :: "sapi_type \<Rightarrow> ConfigurationSnapshot \<Rightarrow> ('p, 'h) process \<Rightarrow> ('p, 'h) process" where
  "elasticApmModuleShutdown t cfg p =
     (if \<not> isSupported t then p
      else if \<not> cfg_bool ''enabled'' cfg then p
      else if cfg_string ''bootstrap_php_part_file'' cfg = [] then p
      else p\<lparr>pr_engine := restoreOriginalHooks (pr_original p) (pr_engine p), pr_ini := zend_unregister_ini_entries (pr_ini p),
             pr_signals := unregisterSigSegvHandler (pr_signals p)\<rparr>)"

subsection \<open>What \<open>phpinfo()\<close> shows\<close>

datatype info_output =
    Table_start
  | Table_end
  | Table_header "string list"
  | Colspan_header string
  | Table_row string string
  | Ini_table

fun option_rows :: "(string \<times> OptionMetadata) list \<Rightarrow> ConfigurationSnapshot \<Rightarrow> info_output list result" where
  "option_rows [] cfg = Inr []"
| "option_rows ((name, metadata) # opts) cfg =
     bind_result (accessOptionStringValueByMetadata metadata cfg) (\<lambda>v.
       map_sum id (\<lambda>rows. Table_row (c_str name) (if secret metadata then ''***'' else c_str v) # rows) (option_rows opts cfg))"

definition printPhpInfo :: "ConfigurationSnapshot \<Rightarrow> info_output list result" where
  "printPhpInfo cfg =
     map_sum id (\<lambda>rows.
         [Table_start, Table_header [''Elastic Distribution for OpenTelemetry PHP''], Table_end,
          Colspan_header ''Effective configuration'', Table_start, Table_header [''Configuration option'', ''Value'']] @ rows @
         [Table_end, Colspan_header ''INI configuration'', Ini_table])
       (option_rows option_table cfg)"

text \<open>\<open>get_php_error_name\<close>, by the numbers of the engine's constants.\<close>

definition php_error_names :: "(nat \<times> string) list" where
  "php_error_names =
     [(1, ''E_ERROR''), (2, ''E_WARNING''), (4, ''E_PARSE''), (8, ''E_NOTICE''), (16, ''E_CORE_ERROR''), (32, ''E_CORE_WARNING''),
      (64, ''E_COMPILE_ERROR''), (128, ''E_COMPILE_WARNING''), (256, ''E_USER_ERROR''), (512, ''E_USER_WARNING''), (1024, ''E_USER_NOTICE''),
      (2048, ''E_STRICT''), (4096, ''E_RECOVERABLE_ERROR''), (8192, ''E_DEPRECATED''), (16384, ''E_USER_DEPRECATED'')]"

definition get_php_error_name :: "nat \<Rightarrow> string" where
  "get_php_error_name code_number = (case map_of php_error_names code_number of Some n \<Rightarrow> n | None \<Rightarrow> ''UNDEFINED'')"

lemma map_of_option_table: "(name, md) \<in> set option_table \<Longrightarrow> map_of option_table name = Some md"
  using option_table(1) by (intro map_of_is_SomeI) (simp_all add: strict_sorted_iff)

lemma option_readable:
  assumes "well_typed cfg" and "(name, md) \<in> set option_table"
  shows "\<exists>v. option_value cfg name = Some v \<and> offset md = name \<and> (\<exists>text. accessOptionStringValueByMetadata md cfg = Inr text)"
proof -
  have md: "map_of option_table name = Some md" by (rule map_of_option_table [OF assms(2)])
  have off: "offset md = name" by (rule option_table_offset [OF md])
  obtain v where v: "option_value cfg name = Some v" "type_of_value v = opt_type md"
    using well_typed_option [OF assms(1), of name] md by auto
  then have "\<exists>text. accessOptionStringValueByMetadata md cfg = Inr text"
    by (cases v) (auto simp: accessOptionStringValueByMetadata_def off dest!: sym [of _ "opt_type md"])
  with v off show ?thesis by blast
qed

lemma access_cong: "option_value cfg (offset md) = option_value cfg' (offset md) \<Longrightarrow>
    accessOptionStringValueByMetadata md cfg = accessOptionStringValueByMetadata md cfg'"
  by (simp add: accessOptionStringValueByMetadata_def)

lemma option_rows_secret:
  assumes "well_typed cfg" and "well_typed cfg'" and "set opts \<subseteq> set option_table"
    and "\<forall>(name, md) \<in> set opts. \<not> secret md \<longrightarrow> option_value cfg name = option_value cfg' name"
  shows "\<exists>rows. option_rows opts cfg = Inr rows \<and> option_rows opts cfg' = Inr rows"
  using assms(3,4)
proof (induction opts)
  case (Cons entry opts)
  obtain name md where e: "entry = (name, md)" by (rule prod.exhaust)
  then have "(name, md) \<in> set option_table" using Cons.prems(1) by simp
  note r = option_readable [OF assms(1) this] option_readable [OF assms(2) this]
  from Cons obtain rows where "option_rows opts cfg = Inr rows" "option_rows opts cfg' = Inr rows" by auto
  moreover have "\<not> secret md \<Longrightarrow> accessOptionStringValueByMetadata md cfg = accessOptionStringValueByMetadata md cfg'"
    using r Cons.prems(2) by (intro access_cong) (auto simp: e)
  ultimately show ?case using r by (auto simp: e)
qed simp

text \<open>
  C24. \<open>phpinfo()\<close> tells nothing about secret options: two configurations that differ only in options marked as secret show the
  same page, and there always is one.
\<close>

theorem phpinfo_hides_secrets:
  assumes "well_typed cfg" and "well_typed cfg'"
    and "\<And>name md. map_of option_table name = Some md \<Longrightarrow> \<not> secret md \<Longrightarrow> option_value cfg name = option_value cfg' name"
  shows "printPhpInfo cfg = printPhpInfo cfg' \<and> (\<exists>page. printPhpInfo cfg = Inr page)"
proof -
  have "\<forall>(name, md) \<in> set option_table. \<not> secret md \<longrightarrow> option_value cfg name = option_value cfg' name"
    using assms(3) map_of_option_table by blast
  then obtain rows where "option_rows option_table cfg = Inr rows" "option_rows option_table cfg' = Inr rows"
    using option_rows_secret [OF assms(1,2) subset_refl] by blast
  then show ?thesis by (simp add: printPhpInfo_def)
qed

subsection \<open>What is left after unloading\<close>

lemma loaded_shape:
  assumes "elasticApmModuleInit env p = Some p1"
  shows "(if module_active (ie_sapi env) (ie_config env)
     then pr_original p1 = fetchOriginalHooks (pr_engine p) \<and> \<not> ie_coordinator env \<and>
       pr_engine p1 = replaceHooks (cfg_bool ''inferred_spans_enabled'' (ie_config env))
         (cfg_bool ''dependency_autoloader_guard_enabled'' (ie_config env)) (pr_engine p)
     else pr_engine p1 = pr_engine p \<and> pr_original p1 = pr_original p) \<and>
    pr_signals p1 = (if isSupported (ie_sapi env) then registerSigSegvHandler (ie_signal_ok env) (pr_signals p) else pr_signals p)"
  using assms by (auto simp: elasticApmModuleInit_def module_active_def Let_def split: if_splits)

lemma not_loaded_iff:
  "elasticApmModuleInit env p = None \<longleftrightarrow> ie_coordinator env \<and> module_active (ie_sapi env) (ie_config env)"
  unfolding elasticApmModuleInit_def Let_def module_active_def by simp

lemma shutdown_eq:
  "elasticApmModuleShutdown t cfg p =
     (if module_active t cfg
      then p\<lparr>pr_engine := restoreOriginalHooks (pr_original p) (pr_engine p), pr_ini := zend_unregister_ini_entries (pr_ini p),
        pr_signals := unregisterSigSegvHandler (pr_signals p)\<rparr>
      else p)"
  by (simp add: elasticApmModuleShutdown_def module_active_def)


text \<open>The handler of SIGSEGV stays, and loaded a second time it takes itself for its predecessor.\<close>

lemma sigsegv_handler_stays:
  assumes "elasticApmModuleInit env p = Some p1" and "isSupported (ie_sapi env)" and "ie_signal_ok env"
  shows "sigsegv (pr_signals (elasticApmModuleShutdown (ie_sapi env) cfg p1)) = SigSegvHandler"
  using loaded_shape [OF assms(1)] assms(2,3)
  by (auto simp: shutdown_eq registerSigSegvHandler_def unregisterSigSegvHandler_def)

lemma second_handler_raises_to_itself:
  "sigsegv sg = SigSegvHandler \<Longrightarrow> sigsegv (fst (handle_sigsegv True (registerSigSegvHandler True sg))) = SigSegvHandler"
  by (simp add: handle_sigsegv_def registerSigSegvHandler_def)

text \<open>No secret option has an entry: each registration of a displayer fails.\<close>

lemma secret_without_entry: "\<forall>(name, md) \<in> set option_list. secret md \<longrightarrow> getIniName name \<notin> set (map fst ini_entries)"
proof -
  have "list_all (\<lambda>(name, md). secret md \<longrightarrow> \<not> List.member (map fst ini_entries) (getIniName name)) option_list" by code_simp
  then show ?thesis by (auto simp: list_all_iff List.member_iff)
qed

lemma secret_displayers_fail:
  assumes "set (ir_names r) \<subseteq> set (map fst ini_entries)" and "set opts \<subseteq> set option_list"
  shows "register_displayers opts r = (r, map (getIniName \<circ> fst) (filter (secret \<circ> snd) opts))"
  using assms(2)
proof (induction opts)
  case (Cons entry opts)
  obtain name md where e: "entry = (name, md)" by (rule prod.exhaust)
  have "secret md \<Longrightarrow> getIniName name \<notin> set (ir_names r)"
    using secret_without_entry Cons.prems assms(1) by (auto simp: e)
  with Cons show ?case by (simp add: e zend_ini_register_displayer_def)
qed simp

definition sample_secret :: "string \<Rightarrow> ConfigurationSnapshot" where
  "sample_secret key = new_ConfigurationSnapshot\<lparr>options := map (\<lambda>(n, v). if n = ''opamp_client_keypass'' then (n, CString key) else (n, v)) default_options\<rparr>"

lemma sample_secret_value:
  "option_value (sample_secret key) n = (if n = ''opamp_client_keypass'' then Some (CString key) else option_value new_ConfigurationSnapshot n)"
proof -
  have "map_of (map (\<lambda>(n, v). if n = k then (n, w) else (n, v)) xs) n = (if n = k \<and> map_of xs n \<noteq> None then Some w else map_of xs n)"
    for xs :: "(string \<times> config_value) list" and k w by (induction xs) auto
  moreover have "map_of default_options ''opamp_client_keypass'' \<noteq> None" by code_simp
  ultimately show ?thesis by (auto simp: sample_secret_def option_value_def new_ConfigurationSnapshot_def)
qed

lemma sample_secret_well_typed: "well_typed (sample_secret key)"
proof -
  have keep: "map (\<lambda>(n, v). (n, type_of_value v)) (map (\<lambda>(n, v). if n = k then (n, w) else (n, v)) xs) = map (\<lambda>(n, v). (n, type_of_value v)) xs"
    if "\<forall>(n, v) \<in> set xs. n = k \<longrightarrow> type_of_value v = type_of_value w" for xs :: "(string \<times> config_value) list" and k w
    using that by (induction xs) auto
  have "\<forall>(n, v) \<in> set default_options. n = ''opamp_client_keypass'' \<longrightarrow> type_of_value v = type_of_value (CString key)"
    by (simp add: default_options_def)
  note kept = keep [OF this]
  have sel: "options (new_ConfigurationSnapshot\<lparr>options := xs\<rparr>) = xs" for xs by simp
  show ?thesis unfolding well_typed_def sample_secret_def sel by (rule kept)
qed

lemma phpinfo_hides_secrets_witness: "printPhpInfo (sample_secret ''one'') = printPhpInfo (sample_secret ''two'')"
proof -
  have "map_option secret (map_of option_table ''opamp_client_keypass'') = Some True" by code_simp
  then have "option_value (sample_secret ''one'') name = option_value (sample_secret ''two'') name"
    if "map_of option_table name = Some md" "\<not> secret md" for name md
    using that by (auto simp: sample_secret_value)
  then show ?thesis using phpinfo_hides_secrets [OF sample_secret_well_typed sample_secret_well_typed, of "''one''" "''two''"] by blast
qed

definition sample_process :: "(unit, unit) process" where
  "sample_process =
     \<lparr>pr_ini = \<lparr>ir_names = [], ir_displayers = []\<rparr>, pr_signals = \<lparr>sigsegv = Default, oldSigSegvHandler = Default\<rparr>,
      pr_engine = \<lparr>zend_execute_internal = None, zend_interrupt_function = None, zend_compile_file = Some (Foreign ()),
        error_observers = []\<rparr>,
      pr_original = \<lparr>zend_execute_internal = None, zend_interrupt_function = None, zend_compile_file = None\<rparr>,
      pr_observers = 0, pr_fork_callbacks = 0, pr_watchers = 0\<rparr>"

definition sample_init :: init_env where
  "sample_init = \<lparr>ie_sapi = CLI, ie_config = new_ConfigurationSnapshot\<lparr>options := [(''enabled'', CBool True), (''bootstrap_php_part_file'', CString ''/b.php''),
      (''dependency_autoloader_guard_enabled'', CBool True)]\<rparr>, ie_ini_registered = True, ie_signal_ok = True, ie_coordinator = False\<rparr>"


end
