(* ===== verification/Loader.thy ===== *)
theory Loader
  imports CxxStd
begin

text \<open>
  The loader (\<open>loader/code/phpdetection.cpp\<close>, \<open>loader.cpp\<close>): a small extension that finds out which PHP it was
  loaded into and hands over to the library built for that version. \<open>dlsym\<close>, \<open>dladdr\<close> and \<open>dlopen\<close> are
  parameters; what is logged is not modelled.
\<close>

subsection \<open>Detection of the version\<close>

definition getMajorMinorVersion :: "string \<Rightarrow> string" where
  "getMajorMinorVersion version =
     (case find_last_if (\<lambda>c. c = CHR ''.'') version of None \<Rightarrow> version | Some lastDot \<Rightarrow> take lastDot version)"

definition engine_prefix :: string where
  "engine_prefix = ''Zend Engine v''"

text \<open>
  Without a comma the length is \<open>npos\<close> less that of the prefix, which is more than there is left: the view
  ends where the string ends.
\<close>

definition getZendVersion :: "string \<Rightarrow> string" where
  "getZendVersion zendVersion =
     (if take (length engine_prefix) zendVersion \<noteq> engine_prefix then []
      else
        let rest = drop (length engine_prefix) zendVersion
        in (case find_if (\<lambda>c. c = CHR '','') zendVersion of
              None \<Rightarrow> rest
            | Some comma \<Rightarrow> take (comma - length engine_prefix) rest))"

text \<open>\<open>version_symbol\<close>: what \<open>get_zend_version\<close> of the process answers, if it is there.\<close>

definition getZendVersionString :: "string option \<Rightarrow> string" where
  "getZendVersionString version_symbol = (case version_symbol of None \<Rightarrow> [] | Some v \<Rightarrow> v)"

definition getMajorMinorZendVersion :: "string option \<Rightarrow> string" where
  "getMajorMinorZendVersion version_symbol =
     (let zendVersion = getZendVersion (getZendVersionString version_symbol)
      in if zendVersion = [] then [] else getMajorMinorVersion zendVersion)"

record php_version =
  engine_version :: string
  php_number :: nat
  module_api :: nat
  version_supported :: bool

definition known_version :: "string \<times> nat \<times> nat \<times> bool \<Rightarrow> php_version" where
  "known_version = (\<lambda>(e, p, a, s). \<lparr>engine_version = e, php_number = p, module_api = a, version_supported = s\<rparr>)"

definition knownPhpVersions :: "php_version list" where
  "knownPhpVersions = map known_version
     [(''4.4'', 84, 20240924, True),
      (''4.3'', 83, 20230831, True),
      (''4.2'', 82, 20220829, True),
      (''4.1'', 81, 20210902, True),
      (''4.0'', 80, 20200930, False),
      (''3.4'', 74, 20190902, False),
      (''3.3'', 73, 20180731, False),
      (''3.2'', 72, 20170718, False),
      (''3.1'', 71, 20160303, False),
      (''3.0'', 70, 20151012, False),
      (''2.6'', 56, 20131226, False),
      (''2.5'', 55, 20121212, False),
      (''2.4'', 54, 20100525, False),
      (''2.3'', 53, 20090626, False),
      (''2.2'', 52, 20060613, False),
      (''2.1'', 51, 20050922, False),
      (''2.0'', 50, 20041030, False)]"

definition getZendModuleApiVersion :: "string \<Rightarrow> php_version" where
  "getZendModuleApiVersion zendVersion =
     (case find_if (\<lambda>entry. engine_version entry = zendVersion) knownPhpVersions of
        None \<Rightarrow> \<lparr>engine_version = zendVersion, php_number = 0, module_api = 0, version_supported = False\<rparr>
      | Some i \<Rightarrow> knownPhpVersions ! i)"

subsection \<open>Handing over\<close>

text \<open>
  The process: the version symbol, whether \<open>core_globals\<close> is there (it is not in a thread-safe build), the
  path of the loader, and for a path whether \<open>dlopen\<close> finds a library and whether that has an entry point.
\<close>

record process_env =
  zend_version_symbol :: "string option"
  has_core_globals :: bool
  loader_path :: "string option"
  open_library :: "string \<Rightarrow> bool option"

definition isThreadSafe :: "process_env \<Rightarrow> bool" where
  "isThreadSafe env \<longleftrightarrow> \<not> has_core_globals env"

text \<open>\<open>std::filesystem::path\<close> of an absolute path: the directory, and \<open>operator/\<close> with a file name.\<close>

definition directory_of :: "string \<Rightarrow> string" where
  "directory_of p =
     (case find_last_if (\<lambda>c. c = CHR ''/'') p of
        None \<Rightarrow> []
      | Some i \<Rightarrow>
          let dir = rev (dropWhile (\<lambda>c. c = CHR ''/'') (rev (take i p)))
          in if dir = [] then ''/'' else dir)"

definition file_in :: "string \<Rightarrow> string \<Rightarrow> string" where
  "file_in dir file = (if dir = [] then file else if last dir = CHR ''/'' then dir @ file else dir @ CHR ''/'' # file)"

definition agent_library :: "string \<Rightarrow> nat \<Rightarrow> string" where
  "agent_library loaderPath phpVersion =
     file_in (directory_of loaderPath) ''elastic_otel_php_'' @ to_string phpVersion @ ''.so''"

text \<open>
  What PHP is given as the extension: the loader's own entry, which has no functions, with the API number and the
  build id it announces; or the entry of the library.
\<close>

datatype module_entry = Loader_entry nat string bool | Agent_entry string

text \<open>\<open>build_id\<close> is the static string of earlier calls, \<open>''API''\<close> at first; each call appends to it.\<close>

definition get_module :: "process_env \<Rightarrow> string \<Rightarrow> module_entry \<times> string" where
  "get_module env build_id =
     (let zendVersion = getMajorMinorZendVersion (zend_version_symbol env)
      in if zendVersion = [] then (Loader_entry 0 [] False, build_id)
         else
           let v = getZendModuleApiVersion zendVersion;
               build_id = build_id @ to_string (module_api v) @ (if isThreadSafe env then '',TS'' else '',NTS'');
               own = Loader_entry (module_api v) build_id (isThreadSafe env)
           in (if \<not> version_supported v then own
               else if isThreadSafe env then own
               else
                 (case loader_path env of
                    None \<Rightarrow> own
                  | Some fname \<Rightarrow>
                      let library = agent_library fname (php_number v)
                      in if open_library env library = Some True then Agent_entry library else own), build_id))"

subsection \<open>The library for the running version\<close>

lemma find_if_append_first:
  "(\<forall>x \<in> set xs. \<not> P x) \<Longrightarrow> P y \<Longrightarrow> find_if P (xs @ y # ys) = Some (length xs)"
  by (induction xs) auto

lemma find_last_if_append:
  "\<not> (\<exists>x \<in> set ys. P x) \<Longrightarrow> P y \<Longrightarrow> find_last_if P (xs @ y # ys) = Some (length xs)"
proof (induction xs)
  case Nil
  have "find_last_if P ys = None" if "\<not> (\<exists>x \<in> set ys. P x)" for ys
    using that by (induction ys) auto
  with Nil show ?case by simp
qed simp

lemma known_versions_distinct: "distinct (map engine_version knownPhpVersions)"
  by (simp add: knownPhpVersions_def known_version_def)

lemma api_version_of_known:
  assumes "v \<in> set knownPhpVersions"
  shows "getZendModuleApiVersion (engine_version v) = v"
proof -
  from assms obtain xs ys where s: "knownPhpVersions = xs @ v # ys" by (meson split_list)
  have "engine_version v \<notin> engine_version ` set xs" using known_versions_distinct unfolding s by simp
  then have "\<forall>x \<in> set xs. engine_version x \<noteq> engine_version v" by (metis image_eqI)
  with find_if_append_first [of xs "\<lambda>entry. engine_version entry = engine_version v" v ys]
  have "find_if (\<lambda>entry. engine_version entry = engine_version v) knownPhpVersions = Some (length xs)"
    unfolding s by simp
  moreover have "knownPhpVersions ! length xs = v" unfolding s by simp
  ultimately show ?thesis by (simp add: getZendModuleApiVersion_def)
qed

text \<open>
  C33. The loader hands over to the library built for the PHP it runs in. If the engine reports a supported
  version with any patch level, in a build that is not thread-safe, the library loaded is
  \<open>elastic_otel_php_NN.so\<close> beside the loader, with the number of that PHP version, and the API it would
  announce otherwise is that version's; for other versions and thread-safe builds nothing is loaded.
\<close>

theorem loads_matching_library:
  assumes "v \<in> set knownPhpVersions" and "CHR ''.'' \<notin> set patch" and "CHR '','' \<notin> set patch"
    and "zend_version_symbol env = Some (''Zend Engine v'' @ engine_version v @ ''.'' @ patch @ '','' @ copyright)"
    and "loader_path env = Some fname"
  shows "get_module env build_id =
    (let build = build_id @ to_string (module_api v) @ (if isThreadSafe env then '',TS'' else '',NTS'');
         library = file_in (directory_of fname) ''elastic_otel_php_'' @ to_string (php_number v) @ ''.so''
     in (if version_supported v \<and> \<not> isThreadSafe env \<and> open_library env library = Some True then Agent_entry library
         else Loader_entry (module_api v) build (isThreadSafe env), build))"
proof -
  have e: "CHR '','' \<notin> set (engine_version v) \<and> engine_version v \<noteq> []"
    using assms(1) by (auto simp: knownPhpVersions_def known_version_def)
  let ?text = "''Zend Engine v'' @ engine_version v @ ''.'' @ patch @ '','' @ copyright"
  have "find_if (\<lambda>c. c = CHR '','') ((''Zend Engine v'' @ engine_version v @ ''.'' @ patch) @ CHR '','' # copyright)
      = Some (length (''Zend Engine v'' @ engine_version v @ ''.'' @ patch))"
    by (rule find_if_append_first) (use e assms(3) in auto)
  then have "getZendVersion ?text = engine_version v @ ''.'' @ patch"
    by (simp add: getZendVersion_def engine_prefix_def)
  moreover have "getMajorMinorVersion (engine_version v @ ''.'' @ patch) = engine_version v"
    using find_last_if_append [of patch "\<lambda>c. c = CHR ''.''" "CHR ''.''" "engine_version v"] assms(2)
    by (simp add: getMajorMinorVersion_def)
  ultimately have "getMajorMinorZendVersion (zend_version_symbol env) = engine_version v"
    using assms(4) e by (simp add: getMajorMinorZendVersion_def getZendVersionString_def)
  then show ?thesis
    using assms(5) e api_version_of_known [OF assms(1)] by (auto simp: get_module_def agent_library_def Let_def)
qed

definition sample_process :: process_env where
  "sample_process =
     \<lparr>zend_version_symbol = Some ''Zend Engine v4.3.12, Copyright'', has_core_globals = True,
      loader_path = Some ''/opt/elastic_otel_loader.so'', open_library = \<lambda>_. Some True\<rparr>"

lemma sample_library:
  "file_in (directory_of ''/opt/elastic_otel_loader.so'') ''elastic_otel_php_'' @ to_string 83 @ ''.so''
    = ''/opt/elastic_otel_php_83.so''"
  by (simp add: file_in_def directory_of_def to_string.simps digit_char_def char_of_def bit_Suc_0_iff)

lemma sample_api: "to_string 20230831 = ''20230831''"
  by (simp add: to_string.simps digit_char_def char_of_def bit_Suc_0_iff)

lemma loads_matching_library_witness:
  "get_module sample_process ''API'' = (Agent_entry ''/opt/elastic_otel_php_83.so'', ''API20230831,NTS'')"
proof -
  define v where "v = \<lparr>engine_version = ''4.3'', php_number = 83, module_api = 20230831, version_supported = True\<rparr>"
  have "v \<in> set knownPhpVersions" unfolding v_def by (simp add: knownPhpVersions_def known_version_def)
  moreover have "zend_version_symbol sample_process
      = Some (''Zend Engine v'' @ engine_version v @ ''.'' @ ''12'' @ '','' @ '' Copyright'')"
    by (simp add: sample_process_def v_def)
  ultimately show ?thesis
    using loads_matching_library [of v "''12''" sample_process "'' Copyright''" "''/opt/elastic_otel_loader.so''" "''API''"]
    by (simp add: sample_process_def isThreadSafe_def v_def sample_library sample_api Let_def del: to_string.simps)
qed

end
