(* ===== verification/Refcount.thy ===== *)
theory Refcount
  imports Prelude
begin

text \<open>
  Reference counting, shared by the values of PHP (\<open>AutoZvals\<close>) and by the objects of the agent that C++ code holds through
  \<open>std::shared_ptr\<close> (\<open>AgentLifetime\<close>). A heap maps the addresses in use to a count and a content; \<open>refs\<close> gives the
  references a content holds. Using an address that is not in the heap is undefined behaviour, a value of the model.

  \<open>balanced\<close> says that each count is the number of references to the object, from the handles the program holds and from
  the contents of other objects. The lemmas show that it is kept, that dropping a handle then never reaches a released
  object, and in which order objects go.
\<close>

type_synonym ('a, 'c) rc_heap = "('a, nat \<times> 'c) umap"

subsection \<open>The operations\<close>

definition rc_addref :: "'a \<Rightarrow> ('a, 'c) rc_heap \<Rightarrow> ('a, 'c) rc_heap result" where
  "rc_addref a h =
     (case map_of h a of
        None \<Rightarrow> Inl (Undefined ''reference to a released object'')
      | Some (n, c) \<Rightarrow> Inr (um_assign a (Suc n, c) h))"

fun rc_addrefs :: "'a list \<Rightarrow> ('a, 'c) rc_heap \<Rightarrow> ('a, 'c) rc_heap result" where
  "rc_addrefs [] h = Inr h"
| "rc_addrefs (a # as) h = bind_result (rc_addref a h) (rc_addrefs as)"

text \<open>A new object, held once; its content takes over references its maker owns.\<close>

definition rc_new :: "'a \<Rightarrow> 'c \<Rightarrow> ('a, 'c) rc_heap \<Rightarrow> ('a, 'c) rc_heap" where
  "rc_new a c h = (a, (1, c)) # h"

text \<open>
  Dropping references one after the other. An object whose last reference goes is released, and what it holds is dropped
  before anything else: a destructor runs to its end first. The second result lists the released objects in order.
\<close>

definition heap_weight :: "('a, 'c) rc_heap \<Rightarrow> nat" where
  "heap_weight h = sum_list (map (\<lambda>(a, n, c). Suc n) h)"

lemma heap_weight_erase:
  fixes h :: "('a, 'c) rc_heap"
  shows "map_of h a = Some (n, c) \<Longrightarrow> heap_weight (um_erase a h) < heap_weight h"
proof (induction h)
  case (Cons e h)
  have le: "heap_weight (um_erase a xs) \<le> heap_weight xs" for xs :: "('a, 'c) rc_heap"
    by (induction xs) (auto simp: heap_weight_def)
  obtain a' n' c' where e: "e = (a', n', c')" by (cases e)
  show ?case using Cons le [of h] by (auto simp: e heap_weight_def split: if_splits)
qed simp

lemma heap_weight_assign: "map_of h a = Some (n, c) \<Longrightarrow> 0 < n \<Longrightarrow> heap_weight (um_assign a (n - Suc 0, c) h) < heap_weight h"
  by (induction h) (auto simp: heap_weight_def split: if_splits)

function rc_release :: "('c \<Rightarrow> 'a list) \<Rightarrow> 'a list \<Rightarrow> ('a, 'c) rc_heap \<Rightarrow> (('a, 'c) rc_heap \<times> 'a list) result" where
  "rc_release refs [] h = Inr (h, [])"
| "rc_release refs (a # as) h =
     (case map_of h a of
        None \<Rightarrow> Inl (Undefined ''release of a released object'')
      | Some (n, c) \<Rightarrow>
          if n \<le> 1 then map_sum id (\<lambda>(h', gone). (h', a # gone)) (rc_release refs (refs c @ as) (um_erase a h))
          else rc_release refs as (um_assign a (n - 1, c) h))"
  by pat_completeness auto
termination
  by (relation "measure (\<lambda>(refs, as, h). heap_weight h)") (auto simp: heap_weight_erase heap_weight_assign)

declare rc_release.simps(2) [simp del]

subsection \<open>The balance\<close>

definition inner_refs :: "('c \<Rightarrow> 'a list) \<Rightarrow> ('a, 'c) rc_heap \<Rightarrow> 'a list" where
  "inner_refs refs h = concat (map (\<lambda>(a, n, c). refs c) h)"

definition rc_count :: "('a, 'c) rc_heap \<Rightarrow> 'a \<Rightarrow> nat" where
  "rc_count h a = (case map_of h a of None \<Rightarrow> 0 | Some (n, c) \<Rightarrow> n)"

definition balanced :: "('c \<Rightarrow> 'a list) \<Rightarrow> 'a list \<Rightarrow> ('a, 'c) rc_heap \<Rightarrow> bool" where
  "balanced refs handles h \<longleftrightarrow>
     um_wf h \<and> (\<forall>a \<in> fst ` set h. 0 < rc_count h a) \<and>
     (\<forall>a. rc_count h a = count_list handles a + count_list (inner_refs refs h) a)"

lemma rc_count_simps [simp]:
  "rc_count [] a = 0"
  "rc_count (um_assign b (n, c) h) a = (if a = b then n else rc_count h a)"
  "rc_count (um_erase b h) a = (if a = b then 0 else rc_count h a)"
  "rc_count (rc_new b c h) a = (if a = b then 1 else rc_count h a)"
  by (auto simp: rc_count_def umap_simps rc_new_def)

lemma inner_refs_simps [simp]:
  "inner_refs refs [] = []"
  "inner_refs refs ((a, n, c) # h) = refs c @ inner_refs refs h"
  "inner_refs refs (rc_new a c h) = refs c @ inner_refs refs h"
  by (simp_all add: inner_refs_def rc_new_def)

lemma inner_refs_erase:
  "um_wf h \<Longrightarrow> map_of h a = Some (n, c) \<Longrightarrow>
    count_list (inner_refs refs h) b = count_list (refs c) b + count_list (inner_refs refs (um_erase a h)) b"
proof (induction h)
  case (Cons e h)
  obtain a' n' c' where e: "e = (a', n', c')" by (cases e)
  show ?case
  proof (cases "a' = a")
    case True
    then have "um_erase a h = h" using Cons.prems e by (auto simp: delete_id map_of_eq_None_iff image_iff)
    with True Cons.prems e show ?thesis by simp
  next
    case False
    with Cons e show ?thesis by simp
  qed
qed simp

lemma inner_refs_assign: "map_of h a = Some (n, c) \<Longrightarrow> inner_refs refs (um_assign a (m, c) h) = inner_refs refs h"
  by (induction h) (auto simp: inner_refs_def split: if_splits)

lemma inner_refs_replace:
  "map_of h a = Some (n, c) \<Longrightarrow>
    count_list (inner_refs refs (um_assign a (m, c') h)) b + count_list (refs c) b = count_list (inner_refs refs h) b + count_list (refs c') b"
  by (induction h) (auto simp: inner_refs_def split: if_splits)

lemma balanced_live:
  "balanced refs hs h \<Longrightarrow> a \<in> set hs \<union> set (inner_refs refs h) \<Longrightarrow> \<exists>n c. map_of h a = Some (n, c) \<and> 0 < n"
proof -
  assume b: "balanced refs hs h" and "a \<in> set hs \<union> set (inner_refs refs h)"
  then have "0 < rc_count h a" by (auto simp: balanced_def count_list_0_iff dest!: spec [of _ a] intro!: Nat.gr0I)
  then show ?thesis by (auto simp: rc_count_def split: option.splits)
qed

lemma count_list_pos: "0 < count_list xs a \<longleftrightarrow> a \<in> set xs"
  by (metis count_list_0_iff gr0I less_numeral_extra(3))

lemma balanced_live_iff: "balanced refs hs h \<Longrightarrow> a \<in> fst ` set h \<longleftrightarrow> a \<in> set hs \<union> set (inner_refs refs h)"
proof -
  assume b: "balanced refs hs h"
  have "0 < rc_count h a \<longleftrightarrow> a \<in> set hs \<union> set (inner_refs refs h)"
    using b by (auto simp: balanced_def count_list_pos)
  moreover have "a \<in> fst ` set h \<longrightarrow> 0 < rc_count h a" using b unfolding balanced_def by blast
  moreover have "0 < rc_count h a \<longrightarrow> a \<in> fst ` set h"
    by (auto simp: rc_count_def map_of_eq_None_iff split: option.splits dest!: map_of_SomeD intro: rev_image_eqI)
  ultimately show ?thesis by metis
qed

lemma balanced_cong: "(\<And>a. count_list hs a = count_list hs' a) \<Longrightarrow> balanced refs hs h = balanced refs hs' h"
  by (simp add: balanced_def)

text \<open>Counting references changes no content.\<close>

definition same_contents :: "('a, 'c) rc_heap \<Rightarrow> ('a, 'c) rc_heap \<Rightarrow> bool" where
  "same_contents h h' \<longleftrightarrow> (\<forall>a. map_option snd (map_of h a) = map_option snd (map_of h' a))"

lemma same_contents_refl [simp]: "same_contents h h" by (simp add: same_contents_def)

lemma same_contents_trans: "same_contents h h' \<Longrightarrow> same_contents h' h'' \<Longrightarrow> same_contents h h''"
  by (simp add: same_contents_def)

lemma same_contents_keys:
  assumes "same_contents h h'"
  shows "fst ` set h' = fst ` set h"
proof (rule set_eqI)
  fix a
  have k: "a \<in> fst ` set g \<longleftrightarrow> map_option snd (map_of g a) \<noteq> None" for g :: "('a, 'b) rc_heap"
    by (simp add: map_of_eq_None_iff)
  have "map_option snd (map_of h a) = map_option snd (map_of h' a)" using assms by (simp add: same_contents_def)
  then show "a \<in> fst ` set h' \<longleftrightarrow> a \<in> fst ` set h" by (simp only: k)
qed

lemma balanced_addref:
  assumes b: "balanced refs hs h" and a: "a \<in> fst ` set h"
  shows "\<exists>h'. rc_addref a h = Inr h' \<and> balanced refs (a # hs) h' \<and> same_contents h h'"
proof -
  obtain n c where m: "map_of h a = Some (n, c)" "0 < n"
    using balanced_live [OF b] a balanced_live_iff [OF b] by blast
  have "rc_count h a = n" using m by (simp add: rc_count_def)
  then have "balanced refs (a # hs) (um_assign a (Suc n, c) h)"
    using b m by (auto simp: balanced_def inner_refs_assign keeps dom_update)
  with m show ?thesis by (auto simp: rc_addref_def same_contents_def umap_simps)
qed

lemma balanced_addrefs:
  "balanced refs hs h \<Longrightarrow> set as \<subseteq> fst ` set h \<Longrightarrow> \<exists>h'. rc_addrefs as h = Inr h' \<and> balanced refs (as @ hs) h' \<and> same_contents h h'"
proof (induction as arbitrary: hs h)
  case (Cons a as)
  from balanced_addref [OF Cons.prems(1), of a] Cons.prems(2) obtain h1 where
    h1: "rc_addref a h = Inr h1" "balanced refs (a # hs) h1" "same_contents h h1" by auto
  have "fst ` set h1 = fst ` set h" using same_contents_keys [OF h1(3)] by simp
  then obtain h' where h': "rc_addrefs as h1 = Inr h'" "balanced refs (as @ a # hs) h'" "same_contents h1 h'"
    using Cons.IH [OF h1(2)] Cons.prems(2) by auto
  have "balanced refs ((a # as) @ hs) h'" using h'(2) by (subst balanced_cong [of _ "as @ a # hs"]) simp_all
  with h1 h' same_contents_trans show ?case by auto
qed simp

lemma balanced_new:
  assumes b: "balanced refs (refs c @ hs) h" and "map_of h a = None"
  shows "balanced refs (a # hs) (rc_new a c h)"
proof -
  have "rc_count h a = 0" using assms(2) by (simp add: rc_count_def)
  then have "count_list hs a = 0" "count_list (refs c) a = 0" "count_list (inner_refs refs h) a = 0"
    using b by (simp_all add: balanced_def)
  moreover have "um_wf (rc_new a c h)" using assms by (simp add: balanced_def rc_new_def map_of_eq_None_iff)
  ultimately show ?thesis using b by (auto simp: balanced_def) (auto simp: rc_new_def)
qed

subsection \<open>Dropping references\<close>

text \<open>
  The contents of the objects of a heap that are still there are what they were: \<open>shrunk\<close>. The order of release:
  what a released object holds is not released before it.
\<close>

definition shrunk :: "('a, 'c) rc_heap \<Rightarrow> ('a, 'c) rc_heap \<Rightarrow> bool" where
  "shrunk h' h \<longleftrightarrow> (\<forall>a n' c. map_of h' a = Some (n', c) \<longrightarrow> (\<exists>n. n' \<le> n \<and> map_of h a = Some (n, c)))"

fun holders_first :: "('c \<Rightarrow> 'a list) \<Rightarrow> ('a, 'c) rc_heap \<Rightarrow> 'a list \<Rightarrow> bool" where
  "holders_first refs h [] \<longleftrightarrow> True"
| "holders_first refs h (b # gone) \<longleftrightarrow>
     (\<forall>a \<in> set gone. \<forall>n c. map_of h a = Some (n, c) \<longrightarrow> b \<notin> set (refs c)) \<and> holders_first refs h gone"

lemma keys_erase: "fst ` set (um_erase a h) = fst ` set h - {a}"
  by (induction h) auto

lemma shrunk_refl: "shrunk h h" by (auto simp: shrunk_def)

lemma shrunk_trans: "shrunk h'' h' \<Longrightarrow> shrunk h' h \<Longrightarrow> shrunk h'' h"
  unfolding shrunk_def by (meson order_trans)

lemma shrunk_erase: "shrunk (um_erase a h) h" by (auto simp: shrunk_def umap_simps split: if_splits)

lemma shrunk_assign: "map_of h a = Some (n, c) \<Longrightarrow> m \<le> n \<Longrightarrow> shrunk (um_assign a (m, c) h) h"
  by (auto simp: shrunk_def umap_simps split: if_splits)

lemma shrunk_keys: "shrunk h' h \<Longrightarrow> fst ` set h' \<subseteq> fst ` set h"
  by (auto simp: shrunk_def) (metis map_of_eq_None_iff image_eqI fst_conv not_None_eq prod.collapse option.simps(3))

lemma holders_first_shrunk:
  "shrunk h' h \<Longrightarrow> set gone \<subseteq> fst ` set h' \<Longrightarrow> holders_first refs h' gone \<Longrightarrow> holders_first refs h gone"
proof (induction gone)
  case (Cons b gone)
  have "map_of h a = Some (n, c) \<Longrightarrow> \<exists>n'. map_of h' a = Some (n', c)" if "a \<in> set gone" for a n c
  proof -
    have "map_of h' a \<noteq> None" using that Cons.prems by (auto simp: map_of_eq_None_iff)
    then obtain n' c' where "map_of h' a = Some (n', c')" by (cases "map_of h' a") auto
    moreover from this Cons.prems(1) obtain n'' where "map_of h a = Some (n'', c')" unfolding shrunk_def by blast
    ultimately show "map_of h a = Some (n, c) \<Longrightarrow> \<exists>n'. map_of h' a = Some (n', c)" by auto
  qed
  with Cons show ?case by (simp) blast
qed simp

lemma balanced_last:
  assumes b: "balanced refs (a # hs) h" and m: "map_of h a = Some (n, c)" and n: "n \<le> 1"
  shows "balanced refs (refs c @ hs) (um_erase a h)" and "a \<notin> set hs" and "a \<notin> set (inner_refs refs h)"
proof -
  have "rc_count h a = n" using m by (simp add: rc_count_def)
  moreover have "rc_count h a = Suc (count_list hs a + count_list (inner_refs refs h) a)" using b by (simp add: balanced_def)
  ultimately have z: "count_list hs a = 0" "count_list (inner_refs refs h) a = 0" using n by simp_all
  then show "a \<notin> set hs" "a \<notin> set (inner_refs refs h)" by (simp_all add: count_list_0_iff)
  have wf: "um_wf h" using b by (simp add: balanced_def)
  note inner = inner_refs_erase [OF wf m, of refs]
  show "balanced refs (refs c @ hs) (um_erase a h)"
    using b z inner inner [of a] by (auto simp: balanced_def keeps keys_erase)
qed

lemma balanced_drop:
  assumes b: "balanced refs (a # hs) h" and m: "map_of h a = Some (n, c)" and n: "1 < n"
  shows "balanced refs hs (um_assign a (n - 1, c) h)"
proof -
  have "rc_count h a = n" using m by (simp add: rc_count_def)
  with b m n show ?thesis by (auto simp: balanced_def inner_refs_assign keeps dom_update)
qed

lemma not_referenced: "map_of h a = Some (n, c) \<Longrightarrow> b \<in> set (refs c) \<Longrightarrow> b \<in> set (inner_refs refs h)"
  by (induction h) (auto simp: inner_refs_def split: if_splits)

lemma rc_release_balanced:
  "balanced refs (as @ hs) h \<Longrightarrow>
    \<exists>h' gone. rc_release refs as h = Inr (h', gone) \<and> balanced refs hs h' \<and> shrunk h' h \<and>
      distinct gone \<and> set gone = fst ` set h - fst ` set h' \<and> holders_first refs h gone"
proof (induction refs as h rule: rc_release.induct)
  case (1 refs h)
  then show ?case by (simp add: shrunk_refl)
next
  case (2 refs a as h)
  obtain n c where m: "map_of h a = Some (n, c)" "0 < n"
    using balanced_live [OF 2(3), of a] by auto
  show ?case
  proof (cases "n \<le> 1")
    case True
    note l = balanced_last [OF _ m(1) True, of refs "as @ hs"]
    have "balanced refs ((refs c @ as) @ hs) (um_erase a h)" using l(1) 2(3) by simp
    from 2(1) [OF m(1) _ True, simplified, OF refl, simplified, OF this [simplified]] obtain h' gone where
      r: "rc_release refs (refs c @ as) (um_erase a h) = Inr (h', gone)" and b: "balanced refs hs h'" and
      s: "shrunk h' (um_erase a h)" and d: "distinct gone" and g: "set gone = fst ` set (um_erase a h) - fst ` set h'" and
      o: "holders_first refs (um_erase a h) gone" by (auto simp: keys_erase)
    have sub: "set gone \<subseteq> fst ` set (um_erase a h)" using g by auto
    have a: "a \<notin> fst ` set h'" using shrunk_keys [OF s] by (auto simp: keys_erase)
    have ah: "a \<in> fst ` set h" using m by (metis map_of_eq_None_iff option.distinct(1))
    have "holders_first refs h (a # gone)"
      using holders_first_shrunk [OF shrunk_erase sub o] l(3) 2(3) not_referenced [of h _ _ _ a refs] by auto
    moreover have "a \<notin> set gone" "set (a # gone) = fst ` set h - fst ` set h'" using g a ah by (auto simp: keys_erase)
    ultimately show ?thesis
      using r b d True m shrunk_trans [OF s shrunk_erase] by (auto simp: rc_release.simps(2))
  next
    case False
    have "balanced refs (as @ hs) (um_assign a (n - 1, c) h)" using balanced_drop [OF _ m(1)] 2(3) False by simp
    from 2(2) [OF m(1) _ False, OF refl this] obtain h' gone where
      r: "rc_release refs as (um_assign a (n - 1, c) h) = Inr (h', gone)" and b: "balanced refs hs h'" and
      s: "shrunk h' (um_assign a (n - 1, c) h)" and d: "distinct gone" and
      g: "set gone = fst ` set (um_assign a (n - 1, c) h) - fst ` set h'" and
      o: "holders_first refs (um_assign a (n - 1, c) h) gone" by blast
    have ah: "a \<in> fst ` set h" using m by (metis map_of_eq_None_iff option.distinct(1))
    have s': "shrunk (um_assign a (n - 1, c) h) h" using m by (intro shrunk_assign) auto
    have "set gone \<subseteq> fst ` set (um_assign a (n - 1, c) h)" using g by auto
    from holders_first_shrunk [OF s' this o] show ?thesis
      using r b d g False m ah shrunk_trans [OF s s'] by (auto simp: rc_release.simps(2) dom_update)
  qed
qed

text \<open>An object that exchanges what it holds: what it gives up is the program's, what it takes over no longer is.\<close>

lemma balanced_content:
  assumes b: "balanced refs hs h" and m: "map_of h a = Some (n, c)"
    and exchange: "\<And>x. count_list hs x + count_list (refs c) x = count_list hs' x + count_list (refs c') x"
  shows "balanced refs hs' (um_assign a (n, c') h)"
proof -
  have n: "rc_count h a = n" using m by (simp add: rc_count_def)
  have ah: "a \<in> fst ` set h" using m by (metis map_of_eq_None_iff option.distinct(1))
  have "rc_count h x = count_list hs' x + count_list (inner_refs refs (um_assign a (n, c') h)) x" for x
    using b inner_refs_replace [OF m, of refs n c' x] exchange [of x] by (simp add: balanced_def)
  moreover have "rc_count (um_assign a (n, c') h) = rc_count h" using n by (simp add: fun_eq_iff)
  moreover have "fst ` set (um_assign a (n, c') h) = fst ` set h" using ah by (auto simp: dom_update)
  moreover have "\<forall>x \<in> fst ` set h. 0 < rc_count h x" "um_wf h" using b unfolding balanced_def by blast+
  ultimately show ?thesis unfolding balanced_def by (metis um_wf_assign)
qed

text \<open>
  Without cycles nothing survives its last handle: if every object can be given a rank above the ranks of what it holds,
  then a heap to which no handle is left is empty.
\<close>

definition acyclic_heap :: "('c \<Rightarrow> 'a list) \<Rightarrow> ('a \<Rightarrow> nat) \<Rightarrow> ('a, 'c) rc_heap \<Rightarrow> bool" where
  "acyclic_heap refs rank h \<longleftrightarrow> (\<forall>(a, n, c) \<in> set h. \<forall>b \<in> set (refs c). rank b < rank a)"

lemma balanced_no_handles:
  assumes b: "balanced refs [] h" and acyclic: "acyclic_heap refs rank h"
  shows "h = []"
proof (rule ccontr)
  assume "h \<noteq> []"
  then obtain a where a: "a \<in> fst ` set h" and top: "\<forall>x \<in> fst ` set h. rank x \<le> rank a"
  proof -
    have k: "fst ` set h \<noteq> {}" "finite (fst ` set h)" using \<open>h \<noteq> []\<close> by auto
    then have "Max (rank ` fst ` set h) \<in> rank ` fst ` set h" by (intro Max_in) auto
    then obtain a where "a \<in> fst ` set h" "rank a = Max (rank ` fst ` set h)" by (metis imageE)
    with k that show thesis by simp
  qed
  have "0 < count_list (inner_refs refs h) a" using a b by (auto simp: balanced_def)
  then have "a \<in> set (inner_refs refs h)" by (metis count_list_0_iff less_numeral_extra(3))
  then obtain x n c where "(x, n, c) \<in> set h" "a \<in> set (refs c)" by (auto simp: inner_refs_def)
  with acyclic top show False by (force simp: acyclic_heap_def)
qed

lemma acyclic_shrunk:
  assumes "um_wf h'" and "shrunk h' h" and "acyclic_heap refs rank h"
  shows "acyclic_heap refs rank h'"
  unfolding acyclic_heap_def
proof safe
  fix a n c b assume "(a, n, c) \<in> set h'" "b \<in> set (refs c)"
  then have "map_of h' a = Some (n, c)" using assms(1) by (simp add: um_wf_map_of_iff)
  then obtain m where "map_of h a = Some (m, c)" using assms(2) unfolding shrunk_def by blast
  then show "rank b < rank a" using assms(3) \<open>b \<in> set (refs c)\<close> by (auto simp: acyclic_heap_def dest!: map_of_SomeD)
qed

lemma rc_release_everything:
  assumes b: "balanced refs as h" and acyclic: "acyclic_heap refs rank h"
  shows "\<exists>gone. rc_release refs as h = Inr ([], gone) \<and> distinct gone \<and> set gone = fst ` set h \<and> holders_first refs h gone"
proof -
  from rc_release_balanced [of refs as "[]" h] b obtain h' gone where
    r: "rc_release refs as h = Inr (h', gone)" "balanced refs [] h'" "shrunk h' h" "distinct gone"
       "set gone = fst ` set h - fst ` set h'" "holders_first refs h gone" by auto
  have "um_wf h'" using r(2) by (simp add: balanced_def)
  then have "h' = []" using balanced_no_handles [OF r(2)] acyclic_shrunk r(3) acyclic by blast
  with r show ?thesis by auto
qed

text \<open>More precisely, what survives is within any set that is closed under holding and contains the handles left.\<close>

lemma survivors_reachable:
  assumes b: "balanced refs hs h" and acyclic: "acyclic_heap refs rank h"
    and R: "set hs \<subseteq> R" "\<And>a n c. map_of h a = Some (n, c) \<Longrightarrow> a \<in> R \<Longrightarrow> set (refs c) \<subseteq> R"
  shows "fst ` set h \<subseteq> R"
proof (rule ccontr)
  let ?D = "fst ` set h - R"
  assume "\<not> fst ` set h \<subseteq> R"
  then have k: "?D \<noteq> {}" "finite ?D" by auto
  then have "Max (rank ` ?D) \<in> rank ` ?D" by (intro Max_in) auto
  then obtain a where "a \<in> ?D" "rank a = Max (rank ` ?D)" by (metis imageE)
  with k have a: "a \<in> fst ` set h" "a \<notin> R" and top: "\<And>x. x \<in> ?D \<Longrightarrow> rank x \<le> rank a" by simp_all
  have "a \<in> set (inner_refs refs h)" using balanced_live_iff [OF b, of a] a R(1) by auto
  then obtain x n c where x: "(x, n, c) \<in> set h" "a \<in> set (refs c)" by (auto simp: inner_refs_def)
  have m: "map_of h x = Some (n, c)" using x(1) b by (simp add: balanced_def um_wf_map_of_iff)
  have "rank a < rank x" using acyclic x by (auto simp: acyclic_heap_def)
  moreover have "x \<notin> R" using R(2) [OF m] x(2) a(2) by auto
  then have "x \<in> ?D" using x(1) by force
  ultimately show False using top [of x] by simp
qed

text \<open>Dropping a reference that is not the last one only counts.\<close>

lemma rc_release_not_last:
  assumes b: "balanced refs (a # hs) h" and a: "a \<in> set hs \<union> set (inner_refs refs h)"
  shows "\<exists>h'. rc_release refs [a] h = Inr (h', []) \<and> balanced refs hs h' \<and> same_contents h h'"
proof -
  obtain n c where m: "map_of h a = Some (n, c)" using balanced_live [OF b, of a] by auto
  have "rc_count h a = n" using m by (simp add: rc_count_def)
  then have n: "1 < n" using b a by (auto simp: balanced_def simp flip: count_list_pos dest!: spec [of _ a])
  have "same_contents h (um_assign a (n - 1, c) h)" using m by (auto simp: same_contents_def umap_simps)
  moreover have "rc_release refs [a] h = Inr (um_assign a (n - 1, c) h, [])" using m n by (simp add: rc_release.simps)
  ultimately show ?thesis using balanced_drop [OF b m n] by auto
qed

lemma rc_release_held:
  "balanced refs (as @ hs) h \<Longrightarrow> set as \<subseteq> set hs \<Longrightarrow>
    \<exists>h'. rc_release refs as h = Inr (h', []) \<and> balanced refs hs h' \<and> same_contents h h'"
proof (induction as arbitrary: h)
  case (Cons a as)
  obtain n c where m: "map_of h a = Some (n, c)" using balanced_live [OF Cons.prems(1), of a] by auto
  have "rc_count h a = n" using m by (simp add: rc_count_def)
  moreover have "0 < count_list hs a" using Cons.prems(2) by (simp add: count_list_pos)
  ultimately have n: "1 < n" using Cons.prems(1) by (simp add: balanced_def)
  have "balanced refs (as @ hs) (um_assign a (n - 1, c) h)" using balanced_drop [OF _ m n] Cons.prems(1) by simp
  from Cons.IH [OF this] Cons.prems(2) obtain h' where
    h': "rc_release refs as (um_assign a (n - 1, c) h) = Inr (h', [])" "balanced refs hs h'" "same_contents (um_assign a (n - 1, c) h) h'"
    by auto
  have "same_contents h (um_assign a (n - 1, c) h)" using m by (auto simp: same_contents_def umap_simps)
  then show ?case using h' m n same_contents_trans by (auto simp: rc_release.simps(2))
qed simp

lemma holders_first_before:
  "holders_first refs h gone \<Longrightarrow> x \<in> set gone \<Longrightarrow> map_of h x = Some (n, c) \<Longrightarrow> y \<in> set (refs c) \<Longrightarrow>
    y \<notin> set (takeWhile (\<lambda>z. z \<noteq> x) gone)"
proof (induction gone)
  case (Cons b gone)
  show ?case
  proof (cases "b = x")
    case False
    then have "x \<in> set gone" using Cons.prems(2) by simp
    then have "b \<noteq> y" using Cons.prems(1,3,4) by auto
    with False Cons \<open>x \<in> set gone\<close> show ?thesis by simp
  qed simp
qed simp

text \<open>Objects that hold each other in a circle survive the last handle.\<close>

definition held_within :: "('c \<Rightarrow> 'a list) \<Rightarrow> 'a set \<Rightarrow> ('a, 'c) rc_heap \<Rightarrow> bool" where
  "held_within refs C h \<longleftrightarrow> (\<forall>a \<in> C. \<exists>x \<in> C. \<exists>n c. map_of h x = Some (n, c) \<and> a \<in> set (refs c))"

lemma rc_release_circle:
  "balanced refs (as @ hs) h \<Longrightarrow> held_within refs C h \<Longrightarrow> rc_release refs as h = Inr (h', gone) \<Longrightarrow> held_within refs C h'"
proof (induction refs as h arbitrary: h' gone rule: rc_release.induct)
  case (2 refs a as h)
  obtain n c where m: "map_of h a = Some (n, c)" "0 < n" using balanced_live [OF 2(3), of a] by auto
  show ?case
  proof (cases "n \<le> 1")
    case True
    have b: "balanced refs ((refs c @ as) @ hs) (um_erase a h)" "a \<notin> set (inner_refs refs h)"
      using balanced_last [OF _ m(1) True, of refs "as @ hs"] 2(3) by simp_all
    have "a \<notin> C" using 2(4) b(2) not_referenced [of h _ _ _ a refs] unfolding held_within_def by blast
    then have C: "held_within refs C (um_erase a h)" using 2(4) unfolding held_within_def by (metis map_of_delete)
    obtain gone' where "rc_release refs (refs c @ as) (um_erase a h) = Inr (h', gone')"
      using 2(5) m True by (cases "rc_release refs (refs c @ as) (um_erase a h)") (auto simp: rc_release.simps(2))
    with 2(1) [OF m(1) refl True b(1) C] show ?thesis by blast
  next
    case False
    have b: "balanced refs (as @ hs) (um_assign a (n - 1, c) h)" using balanced_drop [OF _ m(1)] 2(3) False by simp
    have C: "held_within refs C (um_assign a (n - 1, c) h)"
      unfolding held_within_def
    proof
      fix b assume "b \<in> C"
      then obtain x k d where "x \<in> C" "map_of h x = Some (k, d)" "b \<in> set (refs d)" using 2(4) unfolding held_within_def by blast
      then show "\<exists>x \<in> C. \<exists>n' c'. map_of (um_assign a (n - 1, c) h) x = Some (n', c') \<and> b \<in> set (refs c')"
        using m(1) by (intro bexI [of _ x]) (auto simp: umap_simps)
    qed
    have "rc_release refs as (um_assign a (n - 1, c) h) = Inr (h', gone)" using 2(5) m False by (simp add: rc_release.simps(2))
    with 2(2) [OF m(1) refl False b C] show ?thesis by blast
  qed
qed simp

subsection \<open>Programs that hold references\<close>

fun run_result :: "('s \<Rightarrow> 'op \<Rightarrow> 's result) \<Rightarrow> 's \<Rightarrow> 'op list \<Rightarrow> 's result" where
  "run_result step s [] = Inr s"
| "run_result step s (p # ps) = bind_result (step s p) (\<lambda>s'. run_result step s' ps)"

lemma run_result_append: "run_result step s (xs @ ys) = bind_result (run_result step s xs) (\<lambda>s'. run_result step s' ys)"
proof (induction xs arbitrary: s)
  case (Cons p ps)
  then show ?case by (cases "step s p") simp_all
qed simp

text \<open>Whether every operation of a run is allowed in its turn, and what the run loses.\<close>

fun all_allowed :: "('s \<Rightarrow> 'op \<Rightarrow> bool) \<Rightarrow> ('s \<Rightarrow> 'op \<Rightarrow> 's result) \<Rightarrow> 's \<Rightarrow> 'op list \<Rightarrow> bool" where
  "all_allowed ok step s [] \<longleftrightarrow> True"
| "all_allowed ok step s (p # ps) \<longleftrightarrow> ok s p \<and> (case step s p of Inl e \<Rightarrow> True | Inr s' \<Rightarrow> all_allowed ok step s' ps)"

fun all_lost :: "('s \<Rightarrow> 'op \<Rightarrow> 'a list) \<Rightarrow> ('s \<Rightarrow> 'op \<Rightarrow> 's result) \<Rightarrow> 's \<Rightarrow> 'op list \<Rightarrow> 'a list" where
  "all_lost lost step s [] = []"
| "all_lost lost step s (p # ps) = (case step s p of Inl e \<Rightarrow> [] | Inr s' \<Rightarrow> all_lost lost step s' ps @ lost s p)"

lemma all_allowed_append:
  "all_allowed ok step s (xs @ ys) \<longleftrightarrow>
     all_allowed ok step s xs \<and> (case run_result step s xs of Inl e \<Rightarrow> True | Inr s' \<Rightarrow> all_allowed ok step s' ys)"
proof (induction xs arbitrary: s)
  case (Cons p xs)
  then show ?case by (cases "step s p") simp_all
qed simp

lemma all_lost_append:
  "run_result step s xs = Inr s' \<Longrightarrow> all_lost lost step s (xs @ ys) = all_lost lost step s' ys @ all_lost lost step s xs"
proof (induction xs arbitrary: s)
  case (Cons p xs)
  then show ?case by (cases "step s p") simp_all
qed simp

text \<open>
  The interface of a component that holds counted references: its operations, the references it holds in a state, those an
  operation overwrites without dropping them (\<open>lost\<close>), and the law that an allowed operation succeeds and moves the counts
  accordingly.
\<close>

locale counted_client =
  fixes refs :: "'c \<Rightarrow> 'a list"
    and heap_of :: "'s \<Rightarrow> ('a, 'c) rc_heap"
    and held :: "'s \<Rightarrow> 'a list"
    and step :: "'s \<Rightarrow> 'op \<Rightarrow> 's result"
    and lost :: "'s \<Rightarrow> 'op \<Rightarrow> 'a list"
    and allowed :: "'s \<Rightarrow> 'op \<Rightarrow> bool"
    and invar :: "'s \<Rightarrow> bool"
  assumes step_balanced:
    "invar s \<Longrightarrow> allowed s p \<Longrightarrow> balanced refs (held s @ gone) (heap_of s) \<Longrightarrow>
      \<exists>s'. step s p = Inr s' \<and> invar s' \<and> balanced refs (held s' @ lost s p @ gone) (heap_of s')"
begin

lemma run_balanced:
  "invar s \<Longrightarrow> all_allowed allowed step s ps \<Longrightarrow> balanced refs (held s @ gone) (heap_of s) \<Longrightarrow>
    \<exists>s'. run_result step s ps = Inr s' \<and> invar s' \<and> balanced refs (held s' @ all_lost lost step s ps @ gone) (heap_of s')"
proof (induction ps arbitrary: s gone)
  case (Cons p ps)
  then obtain s' where s': "step s p = Inr s'" "invar s'" "balanced refs (held s' @ lost s p @ gone) (heap_of s')"
    using step_balanced [of s p gone] by auto
  then show ?case using Cons.IH [of s' "lost s p @ gone"] Cons.prems by simp
qed simp

text \<open>When all is dropped and nothing was lost, nothing is left; what was lost stays.\<close>

lemma run_releases_all:
  assumes "invar s" "all_allowed allowed step s ps" "balanced refs (held s) (heap_of s)" "all_lost lost step s ps = []"
    and s': "run_result step s ps = Inr s'" "held s' = []" "acyclic_heap refs rank (heap_of s')"
  shows "heap_of s' = []"
  using run_balanced [of s ps "[]"] assms balanced_no_handles [of refs "heap_of s'" rank] by auto

lemma lost_stays:
  assumes "invar s" "all_allowed allowed step s ps" "balanced refs (held s) (heap_of s)" "run_result step s ps = Inr s'" "a \<in> set (all_lost lost step s ps)"
  shows "a \<in> fst ` set (heap_of s')"
proof -
  have "balanced refs (held s' @ all_lost lost step s ps) (heap_of s')" using run_balanced [of s ps "[]"] assms by auto
  from balanced_live [OF this, of a] assms(5) show ?thesis by (force dest: map_of_SomeD)
qed

end

end
