(* ===== verification/AutoZvals.thy ===== *)
theory AutoZvals
  imports Refcount ModuleFunctions
begin

text \<open>
  The ownership of PHP values: \<open>AutoZval\<close> (\<open>libphpbridge/code/AutoZval.h\<close>) as a holder of counted references, and the
  functions that build arrays with it (\<open>OtlpExporter/ConverterHelpers.h\<close>, \<open>extension/code/ModuleFunctions.cpp\<close>).

  A \<open>zval\<close> is a plain value or a reference to a counted object of the engine (\<open>S_counted\<close>); strings the engine interns are
  not counted. The macros of the engine are what its documentation says: \<open>ZVAL_COPY\<close> takes a reference, \<open>zval_ptr_dtor\<close> drops
  one, \<open>ZVAL_STRINGL\<close> and \<open>array_init\<close> store a new object that is held once, the \<open>add_\<close> functions of arrays take over
  the reference of what is added. A new object has an address that is not in use (\<open>fresh_address\<close>).
\<close>

subsection \<open>Counted values\<close>

datatype zslot = S_undef | S_null | S_bool bool | S_long i64 | S_double u64 | S_interned string | S_counted nat

datatype zcell =
    C_string string
  | C_array "(array_key \<times> zslot) list \<times> i64"
  | C_object "zslot list"
  | C_reference zslot

fun slot_refs :: "zslot \<Rightarrow> nat list" where
  "slot_refs (S_counted a) = [a]"
| "slot_refs _ = []"

fun cell_refs :: "zcell \<Rightarrow> nat list" where
  "cell_refs (C_string s) = []"
| "cell_refs (C_array arr) = concat (map (\<lambda>(k, v). slot_refs v) (fst arr))"
| "cell_refs (C_object ps) = concat (map slot_refs ps)"
| "cell_refs (C_reference v) = slot_refs v"

type_synonym zheap = "(nat, zcell) rc_heap"

definition fresh_address :: "zheap \<Rightarrow> nat" where
  "fresh_address h = Suc (foldr max (map fst h) 0)"

lemma fresh_address: "map_of h (fresh_address h) = None"
proof -
  have "a \<in> fst ` set h \<Longrightarrow> a \<le> foldr max (map fst h) 0" for a by (induction h) (auto simp: le_max_iff_disj)
  then show ?thesis by (force simp: fresh_address_def map_of_eq_None_iff)
qed

definition zval_ptr_dtor :: "zslot \<Rightarrow> zheap \<Rightarrow> zheap result" where
  "zval_ptr_dtor v h = map_sum id fst (rc_release cell_refs (slot_refs v) h)"

text \<open>\<open>Z_TRY_ADDREF_P\<close>, the part of \<open>ZVAL_COPY\<close> that counts.\<close>

definition try_addref :: "zslot \<Rightarrow> zheap \<Rightarrow> zheap result" where
  "try_addref v h = rc_addrefs (slot_refs v) h"

text \<open>\<open>add_next_index_zval\<close>: fails, and adds nothing, when the next index is in use.\<close>

definition add_next_index :: "'v \<Rightarrow> (array_key \<times> 'v) list \<times> i64 \<Rightarrow> ((array_key \<times> 'v) list \<times> i64) option" where
  "add_next_index v = (\<lambda>(slots, next_free).
     (let h = (if next_free = - (2 ^ 63) then 0 else next_free)
      in if map_of slots (Key_index h) \<noteq> None then None
         else Some (slots @ [(Key_index h, v)], if sint h < 2 ^ 63 - 1 then h + 1 else h)))"

subsection \<open>\<open>AutoZval\<close>\<close>

text \<open>The objects of type \<open>AutoZval\<close> that exist, by name, with the \<open>zval\<close> each holds.\<close>

record zstate =
  az_heap :: zheap
  az_vars :: "(string, zslot) umap"

definition var_slot :: "string \<Rightarrow> zstate \<Rightarrow> zslot result" where
  "var_slot v s = (case map_of (az_vars s) v of None \<Rightarrow> Inl (Undefined ''use of a destroyed object'') | Some z \<Rightarrow> Inr z)"

abbreviation put_slot :: "string \<Rightarrow> zslot \<Rightarrow> zstate \<Rightarrow> zstate" where
  "put_slot v z s \<equiv> s\<lparr>az_vars := um_assign v z (az_vars s)\<rparr>"

definition AutoZval_default :: "string \<Rightarrow> zstate \<Rightarrow> zstate result" where
  "AutoZval_default v s = Inr (put_slot v S_undef s)"

text \<open>\<open>AutoZval(zval *)\<close>; the pointer is null or points to the value of another object.\<close>

definition AutoZval_pointer :: "string \<Rightarrow> string option \<Rightarrow> zstate \<Rightarrow> zstate result" where
  "AutoZval_pointer v zv s =
     (case zv of
        None \<Rightarrow> Inr (put_slot v S_null s)
      | Some w \<Rightarrow> bind_result (var_slot w s) (\<lambda>z.
          bind_result (try_addref z (az_heap s)) (\<lambda>h. Inr (put_slot v z (s\<lparr>az_heap := h\<rparr>)))))"

text \<open>\<open>operator=(AutoZval const &)\<close>: drops the old value, then copies.\<close>

definition AutoZval_copy_assign :: "string \<Rightarrow> string \<Rightarrow> zstate \<Rightarrow> zstate result" where
  "AutoZval_copy_assign v other s =
     bind_result (var_slot v s) (\<lambda>old.
     bind_result (zval_ptr_dtor old (az_heap s)) (\<lambda>h.
     bind_result (var_slot other s) (\<lambda>z.
     bind_result (try_addref z h) (\<lambda>h. Inr (put_slot v z (s\<lparr>az_heap := h\<rparr>))))))"

text \<open>Moving, for the constructor and the assignment alike: the bytes are copied and the source is made undefined.\<close>

definition AutoZval_move :: "string \<Rightarrow> string \<Rightarrow> zstate \<Rightarrow> zstate result" where
  "AutoZval_move v other s = bind_result (var_slot other s) (\<lambda>z. Inr (put_slot other S_undef (put_slot v z s)))"

text \<open>\<open>set\<close> and the other setters store over what is there.\<close>

definition AutoZval_set :: "string \<Rightarrow> native \<Rightarrow> zstate \<Rightarrow> zstate result" where
  "AutoZval_set v val s =
     Inr (case val of
        N_double d \<Rightarrow> put_slot v (S_double d) s
      | N_string str \<Rightarrow>
          let a = fresh_address (az_heap s) in put_slot v (S_counted a) (s\<lparr>az_heap := rc_new a (C_string str) (az_heap s)\<rparr>)
      | N_nullptr \<Rightarrow> put_slot v S_null s
      | N_bool b \<Rightarrow> put_slot v (S_long (if b then 1 else 0)) s
      | N_integer n \<Rightarrow> put_slot v (S_long n) s)"

definition setString :: "string \<Rightarrow> string \<Rightarrow> zstate \<Rightarrow> zstate result" where
  "setString v str = AutoZval_set v (N_string str)"

definition setLong :: "string \<Rightarrow> i64 \<Rightarrow> zstate \<Rightarrow> zstate result" where
  "setLong v n s = Inr (put_slot v (S_long n) s)"

definition setNull :: "string \<Rightarrow> zstate \<Rightarrow> zstate result" where
  "setNull v s = Inr (put_slot v S_null s)"

definition setDouble :: "string \<Rightarrow> u64 \<Rightarrow> zstate \<Rightarrow> zstate result" where
  "setDouble v d s = Inr (put_slot v (S_double d) s)"

definition arrayInit :: "string \<Rightarrow> zstate \<Rightarrow> zstate result" where
  "arrayInit v s =
     (let a = fresh_address (az_heap s)
      in Inr (put_slot v (S_counted a) (s\<lparr>az_heap := rc_new a (C_array empty_array) (az_heap s)\<rparr>)))"

text \<open>The array a value holds. The functions of the engine do not test the type: anything else is undefined behaviour.\<close>

definition array_of :: "zslot \<Rightarrow> zheap \<Rightarrow> (nat \<times> nat \<times> (array_key \<times> zslot) list \<times> i64) result" where
  "array_of z h =
     (case z of
        S_counted a \<Rightarrow>
          (case map_of h a of
             Some (n, C_array arr) \<Rightarrow> Inr (a, n, arr)
           | Some _ \<Rightarrow> Inl (Undefined ''not an array'')
           | None \<Rightarrow> Inl (Undefined ''use of a released object''))
      | _ \<Rightarrow> Inl (Undefined ''not an array''))"

definition arrayAddNextWithRef :: "string \<Rightarrow> string \<Rightarrow> zstate \<Rightarrow> zstate result" where
  "arrayAddNextWithRef v val s =
     bind_result (var_slot val s) (\<lambda>z.
     bind_result (try_addref z (az_heap s)) (\<lambda>h.
     bind_result (var_slot v s) (\<lambda>target.
     bind_result (array_of target h) (\<lambda>(a, n, arr).
       case add_next_index z arr of
         None \<Rightarrow> Inr (s\<lparr>az_heap := h\<rparr>)
       | Some arr' \<Rightarrow> Inr (s\<lparr>az_heap := um_assign a (n, C_array arr') h\<rparr>)))))"

definition arrayAddAssocWithRef :: "string \<Rightarrow> string \<Rightarrow> string \<Rightarrow> zstate \<Rightarrow> zstate result" where
  "arrayAddAssocWithRef v key val s =
     bind_result (var_slot val s) (\<lambda>z.
     bind_result (try_addref z (az_heap s)) (\<lambda>h.
     bind_result (var_slot v s) (\<lambda>target.
     bind_result (array_of target h) (\<lambda>(a, n, arr).
     bind_result
       (zval_ptr_dtor (case map_of (fst arr) (symtable_key key) of None \<Rightarrow> S_undef | Some old \<Rightarrow> old)
          (um_assign a (n, C_array (add_assoc key z arr)) h)) (\<lambda>h. Inr (s\<lparr>az_heap := h\<rparr>))))))"

definition AutoZval_destroy :: "string \<Rightarrow> zstate \<Rightarrow> zstate result" where
  "AutoZval_destroy v s =
     bind_result (var_slot v s) (\<lambda>z.
     bind_result (zval_ptr_dtor z (az_heap s)) (\<lambda>h. Inr (s\<lparr>az_heap := h, az_vars := um_erase v (az_vars s)\<rparr>)))"

text \<open>The operations as data. \<open>Op_answer\<close> is the engine storing a value it hands over, as a call does with its result.\<close>

datatype az_op =
    Op_default string
  | Op_pointer string "string option"
  | Op_copy_assign string string
  | Op_move string string
  | Op_set string native
  | Op_array_init string
  | Op_add_next string string
  | Op_add_assoc string string string
  | Op_answer string zslot
  | Op_destroy string

fun az_step :: "zstate \<Rightarrow> az_op \<Rightarrow> zstate result" where
  "az_step s (Op_default v) = AutoZval_default v s"
| "az_step s (Op_pointer v zv) = AutoZval_pointer v zv s"
| "az_step s (Op_copy_assign v w) = AutoZval_copy_assign v w s"
| "az_step s (Op_move v w) = AutoZval_move v w s"
| "az_step s (Op_set v n) = AutoZval_set v n s"
| "az_step s (Op_array_init v) = arrayInit v s"
| "az_step s (Op_add_next v w) = arrayAddNextWithRef v w s"
| "az_step s (Op_add_assoc v key w) = arrayAddAssocWithRef v key w s"
| "az_step s (Op_answer v z) = bind_result (try_addref z (az_heap s)) (\<lambda>h. Inr (put_slot v z (s\<lparr>az_heap := h\<rparr>)))"
| "az_step s (Op_destroy v) = AutoZval_destroy v s"

subsection \<open>The references an \<open>AutoZval\<close> holds\<close>

definition held_refs :: "zstate \<Rightarrow> nat list" where
  "held_refs s = concat (map (\<lambda>(v, z). slot_refs z) (az_vars s))"

abbreviation old_refs :: "string \<Rightarrow> zstate \<Rightarrow> nat list" where
  "old_refs v s \<equiv> (case map_of (az_vars s) v of None \<Rightarrow> [] | Some z \<Rightarrow> slot_refs z)"

text \<open>What an operation stores over without dropping it, and what a failing append does not take over.\<close>

fun az_lost :: "zstate \<Rightarrow> az_op \<Rightarrow> nat list" where
  "az_lost s (Op_default v) = old_refs v s"
| "az_lost s (Op_pointer v zv) = old_refs v s"
| "az_lost s (Op_move v w) = old_refs v s"
| "az_lost s (Op_set v n) = old_refs v s"
| "az_lost s (Op_array_init v) = old_refs v s"
| "az_lost s (Op_answer v z) = old_refs v s"
| "az_lost s (Op_add_next v w) =
     (case (map_of (az_vars s) v, map_of (az_vars s) w) of
        (Some target, Some z) \<Rightarrow>
          (case array_of target (az_heap s) of
             Inr (a, n, arr) \<Rightarrow> (if add_next_index z arr = None then slot_refs z else [])
           | Inl _ \<Rightarrow> [])
      | _ \<Rightarrow> [])"
| "az_lost s _ = []"

text \<open>The operations a correct caller makes: on objects that exist, on arrays, and not copying an object to itself.\<close>

definition is_array :: "string \<Rightarrow> zstate \<Rightarrow> bool" where
  "is_array v s \<longleftrightarrow> (case map_of (az_vars s) v of None \<Rightarrow> False | Some z \<Rightarrow> \<not> isl (array_of z (az_heap s)))"

fun az_allowed :: "zstate \<Rightarrow> az_op \<Rightarrow> bool" where
  "az_allowed s (Op_pointer v (Some w)) \<longleftrightarrow> map_of (az_vars s) w \<noteq> None"
| "az_allowed s (Op_copy_assign v w) \<longleftrightarrow> map_of (az_vars s) v \<noteq> None \<and> map_of (az_vars s) w \<noteq> None \<and> v \<noteq> w"
| "az_allowed s (Op_move v w) \<longleftrightarrow> map_of (az_vars s) w \<noteq> None"
| "az_allowed s (Op_add_next v w) \<longleftrightarrow> is_array v s \<and> map_of (az_vars s) w \<noteq> None"
| "az_allowed s (Op_add_assoc v key w) \<longleftrightarrow> is_array v s \<and> map_of (az_vars s) w \<noteq> None"
| "az_allowed s (Op_answer v z) \<longleftrightarrow> set (slot_refs z) \<subseteq> fst ` set (az_heap s)"
| "az_allowed s (Op_destroy v) \<longleftrightarrow> map_of (az_vars s) v \<noteq> None"
| "az_allowed s _ \<longleftrightarrow> True"

lemma slot_refs_le1: "slot_refs z = [] \<or> (\<exists>a. z = S_counted a \<and> slot_refs z = [a])" by (cases z) auto

text \<open>\<open>held_refs\<close> counts like the contents of a heap: an update exchanges the references of one object.\<close>

definition refs_count :: "('k, zslot) umap \<Rightarrow> nat \<Rightarrow> nat" where
  "refs_count m a = count_list (concat (map (\<lambda>(v, z). slot_refs z) m)) a"

lemma held_refs_count: "count_list (held_refs s) a = refs_count (az_vars s) a"
  by (simp add: held_refs_def refs_count_def)

lemma refs_count_assign:
  "refs_count (um_assign v z m) a + count_list (case map_of m v of None \<Rightarrow> [] | Some old \<Rightarrow> slot_refs old) a
     = refs_count m a + count_list (slot_refs z) a"
  by (induction m) (auto simp: refs_count_def split: option.splits)

lemma refs_count_erase:
  "um_wf m \<Longrightarrow> refs_count (um_erase v m) a + count_list (case map_of m v of None \<Rightarrow> [] | Some old \<Rightarrow> slot_refs old) a = refs_count m a"
proof (induction m)
  case (Cons e m)
  obtain w z where e: "e = (w, z)" by (cases e)
  show ?case
  proof (cases "w = v")
    case True
    then have "um_erase v m = m" "map_of m v = None" using Cons.prems e by (simp_all add: map_of_eq_None_iff)
    with True e show ?thesis by (simp add: refs_count_def)
  next
    case False
    with Cons e show ?thesis by (simp add: refs_count_def split: option.splits)
  qed
qed (simp add: refs_count_def)

lemma refs_count_ge: "map_of m v = Some z \<Longrightarrow> count_list (slot_refs z) a \<le> refs_count m a"
  by (induction m) (auto simp: refs_count_def split: if_splits)

lemma held_live: "map_of (az_vars s) v = Some z \<Longrightarrow> set (slot_refs z) \<subseteq> set (held_refs s)"
proof -
  assume "map_of (az_vars s) v = Some z"
  then have "(v, z) \<in> set (az_vars s)" by (rule map_of_SomeD)
  then show ?thesis by (auto simp: held_refs_def)
qed

subsection \<open>Every operation keeps the balance\<close>

lemma try_addref_balanced:
  assumes b: "balanced cell_refs hs h" and z: "set (slot_refs z) \<subseteq> fst ` set h"
  shows "\<exists>h'. try_addref z h = Inr h' \<and> balanced cell_refs (slot_refs z @ hs) h' \<and> same_contents h h'"
proof (cases z)
  case (S_counted a)
  with z obtain h' where "rc_addref a h = Inr h'" "balanced cell_refs (a # hs) h'" "same_contents h h'"
    using balanced_addref [OF b, of a] by auto
  with S_counted show ?thesis by (simp add: try_addref_def)
qed (use b in \<open>simp_all add: try_addref_def\<close>)

lemma zval_ptr_dtor_balanced:
  assumes "balanced cell_refs (slot_refs z @ hs) h"
  shows "\<exists>h'. zval_ptr_dtor z h = Inr h' \<and> balanced cell_refs hs h' \<and> shrunk h' h"
  using rc_release_balanced [OF assms] by (auto simp: zval_ptr_dtor_def)

lemma put_balanced:
  assumes "balanced cell_refs (slot_refs z @ held_refs s @ gone) h"
  shows "balanced cell_refs (held_refs (put_slot v z (s\<lparr>az_heap := h\<rparr>)) @ old_refs v s @ gone) h"
proof -
  have "count_list (slot_refs z @ held_refs s @ gone) a
      = count_list (held_refs (put_slot v z (s\<lparr>az_heap := h\<rparr>)) @ old_refs v s @ gone) a" for a
    using refs_count_assign [of v z "az_vars s" a] by (simp add: held_refs_count)
  with assms show ?thesis using balanced_cong by blast
qed

lemma var_in_heap:
  assumes "balanced cell_refs (held_refs s @ gone) (az_heap s)" and "map_of (az_vars s) v = Some z"
  shows "set (slot_refs z) \<subseteq> fst ` set (az_heap s)"
  using held_live [OF assms(2)] balanced_live_iff [OF assms(1)] by auto

lemma new_balanced:
  assumes "balanced cell_refs (held_refs s @ gone) (az_heap s)" and "cell_refs c = []"
  shows "balanced cell_refs (slot_refs (S_counted (fresh_address (az_heap s))) @ held_refs s @ gone)
           (rc_new (fresh_address (az_heap s)) c (az_heap s))"
  using balanced_new [of cell_refs c "held_refs s @ gone" "az_heap s" "fresh_address (az_heap s)"] assms
  by (simp add: fresh_address)

lemma array_of_Inr: "array_of z h = Inr (a, n, arr) \<longleftrightarrow> z = S_counted a \<and> map_of h a = Some (n, C_array arr)"
proof (cases z)
  case (S_counted b)
  show ?thesis
  proof (cases "map_of h b")
    case (Some e)
    then show ?thesis using S_counted by (cases e, cases "snd e") (auto simp: array_of_def)
  qed (use S_counted in \<open>auto simp: array_of_def\<close>)
qed (simp_all add: array_of_def)

lemma is_array_obtain:
  assumes "is_array v s" and "same_contents (az_heap s) h"
  obtains a n m arr where "map_of (az_vars s) v = Some (S_counted a)"
    "array_of (S_counted a) (az_heap s) = Inr (a, n, arr)" "array_of (S_counted a) h = Inr (a, m, arr)"
proof -
  obtain a n arr where v: "map_of (az_vars s) v = Some (S_counted a)" "map_of (az_heap s) a = Some (n, C_array arr)"
  proof (cases "map_of (az_vars s) v")
    case (Some z)
    with assms(1) obtain r where r: "array_of z (az_heap s) = Inr r" by (cases "array_of z (az_heap s)") (simp_all add: is_array_def)
    obtain a n arr where "r = (a, n, arr)" by (rule prod_cases3)
    with Some r that show thesis by (simp add: array_of_Inr)
  qed (use assms(1) in \<open>simp add: is_array_def\<close>)
  have "map_option snd (map_of (az_heap s) a) = map_option snd (map_of h a)" using assms(2) by (simp add: same_contents_def)
  with v obtain m where "map_of h a = Some (m, C_array arr)" by (cases "map_of h a") auto
  with v that [of a n arr m] show thesis by (simp add: array_of_Inr)
qed

lemma append_refs:
  "add_next_index z arr = Some arr' \<Longrightarrow> cell_refs (C_array arr') = cell_refs (C_array arr) @ slot_refs z"
  by (cases arr) (auto simp: add_next_index_def Let_def split: if_splits)

lemma assoc_refs:
  "count_list (cell_refs (C_array (add_assoc key z arr))) x
     + count_list (slot_refs (case map_of (fst arr) (symtable_key key) of None \<Rightarrow> S_undef | Some old \<Rightarrow> old)) x
   = count_list (cell_refs (C_array arr)) x + count_list (slot_refs z) x"
  using refs_count_assign [of "symtable_key key" z "fst arr" x]
  by (cases arr) (auto simp: add_assoc_def refs_count_def split: option.splits)

lemma AutoZval_set_balanced:
  assumes "balanced cell_refs (held_refs s @ gone) (az_heap s)"
  shows "\<exists>s'. AutoZval_set v val s = Inr s' \<and> balanced cell_refs (held_refs s' @ old_refs v s @ gone) (az_heap s') \<and>
    (\<exists>z. az_vars s' = um_assign v z (az_vars s))"
proof (cases val)
  case (N_string str)
  then show ?thesis using put_balanced [OF new_balanced [OF assms, of "C_string str"], of v]
    by (auto simp: AutoZval_set_def Let_def)
next
  case (N_bool b)
  then show ?thesis using put_balanced [of "S_long (if b then 1 else 0)" s gone "az_heap s" v] assms by (auto simp: AutoZval_set_def)
next
  case (N_double d)
  then show ?thesis using put_balanced [of "S_double d" s gone "az_heap s" v] assms by (auto simp: AutoZval_set_def)
next
  case N_nullptr
  then show ?thesis using put_balanced [of S_null s gone "az_heap s" v] assms by (auto simp: AutoZval_set_def)
next
  case (N_integer n)
  then show ?thesis using put_balanced [of "S_long n" s gone "az_heap s" v] assms by (auto simp: AutoZval_set_def)
qed

lemma arrayAddNextWithRef_balanced:
  assumes b: "balanced cell_refs (held_refs s @ gone) (az_heap s)" and ok: "is_array v s" and w: "map_of (az_vars s) w = Some z"
  shows "\<exists>s'. arrayAddNextWithRef v w s = Inr s' \<and> az_vars s' = az_vars s \<and>
    balanced cell_refs (held_refs s' @ az_lost s (Op_add_next v w) @ gone) (az_heap s')"
proof -
  obtain h where h: "try_addref z (az_heap s) = Inr h" "balanced cell_refs (slot_refs z @ held_refs s @ gone) h" "same_contents (az_heap s) h"
    using try_addref_balanced [OF b var_in_heap [OF b w]] by blast
  obtain a n m arr where a: "map_of (az_vars s) v = Some (S_counted a)" "array_of (S_counted a) (az_heap s) = Inr (a, n, arr)"
    "array_of (S_counted a) h = Inr (a, m, arr)" using is_array_obtain [OF ok h(3)] .
  show ?thesis
  proof (cases "add_next_index z arr")
    case None
    have "balanced cell_refs (held_refs s @ slot_refs z @ gone) h" using h(2) by (subst balanced_cong [of _ "slot_refs z @ held_refs s @ gone"]) auto
    then show ?thesis using None w h(1) a by (simp add: arrayAddNextWithRef_def var_slot_def held_refs_def)
  next
    case (Some arr')
    have "map_of h a = Some (m, C_array arr)" using a(3) by (simp add: array_of_Inr)
    from balanced_content [OF h(2) this, of "held_refs s @ gone" "C_array arr'"]
    have "balanced cell_refs (held_refs s @ gone) (um_assign a (m, C_array arr') h)"
      by (simp add: append_refs [OF Some] del: cell_refs.simps)
    then show ?thesis using Some w h(1) a by (simp add: arrayAddNextWithRef_def var_slot_def held_refs_def)
  qed
qed

lemma arrayAddAssocWithRef_balanced:
  assumes b: "balanced cell_refs (held_refs s @ gone) (az_heap s)" and ok: "is_array v s" and w: "map_of (az_vars s) w = Some z"
  shows "\<exists>s'. arrayAddAssocWithRef v key w s = Inr s' \<and> az_vars s' = az_vars s \<and>
    balanced cell_refs (held_refs s' @ gone) (az_heap s')"
proof -
  obtain h where h: "try_addref z (az_heap s) = Inr h" "balanced cell_refs (slot_refs z @ held_refs s @ gone) h" "same_contents (az_heap s) h"
    using try_addref_balanced [OF b var_in_heap [OF b w]] by blast
  obtain a n m arr where a: "map_of (az_vars s) v = Some (S_counted a)" "array_of (S_counted a) (az_heap s) = Inr (a, n, arr)"
    "array_of (S_counted a) h = Inr (a, m, arr)" using is_array_obtain [OF ok h(3)] .
  let ?old = "case map_of (fst arr) (symtable_key key) of None \<Rightarrow> S_undef | Some old \<Rightarrow> old"
  have "map_of h a = Some (m, C_array arr)" using a(3) by (simp add: array_of_Inr)
  from balanced_content [OF h(2) this, of "slot_refs ?old @ held_refs s @ gone" "C_array (add_assoc key z arr)"]
  have "balanced cell_refs (slot_refs ?old @ held_refs s @ gone) (um_assign a (m, C_array (add_assoc key z arr)) h)"
    using assoc_refs [of key z arr] by (simp add: add.commute del: cell_refs.simps)
  from zval_ptr_dtor_balanced [OF this] obtain h' where
    "zval_ptr_dtor ?old (um_assign a (m, C_array (add_assoc key z arr)) h) = Inr h'" "balanced cell_refs (held_refs s @ gone) h'" by blast
  then show ?thesis using w h(1) a by (simp add: arrayAddAssocWithRef_def var_slot_def held_refs_def)
qed

lemma balanced_without_var:
  assumes "um_wf (az_vars s)" and "balanced cell_refs (held_refs s @ gone) h" and "map_of (az_vars s) v = Some z"
  shows "balanced cell_refs (slot_refs z @ held_refs (s\<lparr>az_vars := um_erase v (az_vars s)\<rparr>) @ gone) h"
proof -
  have "count_list (held_refs s @ gone) x
      = count_list (slot_refs z @ held_refs (s\<lparr>az_vars := um_erase v (az_vars s)\<rparr>) @ gone) x" for x
    using refs_count_erase [OF assms(1), of v x] assms(3) by (simp only: count_list_append held_refs_count option.simps) simp
  with assms(2) show ?thesis using balanced_cong by blast
qed

lemma AutoZval_copy_assign_balanced:
  assumes wf: "um_wf (az_vars s)" and b: "balanced cell_refs (held_refs s @ gone) (az_heap s)"
    and v: "map_of (az_vars s) v = Some old" and w: "map_of (az_vars s) w = Some z" and "v \<noteq> w"
  shows "\<exists>s'. AutoZval_copy_assign v w s = Inr s' \<and> um_wf (az_vars s') \<and> balanced cell_refs (held_refs s' @ gone) (az_heap s')"
proof -
  let ?r = "s\<lparr>az_vars := um_erase v (az_vars s)\<rparr>"
  from zval_ptr_dtor_balanced [OF balanced_without_var [OF wf b v]] obtain h1 where
    h1: "zval_ptr_dtor old (az_heap s) = Inr h1" "balanced cell_refs (held_refs ?r @ gone) h1" by blast
  have "map_of (az_vars ?r) w = Some z" using w \<open>v \<noteq> w\<close> by simp
  then have "set (slot_refs z) \<subseteq> set (held_refs ?r)" by (rule held_live)
  then have "set (slot_refs z) \<subseteq> fst ` set h1" using balanced_live_iff [OF h1(2)] by auto
  from try_addref_balanced [OF h1(2) this] obtain h2 where
    h2: "try_addref z h1 = Inr h2" "balanced cell_refs (slot_refs z @ held_refs ?r @ gone) h2" by blast
  have "count_list (slot_refs z @ held_refs ?r @ gone) x = count_list (held_refs (put_slot v z (s\<lparr>az_heap := h2\<rparr>)) @ gone) x" for x
    using refs_count_assign [of v z "az_vars s" x] refs_count_erase [OF wf, of v x] v by (simp add: held_refs_count)
  then have "balanced cell_refs (held_refs (put_slot v z (s\<lparr>az_heap := h2\<rparr>)) @ gone) h2" using h2(2) balanced_cong by blast
  then show ?thesis using v w h1(1) h2(1) wf by (simp add: AutoZval_copy_assign_def var_slot_def keeps)
qed

lemma AutoZval_destroy_balanced:
  assumes wf: "um_wf (az_vars s)" and b: "balanced cell_refs (held_refs s @ gone) (az_heap s)" and v: "map_of (az_vars s) v = Some z"
  shows "\<exists>h. AutoZval_destroy v s = Inr (s\<lparr>az_heap := h, az_vars := um_erase v (az_vars s)\<rparr>) \<and>
    balanced cell_refs (held_refs (s\<lparr>az_heap := h, az_vars := um_erase v (az_vars s)\<rparr>) @ gone) h"
proof -
  let ?r = "s\<lparr>az_vars := um_erase v (az_vars s)\<rparr>"
  from zval_ptr_dtor_balanced [OF balanced_without_var [OF wf b v]] obtain h where
    "zval_ptr_dtor z (az_heap s) = Inr h" "balanced cell_refs (held_refs ?r @ gone) h" by blast
  then show ?thesis using v by (intro exI [of _ h]) (simp add: AutoZval_destroy_def var_slot_def held_refs_def)
qed

lemma AutoZval_move_balanced:
  assumes b: "balanced cell_refs (held_refs s @ gone) (az_heap s)" and w: "map_of (az_vars s) w = Some z"
  shows "balanced cell_refs (held_refs (put_slot w S_undef (put_slot v z s)) @ old_refs v s @ gone) (az_heap s)"
proof -
  have "count_list (held_refs s @ gone) x = count_list (held_refs (put_slot w S_undef (put_slot v z s)) @ old_refs v s @ gone) x" for x
    using refs_count_assign [of v z "az_vars s" x] refs_count_assign [of w S_undef "um_assign v z (az_vars s)" x] w
    by (cases "v = w") (simp_all add: held_refs_count update_conv')
  with b show ?thesis using balanced_cong by blast
qed

lemma az_step_balanced:
  assumes wf: "um_wf (az_vars s)" and ok: "az_allowed s p" and b: "balanced cell_refs (held_refs s @ gone) (az_heap s)"
  shows "\<exists>s'. az_step s p = Inr s' \<and> um_wf (az_vars s') \<and> balanced cell_refs (held_refs s' @ az_lost s p @ gone) (az_heap s')"
proof (cases p)
  case (Op_default v)
  then show ?thesis using put_balanced [of S_undef s gone "az_heap s" v] b wf by (simp add: AutoZval_default_def keeps)
next
  case (Op_pointer v zv)
  show ?thesis
  proof (cases zv)
    case None
    then show ?thesis using Op_pointer put_balanced [of S_null s gone "az_heap s" v] b wf by (simp add: AutoZval_pointer_def keeps)
  next
    case (Some w)
    with ok Op_pointer obtain z where z: "map_of (az_vars s) w = Some z" by auto
    from try_addref_balanced [OF b var_in_heap [OF b z]] obtain h where
      "try_addref z (az_heap s) = Inr h" "balanced cell_refs (slot_refs z @ held_refs s @ gone) h" by blast
    then show ?thesis using Op_pointer Some z put_balanced [of z s gone h v] wf by (simp add: AutoZval_pointer_def var_slot_def keeps)
  qed
next
  case (Op_copy_assign v w)
  with ok obtain old z where "map_of (az_vars s) v = Some old" "map_of (az_vars s) w = Some z" "v \<noteq> w" by auto
  from AutoZval_copy_assign_balanced [OF wf b this] Op_copy_assign show ?thesis by simp
next
  case (Op_move v w)
  with ok obtain z where z: "map_of (az_vars s) w = Some z" by auto
  show ?thesis using Op_move AutoZval_move_balanced [OF b z, of v] z wf by (simp add: AutoZval_move_def var_slot_def keeps)
next
  case (Op_set v n)
  from AutoZval_set_balanced [OF b, of v n] obtain s' z where "AutoZval_set v n s = Inr s'"
    "balanced cell_refs (held_refs s' @ old_refs v s @ gone) (az_heap s')" "az_vars s' = um_assign v z (az_vars s)" by blast
  then show ?thesis using Op_set wf by (simp add: keeps)
next
  case (Op_array_init v)
  then show ?thesis using put_balanced [OF new_balanced [OF b, of "C_array empty_array"], of v] wf
    by (simp add: arrayInit_def Let_def keeps empty_array_def)
next
  case (Op_add_next v w)
  with ok obtain z where "is_array v s" "map_of (az_vars s) w = Some z" by auto
  from arrayAddNextWithRef_balanced [OF b this] Op_add_next wf show ?thesis by auto
next
  case (Op_add_assoc v key w)
  with ok obtain z where "is_array v s" "map_of (az_vars s) w = Some z" by auto
  from arrayAddAssocWithRef_balanced [OF b this, of key] Op_add_assoc wf show ?thesis by auto
next
  case (Op_answer v z)
  with ok have "set (slot_refs z) \<subseteq> fst ` set (az_heap s)" by simp
  from try_addref_balanced [OF b this] obtain h where
    "try_addref z (az_heap s) = Inr h" "balanced cell_refs (slot_refs z @ held_refs s @ gone) h" by blast
  then show ?thesis using Op_answer put_balanced [of z s gone h v] wf by (simp add: keeps)
next
  case (Op_destroy v)
  with ok obtain z where "map_of (az_vars s) v = Some z" by auto
  from AutoZval_destroy_balanced [OF wf b this] Op_destroy wf show ?thesis by (auto simp: keeps)
qed

interpretation autozval: counted_client cell_refs az_heap held_refs az_step az_lost az_allowed "\<lambda>s. um_wf (az_vars s)"
  by unfold_locales (rule az_step_balanced)

subsection \<open>What the balance says of the class\<close>

text \<open>
  C18. However the operations of \<open>AutoZval\<close> are combined, as long as each is allowed (\<open>az_allowed\<close>: the objects it is used on
  exist, a copy assignment is between two different ones, elements are added to arrays, and what a value answers exists), they
  never touch a released value, and afterwards the count of every value is exactly the number of objects and containers that
  hold it, plus the references an operation stored over. What a self-assignment does is \<open>self_copy_of_only_holder\<close>.
\<close>

theorem autozval_counts_exact:
  assumes "um_wf (az_vars s)" and "balanced cell_refs (held_refs s) (az_heap s)" and "all_allowed az_allowed az_step s ps"
  shows "\<exists>s'. run_result az_step s ps = Inr s' \<and>
           (\<forall>a. rc_count (az_heap s') a
              = count_list (held_refs s') a + count_list (inner_refs cell_refs (az_heap s')) a + count_list (all_lost az_lost az_step s ps) a)"
proof -
  from autozval.run_balanced [of s ps "[]"] assms obtain s' where
    "run_result az_step s ps = Inr s'" "balanced cell_refs (held_refs s' @ all_lost az_lost az_step s ps) (az_heap s')" by auto
  then show ?thesis by (intro exI [of _ s']) (simp add: balanced_def)
qed

text \<open>
  Moving into an object that holds a counted value leaks that value: it is still in the heap when every object is gone.
\<close>

theorem move_assignment_leaks:
  assumes "um_wf (az_vars s)" and "balanced cell_refs (held_refs s) (az_heap s)"
    and v: "map_of (az_vars s) v = Some (S_counted a)" and w: "map_of (az_vars s) w \<noteq> None"
    and ok: "all_allowed az_allowed az_step s (Op_move v w # map Op_destroy vs)"
    and run: "run_result az_step s (Op_move v w # map Op_destroy vs) = Inr s'"
  shows "a \<in> fst ` set (az_heap s')"
proof (rule autozval.lost_stays [OF assms(1) ok assms(2) run])
  obtain z where "map_of (az_vars s) w = Some z" using w by auto
  then show "a \<in> set (all_lost az_lost az_step s (Op_move v w # map Op_destroy vs))"
    using v by (simp add: AutoZval_move_def var_slot_def)
qed

text \<open>
  Copying an object to itself drops the value first: when the object is the only holder, the copy takes a reference to a
  released value.
\<close>

theorem self_copy_of_only_holder:
  assumes wf: "um_wf (az_vars s)" and b: "balanced cell_refs (held_refs s) (az_heap s)"
    and v: "map_of (az_vars s) v = Some (S_counted a)" and one: "rc_count (az_heap s) a = 1"
  shows "AutoZval_copy_assign v v s = Inl (Undefined ''reference to a released object'')"
proof -
  let ?r = "s\<lparr>az_vars := um_erase v (az_vars s)\<rparr>"
  have "balanced cell_refs (slot_refs (S_counted a) @ held_refs ?r) (az_heap s)"
    using balanced_without_var [OF wf, of "[]" "az_heap s" v] b v by simp
  from zval_ptr_dtor_balanced [OF this] obtain h where
    h: "zval_ptr_dtor (S_counted a) (az_heap s) = Inr h" "balanced cell_refs (held_refs ?r) h" "shrunk h (az_heap s)" by blast
  have "map_of h a = None"
  proof (rule ccontr)
    assume "map_of h a \<noteq> None"
    then have "a \<in> fst ` set h" by (simp add: map_of_eq_None_iff)
    then have "0 < rc_count h a" using h(2) unfolding balanced_def by blast
    moreover have "count_list (held_refs s) a = Suc (count_list (held_refs ?r) a)"
      using refs_count_erase [OF wf, of v a] v by (simp add: held_refs_count)
    then have "count_list (held_refs ?r) a = 0" "count_list (inner_refs cell_refs (az_heap s)) a = 0"
      using b one by (simp_all add: balanced_def)
    moreover have "a \<notin> set (inner_refs cell_refs h)"
    proof
      assume "a \<in> set (inner_refs cell_refs h)"
      then obtain x n c where "(x, n, c) \<in> set h" "a \<in> set (cell_refs c)" by (auto simp: inner_refs_def)
      moreover then have "map_of h x = Some (n, c)" using h(2) by (simp add: balanced_def um_wf_map_of_iff)
      ultimately obtain m where "map_of (az_heap s) x = Some (m, c)" "a \<in> set (cell_refs c)" using h(3) unfolding shrunk_def by blast
      then have "a \<in> set (inner_refs cell_refs (az_heap s))" by (rule not_referenced)
      with \<open>count_list (inner_refs cell_refs (az_heap s)) a = 0\<close> show False by (simp add: count_list_0_iff)
    qed
    ultimately show False using h(2) by (simp add: balanced_def count_list_0_iff)
  qed
  then show ?thesis using v h(1) by (simp add: AutoZval_copy_assign_def var_slot_def try_addref_def rc_addref_def)
qed

subsection \<open>Numbers\<close>

text \<open>\<open>getNumberAsLong\<close>: a conversion of a \<open>double\<close> drops the fraction; out of range, infinite or not a number, it is undefined.\<close>

fun getNumberAsLong :: "'o zval \<Rightarrow> i64 result" where
  "getNumberAsLong (Z_long n) = Inr n"
| "getNumberAsLong (Z_double d) =
     (let i = int_of_double d
      in if - (2 ^ 63) \<le> i \<and> i < 2 ^ 63 then Inr (word_of_int i) else Inl (Undefined ''double out of range''))"
| "getNumberAsLong _ = Inl (Runtime_error ''Not a number'')"

lemma getNumberAsLong_double_of_long:
  assumes "\<bar>sint n\<bar> < 2 ^ 53"
  shows "getNumberAsLong (Z_double (double_of_long n)) = Inr n"
  using assms by (simp add: double_of_small_long Let_def abs_less_iff)

end
