(* ===== verification/OwnedArrays.thy ===== *)
theory OwnedArrays
  imports AutoZvals
begin

text \<open>
  Functions that hold PHP values in \<open>AutoZval\<close>: the array \<open>elastic_get_remote_configuration\<close> builds for PHP
  (\<open>extension/code/ModuleFunctions.cpp\<close>), refined to the model of values of \<open>ModuleFunctions\<close>, and the reading of a property
  through a pointer (\<open>libphpbridge/code/PhpBridge.cpp\<close>).
\<close>

subsection \<open>The value a reference stands for\<close>

text \<open>What a holder sees through its reference, as a value of \<open>Zval\<close>, arrays in arrays to the given depth.\<close>

fun zval_view :: "nat \<Rightarrow> zheap \<Rightarrow> zslot \<Rightarrow> nat zval" where
  "zval_view d h S_undef = Z_undef"
| "zval_view d h S_null = Z_null"
| "zval_view d h (S_bool b) = (if b then Z_true else Z_false)"
| "zval_view d h (S_long n) = Z_long n"
| "zval_view d h (S_double x) = Z_double x"
| "zval_view d h (S_interned s) = Z_string False s"
| "zval_view 0 h (S_counted a) = (case map_of h a of Some (n, C_string s) \<Rightarrow> Z_string False s | _ \<Rightarrow> Z_object a)"
| "zval_view (Suc d) h (S_counted a) =
     (case map_of h a of
        Some (n, C_string s) \<Rightarrow> Z_string False s
      | Some (n, C_array arr) \<Rightarrow> Z_array (map (\<lambda>(k, v). (k, zval_view d h v)) (fst arr)) (snd arr)
      | _ \<Rightarrow> Z_object a)"

subsection \<open>The remote configuration handed to PHP\<close>

text \<open>
  \<open>elastic_get_remote_configuration\<close> without a file name: an array is built in the local \<open>configFiles\<close>, each text in a
  temporary (\<open>item\<close>); \<open>RETURN_ZVAL\<close> with a copy stores it in \<open>return_value\<close>, and the local is destroyed.
\<close>

definition config_file_ops :: "string \<times> string \<Rightarrow> az_op list" where
  "config_file_ops = (\<lambda>(name, content).
     [Op_set ''item'' (N_string content), Op_add_assoc ''configFiles'' name ''item'', Op_destroy ''item''])"

definition remote_configuration_ops :: "(string \<times> string) list \<Rightarrow> az_op list" where
  "remote_configuration_ops files =
     [Op_default ''configFiles'', Op_array_init ''configFiles''] @ concat (map config_file_ops files) @
     [Op_pointer ''return_value'' (Some ''configFiles''), Op_destroy ''configFiles'']"

lemma um_erase_assign_new: "map_of m v = None \<Longrightarrow> um_erase v (um_assign v z m) = m"
  by (induction m) (auto split: if_splits simp: map_of_eq_None_iff)

lemma rc_release_keep:
  "map_of h a = Some (Suc (Suc n), c) \<Longrightarrow> rc_release refs [a] h = Inr (um_assign a (Suc n, c) h, [])"
  by (simp add: rc_release.simps)

lemma rc_release_none [simp]: "zval_ptr_dtor S_undef h = Inr h" by (simp add: zval_ptr_dtor_def)

text \<open>One file: the text becomes an element that the array alone holds, and the temporary is gone.\<close>

lemma config_file_step:
  assumes cf: "map_of (az_vars s) ''configFiles'' = Some (S_counted a)" and item: "map_of (az_vars s) ''item'' = None"
    and arr: "map_of (az_heap s) a = Some (1, C_array arr)" and new: "map_of (fst arr) (symtable_key name) = None"
    and b: "b = fresh_address (az_heap s)"
  shows "\<exists>s'. run_result az_step s (config_file_ops (name, content)) = Inr s' \<and> az_vars s' = az_vars s \<and>
    map_of (az_heap s') = (map_of (az_heap s))(b \<mapsto> (1, C_string content), a \<mapsto> (1, C_array (add_assoc name (S_counted b) arr))) \<and>
    all_allowed az_allowed az_step s (config_file_ops (name, content)) \<and>
    all_lost az_lost az_step s (config_file_ops (name, content)) = []"
proof -
  have fresh: "map_of (az_heap s) b = None" using fresh_address b by simp
  then have ab: "a \<noteq> b" using arr by auto
  let ?h1 = "rc_new b (C_string content) (az_heap s)"
  let ?s1 = "put_slot ''item'' (S_counted b) (s\<lparr>az_heap := ?h1\<rparr>)"
  let ?h2 = "um_assign b (2, C_string content) ?h1"
  let ?h3 = "um_assign a (1, C_array (add_assoc name (S_counted b) arr)) ?h2"
  let ?s3 = "?s1\<lparr>az_heap := ?h3\<rparr>"
  let ?h4 = "um_assign b (1, C_string content) ?h3"
  have one: "az_step s (Op_set ''item'' (N_string content)) = Inr ?s1" using b by (simp add: AutoZval_set_def Let_def)
  have a1: "map_of ?h1 a = Some (1, C_array arr)" using arr ab by (simp add: rc_new_def)
  have two: "az_step ?s1 (Op_add_assoc ''configFiles'' name ''item'') = Inr ?s3"
    using cf ab arr new
    by (simp add: arrayAddAssocWithRef_def var_slot_def umap_simps try_addref_def rc_addref_def rc_new_def array_of_def)
  have h3: "map_of ?h3 b = Some (Suc (Suc 0), C_string content)" using ab by (simp add: umap_simps numeral_2_eq_2)
  have three: "az_step ?s3 (Op_destroy ''item'') = Inr (s\<lparr>az_heap := ?h4\<rparr>)"
    using rc_release_keep [OF h3, of cell_refs] um_erase_assign_new [OF item, of "S_counted b"]
    by (simp add: AutoZval_destroy_def var_slot_def umap_simps zval_ptr_dtor_def)
  have "is_array ''configFiles'' ?s1" using cf a1 by (simp add: is_array_def umap_simps array_of_def)
  then show ?thesis
    using one two three item ab
    by (intro exI [of _ "s\<lparr>az_heap := ?h4\<rparr>"])
      (auto simp: config_file_ops_def umap_simps rc_new_def fun_eq_iff simp del: az_step.simps)
qed

definition array_view :: "zheap \<Rightarrow> (array_key \<times> zslot) list \<times> i64 \<Rightarrow> (array_key \<times> nat zval) list \<times> i64" where
  "array_view h arr = (map (\<lambda>(k, v). (k, zval_view 0 h v)) (fst arr), snd arr)"

definition text_elements :: "nat \<Rightarrow> zheap \<Rightarrow> (array_key \<times> zslot) list \<times> i64 \<Rightarrow> bool" where
  "text_elements a h arr \<longleftrightarrow>
     (\<forall>(k, v) \<in> set (fst arr). \<exists>x str. v = S_counted x \<and> x \<noteq> a \<and> map_of h x = Some (1, C_string str))"

lemma um_assign_new: "map_of m k = None \<Longrightarrow> um_assign k v m = m @ [(k, v)]"
  by (induction m) (auto split: if_splits)

lemma um_append:
  "map_of m k = None \<Longrightarrow> um_assign k v (m @ m') = m @ um_assign k v m'"
  "map_of m k = None \<Longrightarrow> um_erase k (m @ m') = m @ um_erase k m'"
  by (induction m) (auto split: if_splits)

lemma add_assoc_new:
  "map_of (fst arr) (symtable_key name) = None \<Longrightarrow> fst (add_assoc name v arr) = fst arr @ [(symtable_key name, v)]"
  by (cases arr) (simp add: add_assoc_def um_assign_new)

lemma array_view_add:
  assumes "map_of (fst arr) (symtable_key name) = None"
  shows "array_view h (add_assoc name v arr) = add_assoc name (zval_view 0 h v) (array_view h arr)"
proof -
  have "map_of (map (\<lambda>(k, v). (k, zval_view 0 h v)) (fst arr)) (symtable_key name) = None" using assms by (simp add: map_of_map)
  with assms show ?thesis by (cases arr) (simp add: array_view_def add_assoc_def um_assign_new)
qed

lemma array_view_cong: "text_elements a h arr \<Longrightarrow> (\<And>x. x \<noteq> a \<Longrightarrow> map_of h x \<noteq> None \<Longrightarrow> map_of h' x = map_of h x) \<Longrightarrow>
  array_view h' arr = array_view h arr \<and> text_elements a h' arr"
  by (fastforce simp: array_view_def text_elements_def)

lemma config_files_run:
  assumes "map_of (az_vars s) ''configFiles'' = Some (S_counted a)" and "map_of (az_vars s) ''item'' = None"
    and "map_of (az_heap s) a = Some (1, C_array arr)" and "text_elements a (az_heap s) arr"
    and "distinct (map fst files)" and "\<forall>(name, content) \<in> set files. map_of (fst arr) (symtable_key name) = None"
  shows "\<exists>s' arr'. run_result az_step s (concat (map config_file_ops files)) = Inr s' \<and> az_vars s' = az_vars s \<and>
    map_of (az_heap s') a = Some (1, C_array arr') \<and> text_elements a (az_heap s') arr' \<and>
    array_view (az_heap s') arr' = fold (\<lambda>(name, content). add_assoc name (Z_string False content)) files (array_view (az_heap s) arr) \<and>
    (\<forall>x. x \<noteq> a \<longrightarrow> map_of (az_heap s) x \<noteq> None \<longrightarrow> map_of (az_heap s') x = map_of (az_heap s) x) \<and>
    all_allowed az_allowed az_step s (concat (map config_file_ops files)) \<and>
    all_lost az_lost az_step s (concat (map config_file_ops files)) = []"
  using assms
proof (induction files arbitrary: s arr)
  case Nil
  then show ?case by (intro exI [of _ s] exI [of _ arr]) simp
next
  case (Cons f files)
  obtain name content where f: "f = (name, content)" by (cases f)
  have new: "map_of (fst arr) (symtable_key name) = None" using Cons.prems f by simp
  define b where "b = fresh_address (az_heap s)"
  have fresh: "map_of (az_heap s) b = None" "a \<noteq> b" using fresh_address [of "az_heap s"] Cons.prems(3) by (auto simp: b_def)
  let ?arr = "add_assoc name (S_counted b) arr"
  from config_file_step [OF Cons.prems(1-3) new b_def, of content] obtain s1 where
    s1: "run_result az_step s (config_file_ops f) = Inr s1" "az_vars s1 = az_vars s"
      "map_of (az_heap s1) = (map_of (az_heap s))(b \<mapsto> (1, C_string content), a \<mapsto> (1, C_array ?arr))"
      "all_allowed az_allowed az_step s (config_file_ops f)" "all_lost az_lost az_step s (config_file_ops f) = []"
    unfolding f by blast
  have old: "x \<noteq> a \<Longrightarrow> map_of (az_heap s) x \<noteq> None \<Longrightarrow> map_of (az_heap s1) x = map_of (az_heap s) x" for x
    using s1(3) fresh by auto
  have v: "array_view (az_heap s1) arr = array_view (az_heap s) arr" "text_elements a (az_heap s1) arr"
    using array_view_cong [OF Cons.prems(4) old] by auto
  have te: "text_elements a (az_heap s1) ?arr"
    using v(2) s1(3) fresh(2) add_assoc_new [OF new, of "S_counted b"] by (auto simp: text_elements_def)
  have av: "array_view (az_heap s1) ?arr = add_assoc name (Z_string False content) (array_view (az_heap s) arr)"
    using array_view_add [OF new, of "az_heap s1" "S_counted b"] v(1) s1(3) fresh(2) by simp
  have keys: "\<forall>(name', content) \<in> set files. map_of (fst ?arr) (symtable_key name') = None"
  proof clarify
    fix name' content' assume "(name', content') \<in> set files"
    then have "name' \<noteq> name" "map_of (fst arr) (symtable_key name') = None" using Cons.prems(5,6) f by force+
    then show "map_of (fst ?arr) (symtable_key name') = None" by (simp add: add_assoc_new [OF new] symtable_key_inject)
  qed
  have "distinct (map fst files)" using Cons.prems(5) by simp
  from Cons.IH [of s1 ?arr, OF _ _ _ te this keys] s1(2,3) Cons.prems(1,2) obtain s' arr' where
    s': "run_result az_step s1 (concat (map config_file_ops files)) = Inr s'" "az_vars s' = az_vars s"
      "map_of (az_heap s') a = Some (1, C_array arr')" "text_elements a (az_heap s') arr'"
      "array_view (az_heap s') arr' = fold (\<lambda>(name, content). add_assoc name (Z_string False content)) files (array_view (az_heap s1) ?arr)"
      "\<forall>x. x \<noteq> a \<longrightarrow> map_of (az_heap s1) x \<noteq> None \<longrightarrow> map_of (az_heap s') x = map_of (az_heap s1) x"
      "all_allowed az_allowed az_step s1 (concat (map config_file_ops files))"
      "all_lost az_lost az_step s1 (concat (map config_file_ops files)) = []" by auto
  have kept: "\<forall>x. x \<noteq> a \<longrightarrow> map_of (az_heap s) x \<noteq> None \<longrightarrow> map_of (az_heap s') x = map_of (az_heap s) x" using s'(6) old by metis
  show ?case
    using s' s1(1,4,5) av kept
    by (intro exI [of _ s'] exI [of _ arr']) (simp add: run_result_append all_allowed_append all_lost_append f)
qed

text \<open>
  C31. The array that reaches PHP is the one of the model of values, it holds the only reference to each text, and apart from it
  the heap is what it was: no temporary is left, and every count is exact.
\<close>

theorem remote_configuration_on_heap:
  assumes wf: "um_wf (az_vars s)" and b: "balanced cell_refs (held_refs s) (az_heap s)"
    and names: "\<forall>v \<in> {''configFiles'', ''item'', ''return_value''}. map_of (az_vars s) v = None"
    and files: "um_wf (remoteConfigFiles cfg)"
  shows "\<exists>s' z. run_result az_step s (remote_configuration_ops (remoteConfigFiles cfg)) = Inr s' \<and>
           az_vars s' = az_vars s @ [(''return_value'', z)] \<and>
           zval_view 1 (az_heap s') z = elastic_get_remote_configuration None cfg \<and>
           (\<forall>x \<in> fst ` set (az_heap s). map_of (az_heap s') x = map_of (az_heap s) x) \<and>
           balanced cell_refs (held_refs s') (az_heap s')"
proof -
  let ?files = "remoteConfigFiles cfg" and ?ops = "concat (map config_file_ops (remoteConfigFiles cfg))"
  define a where "a = fresh_address (az_heap s)"
  have fresh: "map_of (az_heap s) a = None" by (simp add: a_def fresh_address)
  let ?s2 = "s\<lparr>az_heap := rc_new a (C_array empty_array) (az_heap s), az_vars := az_vars s @ [(''configFiles'', S_counted a)]\<rparr>"
  have cf: "map_of (az_vars ?s2) ''configFiles'' = Some (S_counted a)" "map_of (az_vars ?s2) ''item'' = None"
    using names by (simp_all add: map_add_def)
  let ?s1 = "s\<lparr>az_vars := az_vars s @ [(''configFiles'', S_undef)]\<rparr>"
  have init: "az_step s (Op_default ''configFiles'') = Inr ?s1" "az_step ?s1 (Op_array_init ''configFiles'') = Inr ?s2"
    using names by (simp_all add: AutoZval_default_def arrayInit_def Let_def um_assign_new um_append a_def)
  have "map_of (az_heap ?s2) a = Some (1, C_array empty_array)" "text_elements a (az_heap ?s2) empty_array"
    "\<forall>(name, content) \<in> set ?files. map_of (fst empty_array) (symtable_key name) = None"
    by (auto simp: rc_new_def text_elements_def empty_array_def)
  from config_files_run [OF cf this(1,2) files this(3)] obtain s3 arr where
    s3: "run_result az_step ?s2 ?ops = Inr s3" "az_vars s3 = az_vars ?s2" "map_of (az_heap s3) a = Some (1, C_array arr)"
      "text_elements a (az_heap s3) arr"
      "array_view (az_heap s3) arr = fold (\<lambda>(name, content). add_assoc name (Z_string False content)) ?files (array_view (az_heap ?s2) empty_array)"
      "\<forall>x. x \<noteq> a \<longrightarrow> map_of (az_heap ?s2) x \<noteq> None \<longrightarrow> map_of (az_heap s3) x = map_of (az_heap ?s2) x"
      "all_allowed az_allowed az_step ?s2 ?ops" "all_lost az_lost az_step ?s2 ?ops = []" by blast
  let ?h = "um_assign a (2, C_array arr) (az_heap s3)" and ?vars = "az_vars s @ [(''return_value'', S_counted a)]"
  let ?s4 = "s3\<lparr>az_heap := ?h, az_vars := az_vars s @ [(''configFiles'', S_counted a), (''return_value'', S_counted a)]\<rparr>"
  let ?s5 = "s3\<lparr>az_heap := um_assign a (1, C_array arr) ?h, az_vars := ?vars\<rparr>"
  have ret: "az_step s3 (Op_pointer ''return_value'' (Some ''configFiles'')) = Inr ?s4"
    using s3(2,3) names
    by (simp add: AutoZval_pointer_def var_slot_def try_addref_def rc_addref_def numeral_2_eq_2 um_append map_add_def)
  have "map_of ?h a = Some (Suc (Suc 0), C_array arr)" by (simp add: umap_simps numeral_2_eq_2)
  from rc_release_keep [OF this, of cell_refs] have gone: "az_step ?s4 (Op_destroy ''configFiles'') = Inr ?s5"
    using names by (simp add: AutoZval_destroy_def var_slot_def zval_ptr_dtor_def um_append map_add_def)
  have run: "run_result az_step s (remote_configuration_ops ?files) = Inr ?s5"
    using init s3(1) ret gone by (simp add: remote_configuration_ops_def run_result_append del: az_step.simps)
  have ok: "all_allowed az_allowed az_step s (remote_configuration_ops ?files)"
    using init s3(1,2,7) ret gone names
    by (simp add: remote_configuration_ops_def all_allowed_append map_add_def del: az_step.simps)
  have lost: "all_lost az_lost az_step s (remote_configuration_ops ?files) = []"
    using init s3(1,2,8) ret gone names
    by (simp add: remote_configuration_ops_def all_lost_append map_add_def del: az_step.simps)
  have "array_view (az_heap ?s5) arr = array_view (az_heap s3) arr"
    using array_view_cong [OF s3(4), of "az_heap ?s5"] by (auto simp: umap_simps)
  moreover have "array_view (az_heap ?s2) empty_array = empty_array" by (simp add: array_view_def empty_array_def)
  ultimately have "array_view (az_heap ?s5) arr = fold (\<lambda>(name, content). add_assoc name (Z_string False content)) ?files empty_array"
    using s3(5) by simp
  moreover have "zval_view 1 (az_heap ?s5) (S_counted a) = (case array_view (az_heap ?s5) arr of (slots, nf) \<Rightarrow> Z_array slots nf)"
    by (simp add: array_view_def umap_simps)
  ultimately have view: "zval_view 1 (az_heap ?s5) (S_counted a) = elastic_get_remote_configuration None cfg"
    by (simp add: elastic_get_remote_configuration_def)
  have old: "\<forall>x \<in> fst ` set (az_heap s). map_of (az_heap ?s5) x = map_of (az_heap s) x"
    using s3(6) fresh by (auto simp: umap_simps rc_new_def map_of_eq_None_iff)
  from autozval.run_balanced [of s "remote_configuration_ops ?files" "[]"] wf ok lost b run
  have "balanced cell_refs (held_refs ?s5) (az_heap ?s5)" by simp
  with run view old show ?thesis by (intro exI [of _ ?s5] exI [of _ "S_counted a"]) simp
qed

subsection \<open>Reading a property\<close>

text \<open>
  \<open>getClassPropertyValue\<close> gives \<open>zend_read_property\<close> a place for a result (\<open>rv\<close>), its local. The engine answers a pointer: to
  the property where the object has one (\<open>property\<close>, the name of a value that outlives the call), or to the place it was
  given when a getter of the class computed the value (\<open>getter\<close>). The local is destroyed on return.
\<close>

datatype property_read = Stored_property string | Getter_result zslot

definition getClassPropertyValue :: "property_read \<Rightarrow> zstate \<Rightarrow> (zstate \<times> string) result" where
  "getClassPropertyValue read s =
     bind_result (AutoZval_default ''rv'' s) (\<lambda>s.
     bind_result
       (case read of
          Stored_property property \<Rightarrow> Inr (s, property)
        | Getter_result z \<Rightarrow> map_sum id (\<lambda>s. (s, ''rv'')) (az_step s (Op_answer ''rv'' z))) (\<lambda>(s, pointer).
     bind_result (AutoZval_destroy ''rv'' s) (\<lambda>s. Inr (s, pointer))))"

text \<open>\<open>zvalToOptionalStringView\<close> of what the pointer shows, as the getters of exceptions use it.\<close>

definition zvalToOptionalStringView :: "string \<Rightarrow> zstate \<Rightarrow> string option result" where
  "zvalToOptionalStringView pointer s =
     bind_result (var_slot pointer s) (\<lambda>z. Inr (getOptStringView (zval_view 0 (az_heap s) z)))"

definition getExceptionProperty :: "property_read \<Rightarrow> zstate \<Rightarrow> string option result" where
  "getExceptionProperty read s =
     bind_result (getClassPropertyValue read s) (\<lambda>(s, pointer). zvalToOptionalStringView pointer s)"

text \<open>
  A stored property is read without a change to any count. What a getter computed is gone when it is read: the pointer shows
  a destroyed value.
\<close>

theorem property_of_getter_dangles:
  assumes new: "map_of (az_vars s) ''rv'' = None"
    and b: "um_wf (az_vars s)" "balanced cell_refs (held_refs s) (az_heap s)"
    and live: "\<And>z. read = Getter_result z \<Longrightarrow> set (slot_refs z) \<subseteq> fst ` set (az_heap s)"
    and there: "\<And>p. read = Stored_property p \<Longrightarrow> map_of (az_vars s) p \<noteq> None"
  shows "getExceptionProperty read s =
    (case read of
       Stored_property p \<Rightarrow> Inr (getOptStringView (zval_view 0 (az_heap s) (the (map_of (az_vars s) p))))
     | Getter_result z \<Rightarrow> Inl (Undefined ''use of a destroyed object''))"
proof (cases read)
  case (Stored_property p)
  with there obtain z where z: "map_of (az_vars s) p = Some z" by auto
  have s: "s\<lparr>az_heap := az_heap s, az_vars := az_vars s\<rparr> = s" by simp
  show ?thesis
    using Stored_property z new um_erase_assign_new [OF new, of S_undef] s
    by (simp add: getExceptionProperty_def getClassPropertyValue_def AutoZval_default_def AutoZval_destroy_def var_slot_def
        zvalToOptionalStringView_def umap_simps)
next
  case (Getter_result z)
  let ?s1 = "put_slot ''rv'' S_undef s"
  have h1: "held_refs ?s1 = held_refs s" using new by (simp add: held_refs_def um_assign_new)
  have "um_wf (az_vars ?s1)" using b(1) by (simp add: keeps)
  moreover have "all_allowed az_allowed az_step ?s1 [Op_answer ''rv'' z, Op_destroy ''rv'']"
    using live [OF Getter_result] by (auto simp: umap_simps split: sum.split) (auto simp: bind_result_Inr_iff umap_simps)
  ultimately obtain s2 where run: "run_result az_step ?s1 [Op_answer ''rv'' z, Op_destroy ''rv''] = Inr s2"
    using autozval.run_balanced [of ?s1 "[Op_answer ''rv'' z, Op_destroy ''rv'']" "[]"] b(2) h1 by auto
  then have "map_of (az_vars s2) ''rv'' = None"
    by (auto simp: bind_result_Inr_iff AutoZval_destroy_def umap_simps)
  with run Getter_result show ?thesis
    by (auto simp: getExceptionProperty_def getClassPropertyValue_def AutoZval_default_def zvalToOptionalStringView_def
        var_slot_def bind_result_Inr_iff)
qed

subsection \<open>Instances\<close>

definition two_texts :: zstate where
  "two_texts = \<lparr>az_heap = [(1, 1, C_string ''one''), (2, 1, C_string ''two'')],
     az_vars = [(''a'', S_counted 1), (''b'', S_counted 2)]\<rparr>"

definition no_values :: zstate where
  "no_values = \<lparr>az_heap = [], az_vars = []\<rparr>"

lemma no_values_ok: "um_wf (az_vars no_values)" "balanced cell_refs (held_refs no_values) (az_heap no_values)"
  by (simp_all add: no_values_def balanced_def held_refs_def)

lemma two_texts_ok: "um_wf (az_vars two_texts)" "balanced cell_refs (held_refs two_texts) (az_heap two_texts)"
  by (simp_all add: two_texts_def balanced_def held_refs_def) (simp add: rc_count_def)

lemma autozval_counts_exact_witness:
  "\<exists>s'. run_result az_step no_values [Op_set ''a'' (N_string ''x''), Op_pointer ''b'' (Some ''a''), Op_array_init ''c'',
            Op_add_next ''c'' ''b'', Op_destroy ''a''] = Inr s' \<and>
     (\<forall>a. rc_count (az_heap s') a = count_list (held_refs s') a + count_list (inner_refs cell_refs (az_heap s')) a
         + count_list (all_lost az_lost az_step no_values [Op_set ''a'' (N_string ''x''), Op_pointer ''b'' (Some ''a''), Op_array_init ''c'',
            Op_add_next ''c'' ''b'', Op_destroy ''a'']) a)"
  by (rule autozval_counts_exact [OF no_values_ok])
    (simp add: no_values_def AutoZval_set_def Let_def fresh_address_def rc_new_def AutoZval_pointer_def var_slot_def try_addref_def
      rc_addref_def arrayInit_def is_array_def array_of_def arrayAddNextWithRef_def add_next_index_def empty_array_def
      split: sum.split)

lemma move_assignment_leaks_witness:
  "\<exists>s'. run_result az_step two_texts (Op_move ''a'' ''b'' # map Op_destroy [''b'', ''a'']) = Inr s' \<and>
     az_vars s' = [] \<and> 1 \<in> fst ` set (az_heap s')"
proof -
  have run: "run_result az_step two_texts (Op_move ''a'' ''b'' # map Op_destroy [''b'', ''a''])
      = Inr \<lparr>az_heap = [(1, 1, C_string ''one'')], az_vars = []\<rparr>"
    by (simp add: two_texts_def AutoZval_move_def AutoZval_destroy_def var_slot_def zval_ptr_dtor_def rc_release.simps(2))
  have "1 \<in> fst ` set (az_heap \<lparr>az_heap = [(1, 1, C_string ''one'')], az_vars = []\<rparr>)"
    by (rule move_assignment_leaks [OF two_texts_ok _ _ _ run])
      (simp_all add: two_texts_def AutoZval_move_def AutoZval_destroy_def var_slot_def zval_ptr_dtor_def split: sum.split)
  with run show ?thesis by simp
qed

lemma self_copy_of_only_holder_witness:
  "AutoZval_copy_assign ''a'' ''a'' two_texts = Inl (Undefined ''reference to a released object'')"
  by (rule self_copy_of_only_holder [OF two_texts_ok, of _ 1]) (simp_all add: two_texts_def rc_count_def)

lemma remote_configuration_on_heap_witness:
  "\<exists>s' z. run_result az_step no_values (remote_configuration_ops
        (remoteConfigFiles (new_ConfigurationSnapshot\<lparr>remoteConfigFiles := [(''elastic'', ''{}''), (''7'', ''seven'')]\<rparr>))) = Inr s' \<and>
     az_vars s' = az_vars no_values @ [(''return_value'', z)] \<and>
     zval_view 1 (az_heap s') z
       = elastic_get_remote_configuration None (new_ConfigurationSnapshot\<lparr>remoteConfigFiles := [(''elastic'', ''{}''), (''7'', ''seven'')]\<rparr>) \<and>
     (\<forall>x \<in> fst ` set (az_heap no_values). map_of (az_heap s') x = map_of (az_heap no_values) x) \<and>
     balanced cell_refs (held_refs s') (az_heap s')"
  by (rule remote_configuration_on_heap [OF no_values_ok]) (simp_all add: no_values_def)

lemma property_of_getter_dangles_witness:
  "getExceptionProperty (Getter_result (S_counted 1)) two_texts = Inl (Undefined ''use of a destroyed object'') \<and>
   getExceptionProperty (Stored_property ''b'') two_texts = Inr (Some ''two'')"
  using property_of_getter_dangles [of two_texts "Getter_result (S_counted 1)"]
    property_of_getter_dangles [of two_texts "Stored_property ''b''"] two_texts_ok
  by (simp add: two_texts_def)

end
