(* ===== verification/AgentLifetime.thy ===== *)
theory AgentLifetime
  imports Refcount "HOL-Library.Multiset"
begin

text \<open>
  The objects of the agent and who holds them: \<open>PHP_GINIT\<close> and \<open>PHP_GSHUTDOWN\<close> (\<open>extension/code/ModuleEntry.cpp\<close>), the constructor
  and destructor of \<open>AgentGlobals\<close> (\<open>libcommon/code/AgentGlobals.cpp\<close>), the closures that keep objects alive, and the requests of
  \<open>OpAmp\<close> that wait in the queue of the transport.

  Every object lives as long as a \<open>std::shared_ptr\<close> to it exists. The content of an object is the list of the pointers it
  holds, in the order its destructor drops them: members in reverse order of declaration. A member held by value or by
  \<open>std::unique_ptr\<close> is an object with one holder.
\<close>

subsection \<open>Objects and operations\<close>

datatype agent_object =
    Stderr_sink | Syslog_sink | File_sink | The_logger | The_bridge | Hooks_storage | Inferred_spans
  | Config_storage | Autoloader_guard | Sapi_info | Task_executor | Http_transport | Resource_detector | Dynamic_config
  | OpAmp_client | Shared_memory | Request_scope | Messages_dispatcher | Config_provider
  | Coordinator_process | Message_queue | Chunk_processor | Signals_sender | Process_executor

text \<open>
  \<open>Make\<close> is \<open>std::make_shared\<close> with the pointers the new object copies; the result is held by its maker. \<open>Copy\<close> copies a pointer
  into a handle, \<open>Drop\<close> destroys a handle; \<open>Hold x i y\<close> stores a copy of a pointer in the object \<open>x\<close>, \<open>Unhold\<close> drops
  pointers an object holds.
\<close>

datatype agent_op =
    Make agent_object "agent_object list"
  | Copy agent_object
  | Drop agent_object
  | Hold agent_object nat agent_object
  | Unhold agent_object "agent_object list"

record agent_refs =
  ag_heap :: "(agent_object, agent_object list) rc_heap"
  ag_handles :: "agent_object list"
  ag_gone :: "agent_object list"

definition release_handles :: "agent_object list \<Rightarrow> agent_refs \<Rightarrow> agent_refs result" where
  "release_handles as s =
     map_sum id (\<lambda>(h, gone). s\<lparr>ag_heap := h, ag_gone := ag_gone s @ gone\<rparr>) (rc_release id as (ag_heap s))"

fun agent_step :: "agent_refs \<Rightarrow> agent_op \<Rightarrow> agent_refs result" where
  "agent_step s (Make x ms) =
     bind_result (rc_addrefs ms (ag_heap s)) (\<lambda>h. Inr (s\<lparr>ag_heap := rc_new x ms h, ag_handles := x # ag_handles s\<rparr>))"
| "agent_step s (Copy x) =
     bind_result (rc_addref x (ag_heap s)) (\<lambda>h. Inr (s\<lparr>ag_heap := h, ag_handles := x # ag_handles s\<rparr>))"
| "agent_step s (Drop x) =
     (if x \<in> set (ag_handles s) then release_handles [x] (s\<lparr>ag_handles := remove1 x (ag_handles s)\<rparr>)
      else Inl (Undefined ''no such handle''))"
| "agent_step s (Hold x i y) =
     bind_result (rc_addref y (ag_heap s)) (\<lambda>h.
       case map_of h x of
         None \<Rightarrow> Inl (Undefined ''use of a destroyed object'')
       | Some (n, c) \<Rightarrow> Inr (s\<lparr>ag_heap := um_assign x (n, take i c @ y # drop i c) h\<rparr>))"
| "agent_step s (Unhold x ys) =
     (case map_of (ag_heap s) x of
        None \<Rightarrow> Inl (Undefined ''use of a destroyed object'')
      | Some (n, c) \<Rightarrow>
          if mset ys \<subseteq># mset c then release_handles ys (s\<lparr>ag_heap := um_assign x (n, fold remove1 ys c) (ag_heap s)\<rparr>)
          else Inl (Undefined ''no such member''))"

subsection \<open>Construction\<close>

text \<open>
  \<open>AgentGlobals::AgentGlobals\<close>: the parameters that are moved keep their one reference, the logger is copied. The watcher of the
  configuration captures the logger and the sinks.
\<close>

definition AgentGlobals_ops :: "agent_op list" where
  "AgentGlobals_ops =
     [Make Config_storage [],
      Copy The_logger,
      Make Autoloader_guard [The_logger, The_bridge],
      Make Sapi_info [],
      Make Http_transport [The_logger, Config_storage, The_logger],
      Make Resource_detector [The_bridge],
      Make Dynamic_config [The_logger],
      Make OpAmp_client [Resource_detector, Http_transport, Config_storage, The_logger],
      Make Shared_memory [],
      Make Request_scope [Hooks_storage, Config_storage, Inferred_spans, Autoloader_guard, Shared_memory, Sapi_info, The_bridge, The_logger],
      Make Messages_dispatcher [Http_transport, The_logger],
      Make Config_provider [OpAmp_client, The_logger],
      Make Message_queue [],
      Make Chunk_processor [The_logger],
      Make Signals_sender [The_logger],
      Make Coordinator_process [Config_provider, Messages_dispatcher, Signals_sender, Chunk_processor, Message_queue, The_logger],
      Drop Message_queue, Drop Chunk_processor, Drop Signals_sender,
      Hold Config_storage 0 The_logger, Hold Config_storage 0 Stderr_sink, Hold Config_storage 0 Syslog_sink, Hold Config_storage 0 File_sink]"

text \<open>
  \<open>PHP_GINIT\<close>. The static \<open>configManager\<close> keeps the logger and, in the closure that reads options, the dynamic
  configuration. The local logger is dropped at the end.
\<close>

definition ginit_ops :: "agent_op list" where
  "ginit_ops =
     [Make Stderr_sink [], Make Syslog_sink [], Make File_sink [],
      Make The_logger [Stderr_sink, Syslog_sink, File_sink],
      Copy The_logger,
      Make The_bridge [The_logger], Make Hooks_storage [], Make Inferred_spans [The_bridge]] @
     AgentGlobals_ops @ [Copy Dynamic_config, Drop The_logger]"

text \<open>\<open>~AgentGlobals\<close>: the watcher of the configuration goes first, with what it captured, then the members in reverse order of declaration.\<close>

definition globals_members :: "agent_object list" where
  "globals_members =
     [Config_storage, The_logger, Stderr_sink, Syslog_sink, File_sink, The_bridge, Autoloader_guard, Hooks_storage, Sapi_info,
      Inferred_spans, Task_executor, Http_transport, Resource_detector, Dynamic_config, OpAmp_client, Shared_memory, Request_scope,
      Messages_dispatcher, Config_provider, Coordinator_process]"

definition destroy_globals :: "agent_refs \<Rightarrow> agent_refs result" where
  "destroy_globals s =
     bind_result (agent_step s (Unhold Config_storage [File_sink, Syslog_sink, Stderr_sink, The_logger])) (\<lambda>s.
       let ms = filter (\<lambda>x. x = Task_executor \<longrightarrow> Task_executor \<in> set (ag_handles s)) (rev globals_members)
       in release_handles ms (s\<lparr>ag_handles := fold remove1 ms (ag_handles s)\<rparr>))"

definition no_agent :: agent_refs where
  "no_agent = \<lparr>ag_heap = [], ag_handles = [], ag_gone = []\<rparr>"

subsection \<open>What happens while the agent runs\<close>

text \<open>
  \<open>getPeriodicTaskExecutor\<close> makes the executor on its first call; \<open>elasticApmModuleInit\<close> adds the watcher of a worker; the transport
  opens connections, whose senders hold the logger; \<open>sendHeartbeat\<close> and \<open>sendInitialAgentToServer\<close> queue a request whose callback
  holds the \<open>OpAmp\<close> object (\<open>shared_from_this\<close>), and the sender thread destroys the callback when the request is done;
  \<open>coordinatorLoop\<close> makes the executor of the process.
\<close>

datatype agent_activity = First_executor | Watch_remote_config | Open_connection | Queue_request | Request_done | Coordinator_loop

definition content_of :: "agent_object \<Rightarrow> agent_refs \<Rightarrow> agent_object list" where
  "content_of x s = (case map_of (ag_heap s) x of None \<Rightarrow> [] | Some (n, c) \<Rightarrow> c)"

definition pending_requests :: "agent_refs \<Rightarrow> nat" where
  "pending_requests s = count_list (content_of Http_transport s) OpAmp_client"

fun activity_ops :: "agent_refs \<Rightarrow> agent_activity \<Rightarrow> agent_op list" where
  "activity_ops s First_executor = [Make Task_executor [Inferred_spans]]"
| "activity_ops s Watch_remote_config = [Hold Config_provider 0 Dynamic_config]"
| "activity_ops s Open_connection = [Hold Http_transport (pending_requests s) The_logger]"
| "activity_ops s Queue_request = [Hold Http_transport 0 OpAmp_client]"
| "activity_ops s Request_done = [Unhold Http_transport [OpAmp_client]]"
| "activity_ops s Coordinator_loop =
     [Make Process_executor [], Hold Coordinator_process 5 Process_executor, Drop Process_executor]"

text \<open>An executor is made once; a request is done only if it was queued.\<close>

fun activity_possible :: "agent_activity \<Rightarrow> agent_refs \<Rightarrow> bool" where
  "activity_possible First_executor s \<longleftrightarrow> Task_executor \<notin> fst ` set (ag_heap s)"
| "activity_possible Coordinator_loop s \<longleftrightarrow> Process_executor \<notin> fst ` set (ag_heap s)"
| "activity_possible Request_done s \<longleftrightarrow> 0 < pending_requests s"
| "activity_possible _ s \<longleftrightarrow> True"

inductive agent_runs :: "agent_refs \<Rightarrow> bool" where
  constructed: "run_result agent_step no_agent ginit_ops = Inr s \<Longrightarrow> agent_runs s"
| active: "agent_runs s \<Longrightarrow> activity_possible e s \<Longrightarrow> run_result agent_step s (activity_ops s e) = Inr s' \<Longrightarrow> agent_runs s'"

subsection \<open>The counts\<close>

fun agent_allowed :: "agent_refs \<Rightarrow> agent_op \<Rightarrow> bool" where
  "agent_allowed s (Make x ms) \<longleftrightarrow> x \<notin> fst ` set (ag_heap s) \<and> set ms \<subseteq> fst ` set (ag_heap s)"
| "agent_allowed s (Copy x) \<longleftrightarrow> x \<in> fst ` set (ag_heap s)"
| "agent_allowed s (Drop x) \<longleftrightarrow> x \<in> set (ag_handles s)"
| "agent_allowed s (Hold x i y) \<longleftrightarrow> x \<in> fst ` set (ag_heap s) \<and> y \<in> fst ` set (ag_heap s)"
| "agent_allowed s (Unhold x ys) \<longleftrightarrow> mset ys \<subseteq># mset (content_of x s) \<and> x \<in> fst ` set (ag_heap s)"

abbreviation ag_balanced :: "agent_object list \<Rightarrow> (agent_object, agent_object list) rc_heap \<Rightarrow> bool" where
  "ag_balanced \<equiv> balanced id"

lemma in_heap: "x \<in> fst ` set h \<Longrightarrow> \<exists>n c. map_of h x = Some (n, c)"
  by (metis eq_fst_iff map_of_eq_None_iff option.exhaust)

lemma count_list_mset: "count_list xs x = count (mset xs) x"
  by (induction xs) auto

lemma count_list_remove1: "x \<in> set xs \<Longrightarrow> count_list xs z = count_list [x] z + count_list (remove1 x xs) z"
  by (induction xs) auto

lemma fold_remove1_mset: "mset (fold remove1 ys xs) = mset xs - mset ys"
  by (induction ys arbitrary: xs) simp_all

lemma release_handles_balanced:
  assumes "ag_balanced (as @ ag_handles s @ gone) (ag_heap s)"
  shows "\<exists>h g. release_handles as s = Inr (s\<lparr>ag_heap := h, ag_gone := ag_gone s @ g\<rparr>) \<and> ag_balanced (ag_handles s @ gone) h \<and>
    shrunk h (ag_heap s) \<and> distinct g \<and> set g = fst ` set (ag_heap s) - fst ` set h \<and> holders_first id (ag_heap s) g"
proof -
  from rc_release_balanced [OF assms] obtain h g where "rc_release id as (ag_heap s) = Inr (h, g)" "ag_balanced (ag_handles s @ gone) h"
    "shrunk h (ag_heap s)" "distinct g" "set g = fst ` set (ag_heap s) - fst ` set h" "holders_first id (ag_heap s) g" by blast
  then show ?thesis by (intro exI [of _ h] exI [of _ g]) (simp add: release_handles_def)
qed

lemma unhold_content:
  assumes b: "ag_balanced hs (ag_heap s)" and m: "map_of (ag_heap s) x = Some (n, c)" and ys: "mset ys \<subseteq># mset c"
  shows "ag_balanced (ys @ hs) (um_assign x (n, fold remove1 ys c) (ag_heap s))"
proof (rule balanced_content [OF b m])
  fix z
  have "count (mset ys) z \<le> count (mset c) z" using ys by (simp add: mset_subset_eq_count)
  then show "count_list hs z + count_list (id c) z = count_list (ys @ hs) z + count_list (id (fold remove1 ys c)) z"
    by (simp add: count_list_mset fold_remove1_mset)
qed

lemma Drop_balanced:
  assumes x: "x \<in> set (ag_handles s)" and b: "ag_balanced (ag_handles s @ gone) (ag_heap s)"
  shows "\<exists>s'. agent_step s (Drop x) = Inr s' \<and> ag_balanced (ag_handles s' @ gone) (ag_heap s')"
proof -
  let ?s = "s\<lparr>ag_handles := remove1 x (ag_handles s)\<rparr>"
  have "count_list (ag_handles s @ gone) z = count_list ([x] @ remove1 x (ag_handles s) @ gone) z" for z
    by (simp only: count_list_append count_list_remove1 [OF x, of z] add.assoc)
  from iffD1 [OF balanced_cong [OF this] b]
  have "ag_balanced ([x] @ ag_handles ?s @ gone) (ag_heap ?s)" by simp
  from release_handles_balanced [OF this] obtain h g where
    "release_handles [x] ?s = Inr (?s\<lparr>ag_heap := h, ag_gone := ag_gone ?s @ g\<rparr>)" "ag_balanced (ag_handles ?s @ gone) h" by blast
  with x show ?thesis by simp
qed

lemma Hold_balanced:
  assumes x: "x \<in> fst ` set (ag_heap s)" and y: "y \<in> fst ` set (ag_heap s)" and b: "ag_balanced (ag_handles s @ gone) (ag_heap s)"
  shows "\<exists>s'. agent_step s (Hold x i y) = Inr s' \<and> ag_balanced (ag_handles s' @ gone) (ag_heap s')"
proof -
  from balanced_addref [OF b y] obtain h where
    h: "rc_addref y (ag_heap s) = Inr h" "ag_balanced (y # ag_handles s @ gone) h" "same_contents (ag_heap s) h" by auto
  obtain n c where m: "map_of h x = Some (n, c)" using in_heap [of x h] same_contents_keys [OF h(3)] x by auto
  have "count_list c z = count_list (take i c) z + count_list (drop i c) z" for z
    by (metis append_take_drop_id count_list_append)
  then have "count_list (y # ag_handles s @ gone) z + count_list (id c) z
      = count_list (ag_handles s @ gone) z + count_list (id (take i c @ y # drop i c)) z" for z by simp
  from balanced_content [where refs = id, OF h(2) m this]
  have "ag_balanced (ag_handles s @ gone) (um_assign x (n, take i c @ y # drop i c) h)" .
  with h(1) m show ?thesis by simp
qed

lemma Unhold_balanced:
  assumes m: "map_of (ag_heap s) x = Some (n, c)" and ys: "mset ys \<subseteq># mset c" and b: "ag_balanced (ag_handles s @ gone) (ag_heap s)"
  shows "\<exists>s' h g. agent_step s (Unhold x ys) = Inr s' \<and> s' = s\<lparr>ag_heap := h, ag_gone := ag_gone s @ g\<rparr> \<and>
    ag_balanced (ag_handles s @ gone) h \<and> shrunk h (um_assign x (n, fold remove1 ys c) (ag_heap s)) \<and>
    distinct g \<and> set g = fst ` set (um_assign x (n, fold remove1 ys c) (ag_heap s)) - fst ` set h"
proof -
  let ?s = "s\<lparr>ag_heap := um_assign x (n, fold remove1 ys c) (ag_heap s)\<rparr>"
  have "ag_balanced (ys @ ag_handles ?s @ gone) (ag_heap ?s)" using unhold_content [OF b m ys] by simp
  from release_handles_balanced [OF this] obtain h g where
    "release_handles ys ?s = Inr (?s\<lparr>ag_heap := h, ag_gone := ag_gone ?s @ g\<rparr>)" "ag_balanced (ag_handles ?s @ gone) h"
    "shrunk h (ag_heap ?s)" "distinct g" "set g = fst ` set (ag_heap ?s) - fst ` set h" by blast
  with m ys show ?thesis by (intro exI [of _ "s\<lparr>ag_heap := h, ag_gone := ag_gone s @ g\<rparr>"] exI [of _ h] exI [of _ g]) simp
qed

lemma agent_step_balanced:
  assumes ok: "agent_allowed s p" and b: "ag_balanced (ag_handles s @ gone) (ag_heap s)"
  shows "\<exists>s'. agent_step s p = Inr s' \<and> ag_balanced (ag_handles s' @ gone) (ag_heap s')"
proof (cases p)
  case (Make x ms)
  from balanced_addrefs [OF b, of ms] ok Make obtain h where
    h: "rc_addrefs ms (ag_heap s) = Inr h" "ag_balanced (ms @ ag_handles s @ gone) h" "same_contents (ag_heap s) h" by auto
  have "map_of h x = None" using ok Make same_contents_keys [OF h(3)] by (simp add: map_of_eq_None_iff)
  with balanced_new [of id ms "ag_handles s @ gone" h x] h Make show ?thesis by simp
next
  case (Copy x)
  from balanced_addref [OF b, of x] ok Copy obtain h where
    "rc_addref x (ag_heap s) = Inr h" "ag_balanced (x # ag_handles s @ gone) h" by auto
  with Copy show ?thesis by simp
next
  case (Drop x)
  with Drop_balanced [OF _ b] ok show ?thesis by simp
next
  case (Hold x i y)
  with Hold_balanced [OF _ _ b] ok show ?thesis by simp
next
  case (Unhold x ys)
  have "x \<in> fst ` set (ag_heap s)" using ok Unhold by simp
  then obtain n c where m: "map_of (ag_heap s) x = Some (n, c)" using in_heap by metis
  have "mset ys \<subseteq># mset c" using ok Unhold m by (simp add: content_of_def)
  from Unhold_balanced [OF m this b] obtain s' h where
    "agent_step s (Unhold x ys) = Inr s'" "ag_handles s' = ag_handles s" "ag_heap s' = h" "ag_balanced (ag_handles s @ gone) h" by auto
  with Unhold show ?thesis by simp
qed

interpretation agent: counted_client id ag_heap ag_handles agent_step "\<lambda>s p. []" agent_allowed "\<lambda>s. True"
  by unfold_locales (use agent_step_balanced in simp)

lemma no_agent_lost [simp]: "all_lost (\<lambda>s p. []) agent_step s ps = []"
  by (induction ps arbitrary: s) (auto split: sum.split)

subsection \<open>The shape of a running agent\<close>

definition contents :: "agent_refs \<Rightarrow> agent_object \<Rightarrow> agent_object list option" where
  "contents s x = map_option snd (map_of (ag_heap s) x)"

fun built_with :: "agent_object \<Rightarrow> agent_object list" where
  "built_with The_logger = [Stderr_sink, Syslog_sink, File_sink]"
| "built_with The_bridge = [The_logger]"
| "built_with Inferred_spans = [The_bridge]"
| "built_with Config_storage = [File_sink, Syslog_sink, Stderr_sink, The_logger]"
| "built_with Autoloader_guard = [The_logger, The_bridge]"
| "built_with Task_executor = [Inferred_spans]"
| "built_with Http_transport = [The_logger, Config_storage, The_logger]"
| "built_with Resource_detector = [The_bridge]"
| "built_with Dynamic_config = [The_logger]"
| "built_with OpAmp_client = [Resource_detector, Http_transport, Config_storage, The_logger]"
| "built_with Request_scope =
     [Hooks_storage, Config_storage, Inferred_spans, Autoloader_guard, Shared_memory, Sapi_info, The_bridge, The_logger]"
| "built_with Messages_dispatcher = [Http_transport, The_logger]"
| "built_with Config_provider = [OpAmp_client, The_logger]"
| "built_with Coordinator_process = [Config_provider, Messages_dispatcher, Signals_sender, Chunk_processor, Message_queue, The_logger]"
| "built_with Chunk_processor = [The_logger]"
| "built_with Signals_sender = [The_logger]"
| "built_with _ = []"

text \<open>With \<open>k\<close> watchers of a worker, \<open>c\<close> connections, \<open>p\<close> pending requests, and the two executors if they were made.\<close>

fun agent_content :: "nat \<Rightarrow> nat \<Rightarrow> nat \<Rightarrow> bool \<Rightarrow> bool \<Rightarrow> agent_object \<Rightarrow> agent_object list option" where
  "agent_content k c p t e Http_transport = Some (replicate p OpAmp_client @ replicate c The_logger @ built_with Http_transport)"
| "agent_content k c p t e Config_provider = Some (replicate k Dynamic_config @ built_with Config_provider)"
| "agent_content k c p t e Task_executor = (if t then Some (built_with Task_executor) else None)"
| "agent_content k c p t e Process_executor = (if e then Some [] else None)"
| "agent_content k c p t e Coordinator_process =
     Some (if e then take 5 (built_with Coordinator_process) @ Process_executor # drop 5 (built_with Coordinator_process)
           else built_with Coordinator_process)"
| "agent_content k c p t e x = Some (built_with x)"

definition static_handles :: "agent_object list" where
  "static_handles = [The_logger, Dynamic_config]"

definition agent_shape :: "nat \<Rightarrow> nat \<Rightarrow> nat \<Rightarrow> bool \<Rightarrow> bool \<Rightarrow> agent_refs \<Rightarrow> bool" where
  "agent_shape k c p t e s \<longleftrightarrow>
     ag_balanced (ag_handles s) (ag_heap s) \<and> contents s = agent_content k c p t e \<and>
     mset (ag_handles s) = mset static_handles + mset (filter (\<lambda>x. x = Task_executor \<longrightarrow> t) globals_members) \<and>
     ag_gone s = []"

definition constructed_agent :: agent_refs where
  "constructed_agent = (case run_result agent_step no_agent ginit_ops of Inr s \<Rightarrow> s | Inl _ \<Rightarrow> no_agent)"

lemmas agent_evaluation =
  constructed_agent_def no_agent_def ginit_ops_def AgentGlobals_ops_def rc_addref_def rc_new_def release_handles_def rc_release.simps
  numeral_2_eq_2 content_of_def

lemma constructed_run: "run_result agent_step no_agent ginit_ops = Inr constructed_agent"
  by (simp add: agent_evaluation)

lemma constructed_balanced: "ag_balanced (ag_handles constructed_agent) (ag_heap constructed_agent)"
proof -
  have "all_allowed agent_allowed agent_step no_agent ginit_ops" by (simp add: agent_evaluation)
  moreover have "ag_balanced (ag_handles no_agent) (ag_heap no_agent)" by (simp add: no_agent_def balanced_def)
  ultimately show ?thesis using agent.run_balanced [of no_agent ginit_ops "[]"] constructed_run by auto
qed

lemma constructed_shape: "agent_shape 0 0 0 False False constructed_agent"
proof -
  have "contents constructed_agent x = agent_content 0 0 0 False False x" for x
    by (cases x) (simp_all add: contents_def agent_evaluation)
  moreover have "mset (ag_handles constructed_agent) = mset static_handles + mset (filter (\<lambda>x. x = Task_executor \<longrightarrow> False) globals_members)"
    "ag_gone constructed_agent = []"
    by (simp_all add: agent_evaluation static_handles_def globals_members_def)
  ultimately show ?thesis using constructed_balanced by (auto simp: agent_shape_def)
qed

subsection \<open>Activities keep the shape\<close>

lemma contents_same: "same_contents (ag_heap s) h \<Longrightarrow> contents (s\<lparr>ag_heap := h\<rparr>) = contents s"
  by (simp add: contents_def same_contents_def fun_eq_iff)

lemma contents_Some: "contents s x = Some c \<longleftrightarrow> (\<exists>n. map_of (ag_heap s) x = Some (n, c))"
  by (auto simp: contents_def)

lemma contents_keys: "x \<in> fst ` set (ag_heap s) \<longleftrightarrow> contents s x \<noteq> None"
  by (simp add: contents_def map_of_eq_None_iff)

lemma contents_Make:
  assumes b: "ag_balanced (ag_handles s) (ag_heap s)" and x: "contents s x = None" and ms: "\<forall>m \<in> set ms. contents s m \<noteq> None"
  shows "\<exists>s'. agent_step s (Make x ms) = Inr s' \<and> contents s' = (contents s)(x \<mapsto> ms) \<and>
    ag_handles s' = x # ag_handles s \<and> ag_gone s' = ag_gone s \<and> ag_balanced (ag_handles s') (ag_heap s')"
proof -
  have k: "x \<notin> fst ` set (ag_heap s)" "set ms \<subseteq> fst ` set (ag_heap s)" using x ms by (auto simp: contents_keys)
  from balanced_addrefs [OF b k(2)] obtain h where
    h: "rc_addrefs ms (ag_heap s) = Inr h" "ag_balanced (ms @ ag_handles s) h" "same_contents (ag_heap s) h" by blast
  have "map_of h x = None" using k(1) same_contents_keys [OF h(3)] by (simp add: map_of_eq_None_iff)
  from balanced_new [OF _ this, of id ms "ag_handles s"] h(2) have "ag_balanced (x # ag_handles s) (rc_new x ms h)" by simp
  moreover have "contents (s\<lparr>ag_heap := rc_new x ms h, ag_handles := x # ag_handles s\<rparr>) = (contents s)(x \<mapsto> ms)"
    using h(3) by (auto simp: contents_def rc_new_def same_contents_def)
  ultimately show ?thesis using h(1) by simp
qed

lemma contents_Hold:
  assumes b: "ag_balanced (ag_handles s) (ag_heap s)" and x: "contents s x = Some c" and y: "contents s y \<noteq> None"
  shows "\<exists>s'. agent_step s (Hold x i y) = Inr s' \<and> contents s' = (contents s)(x \<mapsto> take i c @ y # drop i c) \<and>
    ag_handles s' = ag_handles s \<and> ag_gone s' = ag_gone s \<and> ag_balanced (ag_handles s') (ag_heap s')"
proof -
  have k: "x \<in> fst ` set (ag_heap s)" "y \<in> fst ` set (ag_heap s)" using x y by (auto simp: contents_keys)
  from balanced_addref [OF b k(2)] obtain h where
    h: "rc_addref y (ag_heap s) = Inr h" "same_contents (ag_heap s) h" by blast
  from x h(2) obtain n where m: "map_of h x = Some (n, c)"
    by (auto simp: contents_def same_contents_def) (metis (no_types, lifting) map_option_eq_Some option.simps(9) prod.collapse snd_conv)
  from h(1) m have step: "agent_step s (Hold x i y) = Inr (s\<lparr>ag_heap := um_assign x (n, take i c @ y # drop i c) h\<rparr>)" by simp
  have "contents (s\<lparr>ag_heap := um_assign x (n, take i c @ y # drop i c) h\<rparr>) = (contents s)(x \<mapsto> take i c @ y # drop i c)"
    using h(2) by (auto simp: contents_def same_contents_def umap_simps)
  then show ?thesis using step Hold_balanced [OF k, of "[]" i] b by simp
qed

text \<open>Dropping a pointer while another one to the same object is left.\<close>

lemma contents_Drop:
  assumes b: "ag_balanced (ag_handles s) (ag_heap s)" and x: "x \<in> set (ag_handles s)"
    and more: "x \<in> set (remove1 x (ag_handles s)) \<or> (\<exists>y c. contents s y = Some c \<and> x \<in> set c)"
  shows "\<exists>s'. agent_step s (Drop x) = Inr s' \<and> contents s' = contents s \<and>
    ag_handles s' = remove1 x (ag_handles s) \<and> ag_gone s' = ag_gone s \<and> ag_balanced (ag_handles s') (ag_heap s')"
proof -
  have "count_list (ag_handles s) z = count_list (x # remove1 x (ag_handles s)) z" for z
    by (simp only: count_list_remove1 [OF x, of z] count_list.simps add_0) simp
  from iffD1 [OF balanced_cong [OF this] b] have b': "ag_balanced (x # remove1 x (ag_handles s)) (ag_heap s)" .
  have "x \<in> set (remove1 x (ag_handles s)) \<union> set (inner_refs id (ag_heap s))"
    using more not_referenced [of "ag_heap s" _ _ _ x id] by (auto simp: contents_Some)
  from rc_release_not_last [OF b' this] obtain h where
    "rc_release id [x] (ag_heap s) = Inr (h, [])" "ag_balanced (remove1 x (ag_handles s)) h" "same_contents (ag_heap s) h" by blast
  then show ?thesis using x by (auto simp: release_handles_def contents_def same_contents_def)
qed

lemma contents_Unhold:
  assumes b: "ag_balanced (ag_handles s) (ag_heap s)" and x: "contents s x = Some c" and y: "y \<in> set c" "y \<in> set (ag_handles s)"
  shows "\<exists>s'. agent_step s (Unhold x [y]) = Inr s' \<and> contents s' = (contents s)(x \<mapsto> remove1 y c) \<and>
    ag_handles s' = ag_handles s \<and> ag_gone s' = ag_gone s \<and> ag_balanced (ag_handles s') (ag_heap s')"
proof -
  obtain n where m: "map_of (ag_heap s) x = Some (n, c)" using x by (auto simp: contents_Some)
  have "mset [y] \<subseteq># mset c" using y(1) by simp
  from unhold_content [OF b m this] have b': "ag_balanced (y # ag_handles s) (um_assign x (n, remove1 y c) (ag_heap s))" by simp
  from rc_release_not_last [OF b'] y(2) obtain h where
    h: "rc_release id [y] (um_assign x (n, remove1 y c) (ag_heap s)) = Inr (h, [])" "ag_balanced (ag_handles s) h"
      "same_contents (um_assign x (n, remove1 y c) (ag_heap s)) h" by blast
  have "map_option snd (map_of h z) = ((contents s)(x \<mapsto> remove1 y c)) z" for z
  proof -
    have "map_option snd (map_of h z) = map_option snd (map_of (um_assign x (n, remove1 y c) (ag_heap s)) z)"
      using h(3) by (simp add: same_contents_def)
    then show ?thesis by (simp add: contents_def umap_simps)
  qed
  then have "contents (s\<lparr>ag_heap := h\<rparr>) = (contents s)(x \<mapsto> remove1 y c)" by (auto simp: contents_def fun_eq_iff)
  then show ?thesis using m y(1) h by (auto simp: release_handles_def)
qed

lemma agent_content_updates:
  "(agent_content k c p t e)(Task_executor \<mapsto> built_with Task_executor) = agent_content k c p True e"
  "(agent_content k c p t e)(Config_provider \<mapsto> Dynamic_config # replicate k Dynamic_config @ built_with Config_provider)
     = agent_content (Suc k) c p t e"
  "(agent_content k c p t e)(Http_transport \<mapsto> replicate p OpAmp_client @ The_logger # replicate c The_logger @ built_with Http_transport)
     = agent_content k (Suc c) p t e"
  "(agent_content k c p t e)(Http_transport \<mapsto> replicate (Suc p) OpAmp_client @ replicate c The_logger @ built_with Http_transport)
     = agent_content k c (Suc p) t e"
  "(agent_content k c (Suc p) t e)(Http_transport \<mapsto> replicate p OpAmp_client @ replicate c The_logger @ built_with Http_transport)
     = agent_content k c p t e"
  "(agent_content k c p t False)(Process_executor \<mapsto> [], Coordinator_process \<mapsto>
      take 5 (built_with Coordinator_process) @ Process_executor # drop 5 (built_with Coordinator_process)) = agent_content k c p t True"
  by (rule ext, rename_tac x, case_tac x, simp_all)+

lemma pending_shape: "agent_shape k c p t e s \<Longrightarrow> pending_requests s = p"
proof -
  assume "agent_shape k c p t e s"
  then have "contents s Http_transport = agent_content k c p t e Http_transport" by (simp add: agent_shape_def)
  then obtain n where "map_of (ag_heap s) Http_transport = Some (n, replicate p OpAmp_client @ replicate c The_logger @ built_with Http_transport)"
    unfolding agent_content.simps contents_Some by blast
  then show ?thesis by (simp add: pending_requests_def content_of_def count_list_mset)
qed

lemma handles_shape: "agent_shape k c p t e s \<Longrightarrow> set globals_members - {Task_executor} \<subseteq> set (ag_handles s)"
proof -
  assume "agent_shape k c p t e s"
  then have "set_mset (mset (ag_handles s)) = set_mset (mset static_handles + mset (filter (\<lambda>x. x = Task_executor \<longrightarrow> t) globals_members))"
    by (simp only: agent_shape_def)
  then show ?thesis by auto
qed

definition agent_shaped :: "agent_refs \<Rightarrow> bool" where
  "agent_shaped s \<longleftrightarrow> (\<exists>k c p t e. agent_shape k c p t e s)"

lemma shapedI: "agent_shape k c p t e s \<Longrightarrow> agent_shaped s"
  unfolding agent_shaped_def by blast

lemma activity_shape:
  assumes s: "agent_shape k c p t e s" and ok: "activity_possible a s"
  shows "\<exists>s'. run_result agent_step s (activity_ops s a) = Inr s' \<and> agent_shaped s'"
proof -
  have b: "ag_balanced (ag_handles s) (ag_heap s)" and cs: "contents s = agent_content k c p t e"
    and hs: "mset (ag_handles s) = mset static_handles + mset (filter (\<lambda>x. x = Task_executor \<longrightarrow> t) globals_members)"
    and gone: "ag_gone s = []" using s by (simp_all add: agent_shape_def)
  show ?thesis
  proof (cases a)
    case First_executor
    then have t: "\<not> t" using ok cs by (simp add: contents_keys split: if_splits)
    have "contents s Task_executor = None" "\<forall>m \<in> set (built_with Task_executor). contents s m \<noteq> None" using cs t by simp_all
    from contents_Make [OF b this] obtain s' where
      "agent_step s (Make Task_executor (built_with Task_executor)) = Inr s'" "contents s' = agent_content k c p True e"
      "ag_handles s' = Task_executor # ag_handles s" "ag_gone s' = []" "ag_balanced (ag_handles s') (ag_heap s')"
      using gone cs agent_content_updates(1) by auto
    moreover from this have "agent_shape k c p True e s'" using hs t by (simp add: agent_shape_def globals_members_def)
    then have "agent_shaped s'" by (rule shapedI)
    ultimately show ?thesis using First_executor by (simp del: agent_step.simps)
  next
    case Watch_remote_config
    from contents_Hold [OF b, of Config_provider _ Dynamic_config 0] obtain s' where
      "agent_step s (Hold Config_provider 0 Dynamic_config) = Inr s'" "contents s' = agent_content (Suc k) c p t e"
      "ag_handles s' = ag_handles s" "ag_gone s' = []" "ag_balanced (ag_handles s') (ag_heap s')"
      using gone cs agent_content_updates(2) by (auto simp del: built_with.simps)
    moreover from this have "agent_shape (Suc k) c p t e s'" using hs by (simp add: agent_shape_def)
    then have "agent_shaped s'" by (rule shapedI)
    ultimately show ?thesis using Watch_remote_config by (simp del: agent_step.simps)
  next
    case Open_connection
    from contents_Hold [OF b, of Http_transport _ The_logger p] obtain s' where
      "agent_step s (Hold Http_transport p The_logger) = Inr s'" "contents s' = agent_content k (Suc c) p t e"
      "ag_handles s' = ag_handles s" "ag_gone s' = []" "ag_balanced (ag_handles s') (ag_heap s')"
      using gone cs agent_content_updates(3) by (auto simp del: built_with.simps)
    moreover from this have "agent_shape k (Suc c) p t e s'" using hs by (simp add: agent_shape_def)
    then have "agent_shaped s'" by (rule shapedI)
    ultimately show ?thesis using Open_connection pending_shape [OF s] by (simp del: agent_step.simps)
  next
    case Queue_request
    from contents_Hold [OF b, of Http_transport _ OpAmp_client 0] obtain s' where
      "agent_step s (Hold Http_transport 0 OpAmp_client) = Inr s'" "contents s' = agent_content k c (Suc p) t e"
      "ag_handles s' = ag_handles s" "ag_gone s' = []" "ag_balanced (ag_handles s') (ag_heap s')"
      using gone cs agent_content_updates(4) by (auto simp del: built_with.simps)
    moreover from this have "agent_shape k c (Suc p) t e s'" using hs by (simp add: agent_shape_def)
    then have "agent_shaped s'" by (rule shapedI)
    ultimately show ?thesis using Queue_request by (simp del: agent_step.simps)
  next
    case Request_done
    then obtain q where p: "p = Suc q" using ok pending_shape [OF s] by (cases p) auto
    have "OpAmp_client \<in> set (ag_handles s)" using handles_shape [OF s] by (auto simp: globals_members_def)
    with contents_Unhold [OF b, of Http_transport _ OpAmp_client] obtain s' where
      "agent_step s (Unhold Http_transport [OpAmp_client]) = Inr s'" "contents s' = agent_content k c q t e"
      "ag_handles s' = ag_handles s" "ag_gone s' = []" "ag_balanced (ag_handles s') (ag_heap s')"
      using gone cs p agent_content_updates(5) by (auto simp del: built_with.simps agent_step.simps)
    moreover from this have "agent_shape k c q t e s'" using hs by (simp add: agent_shape_def)
    then have "agent_shaped s'" by (rule shapedI)
    ultimately show ?thesis using Request_done by (simp del: agent_step.simps)
  next
    case Coordinator_loop
    then have e: "\<not> e" using ok cs by (simp add: contents_keys split: if_splits)
    have "contents s Process_executor = None" using cs e by simp
    from contents_Make [OF b this, of "[]"] obtain s1 where
      s1: "agent_step s (Make Process_executor []) = Inr s1" "contents s1 = (agent_content k c p t False)(Process_executor \<mapsto> [])"
      "ag_handles s1 = Process_executor # ag_handles s" "ag_gone s1 = []" "ag_balanced (ag_handles s1) (ag_heap s1)"
      using gone cs e by auto
    from contents_Hold [OF s1(5), of Coordinator_process "built_with Coordinator_process" Process_executor 5] obtain s2 where
      s2: "agent_step s1 (Hold Coordinator_process 5 Process_executor) = Inr s2" "contents s2 = agent_content k c p t True"
      "ag_handles s2 = Process_executor # ag_handles s" "ag_gone s2 = []" "ag_balanced (ag_handles s2) (ag_heap s2)"
      using s1 agent_content_updates(6) by (auto simp del: built_with.simps)
    have "\<exists>y c. contents s2 y = Some c \<and> Process_executor \<in> set c"
      using s2(2) by (intro exI [of _ Coordinator_process]) simp
    with contents_Drop [OF s2(5), of Process_executor] obtain s' where
      "agent_step s2 (Drop Process_executor) = Inr s'" "contents s' = agent_content k c p t True"
      "ag_handles s' = ag_handles s" "ag_gone s' = []" "ag_balanced (ag_handles s') (ag_heap s')"
      using s2 by auto
    moreover from this have "agent_shape k c p t True s'" using hs by (simp add: agent_shape_def)
    then have "agent_shaped s'" by (rule shapedI)
    ultimately show ?thesis using Coordinator_loop s1(1) s2(1) by (simp del: agent_step.simps)
  qed
qed

lemma runs_shaped: "agent_runs s \<Longrightarrow> agent_shaped s"
proof (induction rule: agent_runs.induct)
  case (constructed s)
  then have "s = constructed_agent" using constructed_run by simp
  then show ?case using shapedI [OF constructed_shape] by simp
next
  case (active s e s')
  then obtain k c p t e' where "agent_shape k c p t e' s" by (auto simp: agent_shaped_def)
  from activity_shape [OF this active.hyps(2)] active.hyps(3) show ?case by auto
qed

subsection \<open>The destructor\<close>

definition members_of :: "bool \<Rightarrow> agent_object list" where
  "members_of t = filter (\<lambda>x. x = Task_executor \<longrightarrow> t) (rev globals_members)"

text \<open>After the first line of the destructor the configuration holds nothing, and nothing is released yet.\<close>

lemma unwatched:
  assumes "agent_shape k c p t e s"
  shows "\<exists>s1. agent_step s (Unhold Config_storage [File_sink, Syslog_sink, Stderr_sink, The_logger]) = Inr s1 \<and>
    contents s1 = (agent_content k c p t e)(Config_storage \<mapsto> []) \<and> ag_handles s1 = ag_handles s \<and> ag_gone s1 = [] \<and>
    ag_balanced (ag_handles s) (ag_heap s1)"
proof -
  let ?ys = "[File_sink, Syslog_sink, Stderr_sink, The_logger]"
  have b: "ag_balanced (ag_handles s) (ag_heap s)" and cs: "contents s = agent_content k c p t e" and gone: "ag_gone s = []"
    using assms by (simp_all add: agent_shape_def)
  have "contents s Config_storage = Some ?ys" using cs by simp
  then obtain n where m: "map_of (ag_heap s) Config_storage = Some (n, ?ys)" by (auto simp: contents_Some)
  have "ag_balanced (?ys @ ag_handles s) (um_assign Config_storage (n, []) (ag_heap s))"
    using unhold_content [OF b m, of ?ys] by simp
  moreover have "set ?ys \<subseteq> set (ag_handles s)" using handles_shape [OF assms] by (auto simp: globals_members_def)
  ultimately obtain h where
    h: "rc_release id ?ys (um_assign Config_storage (n, []) (ag_heap s)) = Inr (h, [])" "ag_balanced (ag_handles s) h"
      "same_contents (um_assign Config_storage (n, []) (ag_heap s)) h" using rc_release_held by blast
  have step: "agent_step s (Unhold Config_storage ?ys) = Inr (s\<lparr>ag_heap := h\<rparr>)"
    using m h(1) by (simp add: release_handles_def)
  have "map_option snd (map_of h x) = ((contents s)(Config_storage \<mapsto> [])) x" for x
  proof -
    have "map_option snd (map_of h x) = map_option snd (map_of (um_assign Config_storage (n, []) (ag_heap s)) x)"
      using h(3) by (simp add: same_contents_def)
    then show ?thesis by (simp add: contents_def umap_simps)
  qed
  then have "contents (s\<lparr>ag_heap := h\<rparr>) = (agent_content k c p t e)(Config_storage \<mapsto> [])" using cs by (auto simp: contents_def fun_eq_iff)
  with step gone h(2) show ?thesis by (intro exI [of _ "s\<lparr>ag_heap := h\<rparr>"]) simp
qed

lemma handles_after:
  assumes "agent_shape k c p t e s"
  shows "mset (fold remove1 (members_of t) (ag_handles s)) = mset static_handles"
    and "Task_executor \<in> set (ag_handles s) \<longleftrightarrow> t"
proof -
  have hs: "mset (ag_handles s) = mset static_handles + mset (filter (\<lambda>x. x = Task_executor \<longrightarrow> t) globals_members)"
    using assms by (simp add: agent_shape_def)
  then have "set_mset (mset (ag_handles s)) = set_mset (mset static_handles + mset (filter (\<lambda>x. x = Task_executor \<longrightarrow> t) globals_members))"
    by simp
  then show "Task_executor \<in> set (ag_handles s) \<longleftrightarrow> t" by (auto simp: static_handles_def globals_members_def)
  have "mset (members_of t) = mset (filter (\<lambda>x. x = Task_executor \<longrightarrow> t) globals_members)"
    by (simp add: members_of_def)
  then show "mset (fold remove1 (members_of t) (ag_handles s)) = mset static_handles"
    using hs by (simp only: fold_remove1_mset) simp
qed

text \<open>What the destructor leaves, whatever the agent did.\<close>

lemma destroy_globals_facts:
  assumes s: "agent_shape k c p t e s"
  shows "\<exists>s' s1. destroy_globals s = Inr s' \<and> contents s1 = (agent_content k c p t e)(Config_storage \<mapsto> []) \<and>
    mset (ag_handles s') = mset static_handles \<and> ag_balanced static_handles (ag_heap s') \<and> shrunk (ag_heap s') (ag_heap s1) \<and>
    distinct (ag_gone s') \<and> set (ag_gone s') = fst ` set (ag_heap s1) - fst ` set (ag_heap s') \<and>
    holders_first id (ag_heap s1) (ag_gone s') \<and>
    (\<forall>C. held_within id C (ag_heap s1) \<longrightarrow> held_within id C (ag_heap s'))"
proof -
  from unwatched [OF s] obtain s1 where
    s1: "agent_step s (Unhold Config_storage [File_sink, Syslog_sink, Stderr_sink, The_logger]) = Inr s1"
      "contents s1 = (agent_content k c p t e)(Config_storage \<mapsto> [])" "ag_handles s1 = ag_handles s" "ag_gone s1 = []"
      "ag_balanced (ag_handles s) (ag_heap s1)" by blast
  let ?hs = "fold remove1 (members_of t) (ag_handles s)"
  have ms: "filter (\<lambda>x. x = Task_executor \<longrightarrow> Task_executor \<in> set (ag_handles s1)) (rev globals_members) = members_of t"
    unfolding members_of_def s1(3) handles_after(2) [OF s] ..
  have "mset (members_of t) \<subseteq># mset (ag_handles s)"
    using s by (simp add: agent_shape_def members_of_def)
  then have "count_list (ag_handles s) x = count_list (members_of t @ ?hs) x" for x
    by (simp add: count_list_mset fold_remove1_mset mset_subset_eq_count)
  from iffD1 [OF balanced_cong [OF this] s1(5)] have b: "ag_balanced (members_of t @ ?hs) (ag_heap s1)" .
  from rc_release_balanced [OF b] obtain h g where
    r: "rc_release id (members_of t) (ag_heap s1) = Inr (h, g)" "ag_balanced ?hs h" "shrunk h (ag_heap s1)" "distinct g"
      "set g = fst ` set (ag_heap s1) - fst ` set h" "holders_first id (ag_heap s1) g" by blast
  have "count_list ?hs x = count_list static_handles x" for x
    using handles_after(1) [OF s] by (simp add: count_list_mset)
  from iffD1 [OF balanced_cong [OF this] r(2)] have "ag_balanced static_handles h" .
  moreover have "held_within id C (ag_heap s1) \<longrightarrow> held_within id C h" for C using rc_release_circle [OF b _ r(1)] by blast
  ultimately show ?thesis
    using s1 r(1,3-) handles_after(1) [OF s] ms
    by (intro exI [of _ "s1\<lparr>ag_heap := h, ag_handles := ?hs, ag_gone := g\<rparr>"] exI [of _ s1])
      (simp add: destroy_globals_def release_handles_def Let_def del: agent_step.simps)
qed

text \<open>Without a pending request the pointers form no circle: every object has a higher rank than what it holds.\<close>

fun agent_rank :: "agent_object \<Rightarrow> nat" where
  "agent_rank The_logger = 1"
| "agent_rank The_bridge = 2"
| "agent_rank Dynamic_config = 2"
| "agent_rank Config_storage = 2"
| "agent_rank Chunk_processor = 2"
| "agent_rank Signals_sender = 2"
| "agent_rank Inferred_spans = 3"
| "agent_rank Autoloader_guard = 3"
| "agent_rank Resource_detector = 3"
| "agent_rank Http_transport = 3"
| "agent_rank Task_executor = 4"
| "agent_rank OpAmp_client = 4"
| "agent_rank Request_scope = 4"
| "agent_rank Messages_dispatcher = 4"
| "agent_rank Config_provider = 5"
| "agent_rank Coordinator_process = 6"
| "agent_rank _ = 0"

definition static_objects :: "agent_object set" where
  "static_objects = {The_logger, Stderr_sink, Syslog_sink, File_sink, Dynamic_config}"

lemma unwatched_ranked:
  "((agent_content k c 0 t e)(Config_storage \<mapsto> [])) x = Some d \<Longrightarrow> y \<in> set d \<Longrightarrow> agent_rank y < agent_rank x"
  by (cases x) (auto split: if_splits)

lemma unwatched_static:
  "((agent_content k c p t e)(Config_storage \<mapsto> [])) x = Some d \<Longrightarrow> x \<in> static_objects \<Longrightarrow> set d \<subseteq> static_objects"
  by (cases x) (auto simp: static_objects_def)

lemma shrunk_contents: "shrunk h (ag_heap s) \<Longrightarrow> map_of h x = Some (n, d) \<Longrightarrow> contents s x = Some d"
  unfolding shrunk_def contents_Some by blast

lemma static_survivors:
  assumes b: "ag_balanced static_handles h" and f: "\<And>x n d. map_of h x = Some (n, d) \<Longrightarrow> ((agent_content k c 0 t e)(Config_storage \<mapsto> [])) x = Some d"
  shows "fst ` set h = static_objects"
proof
  have "um_wf h" using b by (simp add: balanced_def)
  have ranked: "agent_rank y < agent_rank a" if "(a, n, d) \<in> set h" and "y \<in> set d" for a n d y
  proof -
    have "map_of h a = Some (n, d)" using \<open>um_wf h\<close> that(1) by (simp add: um_wf_map_of_iff)
    from unwatched_ranked [OF f [OF this] that(2)] show ?thesis .
  qed
  then have "acyclic_heap id agent_rank h" unfolding acyclic_heap_def by (auto simp: ranked)
  moreover have "set static_handles \<subseteq> static_objects" by (simp add: static_handles_def static_objects_def)
  ultimately show "fst ` set h \<subseteq> static_objects"
    by (rule survivors_reachable [OF b]) (use unwatched_static [OF f] in \<open>auto simp: id_def\<close>)
next
  have "The_logger \<in> fst ` set h" "Dynamic_config \<in> fst ` set h"
    using balanced_live_iff [OF b] by (simp_all add: static_handles_def)
  moreover obtain n d where m: "map_of h The_logger = Some (n, d)" using in_heap calculation(1) by metis
  then have "d = [Stderr_sink, Syslog_sink, File_sink]" using f [OF m] by simp
  then have "{Stderr_sink, Syslog_sink, File_sink} \<subseteq> set (inner_refs id h)" using not_referenced [OF m, of _ id] by auto
  then have "{Stderr_sink, Syslog_sink, File_sink} \<subseteq> fst ` set h" using balanced_live_iff [OF b] by auto
  ultimately show "static_objects \<subseteq> fst ` set h" by (auto simp: static_objects_def)
qed

subsection \<open>Threads\<close>

text \<open>
  The threads of the agent; the destructor of the transport, of the OpAMP client and of an executor ends and joins the
  thread of that object (\<open>shutdownThread\<close>, \<open>shutdown\<close>). \<open>thread_uses\<close> are the objects the function of that thread reaches
  through \<open>this\<close> or a plain pointer it captured, without a count of its own: the sender and the heartbeat thread the members of
  their object, the executor what its tasks capture. The task of the coordinator loop captures the \<open>CoordinatorProcess\<close> and reads
  its \<open>processor_\<close>.
\<close>

datatype agent_thread = Request_thread | Sender_thread | Heartbeat_thread | Executor_thread | Process_thread

fun joined_thread :: "agent_object \<Rightarrow> agent_thread option" where
  "joined_thread Http_transport = Some Sender_thread"
| "joined_thread OpAmp_client = Some Heartbeat_thread"
| "joined_thread Task_executor = Some Executor_thread"
| "joined_thread Process_executor = Some Process_thread"
| "joined_thread _ = None"

fun thread_uses :: "agent_object \<Rightarrow> agent_object list" where
  "thread_uses Http_transport = [Http_transport, The_logger, Config_storage]"
| "thread_uses OpAmp_client = [OpAmp_client, The_logger, Http_transport]"
| "thread_uses Task_executor = [Task_executor, Inferred_spans]"
| "thread_uses Process_executor = [Process_executor, Coordinator_process, The_logger, Chunk_processor]"
| "thread_uses _ = []"

fun activity_thread :: "agent_activity \<Rightarrow> agent_thread" where
  "activity_thread Queue_request = Heartbeat_thread"
| "activity_thread Request_done = Sender_thread"
| "activity_thread _ = Request_thread"

text \<open>
  An operation run by a thread. When it destroys the object whose destructor is to end that very thread, the thread waits for
  itself: the sender thread drops a callback with the mutex of the transport locked, which \<open>shutdownThread\<close> locks again before it
  joins.
\<close>

definition thread_step :: "agent_thread \<Rightarrow> agent_refs \<Rightarrow> agent_op \<Rightarrow> agent_refs result" where
  "thread_step th s p =
     bind_result (agent_step s p) (\<lambda>s'.
       if \<exists>x \<in> set (drop (length (ag_gone s)) (ag_gone s')). joined_thread x = Some th
       then Inl (Undefined ''a thread that ends itself'') else Inr s')"

lemma thread_uses_held:
  "agent_content k c p t e x = Some d \<Longrightarrow> x \<noteq> Process_executor \<Longrightarrow> y \<in> set (thread_uses x) \<Longrightarrow> y = x \<or> y \<in> set d"
  by (cases x) (auto split: if_splits)

lemma takeWhile_not: "x \<notin> set (takeWhile (\<lambda>z. z \<noteq> x) xs)"
  by (auto dest: set_takeWhileD)

text \<open>
  C8. The end of the agent, as far as counted pointers go: with no request of the OpAMP client in the queue, deleting the globals
  destroys every object but the logger, its sinks and the dynamic configuration, which the static configuration manager keeps;
  each once, none before an object that holds a counted pointer to it, and without a use of a destroyed object through one.
  The transport, the OpAMP client and the executor of the requests, whose destructors wait for a thread, are destroyed before
  anything that thread reads. The executor of the coordinator loop is left out here: its thread reads the message processor
  through a plain pointer, and \<open>coordinator_exit_order\<close> below shows it is destroyed after it.
\<close>

theorem agent_destroyed_in_order:
  assumes "agent_runs s" and "pending_requests s = 0"
  shows "\<exists>s'. destroy_globals s = Inr s' \<and> fst ` set (ag_heap s') = static_objects \<and>
           distinct (ag_gone s') \<and> set (ag_gone s') = fst ` set (ag_heap s) - static_objects \<and>
           (\<forall>x \<in> set (ag_gone s'). \<forall>y \<in> set (content_of x s). y \<notin> set (takeWhile (\<lambda>z. z \<noteq> x) (ag_gone s'))) \<and>
           (\<forall>x \<in> set (ag_gone s') - {Process_executor}. \<forall>y \<in> set (thread_uses x). y \<notin> set (takeWhile (\<lambda>z. z \<noteq> x) (ag_gone s')))"
proof -
  obtain k c p t e where s: "agent_shape k c p t e s" using runs_shaped [OF assms(1)] by (auto simp: agent_shaped_def)
  then have p: "p = 0" using pending_shape assms(2) by metis
  have cs: "contents s = agent_content k c 0 t e" using s p by (simp add: agent_shape_def)
  from destroy_globals_facts [OF s] obtain s' s1 where
    d: "destroy_globals s = Inr s'" "contents s1 = (agent_content k c 0 t e)(Config_storage \<mapsto> [])"
      "ag_balanced static_handles (ag_heap s')" "shrunk (ag_heap s') (ag_heap s1)" "distinct (ag_gone s')"
      "set (ag_gone s') = fst ` set (ag_heap s1) - fst ` set (ag_heap s')" "holders_first id (ag_heap s1) (ag_gone s')"
    unfolding p by blast
  have left: "fst ` set (ag_heap s') = static_objects"
    using static_survivors [OF d(3)] shrunk_contents [OF d(4)] d(2) by metis
  have "fst ` set (ag_heap s1) = fst ` set (ag_heap s)"
    using d(2) cs by (auto simp: set_eq_iff contents_keys)
  then have gone: "set (ag_gone s') = fst ` set (ag_heap s) - static_objects" using d(6) left by simp
  have order: "y \<notin> set (takeWhile (\<lambda>z. z \<noteq> x) (ag_gone s'))" if x: "x \<in> set (ag_gone s')" and y: "y \<in> set (content_of x s)" for x y
  proof (cases "x = Config_storage")
    case True
    have "contents s Config_storage = Some (built_with Config_storage)" using cs by simp
    then have "y \<in> static_objects" using y True by (auto simp: contents_Some content_of_def static_objects_def)
    then show ?thesis using gone by (auto dest: set_takeWhileD)
  next
    case False
    have "x \<in> fst ` set (ag_heap s1)" using x d(6) by simp
    then obtain n d' where m: "map_of (ag_heap s1) x = Some (n, d')" using in_heap by metis
    then have "contents s x = Some d'" using d(2) cs False by (metis contents_Some fun_upd_apply)
    then have "y \<in> set (id d')" using y by (auto simp: contents_Some content_of_def)
    from holders_first_before [OF d(7) x m this] show ?thesis .
  qed
  have used: "y \<notin> set (takeWhile (\<lambda>z. z \<noteq> x) (ag_gone s'))"
    if x: "x \<in> set (ag_gone s')" "x \<noteq> Process_executor" and y: "y \<in> set (thread_uses x)" for x y
  proof -
    have "x \<in> fst ` set (ag_heap s)" using x(1) gone by blast
    then obtain n d' where "map_of (ag_heap s) x = Some (n, d')" using in_heap by metis
    then have c: "contents s x = Some d'" "content_of x s = d'" by (simp_all add: contents_def content_of_def)
    from thread_uses_held [OF c(1) [unfolded cs] x(2) y] show ?thesis
      using order [OF x(1)] takeWhile_not [of x] by (auto simp: c(2))
  qed
  show ?thesis using d(1,5) left gone order used by blast
qed

text \<open>The object graph after the destructor, as the last requests come in.\<close>

definition orphaned :: "nat \<Rightarrow> nat \<Rightarrow> bool \<Rightarrow> bool \<Rightarrow> nat \<Rightarrow> agent_refs \<Rightarrow> bool" where
  "orphaned k c t e p s \<longleftrightarrow>
     ag_balanced static_handles (ag_heap s) \<and> mset (ag_handles s) = mset static_handles \<and>
     (\<forall>x d. contents s x = Some d \<longrightarrow> ((agent_content k c p t e)(Config_storage \<mapsto> [])) x = Some d) \<and>
     contents s Http_transport \<noteq> None \<and> contents s OpAmp_client \<noteq> None"

lemma orphaned_transport:
  "orphaned k c t e p s \<Longrightarrow> contents s Http_transport = Some (replicate p OpAmp_client @ replicate c The_logger @ built_with Http_transport)"
proof -
  assume o: "orphaned k c t e p s"
  then obtain d where d: "contents s Http_transport = Some d" by (auto simp: orphaned_def)
  with o have "((agent_content k c p t e)(Config_storage \<mapsto> [])) Http_transport = Some d" unfolding orphaned_def by blast
  with d show ?thesis by simp
qed

lemma orphaned_alive:
  "orphaned k c t e p s \<Longrightarrow> contents s Http_transport \<noteq> None"
  "orphaned k c t e p s \<Longrightarrow> contents s OpAmp_client \<noteq> None"
  "orphaned k c t e p s \<Longrightarrow> mset (ag_handles s) = mset static_handles"
  unfolding orphaned_def by blast+

lemma orphaned_handles: "orphaned k c t e p s \<Longrightarrow> ag_balanced (ag_handles s) (ag_heap s)"
  unfolding orphaned_def by (metis balanced_cong count_list_mset)

lemma static_balanced: "orphaned k c t e p s \<Longrightarrow> ag_balanced (ag_handles s) h \<Longrightarrow> ag_balanced static_handles h"
  unfolding orphaned_def by (metis balanced_cong count_list_mset)

lemma held_within_live:
  assumes b: "ag_balanced hs h" and C: "held_within id C h"
  shows "C \<subseteq> fst ` set h"
proof
  fix a assume "a \<in> C"
  then obtain x n c where "map_of h x = Some (n, c)" "a \<in> set (id c)" using C unfolding held_within_def by blast
  then have "a \<in> set (inner_refs id h)" by (rule not_referenced)
  then show "a \<in> fst ` set h" using balanced_live_iff [OF b] by blast
qed

lemma pending_request_keeps_transport_facts:
  assumes s: "agent_shape k c p t e s" and p: "p = Suc q"
  shows "\<exists>s'. destroy_globals s = Inr s' \<and> orphaned k c t e p s' \<and> {OpAmp_client, Http_transport} \<inter> set (ag_gone s') = {}"
proof -
  from destroy_globals_facts [OF s] obtain s' s1 where
    d: "destroy_globals s = Inr s'" "contents s1 = (agent_content k c p t e)(Config_storage \<mapsto> [])"
      "mset (ag_handles s') = mset static_handles" "ag_balanced static_handles (ag_heap s')" "shrunk (ag_heap s') (ag_heap s1)"
      "set (ag_gone s') = fst ` set (ag_heap s1) - fst ` set (ag_heap s')"
      "held_within id {OpAmp_client, Http_transport} (ag_heap s1) \<longrightarrow> held_within id {OpAmp_client, Http_transport} (ag_heap s')"
    by blast
  have "contents s1 OpAmp_client = Some (built_with OpAmp_client)"
    "contents s1 Http_transport = Some (OpAmp_client # replicate q OpAmp_client @ replicate c The_logger @ built_with Http_transport)"
    using d(2) p by simp_all
  then have "held_within id {OpAmp_client, Http_transport} (ag_heap s1)"
    unfolding held_within_def contents_Some by fastforce
  then have live: "{OpAmp_client, Http_transport} \<subseteq> fst ` set (ag_heap s')" using held_within_live [OF d(4)] d(7) by blast
  have "((agent_content k c p t e)(Config_storage \<mapsto> [])) x = Some d'" if x: "contents s' x = Some d'" for x d'
  proof -
    obtain n where "map_of (ag_heap s') x = Some (n, d')" using x contents_Some by metis
    from shrunk_contents [OF d(5) this] show ?thesis unfolding d(2) .
  qed
  then have "orphaned k c t e p s'" using d(3,4) live by (auto simp: orphaned_def contents_keys)
  with d(1,6) live show ?thesis by blast
qed

text \<open>
  A queued request keeps the transport: its callback holds the OpAMP client and the client holds the transport, so both
  survive the deletion of the globals, with their threads, although no handle to them is left.
\<close>

theorem pending_request_keeps_transport:
  assumes "agent_runs s" and "0 < pending_requests s"
  shows "\<exists>s'. destroy_globals s = Inr s' \<and> {OpAmp_client, Http_transport} \<subseteq> fst ` set (ag_heap s') \<and>
           {OpAmp_client, Http_transport} \<inter> (set (ag_gone s') \<union> set (ag_handles s')) = {}"
proof -
  obtain k c p t e where s: "agent_shape k c p t e s" using runs_shaped [OF assms(1)] by (auto simp: agent_shaped_def)
  then obtain q where p: "p = Suc q" using pending_shape [OF s] assms(2) by (cases p) auto
  from pending_request_keeps_transport_facts [OF s p] obtain s' where
    d: "destroy_globals s = Inr s'" "orphaned k c t e p s'" "{OpAmp_client, Http_transport} \<inter> set (ag_gone s') = {}" by blast
  have "set_mset (mset (ag_handles s')) = set_mset (mset static_handles)" using d(2) by (simp add: orphaned_def)
  then have "set (ag_handles s') = set static_handles" by simp
  with d show ?thesis by (auto simp: orphaned_def contents_keys static_handles_def)
qed

lemma orphaned_request_done:
  assumes o: "orphaned k c t e (Suc (Suc p)) s"
  shows "\<exists>s'. agent_step s (Unhold Http_transport [OpAmp_client]) = Inr s' \<and> orphaned k c t e (Suc p) s' \<and> ag_gone s' = ag_gone s"
proof -
  let ?rest = "replicate c The_logger @ built_with Http_transport"
  obtain n where m: "map_of (ag_heap s) Http_transport = Some (n, OpAmp_client # replicate (Suc p) OpAmp_client @ ?rest)"
    using orphaned_transport [OF o] unfolding contents_Some replicate_Suc append_Cons by blast
  let ?h = "um_assign Http_transport (n, replicate (Suc p) OpAmp_client @ ?rest) (ag_heap s)"
  have sub: "mset [OpAmp_client] \<subseteq># mset (OpAmp_client # xs)" for xs by simp
  have rem: "fold remove1 [OpAmp_client] (OpAmp_client # xs) = xs" for xs by simp
  from unhold_content [OF orphaned_handles [OF o] m sub] have b1: "ag_balanced (OpAmp_client # ag_handles s) ?h"
    unfolding rem by (simp only: append_Cons append_Nil)
  have i: "OpAmp_client \<in> set (inner_refs id ?h)"
    by (rule not_referenced [of _ Http_transport n "replicate (Suc p) OpAmp_client @ ?rest"]) (simp_all add: map_of_um_assign)
  from rc_release_not_last [OF b1 UnI2 [OF i]] obtain h where
    h: "rc_release id [OpAmp_client] ?h = Inr (h, [])" "ag_balanced (ag_handles s) h" "same_contents ?h h" by blast
  have step: "agent_step s (Unhold Http_transport [OpAmp_client]) = Inr (s\<lparr>ag_heap := h\<rparr>)"
    using h(1) unfolding agent_step.simps m option.case prod.case rem
    by (simp only: sub if_True release_handles_def agent_refs.simps) simp
  have cs: "contents (s\<lparr>ag_heap := h\<rparr>) x = ((contents s)(Http_transport \<mapsto> replicate (Suc p) OpAmp_client @ ?rest)) x" for x
  proof -
    have "map_option snd (map_of h x) = map_option snd (map_of ?h x)" using h(3) by (simp add: same_contents_def)
    then show ?thesis by (simp add: contents_def umap_simps)
  qed
  have other: "agent_content k c (Suc (Suc p)) t e x = agent_content k c (Suc p) t e x" if "x \<noteq> Http_transport" for x
    using that by (cases x) simp_all
  have b: "ag_balanced static_handles h" by (rule static_balanced [OF o h(2)])
  have "((agent_content k c (Suc p) t e)(Config_storage \<mapsto> [])) x = Some d"
    if x: "contents (s\<lparr>ag_heap := h\<rparr>) x = Some d" for x d
  proof (cases "x = Http_transport")
    case True
    with x have "d = replicate (Suc p) OpAmp_client @ ?rest" unfolding cs by simp
    with True show ?thesis by simp
  next
    case False
    with x have "contents s x = Some d" unfolding cs by simp
    then have "((agent_content k c (Suc (Suc p)) t e)(Config_storage \<mapsto> [])) x = Some d" using o unfolding orphaned_def by blast
    with other [OF False] show ?thesis by (cases "x = Config_storage") simp_all
  qed
  moreover have "contents (s\<lparr>ag_heap := h\<rparr>) Http_transport \<noteq> None" "contents (s\<lparr>ag_heap := h\<rparr>) OpAmp_client \<noteq> None"
    unfolding cs using orphaned_alive [OF o] by simp_all
  moreover have "mset (ag_handles (s\<lparr>ag_heap := h\<rparr>)) = mset static_handles" using orphaned_alive [OF o] by simp
  moreover have heap: "ag_heap (s\<lparr>ag_heap := h\<rparr>) = h" by simp
  ultimately have "orphaned k c t e (Suc p) (s\<lparr>ag_heap := h\<rparr>)"
    using b unfolding orphaned_def heap by blast
  with step show ?thesis by (intro exI [of _ "s\<lparr>ag_heap := h\<rparr>"]) (simp del: agent_step.simps)
qed

lemma orphaned_last_request:
  assumes o: "orphaned k c t e 1 s"
  shows "\<exists>s' gone. agent_step s (Unhold Http_transport [OpAmp_client]) = Inr s' \<and> ag_gone s' = ag_gone s @ gone \<and>
    {OpAmp_client, Http_transport} \<subseteq> set gone \<and> fst ` set (ag_heap s') = static_objects"
proof -
  let ?rest = "replicate c The_logger @ built_with Http_transport"
  obtain n where m: "map_of (ag_heap s) Http_transport = Some (n, OpAmp_client # ?rest)"
    using orphaned_transport [OF o] by (auto simp: contents_Some)
  let ?h = "um_assign Http_transport (n, fold remove1 [OpAmp_client] (OpAmp_client # ?rest)) (ag_heap s)"
  from Unhold_balanced [OF m, of "[OpAmp_client]" "[]"] orphaned_handles [OF o] obtain s' h g where
    r: "agent_step s (Unhold Http_transport [OpAmp_client]) = Inr s'" "s' = s\<lparr>ag_heap := h, ag_gone := ag_gone s @ g\<rparr>"
      "ag_balanced (ag_handles s) h" "shrunk h ?h" "set g = fst ` set ?h - fst ` set h" by auto
  have "((agent_content k c 0 t e)(Config_storage \<mapsto> [])) x = Some d" if x: "map_of h x = Some (j, d)" for x j d
  proof -
    obtain m where moved: "map_of ?h x = Some (m, d)" using r(4) x unfolding shrunk_def by blast
    show ?thesis
    proof (cases "x = Http_transport")
      case True
      with moved have "d = ?rest" by (simp add: umap_simps)
      with True show ?thesis by simp
    next
      case False
      with moved have "contents s x = Some d" by (auto simp: umap_simps contents_Some)
      then have "((agent_content k c 1 t e)(Config_storage \<mapsto> [])) x = Some d" using o unfolding orphaned_def by blast
      with False show ?thesis by (cases x) (simp_all split: if_splits)
    qed
  qed
  moreover have "ag_balanced static_handles h" by (rule static_balanced [OF o r(3)])
  ultimately have left: "fst ` set h = static_objects" by (rule static_survivors [rotated])
  have "{OpAmp_client, Http_transport} \<subseteq> fst ` set ?h"
    using o by (auto simp: orphaned_def dom_update contents_keys)
  then have "{OpAmp_client, Http_transport} \<subseteq> set g" unfolding r(5) left by (auto simp: static_objects_def)
  with r(1,2) left show ?thesis by (intro exI [of _ s'] exI [of _ g]) (simp del: agent_step.simps)
qed

text \<open>
  C34. A request of the OpAMP client that is in the queue when the globals are deleted ends the process badly. The OpAMP client and
  the transport survive the deletion, no handle to them is left, and their threads run on. The sender thread destroys the
  callbacks of the requests one by one: all but the last leave everything alive; with the last one it destroys the OpAMP client
  and with it the transport, whose destructor waits for the very thread that runs it.
\<close>

theorem last_request_destroys_its_transport:
  assumes "agent_runs s" and "pending_requests s = Suc n" and "destroy_globals s = Inr s'"
  shows "{OpAmp_client, Http_transport} \<subseteq> fst ` set (ag_heap s') \<and>
         {OpAmp_client, Http_transport} \<inter> (set (ag_gone s') \<union> set (ag_handles s')) = {} \<and>
         (\<exists>s1 s2. run_result (thread_step (activity_thread Request_done)) s' (concat (replicate n (activity_ops s' Request_done))) = Inr s1 \<and>
           ag_gone s1 = ag_gone s' \<and> {OpAmp_client, Http_transport} \<subseteq> fst ` set (ag_heap s1) \<and>
           run_result agent_step s1 (activity_ops s1 Request_done) = Inr s2 \<and>
           {OpAmp_client, Http_transport} \<subseteq> set (drop (length (ag_gone s1)) (ag_gone s2)) \<and> fst ` set (ag_heap s2) = static_objects \<and>
           run_result (thread_step (activity_thread Request_done)) s1 (activity_ops s1 Request_done)
             = Inl (Undefined ''a thread that ends itself''))"
proof -
  obtain k c p t e where s: "agent_shape k c p t e s" using runs_shaped [OF assms(1)] by (auto simp: agent_shaped_def)
  then have p: "p = Suc n" using pending_shape assms(2) by metis
  from pending_request_keeps_transport_facts [OF s p] assms(3) have
    o: "orphaned k c t e (Suc n) s'" and alive: "{OpAmp_client, Http_transport} \<inter> set (ag_gone s') = {}" unfolding p by auto
  have live: "{OpAmp_client, Http_transport} \<subseteq> fst ` set (ag_heap s1)" if "orphaned k c t e q s1" for q s1
    using that by (auto simp: orphaned_def contents_keys)
  have "set_mset (mset (ag_handles s')) = set_mset (mset static_handles)" using o by (simp add: orphaned_def)
  then have handles: "{OpAmp_client, Http_transport} \<inter> set (ag_handles s') = {}" by (auto simp: static_handles_def)
  let ?done = "Unhold Http_transport [OpAmp_client]"
  have "\<exists>s1. run_result (thread_step Sender_thread) s' (replicate n ?done) = Inr s1 \<and>
      ag_gone s1 = ag_gone s' \<and> orphaned k c t e 1 s1"
    using o
  proof (induction n arbitrary: s')
    case (Suc n)
    from orphaned_request_done [OF Suc.prems] obtain s0 where
      s0: "agent_step s' ?done = Inr s0" "orphaned k c t e (Suc n) s0" "ag_gone s0 = ag_gone s'" by blast
    then have "thread_step Sender_thread s' ?done = Inr s0" by (simp add: thread_step_def del: agent_step.simps)
    with Suc.IH [OF s0(2)] s0(3) show ?case by (simp del: agent_step.simps)
  qed simp
  then obtain s1 where s1: "run_result (thread_step Sender_thread) s' (replicate n ?done) = Inr s1"
    "ag_gone s1 = ag_gone s'" "orphaned k c t e 1 s1" by blast
  from orphaned_last_request [OF s1(3)] obtain s2 gone where
    s2: "agent_step s1 ?done = Inr s2" "ag_gone s2 = ag_gone s1 @ gone"
    "{OpAmp_client, Http_transport} \<subseteq> set gone" "fst ` set (ag_heap s2) = static_objects" by blast
  from s2(3) have "\<exists>x \<in> set gone. joined_thread x = Some Sender_thread" by (intro bexI [of _ Http_transport]) auto
  then have last: "thread_step Sender_thread s1 ?done = Inl (Undefined ''a thread that ends itself'')"
    by (simp add: thread_step_def s2(1,2) del: agent_step.simps)
  have ops: "concat (replicate n (activity_ops s' Request_done)) = replicate n ?done" by (induction n) simp_all
  have new: "{OpAmp_client, Http_transport} \<subseteq> set (drop (length (ag_gone s1)) (ag_gone s2))" using s2(2,3) by simp
  show ?thesis
    unfolding ops activity_thread.simps activity_ops.simps run_result.simps
    using live [OF o] alive handles s1 live [OF s1(3)] s2(1,4) new last
    by (intro conjI exI [of _ s1] exI [of _ s2]) (auto simp del: agent_step.simps)
qed

subsection \<open>Agents the properties apply to\<close>

definition after_activity :: "agent_refs \<Rightarrow> agent_activity \<Rightarrow> agent_refs" where
  "after_activity s e = (case run_result agent_step s (activity_ops s e) of Inr s' \<Rightarrow> s' | Inl _ \<Rightarrow> s)"

fun all_possible :: "agent_refs \<Rightarrow> agent_activity list \<Rightarrow> bool" where
  "all_possible s [] \<longleftrightarrow> True"
| "all_possible s (e # es) \<longleftrightarrow> activity_possible e s \<and> all_possible (after_activity s e) es"

lemma possible_runs: "agent_runs s \<Longrightarrow> all_possible s es \<Longrightarrow> agent_runs (foldl after_activity s es)"
proof (induction es arbitrary: s)
  case (Cons e es)
  obtain k c p t x where "agent_shape k c p t x s" using runs_shaped [OF Cons.prems(1)] by (auto simp: agent_shaped_def)
  moreover have possible: "activity_possible e s" using Cons.prems(2) by simp
  ultimately obtain s' where s': "run_result agent_step s (activity_ops s e) = Inr s'" using activity_shape by blast
  from agent_runs.active [OF Cons.prems(1) possible s'] have "agent_runs (after_activity s e)" by (simp add: after_activity_def s')
  with Cons show ?case by simp
qed simp

definition coordinator_agent :: agent_refs where
  "coordinator_agent = foldl after_activity constructed_agent [Open_connection, Coordinator_loop]"

text \<open>
  The end of the coordinator process: \<open>processor_\<close> is declared after \<open>periodicTaskExecutor_\<close>, so the message processor is destroyed
  while the executor, whose thread cleans up abandoned messages in it, still exists.
\<close>

theorem coordinator_exit_order:
  "map_sum id ag_gone (destroy_globals coordinator_agent) =
     Inr [Coordinator_process, Signals_sender, Chunk_processor, Message_queue, Process_executor, Config_provider, Messages_dispatcher,
          Request_scope, Shared_memory, OpAmp_client, Resource_detector, Http_transport, Inferred_spans, Sapi_info, Hooks_storage,
          Autoloader_guard, The_bridge, Config_storage]"
  by (simp add: coordinator_agent_def after_activity_def destroy_globals_def globals_members_def agent_evaluation pending_requests_def)

theorem agent_destroyed_in_order_witness:
  "\<exists>s'. destroy_globals constructed_agent = Inr s' \<and> fst ` set (ag_heap s') = static_objects \<and> Coordinator_process \<in> set (ag_gone s')"
proof -
  have "pending_requests constructed_agent = 0" by (rule pending_shape [OF constructed_shape])
  from agent_destroyed_in_order [OF agent_runs.constructed [OF constructed_run] this] obtain s' where
    "destroy_globals constructed_agent = Inr s'" "fst ` set (ag_heap s') = static_objects"
    "set (ag_gone s') = fst ` set (ag_heap constructed_agent) - static_objects" by blast
  moreover have "Coordinator_process \<in> fst ` set (ag_heap constructed_agent)" by (simp add: agent_evaluation)
  ultimately show ?thesis by (auto simp: static_objects_def)
qed

definition busy_agent :: agent_refs where
  "busy_agent = foldl after_activity constructed_agent [Open_connection, Queue_request, Queue_request]"

lemma busy_agent_runs: "agent_runs busy_agent"
  unfolding busy_agent_def by (rule possible_runs [OF agent_runs.constructed [OF constructed_run]]) simp

lemma busy_agent_pending: "pending_requests busy_agent = Suc (Suc 0)"
  by (simp add: busy_agent_def after_activity_def agent_evaluation pending_requests_def)

theorem pending_request_keeps_transport_witness:
  "\<exists>s'. destroy_globals busy_agent = Inr s' \<and> {OpAmp_client, Http_transport} \<subseteq> fst ` set (ag_heap s')"
  using pending_request_keeps_transport [OF busy_agent_runs] busy_agent_pending by auto

theorem last_request_destroys_its_transport_witness:
  "\<exists>s' s1. destroy_globals busy_agent = Inr s' \<and>
     run_result (thread_step Sender_thread) s' [Unhold Http_transport [OpAmp_client]] = Inr s1 \<and> Http_transport \<in> fst ` set (ag_heap s1) \<and>
     run_result (thread_step Sender_thread) s1 [Unhold Http_transport [OpAmp_client]] = Inl (Undefined ''a thread that ends itself'')"
proof -
  obtain k c p t e where s: "agent_shape k c p t e busy_agent" using runs_shaped [OF busy_agent_runs] by (auto simp: agent_shaped_def)
  from destroy_globals_facts [OF s] obtain s' where d: "destroy_globals busy_agent = Inr s'" by blast
  from last_request_destroys_its_transport [OF busy_agent_runs busy_agent_pending d] obtain s1 where
    "run_result (thread_step Sender_thread) s' [Unhold Http_transport [OpAmp_client]] = Inr s1" "Http_transport \<in> fst ` set (ag_heap s1)"
    "run_result (thread_step Sender_thread) s1 [Unhold Http_transport [OpAmp_client]] = Inl (Undefined ''a thread that ends itself'')"
    by (auto simp del: agent_step.simps run_result.simps)
  with d show ?thesis by blast
qed

end
