(* ===== verification/SpinLocks.thy ===== *)
theory SpinLocks
  imports Logger
begin

text \<open>
  The logger under concurrency: \<open>SpinLock.h\<close>, the \<open>std::lock_guard<SpinLock>\<close> blocks of \<open>Logger::log\<close>, \<open>Logger::printf\<close> and
  \<open>Logger::attachSink\<close> (\<open>Logger.cpp\<close>), and a log call made by a signal handler. Any number of threads; a thread is the stack
  of its calls that are in the logger, the top one runs. One step is one access to the shared state: a \<open>test_and_set\<close>, a
  \<open>test\<close>, a turn of the loop over the sinks, an \<open>emplace_back\<close>, or the \<open>clear\<close> of \<open>unlock\<close>.
\<close>

subsection \<open>Steps\<close>

datatype locked_call = Log_line LogLevel string | Attach_sink log_sink

datatype lock_frame =
    Test_and_set locked_call
  | Test locked_call
  | In_log LogLevel string nat
  | In_attach "log_sink option"

record logging =
  lg_flag :: bool
  lg_sinks :: "log_sink list"
  lg_out :: "log_output list"
  lg_order :: "(LogLevel \<times> string) list"
  lg_threads :: "lock_frame list list"

text \<open>\<open>lg_order\<close> records the log calls in the order they took the lock; no step reads it.\<close>

fun locked_body :: "locked_call \<Rightarrow> lock_frame" where
  "locked_body (Log_line l m) = In_log l m 0"
| "locked_body (Attach_sink s) = In_attach (Some s)"

fun order_entry :: "locked_call \<Rightarrow> (LogLevel \<times> string) list" where
  "order_entry (Log_line l m) = [(l, m)]"
| "order_entry (Attach_sink s) = []"

definition set_stack :: "nat \<Rightarrow> lock_frame list \<Rightarrow> logging \<Rightarrow> logging" where
  "set_stack t fs s = s\<lparr>lg_threads := (lg_threads s)[t := fs]\<rparr>"

fun frame_step :: "nat \<Rightarrow> lock_frame \<Rightarrow> lock_frame list \<Rightarrow> logging \<Rightarrow> logging" where
  "frame_step t (Test_and_set c) fs s =
     (if lg_flag s then set_stack t (Test c # fs) s
      else set_stack t (locked_body c # fs) (s\<lparr>lg_flag := True, lg_order := lg_order s @ order_entry c\<rparr>))"
| "frame_step t (Test c) fs s =
     (if lg_flag s then s else set_stack t (Test_and_set c # fs) s)"
| "frame_step t (In_log l m i) fs s =
     (if i < length (lg_sinks s)
      then set_stack t (In_log l m (Suc i) # fs)
             (if getLevel (lg_sinks s ! i) < l then s else s\<lparr>lg_out := lg_out s @ writeLog m (lg_sinks s ! i)\<rparr>)
      else set_stack t fs (s\<lparr>lg_flag := False\<rparr>))"
| "frame_step t (In_attach (Some k)) fs s = set_stack t (In_attach None # fs) (s\<lparr>lg_sinks := lg_sinks s @ [k]\<rparr>)"
| "frame_step t (In_attach None) fs s = set_stack t fs (s\<lparr>lg_flag := False\<rparr>)"

text \<open>
  \<open>Call\<close> is a call of a thread that is not in the logger, \<open>Signal\<close> one of a signal handler that interrupts a thread in the logger,
  \<open>Run\<close> a step of a thread, \<open>Set_level\<close> the atomic store of a level.
\<close>

datatype lock_event = Call nat locked_call | Signal nat locked_call | Run nat | Set_level nat LogLevel

fun lock_step :: "logging \<Rightarrow> lock_event \<Rightarrow> logging option" where
  "lock_step s (Call t c) =
     (if t < length (lg_threads s) \<and> lg_threads s ! t = [] then Some (set_stack t [Test_and_set c] s) else None)"
| "lock_step s (Signal t c) =
     (if t < length (lg_threads s) \<and> lg_threads s ! t \<noteq> [] then Some (set_stack t (Test_and_set c # lg_threads s ! t) s) else None)"
| "lock_step s (Run t) =
     (if t < length (lg_threads s)
      then (case lg_threads s ! t of [] \<Rightarrow> None | f # fs \<Rightarrow> Some (frame_step t f fs s))
      else None)"
| "lock_step s (Set_level k l) =
     (if k < length (lg_sinks s) then Some (s\<lparr>lg_sinks := (lg_sinks s)[k := setLevel l (lg_sinks s ! k)]\<rparr>) else None)"

definition new_logging :: "nat \<Rightarrow> log_sink list \<Rightarrow> logging" where
  "new_logging n ss = \<lparr>lg_flag = False, lg_sinks = ss, lg_out = [], lg_order = [], lg_threads = replicate n []\<rparr>"

inductive lock_run :: "logging \<Rightarrow> lock_event list \<Rightarrow> logging \<Rightarrow> bool" where
  lock_run_Nil: "lock_run s [] s"
| lock_run_snoc: "lock_run s es s' \<Longrightarrow> lock_step s' e = Some s'' \<Longrightarrow> lock_run s (es @ [e]) s''"

inductive_cases lock_run_snocE: "lock_run s (es @ [e]) s'"

lemma lock_run_append: "lock_run s' fs s'' \<Longrightarrow> lock_run s es s' \<Longrightarrow> lock_run s (es @ fs) s''"
proof (induction rule: lock_run.induct)
  case (lock_run_snoc s' fs s'' e s3)
  then have "lock_run s (es @ fs) s''" by simp
  from lock_run.lock_run_snoc [OF this lock_run_snoc.hyps(2)] show ?case by simp
qed simp

lemma lock_run_one: "lock_step s e = Some s' \<Longrightarrow> lock_run s [e] s'"
  using lock_run_snoc [OF lock_run_Nil] by fastforce

lemma lock_run_Cons: "lock_step s e = Some s' \<Longrightarrow> lock_run s' es s'' \<Longrightarrow> lock_run s (e # es) s''"
  using lock_run_append [OF _ lock_run_one] by fastforce

subsection \<open>Mutual exclusion\<close>

fun inside :: "lock_frame \<Rightarrow> bool" where
  "inside (In_log l m i) = True"
| "inside (In_attach k) = True"
| "inside _ = False"

definition inside_count :: "logging \<Rightarrow> nat" where
  "inside_count s = length (filter inside (concat (lg_threads s)))"

definition lock_inv :: "logging \<Rightarrow> bool" where
  "lock_inv s \<longleftrightarrow> inside_count s = (if lg_flag s then 1 else 0)"

lemma count_concat_update:
  "t < length xss \<Longrightarrow> length (filter P (concat (xss[t := ys]))) + length (filter P (xss ! t)) =
     length (filter P (concat xss)) + length (filter P ys)"
proof (induction xss arbitrary: t)
  case (Cons xs xss)
  show ?case
  proof (cases t)
    case (Suc n)
    with Cons.IH [of n] Cons.prems show ?thesis by simp
  qed simp
qed simp

lemma locked_body_inside [simp]: "inside (locked_body c)"
  by (cases c) simp_all

lemma set_stack_simps [simp]:
  "lg_flag (set_stack t fs s) = lg_flag s" "lg_sinks (set_stack t fs s) = lg_sinks s" "lg_out (set_stack t fs s) = lg_out s"
  "lg_order (set_stack t fs s) = lg_order s" "lg_threads (set_stack t fs s) = (lg_threads s)[t := fs]"
  by (simp_all add: set_stack_def)

lemma inside_count_update:
  "t < length (lg_threads s) \<Longrightarrow> inside_count (set_stack t fs s') + length (filter inside (lg_threads s ! t)) =
     inside_count s + length (filter inside fs)" if "lg_threads s' = lg_threads s" for s s'
  unfolding inside_count_def set_stack_simps that by (rule count_concat_update)

lemma lock_inv_step:
  assumes "lock_step s e = Some s'" and "lock_inv s"
  shows "lock_inv s'"
proof (cases e)
  case (Call t c)
  with assms inside_count_update [of s s t "[Test_and_set c]"] show ?thesis by (auto simp: lock_inv_def split: if_splits)
next
  case (Signal t c)
  with assms inside_count_update [of s s t "Test_and_set c # lg_threads s ! t"] show ?thesis by (auto simp: lock_inv_def split: if_splits)
next
  case (Set_level k l)
  with assms show ?thesis by (auto simp: lock_inv_def inside_count_def split: if_splits)
next
  case (Run t)
  then obtain f fs where t: "t < length (lg_threads s)" and st: "lg_threads s ! t = f # fs" and s': "s' = frame_step t f fs s"
    using assms(1) by (auto split: if_splits list.splits)
  have upd: "inside_count (set_stack t gs s0) + length (filter inside (f # fs)) = inside_count s + length (filter inside gs)"
    if "lg_threads s0 = lg_threads s" for gs s0 using inside_count_update [OF that t, of gs] st by simp
  have pos: "inside f \<Longrightarrow> 0 < inside_count s"
  proof -
    assume i: "inside f"
    have "lg_threads s ! t \<in> set (lg_threads s)" using t by (rule nth_mem)
    then have "f \<in> set (concat (lg_threads s))" unfolding st by force
    with i have "f \<in> set (filter inside (concat (lg_threads s)))" by simp
    then show ?thesis unfolding inside_count_def by (metis length_pos_if_in_set)
  qed
  show ?thesis
  proof (cases f)
    case (Test_and_set c)
    then show ?thesis
      using assms(2) s' upd [of s "Test c # fs"] upd [of "s\<lparr>lg_flag := True, lg_order := lg_order s @ order_entry c\<rparr>" "locked_body c # fs"]
      by (auto simp: lock_inv_def split: if_splits)
  next
    case (Test c)
    then show ?thesis using assms(2) s' upd [of s "Test_and_set c # fs"] by (auto simp: lock_inv_def split: if_splits)
  next
    case (In_log l m i)
    then show ?thesis
      using assms(2) s' pos upd [of s "In_log l m (Suc i) # fs"] upd [of "s\<lparr>lg_flag := False\<rparr>" fs]
        upd [of "s\<lparr>lg_out := lg_out s @ writeLog m (lg_sinks s ! i)\<rparr>" "In_log l m (Suc i) # fs"]
      by (auto simp: lock_inv_def split: if_splits)
  next
    case (In_attach k)
    show ?thesis
    proof (cases k)
      case None
      then show ?thesis
        using In_attach assms(2) s' pos upd [of "s\<lparr>lg_flag := False\<rparr>" fs] by (auto simp: lock_inv_def split: if_splits)
    next
      case (Some x)
      then show ?thesis
        using In_attach assms(2) s' upd [of "s\<lparr>lg_sinks := lg_sinks s @ [x]\<rparr>" "In_attach None # fs"]
        by (auto simp: lock_inv_def split: if_splits)
    qed
  qed
qed

lemma new_lock_inv: "lock_inv (new_logging n ss)"
  by (simp add: lock_inv_def inside_count_def new_logging_def)

lemma lock_run_inv: "lock_run s es s' \<Longrightarrow> lock_inv s \<Longrightarrow> lock_inv s'"
  by (induction rule: lock_run.induct) (auto intro: lock_inv_step)

subsection \<open>Refinement: concurrent calls are sequential calls\<close>

definition frames :: "logging \<Rightarrow> lock_frame set" where
  "frames s = set (concat (lg_threads s))"

lemma inside_unique:
  assumes "lock_inv s" and "f \<in> frames s" "inside f" and "g \<in> frames s" "inside g"
  shows "f = g \<and> lg_flag s"
proof -
  let ?in = "filter inside (concat (lg_threads s))"
  have fg: "f \<in> set ?in" "g \<in> set ?in" using assms by (simp_all add: frames_def)
  have "0 < length ?in" using fg(1) by (rule length_pos_if_in_set)
  then have "lg_flag s \<and> length ?in = 1"
    using assms(1) unfolding lock_inv_def inside_count_def by (cases "lg_flag s") simp_all
  then obtain h where "?in = [h]" and "lg_flag s" by (auto simp: length_Suc_conv)
  with fg show ?thesis by simp
qed

lemma frames_update: "frames (set_stack t fs s) \<subseteq> set fs \<union> frames s"
  using set_update_subset_insert [of "lg_threads s" t fs] by (auto simp: frames_def)

lemma frames_top: "t < length (lg_threads s) \<Longrightarrow> set fs \<subseteq> frames (set_stack t fs s)"
  using set_update_memI [of t "lg_threads s" fs] by (auto simp: frames_def)

lemma frames_cong: "lg_threads s = lg_threads s' \<Longrightarrow> frames s = frames s'"
  by (simp add: frames_def)

lemma stack_frames: "t < length (lg_threads s) \<Longrightarrow> set (lg_threads s ! t) \<subseteq> frames s"
  unfolding frames_def using nth_mem [of t "lg_threads s"] by (auto simp del: nth_mem)

lemma top_frame: "t < length (lg_threads s) \<Longrightarrow> lg_threads s ! t = f # fs \<Longrightarrow> set (f # fs) \<subseteq> frames s"
  using stack_frames by metis

text \<open>The lines of one call, up to the sink \<open>i\<close>.\<close>

definition lines_upto :: "LogLevel \<Rightarrow> string \<Rightarrow> log_sink list \<Rightarrow> nat \<Rightarrow> log_output list" where
  "lines_upto l m ss i = concat (map (\<lambda>s. if getLevel s < l then [] else writeLog m s) (take i ss))"

abbreviation call_lines :: "log_sink list \<Rightarrow> LogLevel \<times> string \<Rightarrow> log_output list" where
  "call_lines ss c \<equiv> lines_upto (fst c) (snd c) ss (length ss)"

lemma lines_upto_Suc:
  "i < length ss \<Longrightarrow> lines_upto l m ss (Suc i) = lines_upto l m ss i @ (if getLevel (ss ! i) < l then [] else writeLog m (ss ! i))"
  by (simp add: lines_upto_def take_Suc_conv_app_nth)

fun log_only :: "lock_event \<Rightarrow> bool" where
  "log_only (Call t (Log_line l m)) = True"
| "log_only (Signal t (Log_line l m)) = True"
| "log_only (Run t) = True"
| "log_only _ = False"

fun log_frame :: "lock_frame \<Rightarrow> bool" where
  "log_frame (Test_and_set (Log_line l m)) = True"
| "log_frame (Test (Log_line l m)) = True"
| "log_frame (In_log l m i) = True"
| "log_frame _ = False"

definition sequential_inv :: "log_sink list \<Rightarrow> logging \<Rightarrow> bool" where
  "sequential_inv ss s \<longleftrightarrow>
     lock_inv s \<and> lg_sinks s = ss \<and> (\<forall>f \<in> frames s. log_frame f) \<and>
     (\<forall>l m i. In_log l m i \<in> frames s \<longrightarrow>
        (\<exists>cs. lg_order s = cs @ [(l, m)] \<and> lg_out s = concat (map (call_lines ss) cs) @ lines_upto l m ss i)) \<and>
     (\<not> lg_flag s \<longrightarrow> lg_out s = concat (map (call_lines ss) (lg_order s)))"

lemma lines_upto_0 [simp]: "lines_upto l m ss 0 = []"
  by (simp add: lines_upto_def)

text \<open>A call that takes no lock and releases none.\<close>

lemma sequential_inv_push:
  assumes inv: "sequential_inv ss s" and l': "lock_inv (set_stack t (g # fs) s)"
    and g: "log_frame g" "\<not> inside g" and fs: "set fs \<subseteq> frames s"
  shows "sequential_inv ss (set_stack t (g # fs) s)"
proof -
  have sub: "frames (set_stack t (g # fs) s) \<subseteq> insert g (frames s)" using frames_update [of t "g # fs" s] fs by auto
  have "log_frame f" if "f \<in> frames (set_stack t (g # fs) s)" for f
    using that sub g(1) inv unfolding sequential_inv_def by blast
  moreover have "In_log l m i \<in> frames s" if "In_log l m i \<in> frames (set_stack t (g # fs) s)" for l m i
    using that sub g(2) by auto
  ultimately show ?thesis using inv l' unfolding sequential_inv_def set_stack_simps by blast
qed

lemma sequential_inv_take:
  assumes inv: "sequential_inv ss s" and free: "\<not> lg_flag s" and fs: "set fs \<subseteq> frames s"
    and s': "s' = set_stack t (In_log l m 0 # fs) (s\<lparr>lg_flag := True, lg_order := lg_order s @ [(l, m)]\<rparr>)" and l': "lock_inv s'"
  shows "sequential_inv ss s'"
proof -
  have li: "lock_inv s" and fr: "\<forall>f \<in> frames s. log_frame f" and out: "lg_out s = concat (map (call_lines ss) (lg_order s))"
    and sinks: "lg_sinks s = ss" using inv free unfolding sequential_inv_def by blast+
  let ?s = "s\<lparr>lg_flag := True, lg_order := lg_order s @ [(l, m)]\<rparr>"
  have "frames ?s = frames s" by (rule frames_cong) simp
  then have sub: "frames s' \<subseteq> insert (In_log l m 0) (frames s)"
    using frames_update [of t "In_log l m 0 # fs" ?s] fs unfolding s' by auto
  have lf: "\<forall>f \<in> frames s'. log_frame f" using sub fr by auto
  have only: "l' = l \<and> m' = m \<and> i' = 0" if "In_log l' m' i' \<in> frames s'" for l' m' i'
  proof (rule ccontr)
    assume "\<not> (l' = l \<and> m' = m \<and> i' = 0)"
    with that sub have "In_log l' m' i' \<in> frames s" by auto
    with inside_unique [OF li this _ this] free show False by simp
  qed
  have s'_eq: "lg_out s' = concat (map (call_lines ss) (lg_order s)) @ lines_upto l m ss 0" "lg_order s' = lg_order s @ [(l, m)]"
    "lg_sinks s' = ss" "lg_flag s'"
    using sinks out by (simp_all add: s')
  have "\<exists>cs. lg_order s' = cs @ [(l', m')] \<and> lg_out s' = concat (map (call_lines ss) cs) @ lines_upto l' m' ss i'"
    if "In_log l' m' i' \<in> frames s'" for l' m' i'
    unfolding s'_eq using only [OF that] by (intro exI [of _ "lg_order s"]) (elim conjE, hypsubst, intro conjI refl)
  with l' lf s'_eq(3,4) show ?thesis unfolding sequential_inv_def by blast
qed

lemma sequential_inv_log:
  assumes inv: "sequential_inv ss s" and t: "t < length (lg_threads s)" and top: "lg_threads s ! t = In_log l m i # fs"
    and s': "s' = frame_step t (In_log l m i) fs s" and l': "lock_inv s'"
  shows "sequential_inv ss s'"
proof -
  have sub: "set (In_log l m i # fs) \<subseteq> frames s" by (rule top_frame [OF t top])
  then have mem: "In_log l m i \<in> frames s" and fs: "set fs \<subseteq> frames s" by auto
  have li: "lock_inv s" and fr: "\<forall>f \<in> frames s. log_frame f" and sinks: "lg_sinks s = ss"
    using inv unfolding sequential_inv_def by blast+
  obtain cs where o: "lg_order s = cs @ [(l, m)]" "lg_out s = concat (map (call_lines ss) cs) @ lines_upto l m ss i"
    using inv mem unfolding sequential_inv_def by blast
  have flag: "lg_flag s" using inside_unique [OF li mem _ mem] by simp
  show ?thesis
  proof (cases "i < length ss")
    case True
    let ?s = "if getLevel (ss ! i) < l then s else s\<lparr>lg_out := lg_out s @ writeLog m (ss ! i)\<rparr>"
    have e: "s' = set_stack t (In_log l m (Suc i) # fs) ?s" using s' True sinks by simp
    have "frames ?s = frames s" by (rule frames_cong) simp
    then have sub': "frames s' \<subseteq> insert (In_log l m (Suc i)) (frames s)"
      using frames_update [of t "In_log l m (Suc i) # fs" ?s] fs unfolding e by auto
    have "log_frame f" if "f \<in> frames s'" for f using that sub' fr by auto
    moreover have "In_log l m (Suc i) \<in> frames s'" using frames_top [of t ?s "In_log l m (Suc i) # fs"] t unfolding e by (auto split: if_splits)
    then have "l' = l \<and> m' = m \<and> i' = Suc i" if "In_log l' m' i' \<in> frames s'" for l' m' i'
      using inside_unique [OF l' that _ \<open>In_log l m (Suc i) \<in> frames s'\<close>] by simp
    moreover have "lg_out s' = concat (map (call_lines ss) cs) @ lines_upto l m ss (Suc i)"
      unfolding e using o(2) by (simp add: lines_upto_Suc True)
    moreover have "lg_order s' = cs @ [(l, m)]" "lg_sinks s' = ss" "lg_flag s'" unfolding e using o(1) sinks flag by simp_all
    ultimately show ?thesis using l' unfolding sequential_inv_def by blast
  next
    case False
    let ?s = "s\<lparr>lg_flag := False\<rparr>"
    have e: "s' = set_stack t fs ?s" using s' False sinks by simp
    have "frames ?s = frames s" by (rule frames_cong) simp
    then have sub': "frames s' \<subseteq> frames s" using frames_update [of t fs ?s] fs unfolding e by auto
    have out: "\<not> inside g" if "g \<in> frames s'" for g using inside_unique [OF l' that _ that] e by auto
    have none: "In_log l' m' i' \<notin> frames s'" for l' m' i' using out by fastforce
    have "lines_upto l m ss i = lines_upto l m ss (length ss)" using False by (simp add: lines_upto_def)
    then have "lg_out s' = concat (map (call_lines ss) (lg_order s'))" unfolding e using o by simp
    moreover have "log_frame f" if "f \<in> frames s'" for f using that sub' fr by auto
    moreover have "lg_sinks s' = ss" unfolding e using sinks by simp
    ultimately show ?thesis using l' none unfolding sequential_inv_def by blast
  qed
qed

lemma sequential_inv_step:
  assumes step: "lock_step s e = Some s'" and "log_only e" and inv: "sequential_inv ss s"
  shows "sequential_inv ss s'"
proof -
  have "lock_inv s" using inv by (simp add: sequential_inv_def)
  from lock_inv_step [OF step this] have l': "lock_inv s'" .
  have push: "sequential_inv ss s'" if "s' = set_stack t (g # fs) s" "log_frame g" "\<not> inside g" "set fs \<subseteq> frames s" for t g fs
    using sequential_inv_push [OF inv _ that(2-4), of t] l' that(1) by simp
  show ?thesis
  proof (cases e)
    case (Call t c)
    with assms(2) obtain l m where c: "c = Log_line l m" by (cases c) auto
    show ?thesis by (rule push [of t "Test_and_set c" "[]"]) (use Call c step in \<open>simp_all split: if_splits\<close>)
  next
    case (Signal t c)
    with assms(2) obtain l m where c: "c = Log_line l m" by (cases c) auto
    have t: "t < length (lg_threads s)" using Signal step by (simp split: if_splits)
    show ?thesis
      by (rule push [of t "Test_and_set c" "lg_threads s ! t"]) (use Signal c step stack_frames [OF t] in \<open>simp_all split: if_splits\<close>)
  next
    case (Set_level k l)
    with assms(2) show ?thesis by simp
  next
    case (Run t)
    then obtain f fs where t: "t < length (lg_threads s)" and st: "lg_threads s ! t = f # fs" and s': "s' = frame_step t f fs s"
      using step by (auto split: if_splits list.splits)
    have "set (f # fs) \<subseteq> frames s" by (rule top_frame [OF t st])
    then have f: "log_frame f" and fs: "set fs \<subseteq> frames s" using inv by (auto simp: sequential_inv_def)
    show ?thesis
    proof (cases f)
      case (Test_and_set c)
      then obtain l m where c: "c = Log_line l m" using f by (cases c) auto
      show ?thesis
      proof (cases "lg_flag s")
        case True
        show ?thesis by (rule push [of t "Test c" fs]) (use Test_and_set c s' True fs in simp_all)
      next
        case False
        show ?thesis by (rule sequential_inv_take [OF inv False fs _ l']) (use Test_and_set c s' False in simp)
      qed
    next
      case (Test c)
      then obtain l m where c: "c = Log_line l m" using f by (cases c) auto
      show ?thesis
      proof (cases "lg_flag s")
        case True
        then show ?thesis using Test s' inv by simp
      next
        case False
        show ?thesis by (rule push [of t "Test_and_set c" fs]) (use Test c s' False fs in simp_all)
      qed
    next
      case (In_attach k)
      with f show ?thesis by simp
    next
      case (In_log l m i)
      from sequential_inv_log [OF inv t st [unfolded In_log] s' [unfolded In_log] l'] show ?thesis .
    qed
  qed
qed

lemma sequential_inv_run: "lock_run s es s' \<Longrightarrow> \<forall>e \<in> set es. log_only e \<Longrightarrow> sequential_inv ss s \<Longrightarrow> sequential_inv ss s'"
  by (induction rule: lock_run.induct) (auto intro: sequential_inv_step)

lemma new_sequential: "sequential_inv ss (new_logging n ss)"
  using new_lock_inv [of n ss] by (auto simp: sequential_inv_def frames_def new_logging_def)

text \<open>
  C20. Concurrent log calls: in every interleaving of the steps of any number of threads and signal handlers, when the lock is
  free the outputs are those of the calls of \<open>Logger::log\<close> one after the other, in the order in which they took the lock.
\<close>

theorem concurrent_logging_is_sequential:
  assumes "lock_run (new_logging n ss) es s" and "\<forall>e \<in> set es. log_only e" and "\<not> lg_flag s"
  shows "lg_out s = concat (map (\<lambda>(l, m). concat (map (\<lambda>k. if getLevel k < l then [] else writeLog m k) ss)) (lg_order s))"
  using sequential_inv_run [OF assms(1,2) new_sequential] assms(3)
  by (simp add: sequential_inv_def lines_upto_def case_prod_beta')

subsection \<open>Waiting for the lock\<close>

definition work_left :: "logging \<Rightarrow> lock_frame \<Rightarrow> nat" where
  "work_left s f =
     (case f of In_log l m i \<Rightarrow> Suc (length (lg_sinks s) - i) | In_attach k \<Rightarrow> (if k = None then 1 else 2) | _ \<Rightarrow> 0)"

text \<open>The holder of the lock, left alone, releases it.\<close>

lemma holder_releases:
  assumes "h < length (lg_threads s)" "lg_threads s ! h = f # fs" "inside f"
  shows "\<exists>s'. lock_run s (replicate (work_left s f) (Run h)) s' \<and> \<not> lg_flag s' \<and> lg_threads s' = (lg_threads s)[h := fs] \<and>
    lg_order s' = lg_order s"
  using assms
proof (induction "work_left s f" arbitrary: s f)
  case 0
  then show ?case by (cases f) (auto simp: work_left_def split: if_splits)
next
  case (Suc n)
  let ?s = "frame_step h f fs s"
  have step: "lock_step s (Run h) = Some ?s" using Suc.prems by simp
  show ?case
  proof (cases "n = 0")
    case True
    then have "\<not> lg_flag ?s \<and> lg_threads ?s = (lg_threads s)[h := fs] \<and> lg_order ?s = lg_order s"
      using Suc.hyps(2) Suc.prems(3)
      by (cases "(h, f, fs, s)" rule: frame_step.cases) (auto simp: work_left_def split: if_splits)
    with lock_run_one [OF step] Suc.hyps(2) True show ?thesis by (intro exI [of _ ?s]) (simp flip: Suc.hyps(2))
  next
    case False
    obtain g where g: "lg_threads ?s = (lg_threads s)[h := g # fs]" "inside g" "n = work_left ?s g" "lg_order ?s = lg_order s"
    proof (cases f)
      case (In_log l m i)
      with Suc.hyps(2) False have "i < length (lg_sinks s)" by (auto simp: work_left_def)
      with In_log Suc.hyps(2) that [of "In_log l m (Suc i)"] show ?thesis by (auto simp: work_left_def)
    next
      case (In_attach k)
      with Suc.hyps(2) False obtain x where "k = Some x" by (cases k) (auto simp: work_left_def)
      with In_attach Suc.hyps(2) that [of "In_attach None"] show ?thesis by (auto simp: work_left_def)
    qed (use Suc.prems in simp_all)
    have "lg_threads ?s ! h = g # fs" "h < length (lg_threads ?s)" using g(1) Suc.prems(1) by simp_all
    from Suc.hyps(1) [OF g(3) this(2,1) g(2)] obtain s' where
      s': "lock_run ?s (replicate (work_left ?s g) (Run h)) s'" "\<not> lg_flag s'" "lg_threads s' = (lg_threads ?s)[h := fs]" "lg_order s' = lg_order ?s" by blast
    from lock_run_Cons [OF step s'(1)] have "lock_run s (replicate (work_left s f) (Run h)) s'"
      using g(3) by (simp flip: Suc.hyps(2))
    with s'(2-) g show ?thesis by auto
  qed
qed

fun no_signal :: "lock_event \<Rightarrow> bool" where
  "no_signal (Signal t c) = False"
| "no_signal _ = True"

definition flat_stacks :: "logging \<Rightarrow> bool" where
  "flat_stacks s \<longleftrightarrow> (\<forall>fs \<in> set (lg_threads s). length fs \<le> 1)"

lemma flat_frame_step:
  "\<exists>gs. lg_threads (frame_step t f [] s) = (lg_threads s)[t := gs] \<and> length gs \<le> 1" if "t < length (lg_threads s)" "lg_threads s ! t = [f]"
  using that list_update_id [of "lg_threads s" t]
  by (cases "(t, f, [] :: lock_frame list, s)" rule: frame_step.cases) (auto intro: exI [of _ "[f]"])

lemma flat_stacks_step: "lock_step s e = Some s' \<Longrightarrow> no_signal e \<Longrightarrow> flat_stacks s \<Longrightarrow> flat_stacks s'"
proof (cases e)
  case (Run t)
  assume step: "lock_step s e = Some s'" and flat: "flat_stacks s"
  then obtain f fs where t: "t < length (lg_threads s)" and st: "lg_threads s ! t = f # fs" and s': "s' = frame_step t f fs s"
    using Run by (auto split: if_splits list.splits)
  have "length (lg_threads s ! t) \<le> 1" using flat t unfolding flat_stacks_def by simp
  then have "fs = []" using st by simp
  with flat_frame_step [OF t] st s' flat show ?thesis
    unfolding flat_stacks_def by (metis insertE set_update_subset_insert subsetD)
qed (auto simp: flat_stacks_def split: if_splits dest!: set_update_subset_insert [THEN subsetD])

lemma flat_stacks_run: "lock_run s es s' \<Longrightarrow> \<forall>e \<in> set es. no_signal e \<Longrightarrow> flat_stacks s \<Longrightarrow> flat_stacks s'"
  by (induction rule: lock_run.induct) (auto intro: flat_stacks_step)

lemma lock_held_by:
  assumes "lock_inv s" "lg_flag s"
  obtains h f where "h < length (lg_threads s)" "f \<in> set (lg_threads s ! h)" "inside f"
proof -
  have "filter inside (concat (lg_threads s)) \<noteq> []" using assms by (auto simp: lock_inv_def inside_count_def)
  then obtain f where "f \<in> set (concat (lg_threads s))" "inside f" by (auto simp: filter_empty_conv)
  moreover from this(1) obtain fs where "fs \<in> set (lg_threads s)" "f \<in> set fs" by auto
  moreover from this(1) obtain h where "h < length (lg_threads s)" "fs = lg_threads s ! h" by (auto simp: in_set_conv_nth)
  ultimately show thesis using that by blast
qed

lemma waiting_takes:
  assumes "t < length (lg_threads s)" "lg_threads s ! t = [Test_and_set c] \<or> lg_threads s ! t = [Test c]" "\<not> lg_flag s"
  shows "\<exists>n s'. n \<le> 2 \<and> lock_run s (replicate n (Run t)) s' \<and> lg_threads s' ! t = [locked_body c] \<and> lg_flag s'"
proof -
  have take: "\<exists>s'. lock_step s1 (Run t) = Some s' \<and> lg_threads s' ! t = [locked_body c] \<and> lg_flag s'"
    if "t < length (lg_threads s1)" "lg_threads s1 ! t = [Test_and_set c]" "\<not> lg_flag s1" for s1
    using that by simp
  show ?thesis
  proof (cases "lg_threads s ! t = [Test_and_set c]")
    case True
    with take [of s] assms obtain s' where "lock_step s (Run t) = Some s'" "lg_threads s' ! t = [locked_body c] \<and> lg_flag s'" by blast
    with lock_run_one show ?thesis by (intro exI [of _ 1] exI [of _ s']) simp
  next
    case False
    let ?s = "set_stack t [Test_and_set c] s"
    have step: "lock_step s (Run t) = Some ?s" using assms False by auto
    from take [of ?s] assms obtain s' where s': "lock_step ?s (Run t) = Some s'" "lg_threads s' ! t = [locked_body c] \<and> lg_flag s'" by auto
    from lock_run_Cons [OF step lock_run_one [OF s'(1)]] s'(2) show ?thesis
      by (intro exI [of _ 2] exI [of _ s']) (simp add: numeral_2_eq_2)
  qed
qed

text \<open>
  C30. No deadlock: whatever the threads did, without signal handlers a thread that waits for the lock can still get it, when the
  holder runs on and no one else takes it first, within as many steps as there are sinks and four more.
\<close>

theorem waiting_call_gets_lock:
  assumes "lock_run (new_logging n ss) es s" and "\<forall>e \<in> set es. no_signal e"
    and "t < length (lg_threads s)" and "lg_threads s ! t = [Test_and_set c] \<or> lg_threads s ! t = [Test c]"
  shows "\<exists>h k j s'. lock_run s (replicate k (Run h) @ replicate j (Run t)) s' \<and> k + j \<le> length (lg_sinks s) + 4 \<and>
           lg_threads s' ! t = [locked_body c] \<and> lg_flag s'"
proof (cases "lg_flag s")
  case False
  from waiting_takes [OF assms(3,4) this] obtain j s' where
    "j \<le> 2" "lock_run s (replicate j (Run t)) s'" "lg_threads s' ! t = [locked_body c] \<and> lg_flag s'" by blast
  then show ?thesis by (intro exI [of _ t] exI [of _ 0] exI [of _ j] exI [of _ s']) simp
next
  case True
  have inv: "lock_inv s" by (rule lock_run_inv [OF assms(1) new_lock_inv])
  have flat: "flat_stacks s" by (rule flat_stacks_run [OF assms(1,2)]) (simp add: flat_stacks_def new_logging_def)
  obtain h f where h: "h < length (lg_threads s)" "f \<in> set (lg_threads s ! h)" "inside f" by (rule lock_held_by [OF inv True])
  have "length (lg_threads s ! h) \<le> 1" using flat h(1) unfolding flat_stacks_def by simp
  then have top: "lg_threads s ! h = [f]" using h(2) by (cases "lg_threads s ! h") auto
  have "h \<noteq> t" using assms(4) top h(3) by auto
  from holder_releases [OF h(1) top h(3)] obtain s1 where
    s1: "lock_run s (replicate (work_left s f) (Run h)) s1" "\<not> lg_flag s1" "lg_threads s1 = (lg_threads s)[h := []]" by blast
  have "lg_threads s1 ! t = lg_threads s ! t" "t < length (lg_threads s1)" using s1(3) \<open>h \<noteq> t\<close> assms(3) by simp_all
  with waiting_takes [of t s1 c] assms(4) s1(2) obtain j s' where
    j: "j \<le> 2" "lock_run s1 (replicate j (Run t)) s'" "lg_threads s' ! t = [locked_body c] \<and> lg_flag s'" by auto
  have "work_left s f \<le> length (lg_sinks s) + 2" by (cases f) (simp_all add: work_left_def)
  with lock_run_append [OF j(2) s1(1)] j show ?thesis
    by (intro exI [of _ h] exI [of _ "work_left s f"] exI [of _ j] exI [of _ s']) simp
qed

subsection \<open>A signal handler that logs\<close>

text \<open>A thread that was interrupted inside the lock and waits for it in the handler.\<close>

definition interrupted :: "nat \<Rightarrow> logging \<Rightarrow> bool" where
  "interrupted t s \<longleftrightarrow> t < length (lg_threads s) \<and> (\<exists>f fs. lg_threads s ! t = f # fs \<and> \<not> inside f \<and> (\<exists>g \<in> set fs. inside g))"

lemma interrupted_holds:
  assumes "lock_inv s" "interrupted t s" "u < length (lg_threads s)" "lg_threads s ! u = f # fs"
  shows "lg_flag s \<and> \<not> inside f"
proof -
  obtain g gs h where t: "t < length (lg_threads s)" "lg_threads s ! t = g # gs" "\<not> inside g" "h \<in> set gs" "inside h"
    using assms(2) unfolding interrupted_def by blast
  have "h \<in> frames s" using top_frame [OF t(1,2)] t(4) by auto
  then have flag: "lg_flag s" using inside_unique [OF assms(1) _ t(5) _ t(5)] by blast
  have "\<not> inside f"
  proof
    assume f: "inside f"
    show False
    proof (cases "u = t")
      case True
      with assms(4) t(2,3) f show False by simp
    next
      case False
      let ?rest = "(lg_threads s)[t := []]"
      have "f # fs \<in> set ?rest" using assms(3,4) False by (metis length_list_update nth_list_update_neq nth_mem)
      then have "f \<in> set (filter inside (concat ?rest))" using f by force
      then have "0 < length (filter inside (concat ?rest))" by (rule length_pos_if_in_set)
      moreover have "h \<in> set (filter inside (lg_threads s ! t))" using t(2,4,5) by simp
      then have "0 < length (filter inside (lg_threads s ! t))" by (rule length_pos_if_in_set)
      ultimately have "2 \<le> inside_count s"
        using count_concat_update [OF t(1), of inside "[]"] unfolding inside_count_def by (simp del: length_greater_0_conv)
      with assms(1) show False by (simp add: lock_inv_def split: if_splits)
    qed
  qed
  with flag show ?thesis ..
qed

lemma interrupted_step:
  assumes inv: "lock_inv s" and i: "interrupted t s" and step: "lock_step s e = Some s'"
  shows "interrupted t s' \<and> lg_out s' = lg_out s \<and> lg_order s' = lg_order s"
proof -
  obtain g gs where t: "t < length (lg_threads s)" "lg_threads s ! t = g # gs" "\<not> inside g" "\<exists>h \<in> set gs. inside h"
    using i unfolding interrupted_def by blast
  have upd: "interrupted t (set_stack u fs s)" if "u = t \<Longrightarrow> fs = g' # gs' \<and> \<not> inside g' \<and> (\<exists>h \<in> set gs'. inside h)" for u fs g' gs'
    using that t by (cases "u = t") (simp_all add: interrupted_def)
  show ?thesis
  proof (cases e)
    case (Call u c)
    then have u: "u < length (lg_threads s)" "lg_threads s ! u = []" "s' = set_stack u [Test_and_set c] s" using step by (simp_all split: if_splits)
    then have "u \<noteq> t" using t(2) by auto
    with u(3) upd [of u "[Test_and_set c]"] show ?thesis by simp
  next
    case (Signal u c)
    then have "s' = set_stack u (Test_and_set c # lg_threads s ! u) s" using step by (simp split: if_splits)
    with upd [of u "Test_and_set c # lg_threads s ! u" "Test_and_set c" "lg_threads s ! u"] t show ?thesis by auto
  next
    case (Set_level k l)
    then show ?thesis using step t by (auto simp: interrupted_def split: if_splits)
  next
    case (Run u)
    then obtain f fs where u: "u < length (lg_threads s)" "lg_threads s ! u = f # fs" and s': "s' = frame_step u f fs s"
      using step by (auto split: if_splits list.splits)
    have flag: "lg_flag s" and out: "\<not> inside f" using interrupted_holds [OF inv i u] by simp_all
    have "\<exists>f'. (s' = set_stack u (f' # fs) s \<or> s' = s) \<and> \<not> inside f'"
    proof (cases f)
      case (Test_and_set c)
      with s' flag show ?thesis by (intro exI [of _ "Test c"]) simp
    next
      case (Test c)
      with s' flag show ?thesis by (intro exI [of _ "Test c"]) simp
    qed (use out in simp_all)
    then obtain f' where "s' = set_stack u (f' # fs) s \<or> s' = s" "\<not> inside f'" by blast
    moreover have "u = t \<Longrightarrow> \<exists>h \<in> set fs. inside h" using u(2) t(2,4) by simp
    ultimately show ?thesis using upd [of u "f' # fs" f' fs] i by auto
  qed
qed

lemma interrupted_run:
  "lock_run s es s' \<Longrightarrow> lock_inv s \<and> interrupted t s \<Longrightarrow>
     interrupted t s' \<and> lock_inv s' \<and> lg_out s' = lg_out s \<and> lg_order s' = lg_order s"
proof (induction rule: lock_run.induct)
  case (lock_run_snoc s es s' e s'')
  then have i: "interrupted t s'" "lock_inv s'" "lg_out s' = lg_out s" "lg_order s' = lg_order s" by blast+
  from interrupted_step [OF i(2,1) lock_run_snoc.hyps(2)] lock_inv_step [OF lock_run_snoc.hyps(2) i(2)] i(3,4) show ?case by simp
qed simp

text \<open>
  C37. A signal handler that logs in a thread that was interrupted while it wrote a log line never returns: the lock stays taken,
  and from then on no thread of the process logs another line, whatever the threads do.
\<close>

theorem signal_in_logger_hangs:
  assumes "lock_run (new_logging n ss) es s" and "t < length (lg_threads s)" and "lg_threads s ! t = In_log l m i # fs"
    and "lock_step s (Signal t c) = Some s1" and "lock_run s1 es' s'"
  shows "lg_threads s' ! t \<noteq> [] \<and> lg_flag s' \<and> lg_out s' = lg_out s \<and> lg_order s' = lg_order s"
proof -
  have s1: "s1 = set_stack t (Test_and_set c # In_log l m i # fs) s" using assms(2-4) by simp
  have "lock_inv s" by (rule lock_run_inv [OF assms(1) new_lock_inv])
  from lock_inv_step [OF assms(4) this] have "lock_inv s1" .
  moreover have "interrupted t s1" using assms(2) by (simp add: s1 interrupted_def)
  ultimately have "interrupted t s' \<and> lock_inv s' \<and> lg_out s' = lg_out s1 \<and> lg_order s' = lg_order s1"
    using interrupted_run [OF assms(5)] by blast
  moreover from this obtain f fs' where "t < length (lg_threads s')" "lg_threads s' ! t = f # fs'" unfolding interrupted_def by blast
  moreover from this have "lg_flag s'" using interrupted_holds calculation(1) by blast
  ultimately show ?thesis by (simp add: s1)
qed

subsection \<open>No fairness\<close>

text \<open>
  The lock is not fair: for every \<open>k\<close> there is a run in which one thread tries and fails \<open>k\<close> times to take it while the other
  logs \<open>k\<close> lines.
\<close>

theorem waiting_call_can_starve:
  "\<exists>es s. lock_run (new_logging 2 ss) es s \<and> lg_threads s = [[], [Test_and_set c]] \<and> \<not> lg_flag s \<and>
     lg_order s = replicate k (l, m) \<and> length (filter (\<lambda>e. e = Run 1) es) = 2 * k"
proof (induction k)
  case 0
  have "lock_step (new_logging 2 ss) (Call 1 c) = Some (set_stack 1 [Test_and_set c] (new_logging 2 ss))"
    by (simp add: new_logging_def)
  from lock_run_one [OF this] show ?case
    by (intro exI [of _ "[Call 1 c]"] exI [of _ "set_stack 1 [Test_and_set c] (new_logging 2 ss)"]) (simp add: new_logging_def numeral_2_eq_2)
next
  case (Suc k)
  then obtain es s where s: "lock_run (new_logging 2 ss) es s" "lg_threads s = [[], [Test_and_set c]]" "\<not> lg_flag s"
    "lg_order s = replicate k (l, m)" "length (filter (\<lambda>e. e = Run 1) es) = 2 * k" by blast
  let ?s1 = "set_stack 0 [Test_and_set (Log_line l m)] s"
  let ?s2 = "set_stack 0 [In_log l m 0] (?s1\<lparr>lg_flag := True, lg_order := lg_order s @ [(l, m)]\<rparr>)"
  let ?s3 = "set_stack 1 [Test c] ?s2"
  have "lock_step s (Call 0 (Log_line l m)) = Some ?s1" "lock_step ?s1 (Run 0) = Some ?s2" "lock_step ?s2 (Run 1) = Some ?s3"
    using s(2,3) by simp_all
  then have r3: "lock_run s [Call 0 (Log_line l m), Run 0, Run 1] ?s3" using lock_run_Cons lock_run_one by metis
  have t3: "lg_threads ?s3 = [[In_log l m 0], [Test c]]" using s(2) by simp
  obtain s4 n where s4: "lock_run ?s3 (replicate n (Run 0)) s4" "\<not> lg_flag s4" "lg_threads s4 = [[], [Test c]]"
    "lg_order s4 = replicate k (l, m) @ [(l, m)]"
  proof -
    have "0 < length (lg_threads ?s3)" "lg_threads ?s3 ! 0 = [In_log l m 0]" "inside (In_log l m 0)" unfolding t3 by simp_all
    from holder_releases [OF this] obtain s4 where
      "lock_run ?s3 (replicate (work_left ?s3 (In_log l m 0)) (Run 0)) s4" "\<not> lg_flag s4"
      "lg_threads s4 = (lg_threads ?s3)[0 := []]" "lg_order s4 = lg_order ?s3" by blast
    then show thesis using that s(4) unfolding t3 by simp
  qed
  have "lock_step s4 (Run 1) = Some (set_stack 1 [Test_and_set c] s4)" using s4(2,3) by simp
  from lock_run_append [OF lock_run_append [OF lock_run_append [OF lock_run_one [OF this] s4(1)] r3] s(1)]
  show ?case using s4 s(5)
    by (intro exI [of _ "es @ [Call 0 (Log_line l m), Run 0, Run 1] @ replicate n (Run 0) @ [Run 1]"]
        exI [of _ "set_stack 1 [Test_and_set c] s4"]) (simp add: replicate_append_same)
qed

subsection \<open>Reopening a file sink\<close>

text \<open>
  \<open>LoggerSinkFile::reopen\<close> holds the lock of the sink, \<open>LoggerSinkFile::writeLog\<close> does not take it: it loads \<open>fd_\<close> for the test,
  loads it again and calls \<open>write\<close>. The descriptor table of the process maps descriptors to files, \<open>open\<close> gives the lowest
  descriptor that is free; \<open>Foreign_open\<close> is an \<open>open\<close>, \<open>socket\<close> or \<open>accept\<close> of another thread. The names are C strings.
\<close>

datatype write_pc = W_test | W_load | W_write int | W_done
datatype reopen_pc = R_compare | R_close | R_open | R_assign int | R_done

record sink_race =
  sr_fd :: int
  sr_path :: string
  sr_table :: "(int \<times> string) list"
  sr_written :: "(string \<times> string) list"
  sr_write :: write_pc
  sr_reopen :: reopen_pc

definition lowest_free :: "(int \<times> string) list \<Rightarrow> int" where
  "lowest_free tab = int (hd (filter (\<lambda>n. int n \<notin> fst ` set tab) [0..<Suc (length tab)]))"

datatype race_event = Writer | Reopener | Foreign_open string

fun race_step :: "string \<Rightarrow> string \<Rightarrow> sink_race \<Rightarrow> race_event \<Rightarrow> sink_race option" where
  "race_step line fileName s Writer =
     (case sr_write s of
        W_test \<Rightarrow> Some (s\<lparr>sr_write := (if sr_fd s < 0 then W_done else W_load)\<rparr>)
      | W_load \<Rightarrow> Some (s\<lparr>sr_write := W_write (sr_fd s)\<rparr>)
      | W_write d \<Rightarrow>
          Some (s\<lparr>sr_write := W_done,
                  sr_written := sr_written s @ (case map_of (sr_table s) d of None \<Rightarrow> [] | Some f \<Rightarrow> [(f, line)])\<rparr>)
      | W_done \<Rightarrow> None)"
| "race_step line fileName s Reopener =
     (case sr_reopen s of
        R_compare \<Rightarrow> Some (s\<lparr>sr_reopen := (if sr_path s = fileName then R_done else if sr_fd s \<ge> 0 then R_close else R_open)\<rparr>)
      | R_close \<Rightarrow> Some (s\<lparr>sr_table := um_erase (sr_fd s) (sr_table s), sr_path := [], sr_reopen := R_open\<rparr>)
      | R_open \<Rightarrow>
          (let d = lowest_free (sr_table s)
           in Some (s\<lparr>sr_table := sr_table s @ [(d, fileName)], sr_reopen := R_assign d\<rparr>))
      | R_assign d \<Rightarrow> Some (s\<lparr>sr_fd := d, sr_path := fileName, sr_reopen := R_done\<rparr>)
      | R_done \<Rightarrow> None)"
| "race_step line fileName s (Foreign_open f) =
     Some (s\<lparr>sr_table := sr_table s @ [(lowest_free (sr_table s), f)]\<rparr>)"

fun race_run :: "string \<Rightarrow> string \<Rightarrow> sink_race \<Rightarrow> race_event list \<Rightarrow> sink_race option" where
  "race_run line fileName s [] = Some s"
| "race_run line fileName s (e # es) =
     (case race_step line fileName s e of None \<Rightarrow> None | Some s' \<Rightarrow> race_run line fileName s' es)"

text \<open>The sink as the agent leaves it: open on the descriptor \<open>3\<close>, as the first file after the standard streams.\<close>

definition open_sink :: "string \<Rightarrow> sink_race" where
  "open_sink path =
     \<lparr>sr_fd = 3, sr_path = path, sr_table = [(0, ''stdin''), (1, ''stdout''), (2, ''stderr''), (3, path)], sr_written = [],
      sr_write = W_test, sr_reopen = R_compare\<rparr>"

text \<open>
  A log line can go into a file that is not the log: while the sink is reopened, between the test of \<open>fd_\<close> in \<open>writeLog\<close> and
  the \<open>write\<close>, the descriptor is closed and given to whatever the process opens next.
\<close>

theorem log_line_into_foreign_file:
  assumes "path \<noteq> fileName"
  shows "\<exists>es s. race_run line fileName (open_sink path) es = Some s \<and> sr_write s = W_done \<and> sr_reopen s = R_done \<and>
           sr_path s = fileName \<and> sr_written s = [(f, line)]"
proof -
  have free: "lowest_free [(0, a), (1, b), (2, c)] = 3" "lowest_free [(0, a), (1, b), (2, c), (3, f)] = 4" for a b c f
    by (simp_all add: lowest_free_def)
  show ?thesis
    by (intro exI [of _ "[Writer, Writer, Reopener, Reopener, Foreign_open f, Writer, Reopener, Reopener]"])
      (use assms in \<open>simp add: open_sink_def free\<close>)
qed

subsection \<open>Runs the properties apply to\<close>

fun lock_exec :: "logging \<Rightarrow> lock_event list \<Rightarrow> logging option" where
  "lock_exec s [] = Some s"
| "lock_exec s (e # es) = (case lock_step s e of None \<Rightarrow> None | Some s' \<Rightarrow> lock_exec s' es)"

lemma lock_exec_run: "lock_exec s es = Some s' \<Longrightarrow> lock_run s es s'"
proof (induction es arbitrary: s)
  case Nil
  then show ?case by (simp add: lock_run_Nil)
next
  case (Cons e es)
  then show ?case by (auto split: option.splits intro: lock_run_Cons)
qed

definition two_sinks :: "log_sink list" where
  "two_sinks = [Sink_stderr logLevel_debug, Sink_syslog logLevel_warning]"

definition two_callers :: "lock_event list" where
  "two_callers =
     [Call 0 (Log_line logLevel_error ''a''), Call 1 (Log_line logLevel_debug ''b''), Run 1, Run 0, Run 1, Run 0, Run 1, Run 1, Run 0,
      Run 0, Run 0, Run 0, Run 0]"

lemma two_callers_run:
  "lock_run (new_logging 2 two_sinks) two_callers
     \<lparr>lg_flag = False, lg_sinks = two_sinks,
      lg_out = [Write_fd 2 ''b'', Write_fd 2 ''a'', Syslog ''a a''], lg_order = [(logLevel_debug, ''b''), (logLevel_error, ''a'')],
      lg_threads = [[], []]\<rparr>"
  by (rule lock_exec_run)
    (simp add: two_callers_def new_logging_def two_sinks_def set_stack_def numeral_2_eq_2 c_str_def less_LogLevel_def)

theorem concurrent_logging_is_sequential_witness:
  "[Write_fd 2 ''b'', Write_fd 2 ''a'', Syslog ''a a''] =
     concat (map (\<lambda>(l, m). concat (map (\<lambda>k. if getLevel k < l then [] else writeLog m k) two_sinks))
       [(logLevel_debug, ''b''), (logLevel_error, ''a'')])"
  using concurrent_logging_is_sequential [OF two_callers_run] by (simp add: two_callers_def)

definition caught_in_logger :: logging where
  "caught_in_logger =
     \<lparr>lg_flag = True, lg_sinks = two_sinks, lg_out = [Write_fd 2 ''b''], lg_order = [(logLevel_debug, ''b'')],
      lg_threads = [[Test (Log_line logLevel_error ''a'')], [In_log logLevel_debug ''b'' 1]]\<rparr>"

lemma caught_in_logger_run:
  "lock_run (new_logging 2 two_sinks)
     [Call 0 (Log_line logLevel_error ''a''), Call 1 (Log_line logLevel_debug ''b''), Run 1, Run 0, Run 1] caught_in_logger"
  by (rule lock_exec_run)
    (simp add: caught_in_logger_def new_logging_def two_sinks_def set_stack_def numeral_2_eq_2 less_LogLevel_def)

theorem waiting_call_gets_lock_witness:
  "\<exists>es s'. lock_run caught_in_logger es s' \<and> lg_threads s' ! 0 = [In_log logLevel_error ''a'' 0] \<and> lg_flag s'"
  using waiting_call_gets_lock [OF caught_in_logger_run, of 0 "Log_line logLevel_error ''a''"] by (auto simp: caught_in_logger_def)

theorem signal_in_logger_hangs_witness:
  "\<exists>s1 s'. lock_step caught_in_logger (Signal 1 (Log_line logLevel_critical ''segv'')) = Some s1 \<and>
     lock_run s1 [Run 1, Run 0, Run 1] s' \<and> lg_flag s' \<and> lg_out s' = [Write_fd 2 ''b'']"
proof -
  let ?fs = "[In_log logLevel_debug ''b'' 1]"
  let ?s1 = "set_stack 1 (Test_and_set (Log_line logLevel_critical ''segv'') # ?fs) caught_in_logger"
  have step: "lock_step caught_in_logger (Signal 1 (Log_line logLevel_critical ''segv'')) = Some ?s1"
    by (simp add: caught_in_logger_def)
  let ?s' = "set_stack 1 (Test (Log_line logLevel_critical ''segv'') # ?fs) ?s1"
  have run: "lock_run ?s1 [Run 1, Run 0, Run 1] ?s'"
    by (rule lock_exec_run) (simp add: caught_in_logger_def set_stack_def)
  have "lg_flag ?s' \<and> lg_out ?s' = lg_out caught_in_logger"
    using signal_in_logger_hangs [OF caught_in_logger_run _ _ step run] by (simp add: caught_in_logger_def)
  then have "lg_flag ?s'" "lg_out ?s' = [Write_fd 2 ''b'']" by (simp_all add: caught_in_logger_def)
  with step run show ?thesis by blast
qed

theorem log_line_into_foreign_file_witness:
  "\<exists>es s. race_run ''line'' ''/var/log/b'' (open_sink ''/var/log/a'') es = Some s \<and> sr_written s = [(''socket'', ''line'')]"
  using log_line_into_foreign_file [of "''/var/log/a''" "''/var/log/b''" "''line''" "''socket''"] by auto

end
