(* ===== verification/Diagnostics.thy ===== *)
theory Diagnostics
  imports Sanitize
begin

text \<open>
  What the agent reports about itself: the diagnostics file (\<open>Diagnostics.cpp\<close>), \<open>phpinfo\<close> and the list of extensions
  (\<open>libphpbridge/code/Debugging.cpp\<close>), the stack trace of the signal handler (\<open>os/StackTraceCapture.cpp\<close>), and the helpers
  \<open>stringVPrintf\<close>, \<open>stringPrintf\<close>, \<open>blockSignal\<close> and \<open>blockApacheAndPHPSignals\<close> of \<open>CommonUtils.cpp\<close>. Parameters: what the files
  under \<open>/proc\<close> hold, what PHP prints and answers, what \<open>libunwind\<close> and \<open>dladdr\<close> answer, and the C library's \<open>vsnprintf\<close>.
\<close>

subsection \<open>An output stream that can fail\<close>

text \<open>
  An \<open>std::ofstream\<close> with \<open>exceptions(failbit)\<close>: what was written, and whether the stream is good. An action is a function of the
  stream that says whether it throws. On a stream that is not good an insertion does nothing; whether it throws is left open by
  the standard (\<open>strict\<close>).
\<close>

record ostream =
  os_text :: string
  os_good :: bool

type_synonym io_action = "ostream \<Rightarrow> ostream \<times> bool"

definition insert_text :: "bool \<Rightarrow> string \<Rightarrow> io_action" where
  "insert_text strict s out = (if os_good out then (out\<lparr>os_text := os_text out @ s\<rparr>, False) else (out, strict))"

definition then_do :: "io_action \<Rightarrow> io_action \<Rightarrow> io_action" where
  "then_do a b out = (let (out', thrown) = a out in if thrown then (out', True) else b out')"

definition try_catch :: "io_action \<Rightarrow> io_action \<Rightarrow> io_action" where
  "try_catch a handler out = (let (out', thrown) = a out in if thrown then handler out' else (out', False))"

fun do_all :: "io_action list \<Rightarrow> io_action" where
  "do_all [] out = (out, False)"
| "do_all (a # as) out = then_do a (do_all as) out"

text \<open>\<open>out << streambuf\<close>: inserting no character at all sets the \<open>failbit\<close>, and so throws.\<close>

definition insert_buffer :: "bool \<Rightarrow> string \<Rightarrow> io_action" where
  "insert_buffer strict contents out =
     (if \<not> os_good out then (out, strict)
      else if contents = [] then (out\<lparr>os_good := False\<rparr>, True)
      else (out\<lparr>os_text := os_text out @ contents\<rparr>, False))"

subsection \<open>The diagnostics file\<close>

abbreviation newline :: string where
  "newline \<equiv> [CHR 0x0A]"

definition separator_line :: string where
  "separator_line = replicate 60 (CHR ''='') @ newline"

text \<open>\<open>proc\<close> answers \<open>None\<close> for a file that cannot be opened; \<open>what\<close> is the text of the exception.\<close>

record diag_env =
  de_strict :: bool
  de_proc :: "string \<Rightarrow> string option"
  de_what :: string
  de_time :: string
  de_time_t :: nat
  de_pid :: nat
  de_ppid :: nat
  de_uid :: nat
  de_extensions :: "(string \<times> string) list"
  de_phpinfo :: string

definition proc_header :: "string \<Rightarrow> string" where
  "proc_header name = separator_line @ ''Process '' @ name @ '':'' @ newline @ separator_line"

definition proc_failure :: "diag_env \<Rightarrow> string \<Rightarrow> string" where
  "proc_failure env name = ''Unable to get process '' @ name @ '': '' @ de_what env @ newline"

definition getProcessDiags :: "diag_env \<Rightarrow> string \<Rightarrow> io_action" where
  "getProcessDiags env name =
     then_do (insert_text (de_strict env) (proc_header name))
       (try_catch
          (case de_proc env (''/proc/self/'' @ name) of
             None \<Rightarrow> (\<lambda>out. (out, True))
           | Some contents \<Rightarrow> insert_buffer (de_strict env) contents)
          (insert_text (de_strict env) (proc_failure env name)))"

definition extension_section :: "(string \<times> string) list \<Rightarrow> string" where
  "extension_section exts =
     (if exts = [] then []
      else separator_line @ ''Loaded extensions:'' @ newline @ separator_line @
             concat (map (\<lambda>(name, version). name @ '' '' @ version @ newline) exts))"

definition diag_head :: "diag_env \<Rightarrow> string" where
  "diag_head env =
     separator_line @ ''Elastic Distribution for OpenTelemetry PHP diagnostics:'' @ newline @ separator_line @
     ''Time: '' @ de_time env @ '' UTC ('' @ to_string (de_time_t env) @ '')'' @ newline @
     ''PID: '' @ to_string (de_pid env) @ newline @
     ''PPID: '' @ to_string (de_ppid env) @ newline @
     ''UID: '' @ to_string (de_uid env) @ newline @
     extension_section (de_extensions env) @
     separator_line @ newline @ ''phpinfo() output:'' @ newline @ separator_line @ de_phpinfo env @ newline"

definition proc_names :: "string list" where
  "proc_names =
     [''maps'', ''smaps_rollup'', ''status'', ''limits'', ''cgroup'', ''cmdline'', ''mountinfo'', ''mounts'', ''mountstats'', ''stat'']"

definition getDiagnosticInformation :: "diag_env \<Rightarrow> io_action" where
  "getDiagnosticInformation env =
     then_do (insert_text (de_strict env) (diag_head env)) (do_all (map (getProcessDiags env) proc_names))"

text \<open>The file as it is left, or \<open>None\<close> if it cannot be opened, and whether an exception leaves the function.\<close>

definition storeDiagnosticInformation :: "bool \<Rightarrow> diag_env \<Rightarrow> string option \<times> bool" where
  "storeDiagnosticInformation openable env =
     (if openable
      then let (out, thrown) = getDiagnosticInformation env \<lparr>os_text = [], os_good = True\<rparr> in (Some (os_text out), thrown)
      else (None, True))"

text \<open>The report as it comes out: a file that is empty ends it.\<close>

fun proc_report :: "diag_env \<Rightarrow> string list \<Rightarrow> string" where
  "proc_report env [] = []"
| "proc_report env (name # names) =
     proc_header name @
     (case de_proc env (''/proc/self/'' @ name) of
        None \<Rightarrow> proc_failure env name @ proc_report env names
      | Some contents \<Rightarrow> if contents = [] then [] else contents @ proc_report env names)"

definition empty_proc :: "diag_env \<Rightarrow> string \<Rightarrow> bool" where
  "empty_proc env name \<longleftrightarrow> de_proc env (''/proc/self/'' @ name) = Some []"

lemma getProcessDiags_bad:
  "\<not> os_good out \<Longrightarrow> getProcessDiags env name out = (out, de_strict env)"
  by (auto simp: getProcessDiags_def then_do_def try_catch_def insert_text_def insert_buffer_def split: option.split)

lemma do_all_bad:
  "\<not> os_good out \<Longrightarrow> do_all (map (getProcessDiags env) names) out = (out, names \<noteq> [] \<and> de_strict env)"
  by (induction names) (auto simp: getProcessDiags_bad then_do_def)

lemma getProcessDiags_good:
  assumes "os_good out"
  shows "getProcessDiags env name out =
    (case de_proc env (''/proc/self/'' @ name) of
       None \<Rightarrow> (out\<lparr>os_text := os_text out @ proc_header name @ proc_failure env name\<rparr>, False)
     | Some contents \<Rightarrow>
         if contents = [] then (out\<lparr>os_text := os_text out @ proc_header name, os_good := False\<rparr>, de_strict env)
         else (out\<lparr>os_text := os_text out @ proc_header name @ contents\<rparr>, False))"
  using assms
  by (auto simp: getProcessDiags_def then_do_def try_catch_def insert_text_def insert_buffer_def split: option.split)

lemma do_all_report:
  assumes "os_good out"
  shows "os_text (fst (do_all (map (getProcessDiags env) names) out)) = os_text out @ proc_report env names"
    and "snd (do_all (map (getProcessDiags env) names) out) = (de_strict env \<and> (\<exists>n \<in> set names. empty_proc env n))"
  using assms
proof (induction names arbitrary: out)
  case (Cons name names)
  case 1
  then show ?case using Cons.IH(1)
    by (auto simp: getProcessDiags_good then_do_def do_all_bad split: option.split)
next
  case (Cons name names)
  case 2
  then show ?case using Cons.IH(2)
    by (auto simp: getProcessDiags_good then_do_def do_all_bad empty_proc_def split: option.split)
qed simp_all

text \<open>
  C35. The diagnostics file: the report is the head and the files under \<open>/proc/self\<close> in order, those that cannot be opened with the
  reason, up to and including the header of the first empty file; with an empty file an exception leaves the function or not,
  as the library has it.
\<close>

theorem diagnostics_file:
  "storeDiagnosticInformation True env =
     (Some (diag_head env @ proc_report env proc_names), de_strict env \<and> (\<exists>n \<in> set proc_names. empty_proc env n))"
  using do_all_report [of "\<lparr>os_text = diag_head env, os_good = True\<rparr>" env proc_names]
  by (simp add: storeDiagnosticInformation_def getDiagnosticInformation_def then_do_def insert_text_def case_prod_beta')

text \<open>
  An empty file silences the rest: every file after it is missing from the report, and so is the reason.
\<close>

theorem empty_file_ends_report:
  assumes "proc_names = before @ name # after" and "empty_proc env name" and "\<forall>n \<in> set before. \<not> empty_proc env n"
  shows "fst (storeDiagnosticInformation True env) = Some (diag_head env @ proc_report env before @ proc_header name)"
proof -
  have "proc_report env (before @ name # after) = proc_report env before @ proc_header name"
    using assms(2,3) by (induction before) (auto simp: empty_proc_def split: option.split)
  then show ?thesis using diagnostics_file [of env] assms(1) by simp
qed

definition sample_diag :: diag_env where
  "sample_diag =
     \<lparr>de_strict = False,
      de_proc = (\<lambda>f. if f = ''/proc/self/cgroup'' then Some [] else if f = ''/proc/self/maps'' then None else Some ''x''),
      de_what = ''e'', de_time = ''t'', de_time_t = 0, de_pid = 1, de_ppid = 0, de_uid = 0, de_extensions = [], de_phpinfo = []\<rparr>"

theorem empty_file_ends_report_witness:
  "fst (storeDiagnosticInformation True sample_diag) =
     Some (diag_head sample_diag @ proc_report sample_diag [''maps'', ''smaps_rollup'', ''status'', ''limits''] @ proc_header ''cgroup'')"
  by (rule empty_file_ends_report [of _ _ "[''cmdline'', ''mountinfo'', ''mounts'', ''mountstats'', ''stat'']"])
    (simp_all add: proc_names_def empty_proc_def sample_diag_def)

subsection \<open>phpinfo and extensions\<close>

text \<open>
  \<open>getModuleData\<close> and \<open>getExtensionData\<close> leave the string empty for a null pointer.
\<close>

definition extension_info :: "string option \<times> string option \<Rightarrow> string \<times> string" where
  "extension_info e = (case e of (name, version) \<Rightarrow> (case name of None \<Rightarrow> [] | Some n \<Rightarrow> n, case version of None \<Rightarrow> [] | Some v \<Rightarrow> v))"

definition getExtensionList :: "(string option \<times> string option) list \<Rightarrow> (string option \<times> string option) list \<Rightarrow> (string \<times> string) list" where
  "getExtensionList module_registry zend_extensions = map extension_info module_registry @ map extension_info zend_extensions"

text \<open>
  \<open>phpInfoTempBuffer\<close> points to the local string of a call of \<open>getPhpInfo\<close>: null, a string that lives, or one that is gone. PHP
  calls the output handler with a chunk, or with a null pointer.
\<close>

datatype temp_buffer = Null_buffer | Live_buffer string | Dead_buffer

record php_output =
  po_buffer :: temp_buffer
  po_info_as_text :: int
  po_handlers :: nat

definition phpInfoToStringOutputHandler :: "string option \<Rightarrow> php_output \<Rightarrow> php_output result" where
  "phpInfoToStringOutputHandler output s =
     (case output of
        None \<Rightarrow> Inr s
      | Some chunk \<Rightarrow>
          (case po_buffer s of
             Null_buffer \<Rightarrow> Inr s
           | Live_buffer b \<Rightarrow> Inr (s\<lparr>po_buffer := Live_buffer (b @ chunk)\<rparr>)
           | Dead_buffer \<Rightarrow> Inl (Undefined ''append to a string that is gone'')))"

fun handle_output :: "string option list \<Rightarrow> php_output \<Rightarrow> php_output result" where
  "handle_output [] s = Inr s"
| "handle_output (c # cs) s = bind_result (phpInfoToStringOutputHandler c s) (handle_output cs)"

text \<open>
  \<open>getPhpInfo\<close>. \<open>printed\<close> are the calls of the handler while \<open>php_print_info\<close> runs, \<open>rest\<close> those of \<open>php_output_discard\<close>;
  \<open>bails_out\<close>: \<open>php_print_info\<close> leaves by \<open>longjmp\<close> (a fatal error, as when the memory limit is hit), past the frame of \<open>getPhpInfo\<close>;
  then there is no result.
\<close>

definition getPhpInfo ::
  "bool \<Rightarrow> string option list \<Rightarrow> bool \<Rightarrow> string option list \<Rightarrow> php_output \<Rightarrow> (string option \<times> php_output) result" where
  "getPhpInfo started printed bails_out rest s =
     (if \<not> started then Inr (Some [], s)
      else
        bind_result (handle_output printed (s\<lparr>po_buffer := Live_buffer [], po_info_as_text := 1, po_handlers := Suc (po_handlers s)\<rparr>)) (\<lambda>s1.
          if bails_out then Inr (None, s1\<lparr>po_buffer := Dead_buffer\<rparr>)
          else
            bind_result (handle_output rest (s1\<lparr>po_info_as_text := po_info_as_text s\<rparr>)) (\<lambda>s2.
              Inr (case po_buffer s2 of Live_buffer b \<Rightarrow> Some b | _ \<Rightarrow> None,
                   s2\<lparr>po_handlers := po_handlers s2 - 1, po_buffer := Null_buffer\<rparr>))))"

lemma handle_output_live:
  "po_buffer s = Live_buffer b \<Longrightarrow>
     handle_output cs s = Inr (s\<lparr>po_buffer := Live_buffer (b @ concat (map (\<lambda>c. case c of None \<Rightarrow> [] | Some t \<Rightarrow> t) cs))\<rparr>)"
proof (induction cs arbitrary: s b)
  case (Cons c cs)
  show ?case
  proof (cases c)
    case None
    with Cons show ?thesis by (simp add: phpInfoToStringOutputHandler_def)
  next
    case (Some t)
    with Cons.IH [of "s\<lparr>po_buffer := Live_buffer (b @ t)\<rparr>" "b @ t"] Cons.prems show ?thesis
      by (simp add: phpInfoToStringOutputHandler_def)
  qed
qed simp

text \<open>
  \<open>getPhpInfo\<close> answers all that was printed and leaves the interpreter's output as it was, unless \<open>php_print_info\<close> bails out:
  then the output handler stays with a pointer to a string that is gone.
\<close>

theorem phpinfo_buffer:
  "getPhpInfo True printed bails_out rest s =
     Inr (if bails_out
          then (None, s\<lparr>po_buffer := Dead_buffer, po_info_as_text := 1, po_handlers := Suc (po_handlers s)\<rparr>)
          else (Some (concat (map (\<lambda>c. case c of None \<Rightarrow> [] | Some t \<Rightarrow> t) (printed @ rest))), s\<lparr>po_buffer := Null_buffer\<rparr>))"
  by (simp add: getPhpInfo_def handle_output_live)

lemma output_after_bailout:
  "getPhpInfo True printed True rest s = Inr (a, s') \<Longrightarrow> \<exists>e. handle_output [Some chunk] s' = Inl (Undefined e)"
  by (auto simp: handle_output_live getPhpInfo_def phpInfoToStringOutputHandler_def)

subsection \<open>Stack traces\<close>

text \<open>
  A frame the cursor stands on: what \<open>unw_get_proc_info\<close> answers (start and end of the function), \<open>unw_get_proc_name\<close> (the name with
  the offset, \<open>None\<close> for an error that is not \<open>UNW_ENOMEM\<close>), the instruction pointer, \<open>dladdr\<close> (base, file name and symbol), and
  what \<open>unw_step\<close> returns from there.
\<close>

record unw_frame =
  uf_info :: "(u64 \<times> u64) option"
  uf_name :: "(string \<times> u64) option"
  uf_ip :: u64
  uf_dl :: "(u64 \<times> string option \<times> string option) option"
  uf_step :: int

datatype trace_entry =
    Frame_entry string string u64 u64 u64 u64 u64 u64
  | Dladdr_failed nat
  | Proc_info_failed nat

definition frame_entry :: "nat \<Rightarrow> unw_frame \<Rightarrow> trace_entry" where
  "frame_entry frameIndex f =
     (case uf_info f of
        None \<Rightarrow> Proc_info_failed frameIndex
      | Some (start_ip, end_ip) \<Rightarrow>
          let (funcName, offsetInsideFunc) = (case uf_name f of Some (n, off) \<Rightarrow> (n, off) | None \<Rightarrow> (''???'', uf_ip f - start_ip))
          in case uf_dl f of
               None \<Rightarrow> Dladdr_failed frameIndex
             | Some (base, fname, sname) \<Rightarrow>
                 Frame_entry (case fname of Some n \<Rightarrow> n | None \<Rightarrow> ''???'') (case sname of Some n \<Rightarrow> n | None \<Rightarrow> funcName)
                   offsetInsideFunc base start_ip end_ip (start_ip - base) (start_ip - base + offsetInsideFunc))"

text \<open>The loop from \<open>frameIndex\<close> on; the cursor cannot stand past the frames there are.\<close>

fun trace_loop :: "u64 \<Rightarrow> nat \<Rightarrow> unw_frame list \<Rightarrow> trace_entry list" where
  "trace_loop numberOfFramesToSkip frameIndex [] = []"
| "trace_loop numberOfFramesToSkip frameIndex (f # fs) =
     (if frameIndex \<ge> unat (numberOfFramesToSkip + 1) then [frame_entry frameIndex f] else []) @
     (if uf_step f \<le> 0 then [] else trace_loop numberOfFramesToSkip (Suc frameIndex) fs)"

definition getStackTrace :: "int \<Rightarrow> int \<Rightarrow> unw_frame list \<Rightarrow> u64 \<Rightarrow> trace_entry list" where
  "getStackTrace unw_getcontext unw_init_local fs numberOfFramesToSkip =
     (if unw_getcontext < 0 then [] else if unw_init_local < 0 then [] else trace_loop numberOfFramesToSkip 0 fs)"

text \<open>The frames the cursor reaches.\<close>

fun reached_frames :: "unw_frame list \<Rightarrow> unw_frame list" where
  "reached_frames [] = []"
| "reached_frames (f # fs) = f # (if uf_step f \<le> 0 then [] else reached_frames fs)"

lemma trace_loop_drop:
  "trace_loop n i fs = map (\<lambda>j. frame_entry j (reached_frames fs ! (j - i))) [max i (unat (n + 1))..<i + length (reached_frames fs)]"
proof (induction fs arbitrary: i)
  case (Cons f fs)
  let ?m = "unat (n + 1)"
  show ?case
  proof (cases "uf_step f \<le> 0")
    case True
    then show ?thesis by (auto simp: max_def not_le upt_rec)
  next
    case False
    let ?rest = "map (\<lambda>j. frame_entry j (reached_frames fs ! (j - Suc i))) [max (Suc i) ?m..<Suc i + length (reached_frames fs)]"
    have tl: "?rest = map (\<lambda>j. frame_entry j ((f # reached_frames fs) ! (j - i))) [max (Suc i) ?m..<Suc i + length (reached_frames fs)]"
      by (rule map_cong [OF refl]) (auto simp: nth_Cons' Suc_diff_le)
    have "trace_loop n i (f # fs) = (if ?m \<le> i then [frame_entry i f] else []) @ ?rest" using False Cons.IH [of "Suc i"] by simp
    also have "\<dots> = map (\<lambda>j. frame_entry j ((f # reached_frames fs) ! (j - i))) [max i ?m..<Suc i + length (reached_frames fs)]"
    proof (cases "?m \<le> i")
      case True
      then have "[max i ?m..<Suc i + length (reached_frames fs)] = i # [max (Suc i) ?m..<Suc i + length (reached_frames fs)]"
        using upt_conv_Cons [of i "Suc i + length (reached_frames fs)"] by (simp add: max_def del: upt_Suc)
      then show ?thesis using True tl by simp
    next
      case False
      then have "max i ?m = max (Suc i) ?m" by (simp add: max_def)
      then show ?thesis using False tl by simp
    qed
    finally show ?thesis using False by simp
  qed
qed simp

text \<open>
  The stack trace: one entry for each frame the cursor reaches but the first \<open>numberOfFramesToSkip + 1\<close>, in order and under
  its index, also when the walk ends with an error.
\<close>

theorem stack_trace_frames:
  assumes "0 \<le> unw_getcontext" and "0 \<le> unw_init_local" and "numberOfFramesToSkip \<noteq> - 1"
  shows "getStackTrace unw_getcontext unw_init_local fs numberOfFramesToSkip =
           map (\<lambda>j. frame_entry j (reached_frames fs ! j)) [Suc (unat numberOfFramesToSkip)..<length (reached_frames fs)]"
proof -
  have "unat (numberOfFramesToSkip + 1) = Suc (unat numberOfFramesToSkip)"
    using assms(3) by (metis add.commute add_diff_cancel_left' diff_0 unatSuc)
  with assms(1,2) trace_loop_drop [of numberOfFramesToSkip 0 fs] show ?thesis by (simp add: getStackTrace_def)
qed

subsection \<open>Formatted strings and blocked signals\<close>

text \<open>
  \<open>std::vsnprintf\<close> as documented: \<open>formatted\<close> is the whole text, \<open>None\<close> on an encoding error; it answers the length of the text and
  writes what fits with a NUL behind it.
\<close>

definition vsnprintf :: "string option \<Rightarrow> nat \<Rightarrow> int \<times> string" where
  "vsnprintf formatted room =
     (case formatted of
        None \<Rightarrow> (- 1, [])
      | Some t \<Rightarrow> if length t \<ge> 2 ^ 31 then (- 1, []) else (int (length t), if room = 0 then [] else take (room - 1) t @ [CHR 0x00]))"

text \<open>Writing over the front of a buffer whose terminating NUL belongs to it.\<close>

definition write_over :: "string \<Rightarrow> string \<Rightarrow> string result" where
  "write_over b w =
     (if length w \<le> length b then Inr (w @ drop (length w) b)
      else if length w = Suc (length b) \<and> last w = CHR 0x00 then Inr (butlast w)
      else Inl (Undefined ''write past the end of a string''))"

text \<open>\<open>capacity\<close> is what \<open>buffer.capacity()\<close> answers after \<open>reserve\<close>.\<close>

definition stringVPrintf :: "(nat \<Rightarrow> nat) \<Rightarrow> string option \<Rightarrow> string result" where
  "stringVPrintf capacity formatted =
     (let reqSpace = fst (vsnprintf formatted 0)
      in if reqSpace < 0 then Inr []
         else
           let buffer = replicate (nat reqSpace) (CHR 0x00);
               (allocated, written) = vsnprintf formatted (capacity (nat reqSpace + 1))
           in bind_result (write_over buffer written) (\<lambda>buffer.
                if allocated < 0 then Inl (Length_error ''basic_string::resize'')
                else Inr (take (nat allocated) buffer @ replicate (nat allocated - length buffer) (CHR 0x00))))"

text \<open>
  \<open>stringVPrintf\<close> answers the whole formatted text, however large the capacity of the string is, or the empty string when
  the text cannot be formatted or its length is no \<open>int\<close>; the second call writes no byte outside of the string.
\<close>

theorem stringVPrintf_whole:
  assumes "\<And>n. n \<le> capacity n"
  shows "stringVPrintf capacity formatted =
           Inr (case formatted of None \<Rightarrow> [] | Some t \<Rightarrow> if length t \<ge> 2 ^ 31 then [] else t)"
proof (cases formatted)
  case None
  then show ?thesis by (simp add: stringVPrintf_def vsnprintf_def)
next
  case (Some t)
  have c: "Suc (length t) \<le> capacity (Suc (length t))" by (rule assms)
  then have "take (capacity (Suc (length t)) - 1) t = t" "capacity (Suc (length t)) \<noteq> 0" by simp_all
  then show ?thesis using Some by (simp add: stringVPrintf_def vsnprintf_def write_over_def)
qed

text \<open>
  \<open>blockSignal\<close> on the mask of the calling thread; \<open>readable\<close> and \<open>settable\<close> say whether the two calls of \<open>pthread_sigmask\<close> succeed.
\<close>

definition blockSignal :: "bool \<Rightarrow> bool \<Rightarrow> nat \<Rightarrow> nat list \<Rightarrow> nat list \<times> bool" where
  "blockSignal readable settable signo sigs =
     (let currentSigset = (if readable then sigs else [])
      in if signo \<in> set currentSigset then (sigs, True)
         else if settable then (if signo \<in> set sigs then sigs else sigs @ [signo], True)
         else (sigs, False))"

definition apache_php_signals :: "nat list" where
  "apache_php_signals = [15, 1, 2, 28, 10, 27]"

definition blockApacheAndPHPSignals :: "bool \<Rightarrow> bool \<Rightarrow> nat list \<Rightarrow> nat list" where
  "blockApacheAndPHPSignals readable settable sigs = fold (\<lambda>signo m. fst (blockSignal readable settable signo m)) apache_php_signals sigs"

lemma set_blockSignal: "set (fst (blockSignal readable True signo sigs)) = insert signo (set sigs)"
  by (auto simp: blockSignal_def Let_def)

lemma set_fold_blockSignal:
  "set (fold (\<lambda>signo m. fst (blockSignal readable True signo m)) xs sigs) = set sigs \<union> set xs"
  by (induction xs arbitrary: sigs) (simp_all add: set_blockSignal)

lemma blocked_signals: "set (blockApacheAndPHPSignals readable True sigs) = set sigs \<union> {15, 1, 2, 28, 10, 27}"
  unfolding blockApacheAndPHPSignals_def set_fold_blockSignal by (simp add: apache_php_signals_def)

definition sample_unw_frame :: "int \<Rightarrow> unw_frame" where
  "sample_unw_frame n = \<lparr>uf_info = Some (0x1000, 0x1100), uf_name = None, uf_ip = 0x1010, uf_dl = None, uf_step = n\<rparr>"

theorem stack_trace_frames_witness:
  "getStackTrace 0 0 [sample_unw_frame 1, sample_unw_frame 1, sample_unw_frame (- 1)] 0 = [Dladdr_failed 1, Dladdr_failed 2]"
  using stack_trace_frames [of 0 0 0 "[sample_unw_frame 1, sample_unw_frame 1, sample_unw_frame (- 1)]"]
  by (simp add: sample_unw_frame_def frame_entry_def upt_rec)

theorem stringVPrintf_whole_witness: "stringVPrintf (\<lambda>n. max 15 n) (Some ''ab'') = Inr ''ab''"
  using stringVPrintf_whole [of "\<lambda>n. max 15 n" "Some ''ab''"] by simp

end
