(* ===== verification/CoordinatorLife.thy ===== *)
theory CoordinatorLife
  imports Coordinator ModuleInit
begin

text \<open>
  The life of the coordinator process: \<open>CoordinatorProcess::start\<close>, \<open>coordinatorLoop\<close> and \<open>setupPeriodicTasks\<close>
  (\<open>coordinator/CoordinatorProcess.h\<close>, \<open>.cpp\<close>) without the start of the OpAMP client before the loop, and what \<open>elasticApmModuleInit\<close> makes of the answer of \<open>start\<close>. The answer of \<open>fork\<close>
  is a parameter; a run of the child is a list of turns.
\<close>

subsection \<open>The loop\<close>

text \<open>
  A turn of the loop: the runs of the periodic task since the last test of \<open>working_\<close>, with the parent the system reports and the
  time, and the message \<open>timed_receive\<close> got, if any.
\<close>

record loop_turn =
  lt_ticks :: "(int \<times> int) list"
  lt_message :: "(CoordinatorPayload \<times> u64 \<times> int) option"

definition turn_events :: "loop_turn \<Rightarrow> coordinator_event list" where
  "turn_events t =
     map (\<lambda>(ppid, now). Tick ppid now) (lt_ticks t) @
     [case lt_message t of Some (chunk, sz, now) \<Rightarrow> Receive chunk sz now | None \<Rightarrow> Receive_nothing]"

text \<open>
  \<open>None\<close> while the loop has not ended. A run of the task while the loop waits for a message counts to the next turn. A chunk that
  is refused is caught and the loop goes on; \<open>receiver_stays_in_bounds\<close> shows that no read is out of bounds here.
\<close>

fun coordinatorLoop ::
  "(byte list \<Rightarrow> CoordinatorCommand option) \<Rightarrow> url_env \<Rightarrow> curl_env \<Rightarrow> transport_config
    \<Rightarrow> loop_turn list \<Rightarrow> ('w, 'cb) coordinator \<Rightarrow> ('w, 'cb) coordinator option" where
  "coordinatorLoop decode ue ce cfg [] c = None"
| "coordinatorLoop decode ue ce cfg (t # ts) c =
     (let c1 = fold (\<lambda>(ppid, now). coordinator_tick ppid now) (lt_ticks t) c
      in if \<not> co_working c1 then Some c1
         else coordinatorLoop decode ue ce cfg ts
                (case lt_message t of
                   Some (chunk, sz, now) \<Rightarrow> coordinator_receive decode ue ce cfg chunk sz now c1
                 | None \<Rightarrow> c1))"

subsection \<open>start\<close>

text \<open>
  \<open>self\<close> is \<open>getpid()\<close>, read before the fork. \<open>None\<close>: the call has not returned. The answer is true in the child, once its
  loop has ended.
\<close>

definition process_start ::
  "(byte list \<Rightarrow> CoordinatorCommand option) \<Rightarrow> url_env \<Rightarrow> curl_env \<Rightarrow> transport_config
    \<Rightarrow> int \<Rightarrow> int \<Rightarrow> loop_turn list \<Rightarrow> ('w, 'cb) coordinator \<Rightarrow> (('w, 'cb) coordinator \<times> bool) option" where
  "process_start decode ue ce cfg self forked ts c =
     (let c1 = c\<lparr>co_parent := self\<rparr>
      in if forked < 0 then Some (c1, False)
         else if forked = 0 then map_option (\<lambda>c2. (c2, True)) (coordinatorLoop decode ue ce cfg ts c1)
         else Some (c1, False))"

subsection \<open>When the loop ends\<close>

definition parent_seen_gone :: "int \<Rightarrow> loop_turn \<Rightarrow> bool" where
  "parent_seen_gone parent t \<longleftrightarrow> (\<exists>(ppid, now) \<in> set (lt_ticks t). ppid \<noteq> parent)"

lemma ticks_working:
  "co_parent (fold (\<lambda>(ppid, now). coordinator_tick ppid now) ticks c) = co_parent c \<and>
   (co_working (fold (\<lambda>(ppid, now). coordinator_tick ppid now) ticks c) \<longleftrightarrow>
      co_working c \<and> (\<forall>(ppid, now) \<in> set ticks. ppid = co_parent c))"
proof (induction ticks arbitrary: c)
  case (Cons p ticks)
  obtain ppid now where p: "p = (ppid, now)" by (cases p)
  have "co_parent (coordinator_tick ppid now c) = co_parent c"
    "co_working (coordinator_tick ppid now c) \<longleftrightarrow> co_working c \<and> ppid = co_parent c"
    by (auto simp: coordinator_tick_def Let_def)
  with Cons.IH [of "coordinator_tick ppid now c"] p show ?case by auto
qed simp

lemma receive_working:
  "co_parent (coordinator_receive decode ue ce cfg chunk sz now c) = co_parent c"
  "co_working (coordinator_receive decode ue ce cfg chunk sz now c) = co_working c"
  by (auto simp: coordinator_receive_def Let_def split: prod.split sum.split option.split)

lemma fold_ticks_step:
  "fold (coordinator_step decode ue ce cfg) (map (\<lambda>(ppid, now). Tick ppid now) ticks) c =
     fold (\<lambda>(ppid, now). coordinator_tick ppid now) ticks c"
  by (induction ticks arbitrary: c) (auto simp: coordinator_step_def)

lemma coordinatorLoop_events:
  assumes "co_working c"
  shows "coordinatorLoop decode ue ce cfg ts c =
    (if \<exists>t \<in> set ts. parent_seen_gone (co_parent c) t
     then let before = takeWhile (\<lambda>t. \<not> parent_seen_gone (co_parent c) t) ts;
              last = hd (dropWhile (\<lambda>t. \<not> parent_seen_gone (co_parent c) t) ts)
          in Some (fold (coordinator_step decode ue ce cfg)
                     (concat (map turn_events before) @ map (\<lambda>(ppid, now). Tick ppid now) (lt_ticks last)) c)
     else None)"
  using assms
proof (induction ts arbitrary: c)
  case (Cons t ts)
  let ?c1 = "fold (\<lambda>(ppid, now). coordinator_tick ppid now) (lt_ticks t) c"
  let ?c2 = "case lt_message t of Some (chunk, sz, now) \<Rightarrow> coordinator_receive decode ue ce cfg chunk sz now ?c1 | None \<Rightarrow> ?c1"
  have parent: "co_parent ?c1 = co_parent c" and working: "co_working ?c1 \<longleftrightarrow> \<not> parent_seen_gone (co_parent c) t"
    using ticks_working [of "lt_ticks t" c] Cons.prems by (auto simp: parent_seen_gone_def)
  show ?case
  proof (cases "parent_seen_gone (co_parent c) t")
    case True
    with working show ?thesis by (simp add: fold_ticks_step)
  next
    case False
    have c2: "co_working ?c2" "co_parent ?c2 = co_parent c"
      using working False parent by (simp_all add: receive_working split: option.split prod.split)
    have "fold (coordinator_step decode ue ce cfg) (turn_events t) c = ?c2"
      using working False by (simp add: turn_events_def fold_ticks_step coordinator_step_def split: option.split prod.split)
    then show ?thesis using Cons.IH [OF c2(1)] c2(2) working False by (simp add: Let_def)
  qed
qed simp

lemma process_start_cases:
  assumes "co_working c"
  shows "process_start decode ue ce cfg self forked ts c =
    (if forked \<noteq> 0 then Some (c\<lparr>co_parent := self\<rparr>, False)
     else if \<exists>t \<in> set ts. parent_seen_gone self t
     then let before = takeWhile (\<lambda>t. \<not> parent_seen_gone self t) ts;
              last = hd (dropWhile (\<lambda>t. \<not> parent_seen_gone self t) ts)
          in Some (fold (coordinator_step decode ue ce cfg)
                     (concat (map turn_events before) @ map (\<lambda>(ppid, now). Tick ppid now) (lt_ticks last)) (c\<lparr>co_parent := self\<rparr>), True)
     else None)"
  using coordinatorLoop_events [of "c\<lparr>co_parent := self\<rparr>" decode ue ce cfg ts] assms
  by (auto simp: process_start_def Let_def)

text \<open>
  C6. The coordinator process lives as long as its parent: \<open>start\<close> answers true only in the child, and there exactly when a run
  of the periodic task finds another parent; until then each message is processed in the order of the queue.
\<close>

theorem coordinator_follows_parent:
  assumes "co_working c"
  shows "process_start decode ue ce cfg self forked ts c =
    (if forked \<noteq> 0 then Some (c\<lparr>co_parent := self\<rparr>, False)
     else if \<exists>t \<in> set ts. parent_seen_gone self t
     then let before = takeWhile (\<lambda>t. \<not> parent_seen_gone self t) ts;
              last = hd (dropWhile (\<lambda>t. \<not> parent_seen_gone self t) ts)
          in Some (fold (coordinator_step decode ue ce cfg)
                     (concat (map turn_events before) @ map (\<lambda>(ppid, now). Tick ppid now) (lt_ticks last)) (c\<lparr>co_parent := self\<rparr>), True)
     else None)"
  using assms by (rule process_start_cases)

subsection \<open>Loading the module\<close>

text \<open>\<open>elasticApmModuleInit\<close> in the process where \<open>fork\<close> answered \<open>forked\<close>: \<open>Some None\<close> is \<open>std::exit(0)\<close>.\<close>

definition module_init_process ::
  "(byte list \<Rightarrow> CoordinatorCommand option) \<Rightarrow> url_env \<Rightarrow> curl_env \<Rightarrow> transport_config
    \<Rightarrow> int \<Rightarrow> int \<Rightarrow> loop_turn list \<Rightarrow> ('w, 'cb) coordinator \<Rightarrow> init_env \<Rightarrow> ('p, 'h) process \<Rightarrow> ('p, 'h) process option option" where
  "module_init_process decode ue ce cfg self forked ts c env p =
     (if \<not> module_active (ie_sapi env) (ie_config env) then Some (elasticApmModuleInit env p)
      else map_option (\<lambda>(_, answer). elasticApmModuleInit (env\<lparr>ie_coordinator := answer\<rparr>) p)
             (process_start decode ue ce cfg self forked ts c))"

text \<open>
  The fork of the coordinator splits the loading of the module: the parent loads it completely, also when the fork fails and
  no coordinator will ever receive what it sends; the child never gets past the start of the coordinator, it exits or it loops.
\<close>

theorem fork_splits_loading:
  assumes "co_working c" and "module_active (ie_sapi env) (ie_config env)"
  shows "module_init_process decode ue ce cfg self forked ts c env p =
    (if forked \<noteq> 0 then Some (elasticApmModuleInit (env\<lparr>ie_coordinator := False\<rparr>) p)
     else if \<exists>t \<in> set ts. parent_seen_gone self t then Some None else None)"
proof -
  have "elasticApmModuleInit (env\<lparr>ie_coordinator := True\<rparr>) p = None"
    using assms(2) by (auto simp: elasticApmModuleInit_def module_active_def Let_def)
  with assms show ?thesis by (simp add: module_init_process_def process_start_cases Let_def)
qed

definition sample_turns :: "loop_turn list" where
  "sample_turns =
     [\<lparr>lt_ticks = [(10, 0)], lt_message = Some (sample_chunk, 35, 5)\<rparr>, \<lparr>lt_ticks = [(10, 100), (1, 200)], lt_message = None\<rparr>]"

theorem coordinator_follows_parent_witness:
  "\<exists>c. process_start (\<lambda>_. None) sample_url_env \<lparr>curl_init = True, tracing = False\<rparr> sample_config 10 0 sample_turns sample_coordinator
     = Some (c, True)"
  using coordinator_follows_parent [of sample_coordinator "\<lambda>_. None" sample_url_env "\<lparr>curl_init = True, tracing = False\<rparr>" sample_config 10 0 sample_turns]
  by (simp add: sample_coordinator_def sample_turns_def parent_seen_gone_def Let_def)

theorem fork_splits_loading_witness:
  "module_init_process (\<lambda>_. None) sample_url_env \<lparr>curl_init = True, tracing = False\<rparr> sample_config 10 0 sample_turns sample_coordinator
     sample_init sample_process = Some None"
proof -
  have "module_active (ie_sapi sample_init) (ie_config sample_init)"
    by (simp add: module_active_def isSupported_def sample_init_def cfg_bool_def cfg_string_def option_value_def)
  from fork_splits_loading [OF _ this, of sample_coordinator "\<lambda>_. None" sample_url_env "\<lparr>curl_init = True, tracing = False\<rparr>" sample_config 10 0 sample_turns]
  show ?thesis by (simp add: sample_coordinator_def sample_turns_def parent_seen_gone_def)
qed

end
