(* ===== verification/Spec2Isabelle.thy ===== *)
theory Spec2Isabelle
  imports Prelude Chunked Strings Utf8 Durations RetryAfter Endpoints Transport Config RemoteConfig Logger Coordinator
    Forkable PeriodicTasks OpAmp ForkHandler Zval Otlp OtlpSignals Request CallFrame Hooks Interception Bridge
    ModuleFunctions Sanitize ModuleInit Loader Refcount AutoZvals OwnedArrays AgentLifetime SpinLocks Diagnostics CoordinatorLife
begin

text \<open>
  \<^bold>\<open>The native part of the Elastic Distribution of OpenTelemetry PHP.\<close>

  The C++ extension under \<open>src/prod/native\<close> is loaded into every PHP process. It starts the PHP side of
  the agent in each request, serializes the telemetry the PHP side hands it, and passes it to a
  coordinator process, forked once, which exports it over HTTP and receives configuration over OpAMP.
  This library models the parts of \<open>libcommon\<close>, \<open>libphpbridge\<close>, \<open>extension\<close> and \<open>loader\<close> that decide something,
  in the order below; each theory imports those it calls.

  \<^bold>\<open>Foundations.\<close> \<open>Prelude\<close>: machine types, exceptions as the left side of a sum, association lists for
  \<open>std::unordered_map\<close>, the locale \<open>keyed_steps\<close> (a step on a map of maps touches one cell). \<open>CxxStd\<close>: the
  C++ standard library on strings. \<open>LogTypes\<close>: levels and features, with \<open>linorder\<close> for the levels.

  \<^bold>\<open>Utilities.\<close> \<open>Strings\<close>, \<open>Utf8\<close>, \<open>Durations\<close>, \<open>RetryAfter\<close>: the functions of \<open>CommonUtils.cpp\<close>. The
  lemmas say what texts a parser accepts and which value it answers, as an inverse of a printer where there
  is one (URLs, key/value lists, log features, levels), the UTF-8 check against the encoding of Unicode,
  and the rounding of durations in binary64.

  \<^bold>\<open>Exporting.\<close> \<open>Endpoints\<close> and \<open>Transport\<close>: \<open>HttpEndpoint(s).h\<close>, \<open>CurlSender\<close>, \<open>HttpTransportAsync.h\<close>. The
  transport is a state and the step relation \<open>tstep\<close> of its atomic operations; the lemmas show its queue
  a bounded FIFO over every interleaving, the exact trace of the retry loop, and what destruction and fork
  do to the queue. \<open>Chunked\<close> and \<open>Coordinator\<close>: the message channel between workers and the coordinator
  process, whose queue may be full at any send, so that each chunk may be lost; a payload enqueued in a worker becomes one
  call on the coordinator's transport with the same payload if all its chunks got through, and no call, never a call with
  a part of it, if one did not. Nobody is told about a loss.

  \<^bold>\<open>Configuration.\<close> \<open>Config\<close>: the snapshot, the option table, \<open>ConfigurationManager::update\<close> and the
  workers' copy. \<open>RemoteConfig\<close>: files received from the server, in shared memory, their translation into
  options, and the callbacks from \<open>ModuleInit.cpp\<close>. \<open>Logger\<close>: sinks, levels, the line format.

  \<^bold>\<open>Threads and fork.\<close> \<open>Forkable\<close> states the contract of a component with a thread as the locale
  \<open>forkable\<close>, interpreted on the transport, the periodic task executor (\<open>PeriodicTasks\<close>) and the OpAMP client
  (\<open>OpAmp\<close>). \<open>ForkHandler\<close> runs the three side by side with the \<open>pthread_atfork\<close> callbacks: no thread is
  alive at a fork, and the callback before it ends.

  \<^bold>\<open>PHP values and OTLP.\<close> \<open>Zval\<close>: \<open>AutoZval.h\<close>. \<open>Otlp\<close> and \<open>OtlpSignals\<close>: the converters of
  \<open>libphpbridge/code/OtlpExporter\<close>; a batch is grouped by resource and scope exactly as a specification
  by filtering says.

  \<^bold>\<open>Requests.\<close> \<open>Request\<close>: \<open>RequestScope.h\<close>, the dependency guard, the one-time task. \<open>Bridge\<close>: the calls of
  \<open>PhpBridge.cpp\<close> and \<open>OpCache.cpp\<close> a request makes on the engine, with the engine's pending exception, its error
  reporting and its bailouts; the lemmas show that the bootstrap file and the calls of the PHP side leave the exception
  state as it was, what the code that ran does to the error reporting, and tie the answers about the opcache to what \<open>Request\<close> does with them.

  \<^bold>\<open>Interception of PHP calls.\<close> \<open>CallFrame\<close>: the frame of a call, its arguments as an array and back
  (\<open>argsPostProcessing\<close>). \<open>Hooks\<close>: the storages of hooks and original handlers, the locale \<open>hook_registry\<close>
  with its interpretation, \<open>instrumentFunction\<close> and \<open>elasticRegisterObserver\<close>; two internal functions whose hashes collide share
  their hooks, and the original handler of the second is lost. \<open>Interception\<close>: what runs around
  an intercepted call, as a trace of hooks and original handler, and the callbacks of \<open>Hooking.cpp\<close> with the pointers and
  the observers (function calls, errors) they register with the engine. The
  lemmas give the order and the arguments of the hooks and say which exception is pending afterwards.

  \<^bold>\<open>The module.\<close> \<open>ModuleFunctions\<close>: the functions PHP can call; what PHP sets up and sends is followed to
  the transport of the coordinator. \<open>ModuleInit\<close>: loading and unloading of the extension, its settings, the
  SIGSEGV handler and \<open>phpinfo()\<close>. \<open>Sanitize\<close>: the startup log and the masking of secrets in it. \<open>Loader\<close>: the
  small extension that finds the library for the running PHP.

  \<^bold>\<open>Ownership.\<close> \<open>Refcount\<close>: a heap of counted references, what releasing one destroys and in which order, circles, and
  the locale \<open>counted_client\<close>: operations that keep every count exact. It is interpreted on the operations of \<open>AutoZval\<close>
  (\<open>AutoZvals\<close>, where the references are those of PHP values; \<open>OwnedArrays\<close> refines an array built with it to the model of
  values) and on the objects of the agent (\<open>AgentLifetime\<close>: construction in \<open>ModuleEntry.cpp\<close> and \<open>AgentGlobals.cpp\<close>, the closures
  that keep objects alive, and their destruction; the threads that run in the objects, which thread the last owner goes out of
  scope on, and which thread that destructor joins).

  \<^bold>\<open>Locks and processes.\<close> \<open>SpinLocks\<close>: threads and signal handlers that log, one step per access to the lock, refined to
  the sequential \<open>Logger\<close>; the sink that is reopened while it is written to. \<open>CoordinatorLife\<close>: \<open>CoordinatorProcess::start\<close> and its
  loop, from the fork to the end of the parent, and the loading of the module around it. \<open>Diagnostics\<close>: the
  diagnostics file over a stream that can fail, \<open>phpinfo\<close>, stack traces, \<open>stringVPrintf\<close> and blocked signals.

  \<^bold>\<open>State and operations.\<close> An object of the code is a record with its members, a method a function that
  returns the new record (and what it answers or does, as values or a trace), an exception the \<open>Inl\<close> of a
  result. What runs under one mutex is one step; what runs outside is cut at each access to shared state.
  Interleavings are lists of steps or paths of an inductive relation, so the invariants speak of all of them.

  \<^bold>\<open>Parameters.\<close> libcurl, Boost (regular expressions, message queue, interprocess memory), protobuf,
  nlohmann JSON, magic_enum, the file system, \<open>getenv\<close>, \<open>gmtime\<close> and \<open>strptime\<close> formats, and the PHP engine
  and PHP code are arguments of the definitions that call them; documented behaviour (a parser reads back
  what the serializer wrote, \<open>try_send\<close> succeeds while there is room) is a hypothesis where a property
  needs it, and its witness instantiates it.

  \<^bold>\<open>Bounds and fuel.\<close> Loops are structural or have a measure; there is no fuel. The loop over the hooks of
  a function may be extended by the hooks themselves: \<open>hook_loop\<close> is a \<open>partial_function (option)\<close> whose value
  \<open>None\<close> means that the call never returns; \<open>intercepted_call_trace\<close> shows that it returns when hooks do not
  register further ones for the same function, \<open>self_registering_hook_never_returns\<close> that otherwise it may not. \<open>size_t\<close> is a 64-bit word wherever wrap-around can be observed (chunk sizes,
  message identifiers, byte units, the revision counters) and \<open>nat\<close> where the code counts elements it holds.

  \<^bold>\<open>Not modelled.\<close> The tracing macros \<open>ELOG\<close> other than in \<open>Logger\<close>; \<open>phpbridge_extension\<close> (a test
  harness); \<open>libsemconv\<close> (generated constants); \<open>PhpErrorData.cpp\<close> (unused); the module tables and the constants of
  \<open>ModuleEntry.cpp\<close>; calls of PHP methods with parameters in \<open>AutoZval\<close>; the text \<open>printf\<close> makes of the entries of a stack trace;
  \<open>prefork\<close> and \<open>postfork\<close> of \<open>CoordinatorProcess\<close>, which nothing calls.
\<close>

end
